(* ===== verification/Prelude.thy ===== *)
theory Prelude
  imports Main "HOL-Library.Word"
begin

text \<open>
  Shared vocabulary of the development: the machine types, the error numbers the
  programs return, the C array operations (\<open>memmove\<close> inside one array), and the
  arithmetic of page alignment on words that the allocator, the swap writer and the
  checksum code share.
\<close>

unbundle bit_operations_syntax

type_synonym byte = "8 word"
type_synonym u32 = "32 word"
type_synonym u64 = "64 word"
type_synonym loff_t = int
type_synonym fd = int

named_theorems array_simps \<open>rewriting for C array updates\<close>
named_theorems align_simps \<open>page alignment on words\<close>

section \<open>Error numbers\<close>

text \<open>The Linux values of the errno constants that the sources return, negated or not.\<close>

abbreviation (input) ENOENT :: int where "ENOENT \<equiv> 2"
abbreviation (input) EINTR :: int where "EINTR \<equiv> 4"
abbreviation (input) EIO :: int where "EIO \<equiv> 5"
abbreviation (input) ENOMEM :: int where "ENOMEM \<equiv> 12"
abbreviation (input) EACCES :: int where "EACCES \<equiv> 13"
abbreviation (input) EFAULT :: int where "EFAULT \<equiv> 14"
abbreviation (input) ENODEV :: int where "ENODEV \<equiv> 19"
abbreviation (input) EINVAL :: int where "EINVAL \<equiv> 22"
abbreviation (input) ENOTTY :: int where "ENOTTY \<equiv> 25"
abbreviation (input) ENOSPC :: int where "ENOSPC \<equiv> 28"
abbreviation (input) ENODATA :: int where "ENODATA \<equiv> 61"
abbreviation (input) ENOMEDIUM :: int where "ENOMEDIUM \<equiv> 123"

section \<open>Arrays\<close>

text \<open>
  \<open>array_move xs d s n\<close> is \<open>memmove(xs + d, xs + s, n * sizeof(*xs))\<close>: the
  \<open>n\<close> elements from index \<open>s\<close> are copied to index \<open>d\<close>, the rest of the array
  keeps its contents.
\<close>

definition array_move :: "'a list \<Rightarrow> nat \<Rightarrow> nat \<Rightarrow> nat \<Rightarrow> 'a list" where
  "array_move xs d s n = take d xs @ take n (drop s xs) @ drop (d + n) xs"

lemma length_array_move [array_simps]:
  "d + n \<le> length xs \<Longrightarrow> s + n \<le> length xs \<Longrightarrow> length (array_move xs d s n) = length xs"
  by (simp add: array_move_def)

lemma nth_array_move [array_simps]:
  assumes "d + n \<le> length xs" and "s + n \<le> length xs" and "i < length xs"
  shows "array_move xs d s n ! i = (if d \<le> i \<and> i < d + n then xs ! (s + (i - d)) else xs ! i)"
  using assms by (auto simp: array_move_def nth_append)

lemma take_list_update_ge [array_simps]: "n \<le> i \<Longrightarrow> take n (xs[i := x]) = take n xs"
  by simp

lemma last_take_nth [array_simps]: "0 < n \<Longrightarrow> n \<le> length xs \<Longrightarrow> last (take n xs) = xs ! (n - 1)"
  by (subst last_conv_nth) (auto simp: min_def)

section \<open>Alignment to powers of two\<close>

lemma unat_pow2 [align_simps]:
  assumes "k < LENGTH('a)"
  shows "unat (2 ^ k :: 'a::len word) = 2 ^ k"
proof -
  have "unat (of_nat (2 ^ k) :: 'a word) = 2 ^ k"
    using assms by (simp add: unsigned_of_nat take_bit_nat_eq_self del: of_nat_power)
  then show ?thesis by simp
qed

lemma word_and_not_mask [align_simps]:
  fixes x :: "'a::len word"
  shows "x AND NOT (mask k) = push_bit k (drop_bit k x)"
  by (rule bit_word_eqI) (auto simp: bit_simps)

lemma unat_drop_bit_div [align_simps]:
  fixes x :: "'a::len word"
  shows "unat (drop_bit k x) = unat x div 2 ^ k"
proof -
  have "drop_bit k (unat x) = unat x div 2 ^ k" by (rule drop_bit_eq_div)
  moreover have "take_bit LENGTH('a) (unat x) = unat x"
    by (simp add: take_bit_nat_eq_self)
  ultimately show ?thesis by (simp add: unsigned_drop_bit_eq)
qed

lemma unat_and_not_mask:
  fixes x :: "'a::len word"
  shows "unat (x AND NOT (mask k)) = unat x div 2 ^ k * 2 ^ k"
proof (cases "k < LENGTH('a)")
  case True
  have "unat (push_bit k (drop_bit k x)) = push_bit k (unat (drop_bit k x)) mod 2 ^ LENGTH('a)"
    by (simp add: unsigned_push_bit_eq take_bit_eq_mod)
  also have "\<dots> = unat x div 2 ^ k * 2 ^ k mod 2 ^ LENGTH('a)"
    by (simp add: align_simps push_bit_eq_mult)
  also have "\<dots> = unat x div 2 ^ k * 2 ^ k"
  proof -
    have "unat x div 2 ^ k * 2 ^ k \<le> unat x" by simp
    then have "unat x div 2 ^ k * 2 ^ k < 2 ^ LENGTH('a)"
      using unsigned_less [of x] by (rule le_less_trans)
    then show ?thesis by simp
  qed
  finally show ?thesis by (simp add: align_simps)
next
  case False
  then have "x AND NOT (mask k) = 0"
    by (intro bit_word_eqI) (auto simp: bit_simps dest: bit_imp_le_length)
  moreover from False have "unat x < 2 ^ k"
    by (meson leI less_le_trans one_le_numeral power_increasing unsigned_less)
  ultimately show ?thesis by simp
qed

definition roundup :: "nat \<Rightarrow> nat \<Rightarrow> nat" where
  "roundup b n = (n + b - 1) div b * b"

lemma roundup_ge: "0 < b \<Longrightarrow> n \<le> roundup b n"
proof -
  assume "0 < b"
  moreover have "(n + b - 1) div b * b + (n + b - 1) mod b = n + b - 1" by simp
  moreover have "(n + b - 1) mod b < b" using \<open>0 < b\<close> by simp
  ultimately show ?thesis unfolding roundup_def by linarith
qed

lemma roundup_less: "0 < b \<Longrightarrow> roundup b n < n + b"
proof -
  assume "0 < b"
  moreover have "(n + b - 1) div b * b \<le> n + b - 1" by (rule div_times_less_eq_dividend)
  ultimately show ?thesis unfolding roundup_def by linarith
qed

lemma dvd_roundup [simp]: "b dvd roundup b n"
  by (simp add: roundup_def)

lemma roundup_least: "b dvd c \<Longrightarrow> n \<le> c \<Longrightarrow> 0 < b \<Longrightarrow> roundup b n \<le> c"
proof -
  assume "b dvd c" "n \<le> c" "0 < b"
  then obtain q where c: "c = b * q" by (auto elim: dvdE)
  obtain p where p: "roundup b n = b * p" by (metis dvd_roundup dvdE)
  have "b * p < b * (q + 1)"
    using p roundup_less [OF \<open>0 < b\<close>, of n] \<open>n \<le> c\<close> c by simp
  then have "p < q + 1" by (simp only: mult_less_cancel1)
  then show ?thesis using p c by simp
qed

lemma roundup_dvd: "b dvd n \<Longrightarrow> 0 < b \<Longrightarrow> roundup b n = n"
  by (intro antisym roundup_least roundup_ge) auto

end
