(* ===== verification/C_String.thy ===== *)
theory C_String
  imports Prelude
begin

text \<open>
  C strings and the functions of the C library on them that the tools use. A string is a list of
  bytes; in an array it ends in front of the first zero byte.
\<close>

section \<open>Strings in arrays\<close>

definition c_string :: "byte list \<Rightarrow> byte list" where
  "c_string buf = takeWhile (\<lambda>b. b \<noteq> 0) buf"

definition strlen :: "byte list \<Rightarrow> nat" where
  "strlen buf = length (c_string buf)"

text \<open>What \<open>memset(dst, 0, n); strncpy(dst, src, n)\<close> leaves in \<open>dst\<close>.\<close>

definition strncpy_zero :: "nat \<Rightarrow> byte list \<Rightarrow> byte list" where
  "strncpy_zero n src = (let s = take n (c_string src) in s @ replicate (n - length s) 0)"

text \<open>\<open>fgets\<close> on the input that is left, into an array: nothing changes at the end of the input.\<close>

fun line_prefix :: "nat \<Rightarrow> byte list \<Rightarrow> byte list" where
  "line_prefix (Suc n) (c # cs) = c # (if c = 10 then [] else line_prefix n cs)"
| "line_prefix n cs = []"

definition fgets :: "nat \<Rightarrow> byte list \<Rightarrow> byte list \<Rightarrow> byte list \<times> byte list" where
  "fgets n buf input =
     (let s = line_prefix (n - 1) input
      in if s = [] then (buf, input) else (s @ 0 # drop (length s + 1) buf, drop (length s) input))"

section \<open>Characters and numbers\<close>

definition isspace :: "byte \<Rightarrow> bool" where
  "isspace c \<longleftrightarrow> c = 32 \<or> 9 \<le> c \<and> c \<le> 13"

definition isblank :: "byte \<Rightarrow> bool" where
  "isblank c \<longleftrightarrow> c = 32 \<or> c = 9"

definition isdigit :: "byte \<Rightarrow> bool" where
  "isdigit c \<longleftrightarrow> 48 \<le> c \<and> c \<le> 57"

definition digits_value :: "byte list \<Rightarrow> nat" where
  "digits_value ds = foldl (\<lambda>n d. 10 * n + (unat d - 48)) 0 ds"

text \<open>The number at the start of a string: what \<open>scanf\<close> and \<open>atoll\<close> look for.\<close>

definition scan_number :: "byte list \<Rightarrow> int option" where
  "scan_number s =
     (let s = dropWhile isspace s;
          (neg, s) = (case s of [] \<Rightarrow> (False, s)
                      | c # cs \<Rightarrow> if c = 45 then (True, cs) else if c = 43 then (False, cs) else (False, s));
          ds = takeWhile isdigit s
      in if ds = [] then None
         else Some (if neg then - int (digits_value ds) else int (digits_value ds)))"

definition int_of_32 :: "int \<Rightarrow> int" where
  "int_of_32 x = sint (word_of_int x :: u32)"

definition int_of_64 :: "int \<Rightarrow> int" where
  "int_of_64 x = sint (word_of_int x :: u64)"

section \<open>Facts\<close>

lemma length_c_string: "length (c_string s) \<le> length s"
  by (simp add: c_string_def length_takeWhile_le)

lemma c_string_append: "0 \<notin> set s \<Longrightarrow> c_string (s @ 0 # r) = s"
  unfolding c_string_def by (subst takeWhile_append2) auto

lemma c_string_id: "0 \<notin> set s \<Longrightarrow> c_string s = s"
  unfolding c_string_def by (auto simp: takeWhile_eq_all_conv)

lemma c_string_no_zero: "0 \<notin> set (c_string s)"
  unfolding c_string_def by (auto dest: set_takeWhileD)

lemma length_strncpy_zero [simp]: "length (strncpy_zero n s) = n"
  by (simp add: strncpy_zero_def Let_def)

lemma length_line_prefix: "length (line_prefix n s) \<le> n \<and> length (line_prefix n s) \<le> length s"
  by (induction n s rule: line_prefix.induct) auto

lemma line_prefix_Nil: "line_prefix n s = [] \<longleftrightarrow> n = 0 \<or> s = []"
  by (cases n; cases s) auto

lemma line_prefix_line: "10 \<notin> set s \<Longrightarrow> length s < n \<Longrightarrow> line_prefix n (s @ 10 # r) = s @ [10]"
proof (induction s arbitrary: n)
  case Nil
  then show ?case by (cases n) auto
next
  case (Cons c s)
  then show ?case by (cases n) auto
qed

lemma line_prefix_long: "10 \<notin> set s \<Longrightarrow> n \<le> length s \<Longrightarrow> line_prefix n (s @ r) = take n s"
proof (induction s arbitrary: n)
  case (Cons c s)
  then show ?case by (cases n) auto
qed simp

lemma fgets_line:
  assumes "10 \<notin> set s" and "length s + 1 < n"
  shows "fgets n buf (s @ 10 # r) = (s @ 10 # 0 # drop (length s + 2) buf, r)"
  using line_prefix_line [of s "n - 1" r] assms by (simp add: fgets_def)

lemma fgets_long:
  assumes "10 \<notin> set s" and "n \<le> length s + 1" and "1 < n"
  shows "fgets n buf (s @ r) = (take (n - 1) s @ 0 # drop n buf, drop (n - 1) s @ r)"
proof -
  have "line_prefix (n - 1) (s @ r) = take (n - 1) s" using assms by (intro line_prefix_long) auto
  moreover have "take (n - 1) s \<noteq> []" using assms by (cases s) auto
  moreover have "length (take (n - 1) s) = n - 1" using assms by simp
  moreover have "Suc (n - 1) = n" using assms by simp
  ultimately show ?thesis using assms by (simp add: fgets_def)
qed

text \<open>Decimal numbers, as the documentation writes them.\<close>

fun decimal :: "nat \<Rightarrow> byte list" where
  "decimal n = (if n < 10 then [of_nat (n + 48)] else decimal (n div 10) @ [of_nat (n mod 10 + 48)])"

declare decimal.simps [simp del]

lemma digit_byte: "d < 10 \<Longrightarrow> isdigit (of_nat (d + 48)) \<and> unat (of_nat (d + 48) :: byte) = d + 48"
proof -
  assume "d < 10"
  then have "unat (of_nat (d + 48) :: byte) = d + 48"
    by (simp add: unsigned_of_nat take_bit_nat_eq_self del: of_nat_add)
  moreover from this have "isdigit (of_nat (d + 48))"
    using \<open>d < 10\<close> by (simp add: isdigit_def word_le_nat_alt)
  ultimately show ?thesis by simp
qed

lemma decimal_digits: "\<forall>c\<in>set (decimal n). isdigit c"
proof (induction n rule: decimal.induct)
  case (1 n)
  then show ?case using digit_byte [of n] digit_byte [of "n mod 10"] by (subst decimal.simps) auto
qed

lemma decimal_not_Nil [simp]: "decimal n \<noteq> []"
  by (subst decimal.simps) simp

lemma digits_value_append: "digits_value (ds @ [d]) = 10 * digits_value ds + (unat d - 48)"
  by (simp add: digits_value_def)

lemma digits_value_decimal: "digits_value (decimal n) = n"
proof (induction n rule: decimal.induct)
  case (1 n)
  show ?case
  proof (cases "n < 10")
    case True
    then show ?thesis using digit_byte [of n] by (subst decimal.simps) (simp add: digits_value_def)
  next
    case False
    then show ?thesis
      using 1 digit_byte [of "n mod 10"] by (subst decimal.simps) (simp add: digits_value_append)
  qed
qed

lemma isdigit_not [simp]: "isdigit c \<Longrightarrow> \<not> isspace c" "isdigit c \<Longrightarrow> \<not> isblank c"
  by (auto simp: isdigit_def isspace_def isblank_def word_le_nat_alt)

lemma isdigit_simps [simp]: "\<not> isdigit 45" "\<not> isdigit 43" "\<not> isdigit 0" "\<not> isdigit 10" "\<not> isdigit 32"
  by (simp_all add: isdigit_def)

lemma scan_number_decimal: "scan_number (decimal n) = Some (int n)"
proof -
  obtain c cs where d: "decimal n = c # cs" by (cases "decimal n") auto
  then have "isdigit c" using decimal_digits [of n] by simp
  then have "dropWhile isspace (decimal n) = decimal n" "c \<noteq> 45" "c \<noteq> 43" using d by auto
  moreover have "takeWhile isdigit (decimal n) = decimal n"
    using decimal_digits by (simp add: takeWhile_eq_all_conv)
  ultimately show ?thesis
    using d digits_value_decimal [of n] by (simp add: scan_number_def Let_def)
qed

lemma length_decimal: "n < 10 ^ Suc m \<Longrightarrow> length (decimal n) \<le> Suc m"
proof (induction m arbitrary: n)
  case 0
  then show ?case by (simp add: decimal.simps)
next
  case (Suc m)
  show ?case
  proof (cases "n < 10")
    case False
    have "n div 10 < 10 ^ Suc m" using Suc.prems by (simp add: less_mult_imp_div_less mult.commute)
    then show ?thesis using Suc.IH [of "n div 10"] False by (subst decimal.simps) simp
  qed (simp add: decimal.simps)
qed

end
