(* ===== verification/Kernel.thy ===== *)
theory Kernel
  imports Prelude
begin

text \<open>
  The kernel as the tools see it. The kernel is not part of the sources, so it is a
  parameter: a record of functions over an arbitrary world type \<open>'w\<close>, one per system call
  the modelled code makes. The wrappers of \<open>suspend.c\<close> and \<open>swsusp.h\<close> around the
  \<open>ioctl\<close>s of \<open>/dev/snapshot\<close> are defined here, with their fallbacks to the older
  request numbers.
\<close>

section \<open>System calls\<close>

datatype snapshot_ioctl =
    SNAPSHOT_FREEZE | SNAPSHOT_UNFREEZE
  | SNAPSHOT_ATOMIC_RESTORE | SNAPSHOT_FREE
  | SNAPSHOT_FREE_SWAP_PAGES | SNAPSHOT_S2RAM
  | SNAPSHOT_CREATE_IMAGE | SNAPSHOT_ATOMIC_SNAPSHOT
  | SNAPSHOT_PREF_IMAGE_SIZE int | SNAPSHOT_SET_IMAGE_SIZE int
  | SNAPSHOT_AVAIL_SWAP_SIZE | SNAPSHOT_AVAIL_SWAP
  | SNAPSHOT_GET_IMAGE_SIZE
  | SNAPSHOT_ALLOC_SWAP_PAGE | SNAPSHOT_GET_SWAP_PAGE
  | SNAPSHOT_SET_SWAP_AREA int int | SNAPSHOT_SET_SWAP_FILE int
  | SNAPSHOT_POWER_OFF | SNAPSHOT_PLATFORM_SUPPORT int | SNAPSHOT_PMOPS int

text \<open>What an \<open>ioctl\<close> leaves behind: its return value, \<open>errno\<close>, and the value stored
  through its pointer argument, if it has one.\<close>

record ioctl_res =
  ret :: int
  errno :: int
  out :: int

record 'w kernel =
  k_ioctl :: "fd \<Rightarrow> snapshot_ioctl \<Rightarrow> 'w \<Rightarrow> ioctl_res \<times> 'w"
  k_lseek :: "fd \<Rightarrow> loff_t \<Rightarrow> 'w \<Rightarrow> loff_t \<times> 'w"          \<comment> \<open>\<open>SEEK_SET\<close>\<close>
  k_read :: "fd \<Rightarrow> nat \<Rightarrow> 'w \<Rightarrow> (int \<times> byte list) \<times> 'w"   \<comment> \<open>count and the bytes stored\<close>
  k_write :: "fd \<Rightarrow> byte list \<Rightarrow> 'w \<Rightarrow> int \<times> 'w"
  k_fsync :: "fd \<Rightarrow> 'w \<Rightarrow> 'w"
  k_close :: "fd \<Rightarrow> 'w \<Rightarrow> 'w"
  k_sync_file_range :: "fd \<Rightarrow> 'w \<Rightarrow> 'w"
  k_reboot :: "u32 \<Rightarrow> 'w \<Rightarrow> 'w"

definition PMOPS_PREPARE :: int where "PMOPS_PREPARE = 1"
definition PMOPS_ENTER :: int where "PMOPS_ENTER = 2"

definition LINUX_REBOOT_CMD_RESTART :: u32 where "LINUX_REBOOT_CMD_RESTART = 0x01234567"
definition LINUX_REBOOT_CMD_POWER_OFF :: u32 where "LINUX_REBOOT_CMD_POWER_OFF = 0x4321FEDC"

section \<open>ioctl wrappers\<close>

text \<open>\<open>error = ioctl(dev, req); if (error && errno == ENOTTY) error = ioctl(dev, old);\<close>\<close>

definition ioctl_fallback ::
  "'w kernel \<Rightarrow> fd \<Rightarrow> snapshot_ioctl \<Rightarrow> snapshot_ioctl \<Rightarrow> 'w \<Rightarrow> ioctl_res \<times> 'w" where
  "ioctl_fallback K dev req old w =
     (let (r, w) = k_ioctl K dev req w
      in if ret r \<noteq> 0 \<and> errno r = ENOTTY then k_ioctl K dev old w else (r, w))"

definition check_free_swap :: "'w kernel \<Rightarrow> fd \<Rightarrow> 'w \<Rightarrow> loff_t \<times> 'w" where
  "check_free_swap K dev w =
     (let (r, w) = ioctl_fallback K dev SNAPSHOT_AVAIL_SWAP_SIZE SNAPSHOT_AVAIL_SWAP w
      in if ret r = 0 then (out r, w) else (0, w))"

definition get_image_size :: "'w kernel \<Rightarrow> fd \<Rightarrow> 'w \<Rightarrow> loff_t \<times> 'w" where
  "get_image_size K dev w =
     (let (r, w) = k_ioctl K dev SNAPSHOT_GET_IMAGE_SIZE w
      in if ret r = 0 then (out r, w) else (0, w))"

definition get_swap_page :: "'w kernel \<Rightarrow> fd \<Rightarrow> 'w \<Rightarrow> loff_t \<times> 'w" where
  "get_swap_page K dev w =
     (let (r, w) = ioctl_fallback K dev SNAPSHOT_ALLOC_SWAP_PAGE SNAPSHOT_GET_SWAP_PAGE w
      in if ret r = 0 then (out r, w) else (0, w))"

definition free_swap_pages :: "'w kernel \<Rightarrow> fd \<Rightarrow> 'w \<Rightarrow> int \<times> 'w" where
  "free_swap_pages K dev w = (let (r, w) = k_ioctl K dev SNAPSHOT_FREE_SWAP_PAGES w in (ret r, w))"

definition set_swap_file :: "'w kernel \<Rightarrow> fd \<Rightarrow> int \<Rightarrow> loff_t \<Rightarrow> 'w \<Rightarrow> int \<times> 'w" where
  "set_swap_file K dev blkdev offset w =
     (let (r, w) = k_ioctl K dev (SNAPSHOT_SET_SWAP_AREA blkdev offset) w;
          (r, w) = (if ret r \<noteq> 0 \<and> offset = 0
                    then k_ioctl K dev (SNAPSHOT_SET_SWAP_FILE blkdev) w else (r, w))
      in (ret r, w))"

text \<open>Return value, \<open>errno\<close> and \<open>*in_suspend\<close>.\<close>

definition atomic_snapshot :: "'w kernel \<Rightarrow> fd \<Rightarrow> 'w \<Rightarrow> (int \<times> int \<times> int) \<times> 'w" where
  "atomic_snapshot K dev w =
     (let (r, w) = ioctl_fallback K dev SNAPSHOT_CREATE_IMAGE SNAPSHOT_ATOMIC_SNAPSHOT w
      in ((ret r, errno r, out r), w))"

definition free_snapshot :: "'w kernel \<Rightarrow> fd \<Rightarrow> 'w \<Rightarrow> int \<times> 'w" where
  "free_snapshot K dev w = (let (r, w) = k_ioctl K dev SNAPSHOT_FREE w in (ret r, w))"

text \<open>Return value and \<open>errno\<close>.\<close>

definition set_image_size :: "'w kernel \<Rightarrow> fd \<Rightarrow> loff_t \<Rightarrow> 'w \<Rightarrow> (int \<times> int) \<times> 'w" where
  "set_image_size K dev sz w =
     (let (r, w) = ioctl_fallback K dev (SNAPSHOT_PREF_IMAGE_SIZE sz) (SNAPSHOT_SET_IMAGE_SIZE sz) w
      in ((ret r, errno r), w))"

definition suspend_to_ram :: "'w kernel \<Rightarrow> fd \<Rightarrow> 'w \<Rightarrow> int \<times> 'w" where
  "suspend_to_ram K dev w = (let (r, w) = k_ioctl K dev SNAPSHOT_S2RAM w in (ret r, w))"

definition platform_enter :: "'w kernel \<Rightarrow> fd \<Rightarrow> 'w \<Rightarrow> int \<times> 'w" where
  "platform_enter K dev w =
     (let (r, w) = ioctl_fallback K dev SNAPSHOT_POWER_OFF (SNAPSHOT_PMOPS PMOPS_ENTER) w
      in (ret r, w))"

definition freeze :: "'w kernel \<Rightarrow> fd \<Rightarrow> 'w \<Rightarrow> (int \<times> int) \<times> 'w" where
  "freeze K dev w = (let (r, w) = k_ioctl K dev SNAPSHOT_FREEZE w in ((ret r, errno r), w))"

definition unfreeze :: "'w kernel \<Rightarrow> fd \<Rightarrow> 'w \<Rightarrow> int \<times> 'w" where
  "unfreeze K dev w = (let (r, w) = k_ioctl K dev SNAPSHOT_UNFREEZE w in (ret r, w))"

definition platform_prepare :: "'w kernel \<Rightarrow> fd \<Rightarrow> 'w \<Rightarrow> int \<times> 'w" where
  "platform_prepare K dev w =
     (let (r, w) = ioctl_fallback K dev (SNAPSHOT_PLATFORM_SUPPORT 1) (SNAPSHOT_PMOPS PMOPS_PREPARE) w
      in (ret r, w))"

definition atomic_restore :: "'w kernel \<Rightarrow> fd \<Rightarrow> 'w \<Rightarrow> int \<times> 'w" where
  "atomic_restore K dev w = (let (r, w) = k_ioctl K dev SNAPSHOT_ATOMIC_RESTORE w in (ret r, w))"

text \<open>\<open>reboot\<close> and \<open>power_off\<close> return only if the system call fails.\<close>

definition reboot :: "'w kernel \<Rightarrow> 'w \<Rightarrow> 'w" where
  "reboot K w = k_reboot K LINUX_REBOOT_CMD_RESTART w"

definition power_off :: "'w kernel \<Rightarrow> 'w \<Rightarrow> 'w" where
  "power_off K w = k_reboot K LINUX_REBOOT_CMD_POWER_OFF w"

definition start_writeout :: "'w kernel \<Rightarrow> fd \<Rightarrow> 'w \<Rightarrow> 'w" where
  "start_writeout K d w = k_sync_file_range K d w"

end
