(* ===== verification/Posix.thy ===== *)
theory Posix
  imports C_String Kernel
begin

text \<open>
  The system calls that the programs make around the image: files, mounts, the virtual terminals and
  the two files of \<open>/proc\<close> that hold a number. They are parameters, like those of \<open>Kernel\<close>. File
  names are strings, error numbers positive.
\<close>

section \<open>Requests\<close>

datatype open_mode = O_RDONLY | O_WRONLY | O_RDWR

record vt_mode =
  vt_process :: bool      \<comment> \<open>\<open>mode == VT_PROCESS\<close>\<close>
  vt_relsig :: int
  vt_acqsig :: int

datatype vt_request =
    KDGKBTYPE
  | TIOCL_GETKMSGREDIRECT | TIOCL_SETKMSGREDIRECT int
  | VT_GETSTATE | VT_OPENQRY | VT_ACTIVATE int | VT_WAITACTIVE int
  | VT_GETMODE | VT_SETMODE vt_mode

text \<open>The return value, \<open>errno\<close>, and what is stored through the argument.\<close>

record vt_result =
  v_ret :: int
  v_errno :: int
  v_out :: int
  v_mode :: vt_mode

datatype file_type = Block_dev | Char_dev | Directory | Other_file

text \<open>\<open>st_rdev\<close> and \<open>st_size\<close>; \<open>st_ret\<close> is the return value.\<close>

record file_stat =
  st_ret :: int
  st_errno :: int
  st_type :: file_type
  st_rdev :: int
  st_size :: int

record 'w posix =
  sys_open :: "string \<Rightarrow> open_mode \<Rightarrow> 'w \<Rightarrow> (int \<times> int) \<times> 'w"        \<comment> \<open>descriptor or -1, \<open>errno\<close>\<close>
  sys_close :: "int \<Rightarrow> 'w \<Rightarrow> 'w"
  sys_dup2 :: "int \<Rightarrow> int \<Rightarrow> 'w \<Rightarrow> 'w"
  sys_stat :: "string \<Rightarrow> 'w \<Rightarrow> file_stat \<times> 'w"
  sys_mkdir :: "string \<Rightarrow> 'w \<Rightarrow> (int \<times> int) \<times> 'w"
  sys_mount :: "string \<Rightarrow> string \<Rightarrow> 'w \<Rightarrow> (int \<times> int) \<times> 'w"      \<comment> \<open>directory and file system\<close>
  sys_umount :: "string \<Rightarrow> 'w \<Rightarrow> (int \<times> int) \<times> 'w"
  sys_chdir :: "string \<Rightarrow> 'w \<Rightarrow> (int \<times> int) \<times> 'w"
  sys_mknod :: "string \<Rightarrow> int \<Rightarrow> 'w \<Rightarrow> (int \<times> int) \<times> 'w"
  sys_mlockall :: "'w \<Rightarrow> (int \<times> int) \<times> 'w"
  sys_setrlimits :: "'w \<Rightarrow> 'w"
  sys_sync :: "'w \<Rightarrow> 'w"
  sys_vt :: "int \<Rightarrow> vt_request \<Rightarrow> 'w \<Rightarrow> vt_result \<times> 'w"
  sys_ignore_usr1 :: "'w \<Rightarrow> 'w"
  sys_clear_vt :: "int \<Rightarrow> 'w \<Rightarrow> 'w"                             \<comment> \<open>\<open>write\<close> of the escape sequence\<close>
  file_open :: "string \<Rightarrow> 'w \<Rightarrow> bool \<times> 'w"                     \<comment> \<open>\<open>fopen(name, "r+") != NULL\<close>\<close>
  file_read_int :: "string \<Rightarrow> 'w \<Rightarrow> int option \<times> 'w"          \<comment> \<open>\<open>rewind\<close>, \<open>fscanf("%d")\<close>\<close>
  file_write_int :: "string \<Rightarrow> int \<Rightarrow> 'w \<Rightarrow> 'w"               \<comment> \<open>\<open>rewind\<close>, \<open>fprintf\<close>, \<open>fflush\<close>\<close>
  file_close :: "string \<Rightarrow> 'w \<Rightarrow> 'w"

definition KB_84 :: int where "KB_84 = 1"
definition KB_101 :: int where "KB_101 = 2"
definition SIGUSR1 :: int where "SIGUSR1 = 10"

end
