(* ===== verification/Machine.thy ===== *)
theory Machine
  imports Posix
begin

text \<open>
  What \<open>s2ram\<close> and its helpers ask of the machine: memory, the files of \<open>/proc\<close> and \<open>/sys\<close>, the PCI
  library and the video BIOS. All of it is a parameter: \<open>malloc\<close>, \<open>mmap\<close> on \<open>/dev/mem\<close>, the C library's
  files and directories, \<open>libpci\<close>, and the functions of \<open>vbetool\<close>, which run BIOS code in an
  interpreter of real mode; \<open>S2ram_Bios\<close> fills in the last ones.
\<close>

type_synonym u16 = "16 word"

text \<open>A device as \<open>pci_fill_info\<close> leaves it: where it is, its vendor, its six regions.\<close>

record pci_dev =
  pd_slot :: nat
  vendor_id :: u16
  base_addr :: "int list"
  region_size :: "int list"

record 'w machine =
  mc_malloc :: "nat \<Rightarrow> 'w \<Rightarrow> bool \<times> 'w"                          \<comment> \<open>not \<open>NULL\<close>\<close>
  mc_pagesize :: nat
  mc_map_mem :: "fd \<Rightarrow> nat \<Rightarrow> nat \<Rightarrow> 'w \<Rightarrow> byte list option \<times> 'w"    \<comment> \<open>\<open>mmap(0, len, PROT_READ, ..., fd, base)\<close>, read at once\<close>
  mc_map_device :: "fd \<Rightarrow> int \<Rightarrow> nat \<Rightarrow> 'w \<Rightarrow> nat option \<times> 'w"       \<comment> \<open>the address of a writable mapping\<close>
  mc_read64 :: "nat \<Rightarrow> 'w \<Rightarrow> u64 \<times> 'w"                            \<comment> \<open>a load through a \<open>volatile\<close> pointer\<close>
  mc_write64 :: "nat \<Rightarrow> u64 \<Rightarrow> 'w \<Rightarrow> 'w"
  mc_fopen :: "string \<Rightarrow> bool \<Rightarrow> 'w \<Rightarrow> bool \<times> 'w"                  \<comment> \<open>\<open>True\<close> for writing\<close>
  mc_scan_long :: "string \<Rightarrow> 'w \<Rightarrow> u64 option \<times> 'w"               \<comment> \<open>\<open>fscanf("%ld")\<close>\<close>
  mc_print :: "string \<Rightarrow> byte list \<Rightarrow> 'w \<Rightarrow> (int \<times> int) \<times> 'w"        \<comment> \<open>\<open>fprintf\<close>: result and \<open>errno\<close>\<close>
  mc_print_long :: "string \<Rightarrow> u64 \<Rightarrow> 'w \<Rightarrow> 'w"                    \<comment> \<open>\<open>fprintf("%ld")\<close>, \<open>fflush\<close>\<close>
  mc_fclose :: "string \<Rightarrow> 'w \<Rightarrow> (int \<times> int) \<times> 'w"
  mc_readdir :: "string \<Rightarrow> 'w \<Rightarrow> (int + byte list list) \<times> 'w"      \<comment> \<open>\<open>opendir\<close> (or its \<open>errno\<close>) and \<open>readdir\<close> to the end\<close>
  mc_access :: "byte list \<Rightarrow> bool \<Rightarrow> 'w \<Rightarrow> bool \<times> 'w"              \<comment> \<open>\<open>True\<close> for \<open>W_OK\<close>, \<open>False\<close> for \<open>F_OK\<close>\<close>
  mc_write_state :: "byte list \<Rightarrow> int \<Rightarrow> 'w \<Rightarrow> 'w"                \<comment> \<open>\<open>fopen\<close>, \<open>fprintf("%d")\<close>, \<open>fclose\<close>\<close>
  mc_read_file :: "string \<Rightarrow> nat \<Rightarrow> 'w \<Rightarrow> byte list option \<times> 'w"   \<comment> \<open>\<open>open\<close>, \<open>read\<close>, \<open>close\<close>\<close>
  mc_usleep :: "nat \<Rightarrow> 'w \<Rightarrow> 'w"
  pci_alloc :: "'w \<Rightarrow> 'w"                                        \<comment> \<open>\<open>pci_alloc\<close> and \<open>pci_init\<close>\<close>
  pci_scan_bus :: "'w \<Rightarrow> pci_dev list \<times> 'w"
  pci_class :: "pci_dev \<Rightarrow> 'w \<Rightarrow> u16 \<times> 'w"                        \<comment> \<open>\<open>pci_read_word(dev, PCI_CLASS_DEVICE)\<close>\<close>
  pci_read_block :: "pci_dev \<Rightarrow> nat \<Rightarrow> 'w \<Rightarrow> byte list \<times> 'w"         \<comment> \<open>from offset 0\<close>
  pci_write_block :: "pci_dev \<Rightarrow> byte list \<Rightarrow> 'w \<Rightarrow> 'w"
  pci_cleanup :: "'w \<Rightarrow> 'w"
  vbetool_init :: "'w \<Rightarrow> 'w"
  vbe_save_state :: "'w \<Rightarrow> int option \<times> 'w"                      \<comment> \<open>\<open>__save_state\<close>: the address of the buffer\<close>
  vbe_get_mode :: "'w \<Rightarrow> int \<times> 'w"                               \<comment> \<open>\<open>__get_mode\<close>\<close>
  vbe_do_post :: "'w \<Rightarrow> 'w"
  vbe_restore_state :: "int \<Rightarrow> 'w \<Rightarrow> 'w"
  vbe_set_mode :: "int \<Rightarrow> 'w \<Rightarrow> 'w"                              \<comment> \<open>\<open>do_set_mode(mode, 0)\<close>\<close>

section \<open>An idle machine\<close>

text \<open>Calls that succeed and do nothing, to build examples from.\<close>

definition idle_posix :: "'w posix" where
  "idle_posix =
     \<lparr>sys_open = (\<lambda>n m w. ((3, 0), w)), sys_close = (\<lambda>fd w. w), sys_dup2 = (\<lambda>a b w. w),
      sys_stat = (\<lambda>n w. (\<lparr>st_ret = 0, st_errno = 0, st_type = Other_file, st_rdev = 0, st_size = 0\<rparr>, w)),
      sys_mkdir = (\<lambda>n w. ((0, 0), w)), sys_mount = (\<lambda>d t w. ((0, 0), w)), sys_umount = (\<lambda>d w. ((0, 0), w)),
      sys_chdir = (\<lambda>d w. ((0, 0), w)), sys_mknod = (\<lambda>n d w. ((0, 0), w)), sys_mlockall = (\<lambda>w. ((0, 0), w)),
      sys_setrlimits = id, sys_sync = id,
      sys_vt = (\<lambda>fd req w. (\<lparr>v_ret = 0, v_errno = 0, v_out = 1, v_mode = \<lparr>vt_process = False, vt_relsig = 0, vt_acqsig = 0\<rparr>\<rparr>, w)),
      sys_ignore_usr1 = id, sys_clear_vt = (\<lambda>fd w. w), file_open = (\<lambda>n w. (True, w)),
      file_read_int = (\<lambda>n w. (Some 0, w)), file_write_int = (\<lambda>n v w. w), file_close = (\<lambda>n w. w)\<rparr>"

definition idle_machine :: "'w machine" where
  "idle_machine =
     \<lparr>mc_malloc = (\<lambda>n w. (True, w)), mc_pagesize = 4096, mc_map_mem = (\<lambda>fd b n w. (Some (replicate n 0), w)),
      mc_map_device = (\<lambda>fd b n w. (Some 0, w)), mc_read64 = (\<lambda>a w. (0, w)), mc_write64 = (\<lambda>a v w. w),
      mc_fopen = (\<lambda>n b w. (True, w)), mc_scan_long = (\<lambda>n w. (Some 0, w)), mc_print = (\<lambda>n t w. ((int (length t), 0), w)),
      mc_print_long = (\<lambda>n v w. w), mc_fclose = (\<lambda>n w. ((0, 0), w)), mc_readdir = (\<lambda>n w. (Inr [], w)),
      mc_access = (\<lambda>n b w. (False, w)), mc_write_state = (\<lambda>n v w. w), mc_read_file = (\<lambda>n k w. (None, w)),
      mc_usleep = (\<lambda>n w. w), pci_alloc = id, pci_scan_bus = (\<lambda>w. ([], w)), pci_class = (\<lambda>d w. (0, w)),
      pci_read_block = (\<lambda>d n w. (replicate n 0, w)), pci_write_block = (\<lambda>d bs w. w), pci_cleanup = id,
      vbetool_init = id, vbe_save_state = (\<lambda>w. (None, w)), vbe_get_mode = (\<lambda>w. (- 1, w)), vbe_do_post = id,
      vbe_restore_state = (\<lambda>b w. w), vbe_set_mode = (\<lambda>m w. w)\<rparr>"

end
