(* ===== verification/Vt.thy ===== *)
theory Vt
  imports Machine
begin

text \<open>
  The terminal functions of \<open>vt.c\<close>: finding a console, the active one, switching to another. The error
  messages are left out. The results of C functions that mean yes or no are truth values.
\<close>

section \<open>Finding a console\<close>

definition is_a_console :: "'w posix \<Rightarrow> fd \<Rightarrow> 'w \<Rightarrow> bool \<times> 'w" where
  "is_a_console P fd w =
     (let (r, w) = sys_vt P fd KDGKBTYPE w in (v_ret r = 0 \<and> (v_out r = KB_101 \<or> v_out r = KB_84), w))"

definition open_a_console :: "'w posix \<Rightarrow> string \<Rightarrow> 'w \<Rightarrow> fd \<times> 'w" where
  "open_a_console P fnam w =
     (let ((fd, errno), w) = sys_open P fnam O_RDWR w
      in if fd < 0 then (- 1, w)
         else let (ok, w) = is_a_console P fd w
         in if ok then (fd, w) else (- 1, sys_close P fd w))"

text \<open>The names are tried one after the other, then the standard streams.\<close>

fun try_names :: "'w posix \<Rightarrow> string list \<Rightarrow> 'w \<Rightarrow> fd \<times> 'w" where
  "try_names P [] w = (- 1, w)"
| "try_names P (n # ns) w =
     (let (fd, w) = open_a_console P n w in if 0 \<le> fd then (fd, w) else try_names P ns w)"

fun try_streams :: "'w posix \<Rightarrow> fd list \<Rightarrow> 'w \<Rightarrow> fd \<times> 'w" where
  "try_streams P [] w = (- 1, w)"
| "try_streams P (fd # fds) w =
     (let (ok, w) = is_a_console P fd w in if ok then (fd, w) else try_streams P fds w)"

definition getconsolefd :: "'w posix \<Rightarrow> 'w \<Rightarrow> fd \<times> 'w" where
  "getconsolefd P w =
     (let (fd, w) = try_names P [''/dev/tty'', ''/dev/tty0'', ''/dev/vc/0'', ''/dev/console''] w
      in if 0 \<le> fd then (fd, w) else try_streams P [0, 1, 2] w)"

section \<open>The active terminal\<close>

definition fgconsole :: "'w posix \<Rightarrow> 'w \<Rightarrow> int \<times> 'w" where
  "fgconsole P w =
     (let (fd, w) = getconsolefd P w
      in if fd < 0 then (- 1, w)
         else let (r, w) = sys_vt P fd VT_GETSTATE w in (if v_ret r \<noteq> 0 then - 1 else v_out r, w))"

definition USER_WAIT_SLEEP_US :: nat where "USER_WAIT_SLEEP_US = 100000"
definition USER_WAIT_MAX_ITERATIONS :: nat where "USER_WAIT_MAX_ITERATIONS = 50"

fun chvt_loop :: "'w posix \<Rightarrow> 'w machine \<Rightarrow> int \<Rightarrow> nat \<Rightarrow> 'w \<Rightarrow> bool \<times> 'w" where
  "chvt_loop P M num 0 w = (False, w)"
| "chvt_loop P M num (Suc i) w =
     (let (active, w) = fgconsole P w
      in if active = num then (True, w)
         else let (fd, w) = getconsolefd P w;
                  (r, w) = sys_vt P fd (VT_ACTIVATE num) w
              in chvt_loop P M num i (mc_usleep M USER_WAIT_SLEEP_US w))"

definition chvt :: "'w posix \<Rightarrow> 'w machine \<Rightarrow> int \<Rightarrow> 'w \<Rightarrow> bool \<times> 'w" where
  "chvt P M num w = chvt_loop P M num USER_WAIT_MAX_ITERATIONS w"

section \<open>The frame buffer\<close>

definition is_framebuffer :: "'w machine \<Rightarrow> 'w \<Rightarrow> bool \<times> 'w" where
  "is_framebuffer M w = mc_access M (map of_char ''/sys/class/graphics/fb0'') False w"

text \<open>The last character read is a line feed; it is dropped.\<close>

definition get_fbname :: "'w machine \<Rightarrow> 'w \<Rightarrow> byte list \<times> 'w" where
  "get_fbname M w =
     (let (r, w) = mc_read_file M ''/sys/class/graphics/fb0/name'' 17 w
      in (case r of
            None \<Rightarrow> map of_char ''error''
          | Some bs \<Rightarrow> if bs = [] then map of_char ''error'' else c_string (butlast bs), w))"

section \<open>Properties\<close>

lemma chvt_loop_result:
  "chvt_loop P M num n w = (b, w') \<Longrightarrow> b \<Longrightarrow> \<exists>w1. fgconsole P w1 = (num, w')"
  by (induction n arbitrary: w) (auto simp: Let_def split: prod.splits if_splits)

text \<open>
  \<open>chvt\<close> waits for the switch: when it reports success, the last thing it has seen is that the
  terminal asked for is the active one.
\<close>

lemma chvt_waits:
  assumes "chvt P M num w = (True, w')"
  shows "\<exists>w1. fgconsole P w1 = (num, w')"
  using assms by (auto simp: chvt_def intro: chvt_loop_result)

text \<open>Descriptors: how many are open.\<close>

definition counts_descriptors :: "'w posix \<Rightarrow> ('w \<Rightarrow> nat) \<Rightarrow> bool" where
  "counts_descriptors P n \<longleftrightarrow>
     (\<forall>f m w fd e w'. sys_open P f m w = ((fd, e), w') \<longrightarrow> n w' = (if 0 \<le> fd then n w + 1 else n w)) \<and>
     (\<forall>fd w. n w \<le> n (sys_close P fd w) + 1) \<and>
     (\<forall>fd req w r w'. sys_vt P fd req w = (r, w') \<longrightarrow> n w' = n w)"

lemma is_a_console_count:
  "counts_descriptors P n \<Longrightarrow> is_a_console P fd w = (b, w') \<Longrightarrow> n w' = n w"
  unfolding counts_descriptors_def is_a_console_def by (auto split: prod.splits)

lemma open_a_console_count:
  assumes c: "counts_descriptors P n" and "open_a_console P f w = (fd, w')"
  shows "n w + (if 0 \<le> fd then 1 else 0) \<le> n w'"
proof -
  obtain fd1 e w1 where 1: "sys_open P f O_RDWR w = ((fd1, e), w1)" by (metis surj_pair)
  obtain ok w2 where 2: "is_a_console P fd1 w1 = (ok, w2)" by fastforce
  have "n w1 = (if 0 \<le> fd1 then n w + 1 else n w)" "n w2 = n w1" "n w2 \<le> n (sys_close P fd1 w2) + 1"
    using c 1 is_a_console_count [OF c 2] unfolding counts_descriptors_def by blast+
  then show ?thesis using assms(2) 1 2 by (auto simp: open_a_console_def split: if_splits)
qed

lemma try_names_count:
  assumes "counts_descriptors P n"
  shows "try_names P ns w = (fd, w') \<Longrightarrow> n w + (if 0 \<le> fd then 1 else 0) \<le> n w'"
proof (induction ns arbitrary: w)
  case (Cons f ns)
  obtain fd1 w1 where 1: "open_a_console P f w = (fd1, w1)" by fastforce
  show ?case
  proof (cases "0 \<le> fd1")
    case False
    then have "n w1 + (if 0 \<le> fd then 1 else 0) \<le> n w'" using Cons 1 by simp
    then show ?thesis using open_a_console_count [OF assms 1] False by simp
  qed (use Cons.prems 1 open_a_console_count [OF assms 1] in simp)
qed simp

text \<open>
  \<open>fgconsole\<close> never closes the console it opens: every call that reports a terminal, and has not
  fallen back to one of the standard streams, leaves one more descriptor open.
\<close>

lemma fgconsole_leaks_descriptor:
  assumes "counts_descriptors P n" and "fgconsole P w = (vt, w')" and "0 \<le> vt"
    and "0 \<le> fst (try_names P [''/dev/tty'', ''/dev/tty0'', ''/dev/vc/0'', ''/dev/console''] w)"
  shows "n w + 1 \<le> n w'"
proof -
  obtain fd w1 where 1: "try_names P [''/dev/tty'', ''/dev/tty0'', ''/dev/vc/0'', ''/dev/console''] w = (fd, w1)" by fastforce
  obtain r w2 where 2: "sys_vt P fd VT_GETSTATE w1 = (r, w2)" by fastforce
  have "0 \<le> fd" using assms(4) 1 by simp
  then have "n w + 1 \<le> n w1" using try_names_count [OF assms(1) 1] by simp
  moreover have "n w2 = n w1" using assms(1) 2 unfolding counts_descriptors_def by blast
  moreover have "w' = w2" using assms(2) 1 2 \<open>0 \<le> fd\<close> by (simp add: fgconsole_def getconsolefd_def del: try_names.simps)
  ultimately show ?thesis by simp
qed

definition count_posix :: "nat posix" where
  "count_posix = idle_posix\<lparr>sys_open := (\<lambda>f m w. ((3 + int w, 0), w + 1)), sys_close := (\<lambda>fd w. w - 1)\<rparr>"

lemma fgconsole_leaks_descriptor_witness: "fgconsole count_posix 0 = (1, 1) \<and> id 0 + 1 \<le> id (1 :: nat)"
proof -
  have 1: "counts_descriptors count_posix id"
    by (auto simp: counts_descriptors_def count_posix_def idle_posix_def)
  have 2: "fgconsole count_posix 0 = (1, 1)"
    by (simp add: fgconsole_def getconsolefd_def open_a_console_def is_a_console_def count_posix_def
        idle_posix_def KB_84_def KB_101_def)
  show ?thesis
    using 2 fgconsole_leaks_descriptor [OF 1 2]
    by (simp add: open_a_console_def is_a_console_def count_posix_def idle_posix_def KB_84_def KB_101_def)
qed

end
