(* ===== verification/Bytes.thy ===== *)
theory Bytes
  imports Prelude
begin

text \<open>
  Integers in memory. The tools run on little-endian machines and move integers to and from the
  disk by writing their memory; \<open>le_bytes n x\<close> are the first \<open>n\<close> bytes of \<open>x\<close> in memory and
  \<open>le_word\<close> reads them back. Offsets (\<open>loff_t\<close>) are 64-bit two's complement.
\<close>

primrec le_bytes :: "nat \<Rightarrow> 'a::len word \<Rightarrow> byte list" where
  "le_bytes 0 x = []"
| "le_bytes (Suc n) x = ucast x # le_bytes n (drop_bit 8 x)"

fun le_word :: "byte list \<Rightarrow> 'a::len word" where
  "le_word [] = 0"
| "le_word (b # bs) = ucast b OR push_bit 8 (le_word bs)"

lemma length_le_bytes [simp]: "length (le_bytes n x) = n"
  by (induction n arbitrary: x) auto

lemma le_word_le_bytes: "le_word (le_bytes n x) = take_bit (8 * n) x"
proof (induction n arbitrary: x)
  case (Suc n)
  show ?case
    by (rule bit_word_eqI) (auto simp: Suc bit_simps)
qed simp

lemma le_word_le_bytes_full:
  fixes x :: "'a::len word"
  shows "LENGTH('a) \<le> 8 * n \<Longrightarrow> le_word (le_bytes n x) = x"
  unfolding le_word_le_bytes by (rule bit_word_eqI) (auto simp: bit_simps)

lemma le_bytes_le_word:
  "8 * length bs \<le> LENGTH('a) \<Longrightarrow> le_bytes (length bs) (le_word bs :: 'a::len word) = bs"
proof (induction bs)
  case (Cons b bs)
  let ?w = "le_word bs :: 'a word"
  have "ucast (ucast b OR push_bit 8 ?w) = b"
    using Cons.prems by (intro bit_word_eqI) (auto simp: bit_simps)
  moreover have "take_bit (8 * length bs) (drop_bit 8 (ucast b OR push_bit 8 ?w))
      = take_bit (8 * length bs) ?w"
    using Cons.prems by (intro bit_word_eqI) (auto simp: bit_simps dest: bit_imp_le_length)
  moreover have "le_bytes n (take_bit (8 * n) v) = le_bytes n v" for n and v :: "'a word"
  proof (induction n arbitrary: v)
    case (Suc n)
    have "ucast (take_bit (8 * Suc n) v) = (ucast v :: byte)"
      by (rule bit_word_eqI) (auto simp: bit_simps)
    moreover have "drop_bit 8 (take_bit (8 * Suc n) v) = take_bit (8 * n) (drop_bit 8 v)"
      by (rule bit_word_eqI) (auto simp: bit_simps)
    ultimately show ?case by (simp add: Suc)
  qed simp
  ultimately have "le_bytes (length bs) (drop_bit 8 (ucast b OR push_bit 8 ?w)) = bs"
    using Cons.IH Cons.prems by (metis add_leD2 length_Cons mult_Suc_right)
  then show ?case using \<open>ucast (ucast b OR push_bit 8 ?w) = b\<close> by simp
qed simp

lemma le_bytes_inject:
  fixes x y :: "'a::len word"
  assumes "LENGTH('a) \<le> 8 * n"
  shows "le_bytes n x = le_bytes n y \<longleftrightarrow> x = y"
  using le_word_le_bytes_full [OF assms] by metis

section \<open>Offsets\<close>

definition loff_bytes :: "loff_t \<Rightarrow> byte list" where
  "loff_bytes x = le_bytes 8 (word_of_int x :: u64)"

definition loff_of :: "byte list \<Rightarrow> loff_t" where
  "loff_of bs = sint (le_word (take 8 bs) :: u64)"

definition loff_range :: "loff_t \<Rightarrow> bool" where
  "loff_range x \<longleftrightarrow> - (2 ^ 63) \<le> x \<and> x < 2 ^ 63"

lemma length_loff_bytes [simp]: "length (loff_bytes x) = 8"
  by (simp add: loff_bytes_def)

lemma loff_of_bytes: "loff_range x \<Longrightarrow> loff_of (loff_bytes x @ bs) = x"
  by (simp add: loff_of_def loff_bytes_def le_word_le_bytes_full loff_range_def
      signed_of_int signed_take_bit_int_eq_self)

end
