(* ===== verification/Radeontool.thy ===== *)
theory Radeontool
  imports Machine Bytes
begin

text \<open>
  The backlight switch of \<open>radeontool.c\<close>, as it is built into \<open>s2ram\<close>: the search for the control
  registers of an ATI card on the PCI bus, their mapping, and the bit of one register that turns the
  panel on. The mapped address is \<open>None\<close> for \<open>NULL\<close>. Messages are left out.
\<close>

section \<open>The register\<close>

definition RADEON_LVDS_GEN_CNTL :: nat where "RADEON_LVDS_GEN_CNTL = 0x02d0"
definition RADEON_LVDS_ON :: u64 where "RADEON_LVDS_ON = 1"

definition radeon_get :: "'w machine \<Rightarrow> nat option \<Rightarrow> nat \<Rightarrow> 'w \<Rightarrow> u64 \<times> 'w" where
  "radeon_get M cntl offset w = (case cntl of None \<Rightarrow> (0, w) | Some mem \<Rightarrow> mc_read64 M (mem + offset) w)"

definition radeon_set :: "'w machine \<Rightarrow> nat option \<Rightarrow> nat \<Rightarrow> u64 \<Rightarrow> 'w \<Rightarrow> 'w" where
  "radeon_set M cntl offset v w = (case cntl of None \<Rightarrow> w | Some mem \<Rightarrow> mc_write64 M (mem + offset) v w)"

definition radeon_cmd_light :: "'w machine \<Rightarrow> nat option \<Rightarrow> bool \<Rightarrow> 'w \<Rightarrow> 'w" where
  "radeon_cmd_light M cntl param w =
     (let (v, w) = radeon_get M cntl RADEON_LVDS_GEN_CNTL w
      in radeon_set M cntl RADEON_LVDS_GEN_CNTL
           (if param then v OR RADEON_LVDS_ON else v AND NOT RADEON_LVDS_ON) w)"

section \<open>Finding the registers\<close>

definition get_conf_long :: "byte list \<Rightarrow> nat \<Rightarrow> u32" where
  "get_conf_long d pos =
     ucast (d ! pos) OR push_bit 8 (ucast (d ! (pos + 1))) OR push_bit 16 (ucast (d ! (pos + 2)))
       OR push_bit 24 (ucast (d ! (pos + 3)))"

definition PCI_BASE_ADDRESS_0 :: nat where "PCI_BASE_ADDRESS_0 = 0x10"

text \<open>The loop over the six regions of a card: the first one in memory of at least 1K and below 1M.
  \<open>base\<close> is an \<open>int\<close>.\<close>

definition radeon_region :: "pci_dev \<Rightarrow> byte list \<Rightarrow> nat \<Rightarrow> bool" where
  "radeon_region dev config i \<longleftrightarrow>
     get_conf_long config (PCI_BASE_ADDRESS_0 + 4 * i) AND 1 = 0
     \<and> 1024 \<le> region_size dev ! i \<and> region_size dev ! i < 1024 * 1024"

definition radeon_base :: "pci_dev \<Rightarrow> byte list \<Rightarrow> int option" where
  "radeon_base dev config =
     map_option (\<lambda>i. sint (word_of_int (base_addr dev ! i) :: u32)) (List.find (radeon_region dev config) [0..<6])"

fun radeon_find :: "'w machine \<Rightarrow> pci_dev list \<Rightarrow> 'w \<Rightarrow> int \<times> 'w" where
  "radeon_find M [] w = (- 1, w)"
| "radeon_find M (dev # devs) w =
     (let (cls, w) = pci_class M dev w
      in if vendor_id dev = 0x1002 \<and> cls = 0x300 then
           (let (config, w) = pci_read_block M dev 64 w
            in case radeon_base dev config of
                 None \<Rightarrow> radeon_find M devs w
               | Some base \<Rightarrow> (base, w))
         else radeon_find M devs w)"

text \<open>The memory for the mapping comes from \<open>malloc\<close>; its contents are mapped over.\<close>

definition map_device_memory :: "'w posix \<Rightarrow> 'w machine \<Rightarrow> int \<Rightarrow> nat \<Rightarrow> 'w \<Rightarrow> nat option \<times> 'w" where
  "map_device_memory P M base len w =
     (let ((mem_fd, errno), w) = sys_open P ''/dev/mem'' O_RDWR w
      in if mem_fd < 0 then (None, w)
         else let (ok, w) = mc_malloc M (len + (mc_pagesize M - 1)) w
         in if \<not> ok then (None, sys_close P mem_fd w)
         else mc_map_device M mem_fd base len w)"

definition map_radeon_cntl_mem :: "'w posix \<Rightarrow> 'w machine \<Rightarrow> 'w \<Rightarrow> nat option \<times> 'w" where
  "map_radeon_cntl_mem P M w =
     (let (ok, w) = mc_malloc M 64 w
      in if \<not> ok then (None, w)
         else let (devs, w) = pci_scan_bus M (pci_alloc M w);
                  (base, w) = radeon_find M devs w;
                  w = pci_cleanup M w
         in if base = - 1 then (None, w) else map_device_memory P M base 0x2000 w)"

text \<open>The program \<open>radeontool\<close>: the exit status. Any argument but \<open>off\<close> switches the light on.\<close>

definition radeontool :: "'w posix \<Rightarrow> 'w machine \<Rightarrow> string list \<Rightarrow> 'w \<Rightarrow> int \<times> 'w" where
  "radeontool P M argv w =
     (let (radeon_cntl_mem, w) = map_radeon_cntl_mem P M w
      in if radeon_cntl_mem = None then (1, w)
         else if length argv = 3 \<and> argv ! 1 = ''light'' then (0, radeon_cmd_light M radeon_cntl_mem (argv ! 2 \<noteq> ''off'') w)
         else (1, w))"

section \<open>Properties\<close>

text \<open>A register that keeps what is written to it.\<close>

definition plain_register :: "'w machine \<Rightarrow> nat \<Rightarrow> ('w \<Rightarrow> u64) \<Rightarrow> bool" where
  "plain_register M a reg \<longleftrightarrow>
     (\<forall>w v w'. mc_read64 M a w = (v, w') \<longrightarrow> v = reg w \<and> reg w' = reg w) \<and>
     (\<forall>v w. reg (mc_write64 M a v w) = v)"

lemma radeon_cmd_light_reg:
  assumes "plain_register M (mem + RADEON_LVDS_GEN_CNTL) reg"
  shows "reg (radeon_cmd_light M (Some mem) on w)
    = (if on then reg w OR RADEON_LVDS_ON else reg w AND NOT RADEON_LVDS_ON)"
proof -
  obtain v w' where r: "mc_read64 M (mem + RADEON_LVDS_GEN_CNTL) w = (v, w')" by fastforce
  moreover have "v = reg w" using assms r unfolding plain_register_def by blast
  moreover have "reg (mc_write64 M (mem + RADEON_LVDS_GEN_CNTL) x w') = x" for x
    using assms unfolding plain_register_def by blast
  ultimately show ?thesis by (simp add: radeon_cmd_light_def radeon_get_def radeon_set_def)
qed

text \<open>
  Switching the panel off and on again changes nothing but the panel bit: afterwards it is set, and
  every other bit of the control register is as it was; in between it is clear.
\<close>

lemma backlight_off_on:
  assumes "plain_register M (mem + RADEON_LVDS_GEN_CNTL) reg"
    and "w1 = radeon_cmd_light M (Some mem) False w" and "w2 = radeon_cmd_light M (Some mem) True w1"
  shows "\<not> bit (reg w1) 0 \<and> reg w2 = set_bit 0 (reg w)"
proof -
  have "reg w1 = reg w AND NOT 1" "reg w2 = reg w1 OR 1"
    unfolding assms(2,3) radeon_cmd_light_reg [OF assms(1)] by (simp_all add: RADEON_LVDS_ON_def)
  moreover have "(x AND NOT 1) OR 1 = x OR 1" for x :: u64
    by (rule bit_eqI) (auto simp: bit_or_iff bit_and_iff bit_not_iff bit_1_iff)
  ultimately show ?thesis by (simp add: set_bit_eq_or bit_and_iff bit_not_iff bit_1_iff)
qed

definition one_register :: "u64 machine" where
  "one_register = idle_machine\<lparr>mc_read64 := (\<lambda>a w. (w, w)), mc_write64 := (\<lambda>a v w. v)\<rparr>"

lemma backlight_off_on_witness:
  "\<not> bit (id (0x80000 :: u64)) 0 \<and> id (0x80001 :: u64) = set_bit 0 (id 0x80001)"
  by (rule backlight_off_on [where M = one_register and mem = 0])
     (simp_all add: plain_register_def one_register_def idle_machine_def radeon_cmd_light_def radeon_get_def
       radeon_set_def RADEON_LVDS_ON_def)

end
