(* ===== verification/Dmi.thy ===== *)
theory Dmi
  imports Machine Bytes "HOL-Library.Monad_Syntax"
begin

text \<open>
  The DMI decoder of \<open>dmidecode.c\<close> as it is built into \<open>s2ram\<close> (its messages are compiled out): the
  scan for the anchor \<open>_DMI_\<close> and the walk through the table it points to, with the strings that end
  up in the four arrays by which machines are recognised. \<open>None\<close> is an access outside the copied
  table or a string that does not fit its array.
\<close>

section \<open>Strings in the table\<close>

definition ITEMSZ :: nat where "ITEMSZ = 1024"

record dmi_info =
  bios_version :: "byte list"
  sys_vendor :: "byte list"
  sys_product :: "byte list"
  sys_version :: "byte list"

definition byte_at :: "byte list \<Rightarrow> nat \<Rightarrow> byte option" where
  "byte_at buf i = (if i < length buf then Some (buf ! i) else None)"

definition string_at :: "byte list \<Rightarrow> nat \<Rightarrow> byte list option" where
  "string_at buf i = (if 0 \<in> set (drop i buf) then Some (c_string (drop i buf)) else None)"

text \<open>The loop \<open>while (s > 1)\<close> of \<open>dmi_string\<close>; \<open>n\<close> is \<open>s - 1\<close>.\<close>

fun skip_strings :: "byte list \<Rightarrow> nat \<Rightarrow> nat \<Rightarrow> nat option" where
  "skip_strings buf 0 bp = Some bp"
| "skip_strings buf (Suc n) bp =
     (case string_at buf bp of None \<Rightarrow> None | Some t \<Rightarrow> skip_strings buf n (bp + length t + 1))"

definition dmi_string :: "byte list \<Rightarrow> nat \<Rightarrow> byte \<Rightarrow> byte list option" where
  "dmi_string buf dm s =
     (if s = 0 then Some []
      else do {
        len \<leftarrow> byte_at buf (dm + 1);
        bp \<leftarrow> skip_strings buf (unat s - 1) (dm + unat len);
        string_at buf bp
      })"

text \<open>\<open>strcpy(item, dmi_string(dm, data[off]))\<close>.\<close>

definition dmi_item :: "byte list \<Rightarrow> nat \<Rightarrow> nat \<Rightarrow> byte list option" where
  "dmi_item buf dm off =
     do {
       s \<leftarrow> byte_at buf (dm + off);
       t \<leftarrow> dmi_string buf dm s;
       if length t < ITEMSZ then Some t else None
     }"

section \<open>The table\<close>

text \<open>The \<open>switch\<close>. Structures of type 0 are read up to byte 17 for the capability flags.\<close>

definition dmi_structure :: "byte list \<Rightarrow> nat \<Rightarrow> dmi_info \<Rightarrow> dmi_info option" where
  "dmi_structure buf data info =
     do {
       ty \<leftarrow> byte_at buf data;
       if ty = 0 then do {
         v \<leftarrow> dmi_item buf data 5;
         u2 \<leftarrow> byte_at buf (data + 17);
         Some (info\<lparr>bios_version := v\<rparr>)
       }
       else if ty = 1 then do {
         v \<leftarrow> dmi_item buf data 4;
         p \<leftarrow> dmi_item buf data 5;
         s \<leftarrow> dmi_item buf data 6;
         Some (info\<lparr>sys_vendor := v, sys_product := p, sys_version := s\<rparr>)
       }
       else Some info
     }"

text \<open>\<open>while(*data || data[1]) data++; data += 2;\<close>\<close>

function skip_structure :: "byte list \<Rightarrow> nat \<Rightarrow> nat option" where
  "skip_structure buf data =
     (if length buf \<le> data then None
      else if buf ! data \<noteq> 0 then skip_structure buf (data + 1)
      else if length buf \<le> data + 1 then None
      else if buf ! (data + 1) \<noteq> 0 then skip_structure buf (data + 1)
      else Some (data + 2))"
  by pat_completeness auto
termination by (relation "measure (\<lambda>(buf, data). length buf - data)") auto

declare skip_structure.simps [simp del]

fun dmi_structures :: "byte list \<Rightarrow> nat \<Rightarrow> nat \<Rightarrow> dmi_info \<Rightarrow> dmi_info option" where
  "dmi_structures buf 0 data info = Some info"
| "dmi_structures buf (Suc n) data info =
     (case dmi_structure buf data info of
        None \<Rightarrow> None
      | Some info \<Rightarrow>
          (case byte_at buf (data + 1) of
             None \<Rightarrow> None
           | Some len \<Rightarrow>
               (case skip_structure buf (data + unat len) of
                  None \<Rightarrow> None
                | Some data \<Rightarrow> dmi_structures buf n data info)))"

definition mem_chunk :: "'w posix \<Rightarrow> 'w machine \<Rightarrow> nat \<Rightarrow> nat \<Rightarrow> 'w \<Rightarrow> byte list option \<times> 'w" where
  "mem_chunk P M base len w =
     (let ((fd, errno), w) = sys_open P ''/dev/mem'' O_RDONLY w
      in if fd = - 1 then (None, w)
         else let (ok, w) = mc_malloc M len w
         in if \<not> ok then (None, w)
         else let mmoffset = base mod mc_pagesize M;
                  (mmp, w) = mc_map_mem M fd (base - mmoffset) (mmoffset + len) w
         in case mmp of
              None \<Rightarrow> (None, w)
            | Some bs \<Rightarrow> (Some (take len (drop mmoffset bs)), sys_close P fd w))"

definition dmi_table ::
  "'w posix \<Rightarrow> 'w machine \<Rightarrow> u32 \<Rightarrow> nat \<Rightarrow> nat \<Rightarrow> dmi_info \<Rightarrow> 'w \<Rightarrow> (dmi_info \<times> 'w) option" where
  "dmi_table P M base len num info w =
     (let (buf, w) = mem_chunk P M (unat base) len w
      in case buf of
           None \<Rightarrow> Some (info, w)
         | Some buf \<Rightarrow> map_option (\<lambda>info. (info, w)) (dmi_structures buf num 0 info))"

text \<open>One step of the loop over the paragraphs of the BIOS segment.\<close>

definition dmi_anchor ::
  "'w posix \<Rightarrow> 'w machine \<Rightarrow> byte list \<Rightarrow> nat \<Rightarrow> dmi_info \<Rightarrow> 'w \<Rightarrow> (dmi_info \<times> 'w) option" where
  "dmi_anchor P M buf fp info w =
     (let cur = drop fp buf
      in if take 5 cur = map of_char ''_DMI_'' then
           dmi_table P M (le_word (take 4 (drop 8 cur))) (unat (le_word (take 2 (drop 6 cur)) :: u16))
             (unat (le_word (take 2 (drop 12 cur)) :: u16)) info w
         else Some (info, w))"

fun dmi_scan_loop ::
  "'w posix \<Rightarrow> 'w machine \<Rightarrow> byte list \<Rightarrow> nat list \<Rightarrow> dmi_info \<Rightarrow> 'w \<Rightarrow> (dmi_info \<times> 'w) option" where
  "dmi_scan_loop P M buf [] info w = Some (info, w)"
| "dmi_scan_loop P M buf (fp # fps) info w =
     (case dmi_anchor P M buf fp info w of
        None \<Rightarrow> None
      | Some (info, w) \<Rightarrow> dmi_scan_loop P M buf fps info w)"

definition dmi_scan :: "'w posix \<Rightarrow> 'w machine \<Rightarrow> dmi_info \<Rightarrow> 'w \<Rightarrow> (dmi_info \<times> 'w) option" where
  "dmi_scan P M info w =
     (let (buf, w) = mem_chunk P M 0xF0000 0x10000 w
      in case buf of
           None \<Rightarrow> Some (info, w)
         | Some buf \<Rightarrow> dmi_scan_loop P M buf (map (\<lambda>i. 16 * i) [0..<0x1000]) info w)"

section \<open>Tables as the standard describes them\<close>

text \<open>
  A structure: its type, what follows the header of four bytes, its strings, none of them empty. On
  the machine the strings come one after the other behind the formatted part, each with a zero byte,
  and one more zero byte (two if there is no string).
\<close>

record dmi_struct =
  ds_type :: byte
  ds_handle :: "byte list"
  ds_body :: "byte list"
  ds_strings :: "byte list list"

definition ds_length :: "dmi_struct \<Rightarrow> nat" where
  "ds_length d = 4 + length (ds_body d)"

definition strings_bytes :: "byte list list \<Rightarrow> byte list" where
  "strings_bytes ss = concat (map (\<lambda>s. s @ [0]) ss)"

definition ds_tail :: "dmi_struct \<Rightarrow> byte list" where
  "ds_tail d = (if ds_strings d = [] then [0, 0] else strings_bytes (ds_strings d) @ [0])"

definition ds_bytes :: "dmi_struct \<Rightarrow> byte list" where
  "ds_bytes d = ds_type d # of_nat (ds_length d) # ds_handle d @ ds_body d @ ds_tail d"

text \<open>The string with a given number; number 0 is no string.\<close>

definition ds_string :: "dmi_struct \<Rightarrow> byte \<Rightarrow> byte list" where
  "ds_string d s = (if s = 0 then [] else ds_strings d ! (unat s - 1))"

definition string_ok :: "dmi_struct \<Rightarrow> byte \<Rightarrow> bool" where
  "string_ok d s \<longleftrightarrow> unat s \<le> length (ds_strings d) \<and> length (ds_string d s) < ITEMSZ"

definition ds_fits :: "dmi_struct \<Rightarrow> bool" where
  "ds_fits d \<longleftrightarrow> ds_length d < 256 \<and> length (ds_handle d) = 2
     \<and> (\<forall>s\<in>set (ds_strings d). s \<noteq> [] \<and> 0 \<notin> set s)"

definition ds_ok :: "dmi_struct \<Rightarrow> bool" where
  "ds_ok d \<longleftrightarrow> ds_fits d
     \<and> (ds_type d = 0 \<longrightarrow> 18 \<le> ds_length d \<and> string_ok d (ds_body d ! 1))
     \<and> (ds_type d = 1 \<longrightarrow> 8 \<le> ds_length d \<and> (\<forall>i<3. string_ok d (ds_body d ! i)))"

text \<open>What a structure says about the machine.\<close>

definition ds_apply :: "dmi_struct \<Rightarrow> dmi_info \<Rightarrow> dmi_info" where
  "ds_apply d info =
     (if ds_type d = 0 then info\<lparr>bios_version := ds_string d (ds_body d ! 1)\<rparr>
      else if ds_type d = 1 then
        info\<lparr>sys_vendor := ds_string d (ds_body d ! 0), sys_product := ds_string d (ds_body d ! 1),
             sys_version := ds_string d (ds_body d ! 2)\<rparr>
      else info)"

lemma strings_bytes_simps [simp]:
  "strings_bytes [] = []" "strings_bytes (s # ss) = s @ 0 # strings_bytes ss"
  by (simp_all add: strings_bytes_def)

lemma string_at_append:
  assumes "0 \<notin> set s" and "length pre = i"
  shows "string_at (pre @ s @ 0 # post) i = Some s"
  using assms c_string_append [OF assms(1)] by (auto simp: string_at_def)

lemma skip_strings_bytes:
  assumes "\<forall>s\<in>set ss. 0 \<notin> set s" and "n \<le> length ss"
  shows "skip_strings (pre @ strings_bytes ss @ post) n (length pre)
    = Some (length pre + length (strings_bytes (take n ss)))"
  using assms
proof (induction n arbitrary: pre ss)
  case (Suc n)
  then obtain s ss' where ss: "ss = s # ss'" by (cases ss) auto
  have "skip_strings ((pre @ s @ [0]) @ strings_bytes ss' @ post) n (length (pre @ s @ [0]))
    = Some (length (pre @ s @ [0]) + length (strings_bytes (take n ss')))"
    by (rule Suc.IH) (use Suc.prems ss in auto)
  moreover have "string_at (pre @ s @ 0 # strings_bytes ss' @ post) (length pre) = Some s"
    by (rule string_at_append) (use Suc.prems ss in auto)
  ultimately show ?case by (simp add: ss)
qed simp

lemma skip_structure_nonzero:
  assumes "0 \<notin> set s" and "length pre = i"
  shows "skip_structure (pre @ s @ post) i = skip_structure (pre @ s @ post) (i + length s)"
  using assms
proof (induction s arbitrary: pre i)
  case (Cons c s)
  have "skip_structure ((pre @ [c]) @ s @ post) (i + 1) = skip_structure ((pre @ [c]) @ s @ post) (i + 1 + length s)"
    by (rule Cons.IH) (use Cons.prems in auto)
  moreover have "skip_structure (pre @ (c # s) @ post) i = skip_structure (pre @ (c # s) @ post) (i + 1)"
    using Cons.prems by (subst skip_structure.simps) (auto simp: nth_append)
  ultimately show ?case by simp
qed simp

lemma skip_structure_strings:
  assumes "ss \<noteq> []" and "\<forall>s\<in>set ss. s \<noteq> [] \<and> 0 \<notin> set s"
  shows "skip_structure (pre @ strings_bytes ss @ 0 # post) (length pre)
    = Some (length pre + length (strings_bytes ss) + 1)"
  using assms
proof (induction ss arbitrary: pre)
  case (Cons s ss)
  let ?buf = "pre @ s @ 0 # strings_bytes ss @ 0 # post"
  have 1: "skip_structure ?buf (length pre) = skip_structure ?buf (length pre + length s)"
    by (rule skip_structure_nonzero) (use Cons.prems in auto)
  show ?case
  proof (cases ss)
    case Nil
    have "skip_structure ?buf (length pre + length s) = Some (length pre + length s + 2)"
      by (subst skip_structure.simps) (simp add: Nil nth_append)
    then show ?thesis using 1 Nil by simp
  next
    case (Cons t ts)
    then obtain c t' where t: "t = c # t'" "c \<noteq> 0" using Cons.prems by (cases t) auto
    have "skip_structure ?buf (length pre + length s) = skip_structure ?buf (length pre + length s + 1)"
      by (subst skip_structure.simps) (simp add: Cons t nth_append)
    moreover have "skip_structure ((pre @ s @ [0]) @ strings_bytes ss @ 0 # post) (length (pre @ s @ [0]))
        = Some (length (pre @ s @ [0]) + length (strings_bytes ss) + 1)"
      by (rule Cons.IH) (use Cons.prems Cons in auto)
    ultimately show ?thesis using 1 by simp
  qed
qed simp

lemma skip_structure_tail:
  assumes "\<forall>s\<in>set (ds_strings d). s \<noteq> [] \<and> 0 \<notin> set s"
  shows "skip_structure (pre @ ds_tail d @ post) (length pre) = Some (length pre + length (ds_tail d))"
proof (cases "ds_strings d = []")
  case True
  then show ?thesis by (subst skip_structure.simps) (simp add: ds_tail_def nth_append)
next
  case False
  then show ?thesis using skip_structure_strings [OF False assms, of pre post] by (simp add: ds_tail_def)
qed

text \<open>A structure inside the table.\<close>

definition struct_at :: "byte list \<Rightarrow> nat \<Rightarrow> dmi_struct \<Rightarrow> bool" where
  "struct_at buf i d \<longleftrightarrow> ds_fits d \<and> (\<exists>pre post. buf = pre @ ds_bytes d @ post \<and> length pre = i)"

lemma struct_atE:
  assumes "struct_at buf i d"
  obtains pre post where "buf = pre @ ds_bytes d @ post" and "length pre = i" and "ds_fits d"
  using assms by (auto simp: struct_at_def)

lemma struct_at_head:
  assumes "struct_at buf i d"
  shows "byte_at buf i = Some (ds_type d)" and "byte_at buf (Suc i) = Some (of_nat (ds_length d))"
    and "unat (of_nat (ds_length d) :: byte) = ds_length d"
  by (rule struct_atE [OF assms]; simp add: byte_at_def ds_bytes_def nth_append ds_fits_def unsigned_of_nat take_bit_nat_eq_self)+

lemma struct_at_body:
  assumes "struct_at buf i d" and "j < length (ds_body d)"
  shows "byte_at buf (i + (j + 4)) = Some (ds_body d ! j)"
  by (rule struct_atE [OF assms(1)])
     (use assms(2) in \<open>auto simp: byte_at_def ds_bytes_def nth_append ds_fits_def numeral_eq_Suc\<close>)

lemma struct_at_tail:
  assumes "struct_at buf i d"
  obtains q post where "buf = q @ ds_tail d @ post" and "length q = i + ds_length d"
    and "length (ds_bytes d) = ds_length d + length (ds_tail d)" and "\<forall>s\<in>set (ds_strings d). s \<noteq> [] \<and> 0 \<notin> set s"
proof (rule struct_atE [OF assms])
  fix pre post
  assume "buf = pre @ ds_bytes d @ post" "length pre = i" "ds_fits d"
  then show thesis
    by (intro that [of "pre @ ds_type d # of_nat (ds_length d) # ds_handle d @ ds_body d" post])
       (auto simp: ds_bytes_def ds_fits_def ds_length_def)
qed

lemma struct_at_skip:
  assumes "struct_at buf i d"
  shows "skip_structure buf (i + ds_length d) = Some (i + length (ds_bytes d))"
proof (rule struct_at_tail [OF assms])
  fix q post
  assume "buf = q @ ds_tail d @ post" "length q = i + ds_length d"
    "length (ds_bytes d) = ds_length d + length (ds_tail d)" "\<forall>s\<in>set (ds_strings d). s \<noteq> [] \<and> 0 \<notin> set s"
  then show ?thesis using skip_structure_tail [of d q post] by simp
qed

lemma struct_at_string:
  assumes at: "struct_at buf i d" and le: "unat s \<le> length (ds_strings d)"
  shows "dmi_string buf i s = Some (ds_string d s)"
proof (cases "s = 0")
  case False
  have "0 < unat s" using False by (simp add: unat_gt_0)
  then have n: "unat s - 1 < length (ds_strings d)" "ds_strings d \<noteq> []" using le by auto
  define t where "t = ds_strings d ! (unat s - 1)"
  have split: "ds_strings d = take (unat s - 1) (ds_strings d) @ t # drop (unat s) (ds_strings d)"
    using n \<open>0 < unat s\<close> id_take_nth_drop [OF n(1)] by (simp add: t_def)
  obtain q post where q: "buf = q @ ds_tail d @ post" "length q = i + ds_length d"
    and z: "\<forall>s\<in>set (ds_strings d). s \<noteq> [] \<and> 0 \<notin> set s" by (rule struct_at_tail [OF at])
  have b: "buf = q @ strings_bytes (ds_strings d) @ 0 # post" using q(1) n(2) by (simp add: ds_tail_def)
  have "skip_strings buf (unat s - 1) (length q) = Some (length q + length (strings_bytes (take (unat s - 1) (ds_strings d))))"
    unfolding b by (rule skip_strings_bytes) (use z n in auto)
  moreover have "string_at buf (length q + length (strings_bytes (take (unat s - 1) (ds_strings d)))) = Some t"
  proof -
    have "buf = (q @ strings_bytes (take (unat s - 1) (ds_strings d))) @ t @ 0 # strings_bytes (drop (unat s) (ds_strings d)) @ 0 # post"
      using b by (subst (asm) split) (simp add: strings_bytes_def)
    moreover have "0 \<notin> set t" using z n(1) by (simp add: t_def)
    ultimately show ?thesis using string_at_append by (metis length_append)
  qed
  ultimately show ?thesis
    using False struct_at_head(2,3) [OF at] q(2) by (simp add: dmi_string_def ds_string_def t_def)
qed (simp add: dmi_string_def ds_string_def)

lemma struct_at_item:
  assumes "struct_at buf i d" and "j < length (ds_body d)" and "string_ok d (ds_body d ! j)"
  shows "dmi_item buf i (j + 4) = Some (ds_string d (ds_body d ! j))"
  using assms struct_at_body [OF assms(1,2)] struct_at_string [OF assms(1), of "ds_body d ! j"]
  by (simp add: dmi_item_def string_ok_def)

lemma struct_at_structure:
  assumes at: "struct_at buf i d" and ok: "ds_ok d"
  shows "dmi_structure buf i info = Some (ds_apply d info)"
proof -
  note head = struct_at_head [OF at] and item = struct_at_item [OF at]
  consider (bios) "ds_type d = 0" | (system) "ds_type d = 1" | (other) "ds_type d \<noteq> 0" "ds_type d \<noteq> 1" by blast
  then show ?thesis
  proof cases
    case bios
    then have "13 < length (ds_body d)" "string_ok d (ds_body d ! 1)" using ok by (auto simp: ds_ok_def ds_length_def)
    then show ?thesis using bios head struct_at_body [OF at, of 13] item [of 1]
      by (simp add: dmi_structure_def ds_apply_def)
  next
    case system
    then have "3 < length (ds_body d)" "ds_body d \<noteq> []" "\<forall>i<3. string_ok d (ds_body d ! i)"
      using ok by (auto simp: ds_ok_def ds_length_def)
    then show ?thesis using system head item [of 0] item [of 1] item [of 2]
      by (simp add: dmi_structure_def ds_apply_def)
  qed (use head in \<open>simp add: dmi_structure_def ds_apply_def\<close>)
qed

lemma dmi_structures_bytes:
  assumes "\<forall>d\<in>set ds. ds_ok d"
  shows "dmi_structures (pre @ concat (map ds_bytes ds) @ post) (length ds) (length pre) info = Some (fold ds_apply ds info)"
  using assms
proof (induction ds arbitrary: pre info)
  case (Cons d ds)
  have "struct_at (pre @ concat (map ds_bytes (d # ds)) @ post) (length pre) d"
    using Cons.prems unfolding struct_at_def
    by (intro conjI exI [of _ pre] exI [of _ "concat (map ds_bytes ds) @ post"]) (auto simp: ds_ok_def)
  note at = struct_at_head [OF this] struct_at_skip [OF this] struct_at_structure [OF this, of info]
  show ?case
    using Cons.IH [of "pre @ ds_bytes d" "ds_apply d info"] Cons.prems at by simp
qed simp

section \<open>Properties\<close>

text \<open>Physical memory, as \<open>/dev/mem\<close> shows it.\<close>

definition shows_memory :: "'w posix \<Rightarrow> 'w machine \<Rightarrow> (nat \<Rightarrow> byte) \<Rightarrow> bool" where
  "shows_memory P M mem \<longleftrightarrow>
     0 < mc_pagesize M \<and>
     (\<forall>w. fst (fst (sys_open P ''/dev/mem'' O_RDONLY w)) \<noteq> - 1) \<and>
     (\<forall>n w. fst (mc_malloc M n w)) \<and>
     (\<forall>fd base n w. fst (mc_map_mem M fd base n w) = Some (map mem [base..<base + n]))"

lemma mem_chunk_memory:
  assumes "shows_memory P M mem"
  obtains w' where "mem_chunk P M base len w = (Some (map mem [base..<base + len]), w')"
proof -
  obtain fd x w1 where 1: "sys_open P ''/dev/mem'' O_RDONLY w = ((fd, x), w1)" by (metis surj_pair)
  obtain b w2 where 2: "mc_malloc M len w1 = (b, w2)" by fastforce
  let ?o = "base mod mc_pagesize M"
  obtain r w3 where 3: "mc_map_mem M fd (base - ?o) (?o + len) w2 = (r, w3)" by fastforce
  have "fd \<noteq> - 1" "b" using assms 1 2 unfolding shows_memory_def by (metis fst_conv)+
  moreover have "r = Some (map mem [base - ?o..<base - ?o + (?o + len)])"
    using assms 3 unfolding shows_memory_def by (metis fst_conv)
  moreover have "?o \<le> base" by simp
  ultimately have "mem_chunk P M base len w = (Some (map mem [base..<base + len]), sys_close P fd w3)"
    using 1 2 3 by (simp add: mem_chunk_def Let_def drop_map take_map)
  then show thesis by (rule that)
qed

lemma dmi_scan_loop_none:
  assumes "\<forall>fp\<in>set fps. take 5 (drop fp buf) \<noteq> map of_char ''_DMI_''"
  shows "dmi_scan_loop P M buf (fps @ fps') info w = dmi_scan_loop P M buf fps' info w"
  using assms by (induction fps) (auto simp: dmi_anchor_def)

lemma upt_split: "i < n \<Longrightarrow> [0..<n] = [0..<i] @ i # [Suc i..<n]"
  using upt_add_eq_append [of 0 i "n - i"] by (simp add: upt_conv_Cons)

lemma dmi_scan_loop_one:
  assumes "i < n" and "\<forall>j<n. take 5 (drop (16 * j) buf) = map of_char ''_DMI_'' \<longleftrightarrow> j = i"
    and "dmi_anchor P M buf (16 * i) info w = Some (info', w')"
  shows "dmi_scan_loop P M buf (map (\<lambda>i. 16 * i) [0..<n]) info w = Some (info', w')"
proof -
  have "dmi_scan_loop P M buf (map (\<lambda>i. 16 * i) [Suc i..<n] @ []) info' w' = dmi_scan_loop P M buf [] info' w'"
    by (rule dmi_scan_loop_none) (use assms(2) in auto)
  moreover have "dmi_scan_loop P M buf (map (\<lambda>i. 16 * i) [0..<i] @ 16 * i # map (\<lambda>i. 16 * i) [Suc i..<n]) info w
      = dmi_scan_loop P M buf (16 * i # map (\<lambda>i. 16 * i) [Suc i..<n]) info w"
    by (rule dmi_scan_loop_none) (use assms(1,2) in auto)
  ultimately show ?thesis using assms(3) upt_split [OF assms(1)] by simp
qed

lemma memory_at:
  "i + n \<le> len \<Longrightarrow> take n (drop i (map mem [base..<base + len])) = map mem [base + i..<base + i + n]"
  by (simp add: drop_map take_map add.assoc)

text \<open>The entry point: the anchor, a checksum, the length, the address and the number of structures.\<close>

definition dmi_entry :: "byte \<Rightarrow> u16 \<Rightarrow> u32 \<Rightarrow> u16 \<Rightarrow> byte list" where
  "dmi_entry c len base num = map of_char ''_DMI_'' @ [c] @ le_bytes 2 len @ le_bytes 4 base @ le_bytes 2 num"

lemma dmi_entry_fields:
  assumes "take 14 cur = dmi_entry c len base num"
  shows "take 5 cur = map of_char ''_DMI_''" and "le_word (take 2 (drop 6 cur)) = len"
    and "le_word (take 4 (drop 8 cur)) = base" and "le_word (take 2 (drop 12 cur)) = num"
proof -
  have "take 5 cur = take 5 (take 14 cur)" "take 2 (drop 6 cur) = take 2 (drop 6 (take 14 cur))"
    "take 4 (drop 8 cur) = take 4 (drop 8 (take 14 cur))" "take 2 (drop 12 cur) = take 2 (drop 12 (take 14 cur))"
    by (simp_all add: drop_take min_def)
  moreover have "length (dmi_entry c len base num) = 14" by (simp add: dmi_entry_def)
  ultimately show "take 5 cur = map of_char ''_DMI_''" "le_word (take 2 (drop 6 cur)) = len"
    "le_word (take 4 (drop 8 cur)) = base" "le_word (take 2 (drop 12 cur)) = num"
    unfolding assms by (simp_all add: dmi_entry_def le_word_le_bytes_full)
qed

text \<open>
  C40: \<open>dmi_scan\<close> finds out what the firmware says about the machine. If exactly one paragraph of the
  BIOS segment holds an entry point, and the memory it points to holds well-formed structures, then
  the four arrays end up with the strings of the last BIOS and the last system structure, and no
  access leaves the copied table.
\<close>

theorem dmi_scan_identifies:
  assumes mem: "shows_memory P M mem"
    and i: "i < 0x1000" "\<forall>j<0x1000. map mem [0xF0000 + 16 * j..<0xF0000 + 16 * j + 5] = map of_char ''_DMI_'' \<longleftrightarrow> j = i"
    and entry: "map mem [0xF0000 + 16 * i..<0xF0000 + 16 * i + 14] = dmi_entry c len base num"
    and tab: "map mem [unat base..<unat base + unat len] = concat (map ds_bytes ds) @ rest"
    and num: "unat num = length ds" and ok: "\<forall>d\<in>set ds. ds_ok d"
  shows "\<exists>w'. dmi_scan P M info w = Some (fold ds_apply ds info, w')"
proof -
  obtain w1 where 1: "mem_chunk P M 0xF0000 0x10000 w = (Some (map mem [0xF0000..<0xF0000 + 0x10000]), w1)"
    by (rule mem_chunk_memory [OF mem])
  obtain w2 where 2: "mem_chunk P M (unat base) (unat len) w1 = (Some (map mem [unat base..<unat base + unat len]), w2)"
    by (rule mem_chunk_memory [OF mem])
  define buf where "buf = map mem [0xF0000..<0xF0000 + 0x10000]"
  have at: "take n (drop (16 * j) buf) = map mem [0xF0000 + 16 * j..<0xF0000 + 16 * j + n]"
    if "j < 0x1000" "n \<le> 16" for j n
    unfolding buf_def by (rule memory_at) (use that in linarith)
  have "take 14 (drop (16 * i) buf) = dmi_entry c len base num" using at [of i 14] i(1) entry by simp
  note fields = dmi_entry_fields [OF this]
  have "dmi_structures (concat (map ds_bytes ds) @ rest) (length ds) 0 info = Some (fold ds_apply ds info)"
    using dmi_structures_bytes [OF ok, of "[]" rest info] by simp
  then have anchor: "dmi_anchor P M buf (16 * i) info w1 = Some (fold ds_apply ds info, w2)"
    unfolding dmi_anchor_def Let_def fields if_P [OF fields(1)] by (simp add: dmi_table_def 2 tab num)
  have one: "\<forall>j<0x1000. take 5 (drop (16 * j) buf) = map of_char ''_DMI_'' \<longleftrightarrow> j = i"
    using i(2) at [of _ 5] by simp
  have "dmi_scan_loop P M buf (map (\<lambda>i. 16 * i) [0..<0x1000]) info w1 = Some (fold ds_apply ds info, w2)"
    by (rule dmi_scan_loop_one [OF i(1) one anchor])
  then have "dmi_scan P M info w = Some (fold ds_apply ds info, w2)"
    by (simp only: dmi_scan_def 1 Let_def prod.case option.case buf_def)
  then show ?thesis ..
qed

text \<open>
  A string of 1024 bytes or more overruns its array: the decoder copies the vendor string of the
  first system structure with \<open>strcpy\<close>, whatever its length.
\<close>

lemma dmi_long_string_overruns:
  assumes "ds_type d = 1" and "ds_fits d" and "ds_body d \<noteq> []" and "ds_body d ! 0 = 1"
    and "ds_strings d \<noteq> []" and "ITEMSZ \<le> length (ds_strings d ! 0)"
  shows "dmi_structures (ds_bytes d @ rest) (Suc n) 0 info = None"
proof -
  have at: "struct_at (ds_bytes d @ rest) 0 d"
    using assms(2) unfolding struct_at_def by (intro conjI exI [of _ "[]"] exI [of _ rest]) auto
  have "dmi_string (ds_bytes d @ rest) 0 1 = Some (ds_strings d ! 0)"
    using struct_at_string [OF at, of 1] assms(5) by (cases "ds_strings d") (auto simp: ds_string_def)
  then have "dmi_item (ds_bytes d @ rest) 0 4 = None"
    using struct_at_body [OF at, of 0] assms by (simp add: dmi_item_def)
  then show ?thesis using struct_at_head(1) [OF at] assms(1) by (simp add: dmi_structure_def)
qed

lemma dmi_long_string_overruns_witness:
  "dmi_structures (ds_bytes \<lparr>ds_type = 1, ds_handle = [1, 0], ds_body = [1, 0, 0, 0], ds_strings = [replicate 1024 65]\<rparr> @ [])
     (Suc 0) 0 \<lparr>bios_version = [], sys_vendor = [], sys_product = [], sys_version = []\<rparr> = None"
  by (rule dmi_long_string_overruns) (simp_all add: ds_fits_def ds_length_def ITEMSZ_def)

section \<open>A small machine\<close>

definition toy_structures :: "dmi_struct list" where
  "toy_structures =
     [\<lparr>ds_type = 0, ds_handle = [0, 0], ds_body = [1, 2, 0, 0, 0, 0, 0, 0, 0, 0, 0, 0, 0, 0],
       ds_strings = map (map of_char) [''IBM'', ''1.04'']\<rparr>,
      \<lparr>ds_type = 1, ds_handle = [1, 0], ds_body = [1, 2, 0, 0],
       ds_strings = map (map of_char) [''IBM'', ''2373'']\<rparr>]"

definition toy_table :: "byte list" where
  "toy_table = concat (map ds_bytes toy_structures)"

definition toy_entry :: "byte list" where
  "toy_entry = dmi_entry 0 (of_nat (length toy_table)) 0x1000 2"

definition toy_memory :: "nat \<Rightarrow> byte" where
  "toy_memory a =
     (if 0x1000 \<le> a \<and> a < 0x1000 + length toy_table then toy_table ! (a - 0x1000)
      else if 0xF0000 \<le> a \<and> a < 0xF0000 + length toy_entry then toy_entry ! (a - 0xF0000) else 0)"

definition toy_machine :: "unit machine" where
  "toy_machine = idle_machine\<lparr>mc_map_mem := (\<lambda>fd b n w. (Some (map toy_memory [b..<b + n]), w))\<rparr>"

lemma toy_shows_memory: "shows_memory idle_posix toy_machine toy_memory"
  by (simp add: shows_memory_def idle_posix_def toy_machine_def idle_machine_def)

lemma toy_lengths: "length toy_table = 46" "length toy_entry = 14"
  by (simp_all add: toy_table_def toy_structures_def ds_bytes_def ds_length_def ds_tail_def strings_bytes_def
      toy_entry_def dmi_entry_def)

lemma toy_table_in_memory: "n = length toy_table \<Longrightarrow> map toy_memory [0x1000..<0x1000 + n] = toy_table"
  by (rule nth_equalityI) (simp_all add: toy_memory_def)

lemma toy_entry_in_memory: "n \<le> 14 \<Longrightarrow> map toy_memory [0xF0000..<0xF0000 + n] = take n toy_entry"
  by (rule nth_equalityI) (simp_all add: toy_lengths toy_memory_def)

lemma toy_no_other_anchor: "0 < j \<Longrightarrow> map toy_memory [0xF0000 + 16 * j..<0xF0000 + 16 * j + 5] \<noteq> map of_char ''_DMI_''"
proof
  assume "0 < j" and eq: "map toy_memory [0xF0000 + 16 * j..<0xF0000 + 16 * j + 5] = map of_char ''_DMI_''"
  have "toy_memory (0xF0000 + 16 * j) = hd (map toy_memory [0xF0000 + 16 * j..<0xF0000 + 16 * j + 5])"
    by (simp add: upt_conv_Cons)
  also have "\<dots> \<noteq> 0" unfolding eq by simp
  finally show False using \<open>0 < j\<close> by (simp add: toy_memory_def toy_lengths)
qed

lemma dmi_scan_identifies_witness:
  "\<exists>w'. dmi_scan idle_posix toy_machine \<lparr>bios_version = [], sys_vendor = [], sys_product = [], sys_version = []\<rparr> ()
    = Some (fold ds_apply toy_structures \<lparr>bios_version = [], sys_vendor = [], sys_product = [], sys_version = []\<rparr>, w')"
proof (rule dmi_scan_identifies [OF toy_shows_memory, where i = 0 and c = 0 and len = 46 and base = "0x1000" and num = 2
      and rest = "[]"])
  show "\<forall>j<0x1000. (map toy_memory [0xF0000 + 16 * j..<0xF0000 + 16 * j + 5] = map of_char ''_DMI_'') = (j = 0)"
  proof (intro allI impI iffI)
    fix j :: nat
    assume "map toy_memory [0xF0000 + 16 * j..<0xF0000 + 16 * j + 5] = map of_char ''_DMI_''"
    then show "j = 0" using toy_no_other_anchor by blast
  next
    fix j :: nat
    assume "j = 0"
    then show "map toy_memory [0xF0000 + 16 * j..<0xF0000 + 16 * j + 5] = map of_char ''_DMI_''"
      using toy_entry_in_memory [of 5] by (simp add: toy_entry_def dmi_entry_def)
  qed
  show "map toy_memory [0xF0000 + 16 * 0..<0xF0000 + 16 * 0 + 14] = dmi_entry 0 46 0x1000 2"
    using toy_entry_in_memory [of 14] toy_lengths by (simp add: toy_entry_def)
  show "map toy_memory [unat (0x1000::u32)..<unat (0x1000::u32) + unat (46::u16)] = concat (map ds_bytes toy_structures) @ []"
    using toy_table_in_memory [OF toy_lengths(1) [symmetric]] by (simp add: toy_table_def [symmetric])
  show "\<forall>d\<in>set toy_structures. ds_ok d"
    by (simp add: toy_structures_def ds_ok_def ds_fits_def ds_length_def string_ok_def ds_string_def ITEMSZ_def
        numeral_3_eq_3 All_less_Suc)
qed (simp_all add: toy_structures_def)

end
