(* ===== verification/Config_Parser.thy ===== *)
theory Config_Parser
  imports C_String
begin

text \<open>
  The configuration parser of \<open>config_parser.c\<close>, with the parameter tables of \<open>suspend.c\<close>,
  \<open>resume.c\<close> and \<open>s2ram.c\<close>. The variables that the tables point to are names, their values a map. The messages
  are left out.
\<close>

section \<open>Parameters\<close>

datatype format = Fmt_s | Fmt_d | Fmt_lu | Fmt_llu | Fmt_c

text \<open>What a variable holds: a character array (up to its first zero), a number or a character.\<close>

datatype cvalue = Str "byte list" | Num int | Chr byte

datatype cvar =
    Snapshot_dev_name | Resume_dev_name | Resume_offset | Pref_image_size | Suspend_loglevel
  | Max_loglevel | Compute_checksum | Do_compress | Do_encrypt | Key_name | Early_writeout
  | Splash_param | Shutdown_method_value | Fbsplash_theme | Resume_pause | Test_file_name
  | Verify_image | Use_threads | S2ram_force | S2ram_quirks

type_synonym config = "cvar \<Rightarrow> cvalue option"

record config_par =
  cp_name :: "byte list"
  cp_fmt :: format
  cp_ptr :: "cvar option"   \<comment> \<open>\<open>None\<close> is \<open>NULL\<close>\<close>
  cp_len :: nat

abbreviation bytes_of :: "string \<Rightarrow> byte list" where
  "bytes_of s \<equiv> map of_char s"

abbreviation par :: "string \<Rightarrow> format \<Rightarrow> cvar option \<Rightarrow> nat \<Rightarrow> config_par" where
  "par n f p l \<equiv> \<lparr>cp_name = bytes_of n, cp_fmt = f, cp_ptr = p, cp_len = l\<rparr>"

definition MAX_STR_LEN :: nat where "MAX_STR_LEN = 256"
definition SHUTDOWN_LEN :: nat where "SHUTDOWN_LEN = 16"

text \<open>The table of \<open>suspend.c\<close>, with all options compiled in.\<close>

definition suspend_parameters :: "config_par list" where
  "suspend_parameters =
     [par ''snapshot device'' Fmt_s (Some Snapshot_dev_name) MAX_STR_LEN,
      par ''resume device'' Fmt_s (Some Resume_dev_name) MAX_STR_LEN,
      par ''resume offset'' Fmt_llu (Some Resume_offset) 0,
      par ''image size'' Fmt_lu (Some Pref_image_size) 0,
      par ''suspend loglevel'' Fmt_d (Some Suspend_loglevel) 0,
      par ''max loglevel'' Fmt_d None 0,
      par ''compute checksum'' Fmt_c (Some Compute_checksum) 0,
      par ''compress'' Fmt_c (Some Do_compress) 0,
      par ''encrypt'' Fmt_c (Some Do_encrypt) 0,
      par ''RSA key file'' Fmt_s (Some Key_name) MAX_STR_LEN,
      par ''early writeout'' Fmt_c (Some Early_writeout) 0,
      par ''splash'' Fmt_c (Some Splash_param) 0,
      par ''shutdown method'' Fmt_s (Some Shutdown_method_value) SHUTDOWN_LEN,
      par ''fbsplash theme'' Fmt_s (Some Fbsplash_theme) MAX_STR_LEN,
      par ''resume pause'' Fmt_d (Some Resume_pause) 0,
      par ''debug test file'' Fmt_s (Some Test_file_name) MAX_STR_LEN,
      par ''debug verify image'' Fmt_c (Some Verify_image) 0,
      par ''threads'' Fmt_c (Some Use_threads) 0]"

definition resume_parameters :: "config_par list" where
  "resume_parameters =
     [par ''snapshot device'' Fmt_s (Some Snapshot_dev_name) MAX_STR_LEN,
      par ''resume device'' Fmt_s (Some Resume_dev_name) MAX_STR_LEN,
      par ''resume offset'' Fmt_llu (Some Resume_offset) 0,
      par ''suspend loglevel'' Fmt_d (Some Suspend_loglevel) 0,
      par ''max loglevel'' Fmt_d (Some Max_loglevel) 0,
      par ''image size'' Fmt_lu None 0,
      par ''compute checksum'' Fmt_c None 0,
      par ''compress'' Fmt_c None 0,
      par ''encrypt'' Fmt_c None 0,
      par ''RSA key file'' Fmt_s None 0,
      par ''early writeout'' Fmt_c None 0,
      par ''splash'' Fmt_c (Some Splash_param) 0,
      par ''shutdown method'' Fmt_s None 0,
      par ''fbsplash theme'' Fmt_s (Some Fbsplash_theme) MAX_STR_LEN,
      par ''resume pause'' Fmt_d None 0,
      par ''threads'' Fmt_c None 0,
      par ''debug test file'' Fmt_s None 0,
      par ''debug verify image'' Fmt_c None 0,
      par ''threads'' Fmt_c None 0]"

text \<open>The table of \<open>s2ram.c\<close>, which reads the same file.\<close>

definition s2ram_parameters :: "config_par list" where
  "s2ram_parameters =
     [par ''s2ram_force'' Fmt_c (Some S2ram_force) 0,
      par ''s2ram_quirks'' Fmt_s (Some S2ram_quirks) MAX_STR_LEN]"

section \<open>Parsing\<close>

text \<open>The value of a non-empty string: \<open>strncpy\<close> or \<open>sscanf\<close>, \<open>None\<close> if nothing is converted.\<close>

definition convert :: "config_par \<Rightarrow> byte list \<Rightarrow> cvalue option" where
  "convert p s =
     (case cp_fmt p of
        Fmt_s \<Rightarrow> Some (Str (take (cp_len p - 1) s))
      | Fmt_c \<Rightarrow> Some (Chr (s ! 0))
      | Fmt_d \<Rightarrow> map_option (\<lambda>x. Num (int_of_32 x)) (scan_number s)
      | _ \<Rightarrow> map_option (\<lambda>x. Num (int_of_64 x)) (scan_number s))"

text \<open>\<open>end = str + strlen(str); while (end > str && isspace(*--end)) *end = 0;\<close>\<close>

definition strip_end :: "byte list \<Rightarrow> byte list" where
  "strip_end s = rev (dropWhile isspace (rev s))"

text \<open>The loop over the parameters. If nothing follows the sign, it goes on with the rest of the
  table.\<close>

fun parse_params :: "config_par list \<Rightarrow> byte list \<Rightarrow> config \<Rightarrow> int \<times> config" where
  "parse_params [] str env = (0, env)"
| "parse_params (p # ps) str env =
     (if take (length (cp_name p)) str = cp_name p then
        (case cp_ptr p of
           None \<Rightarrow> (0, env)
         | Some v \<Rightarrow>
             (let str = dropWhile isblank (drop (length (cp_name p)) str)
              in if str = [] \<or> (str ! 0 \<noteq> 58 \<and> str ! 0 \<noteq> 61) then (- EINVAL, env)
                 else let str = strip_end (dropWhile isblank (drop 1 str))
                 in if str \<noteq> [] then
                      (case convert p str of
                         None \<Rightarrow> (- EINVAL, env)
                       | Some x \<Rightarrow> (0, env(v \<mapsto> x)))
                    else parse_params ps str env))
      else parse_params ps str env)"

definition parse_line :: "config_par list \<Rightarrow> byte list \<Rightarrow> config \<Rightarrow> int \<times> config" where
  "parse_line parv str env =
     (let str = dropWhile isspace (c_string str)
      in if str = [] \<or> str ! 0 = 35 then (0, env) else parse_params parv str env)"

text \<open>The \<open>do ... while (!error)\<close> loop on what is left of the file; the second result is the number
  of the last line read.\<close>

function parse_lines :: "config_par list \<Rightarrow> byte list \<Rightarrow> nat \<Rightarrow> config \<Rightarrow> int \<times> nat \<times> config" where
  "parse_lines parv input i env =
     (if input = [] then (0, i, env)
      else let (buf, rest) = fgets MAX_STR_LEN [] input;
               (error, env) = parse_line parv buf env
           in if error \<noteq> 0 then (error, i + 1, env) else parse_lines parv rest (i + 1) env)"
  by pat_completeness auto
termination
proof (relation "measure (\<lambda>(parv, input, i, env). length input)", goal_cases)
  case (2 parv input i env r buf rest)
  have "line_prefix (MAX_STR_LEN - 1) input \<noteq> []"
    using 2(1) by (simp add: line_prefix_Nil MAX_STR_LEN_def)
  then show ?case using 2 by (auto simp: fgets_def Let_def)
qed simp

declare parse_lines.simps [simp del]

text \<open>\<open>file\<close> is the contents of the file, or the \<open>errno\<close> of \<open>fopen\<close>.\<close>

definition parse :: "int + byte list \<Rightarrow> config_par list \<Rightarrow> config \<Rightarrow> int \<times> config" where
  "parse file parv env =
     (case file of
        Inl errno \<Rightarrow> (- errno, env)
      | Inr contents \<Rightarrow> (let (error, i, env) = parse_lines parv contents 0 env in (error, env)))"


section \<open>Usage and version\<close>

text \<open>
  What \<open>usage\<close> and \<open>version\<close> print. The name of an option holds a zero byte with the description behind it; the
  list does not contain the option without a name that ends the array. The strings of the package come from
  \<open>config.h\<close>.
\<close>

record cli_option =
  op_name :: "byte list"
  op_has_arg :: bool
  op_val :: int

definition usage_line :: "byte list \<Rightarrow> cli_option \<Rightarrow> byte list" where
  "usage_line short_options opt =
     (let name = c_string (op_name opt);
          descr = c_string (drop (strlen (op_name opt) + 1) (op_name opt));
          val = word_of_int (op_val opt) :: byte
      in (if val \<in> set (c_string short_options @ [0])
          then 10 # map of_char ''  -'' @ [val] @ map of_char '', --'' @ name
          else 10 # map of_char ''  --'' @ name)
         @ (if op_has_arg opt then map of_char '' <'' @ name @ map of_char ''>'' else [])
         @ (if descr \<noteq> [] then 9 # descr else []))"

definition usage :: "byte list \<Rightarrow> cli_option list \<Rightarrow> byte list \<Rightarrow> byte list" where
  "usage my_name options short_options =
     map of_char ''Usage: '' @ c_string my_name @ map of_char '' [options]'' @ concat (map (usage_line short_options) options) @ [10]"

definition version :: "byte list \<Rightarrow> byte list \<Rightarrow> byte list \<Rightarrow> byte list \<Rightarrow> byte list option \<Rightarrow> byte list" where
  "version PACKAGE_NAME PACKAGE_VERSION CONFIG_FEATURES my_name extra_version =
     c_string my_name @ map of_char '' ('' @ PACKAGE_NAME @ map of_char '') '' @ PACKAGE_VERSION @ [32]
     @ (case extra_version of None \<Rightarrow> [] | Some v \<Rightarrow> c_string v) @ [10, 10]
     @ map of_char ''FEATURES: '' @ CONFIG_FEATURES @ [10, 10]
     @ map of_char ''This is free software.  You may redistribute copies of it under the terms of'' @ [10]
     @ map of_char ''the GNU General Public License <http://www.gnu.org/licenses/gpl.html>.'' @ [10]
     @ map of_char ''There is NO WARRANTY, to the extent permitted by law.'' @ [10]"

section \<open>Properties\<close>

text \<open>A setting as the documentation writes it, one per line.\<close>

definition setting_line :: "config_par \<Rightarrow> byte list \<Rightarrow> byte list" where
  "setting_line p s = cp_name p @ [32, 61, 32] @ s"

definition name_ok :: "config_par \<Rightarrow> bool" where
  "name_ok p \<longleftrightarrow> cp_name p \<noteq> [] \<and> \<not> isspace (cp_name p ! 0) \<and> cp_name p ! 0 \<noteq> 35 \<and> last (cp_name p) \<noteq> 32
     \<and> 0 \<notin> set (cp_name p) \<and> 10 \<notin> set (cp_name p) \<and> 61 \<notin> set (cp_name p)"

text \<open>No parameter hides a later one: its name is not the beginning of the later name.\<close>

fun apart :: "config_par list \<Rightarrow> bool" where
  "apart [] \<longleftrightarrow> True"
| "apart (p # ps) \<longleftrightarrow> (\<forall>q\<in>set ps. cp_ptr q \<noteq> None \<longrightarrow> take (length (cp_name p)) (cp_name q) \<noteq> cp_name p) \<and> apart ps"

definition value_ok :: "config_par \<Rightarrow> byte list \<Rightarrow> bool" where
  "value_ok p s \<longleftrightarrow> s \<noteq> [] \<and> \<not> isblank (s ! 0) \<and> \<not> isspace (last s) \<and> 0 \<notin> set s \<and> 10 \<notin> set s
     \<and> length (setting_line p s) < MAX_STR_LEN - 1 \<and> convert p s \<noteq> None"

definition assign :: "config_par \<Rightarrow> byte list \<Rightarrow> config \<Rightarrow> config" where
  "assign p s env = env(the (cp_ptr p) \<mapsto> the (convert p s))"

lemma name_prefix:
  assumes q: "take (length q) (n @ 32 # 61 # r) = q" and "q \<noteq> []" "last q \<noteq> 32" "61 \<notin> set q"
  shows "take (length q) n = q"
proof -
  consider "length q \<le> length n" | "length q = length n + 1" | "length n + 2 \<le> length q" by linarith
  then show ?thesis
  proof cases
    case 2
    then have "q = n @ [32]" using q by simp
    then show ?thesis using assms(3) by simp
  next
    case 3
    then obtain m where m: "length q = length n + 2 + m" by (auto simp: le_iff_add)
    have "take (length q) (n @ 32 # 61 # r) = n @ 32 # 61 # take m r" unfolding m by simp
    then have "61 \<in> set (take (length q) (n @ 32 # 61 # r))" by simp
    then show ?thesis unfolding q using assms(4) by simp
  qed (use q in simp)
qed

lemma parse_params_setting:
  assumes "p \<in> set ps" and "\<forall>q\<in>set ps. name_ok q" and "apart ps" and "cp_ptr p \<noteq> None"
    and v: "s \<noteq> []" "\<not> isblank (s ! 0)" "\<not> isspace (last s)" "convert p s \<noteq> None" and t: "\<forall>c\<in>set t. isspace c"
  shows "parse_params ps (setting_line p s @ t) env = (0, assign p s env)"
  using assms(1-3)
proof (induction ps)
  case (Cons q ps)
  have q: "cp_name q \<noteq> []" "last (cp_name q) \<noteq> 32" "61 \<notin> set (cp_name q)"
    using Cons.prems(2) by (auto simp: name_ok_def)
  let ?l = "cp_name p @ 32 # 61 # 32 # s @ t"
  show ?case
  proof (cases "take (length (cp_name q)) ?l = cp_name q")
    case False
    then have "p \<noteq> q" by auto
    then show ?thesis using Cons False by (simp add: setting_line_def)
  next
    case True
    then have pre: "take (length (cp_name q)) (cp_name p) = cp_name q" using name_prefix q by blast
    then have "p = q" using Cons.prems(1,3) assms(4) by auto
    have b: "isblank 32" "\<not> isblank 61" by (simp_all add: isblank_def)
    have d: "dropWhile isblank (32 # s @ t) = s @ t" using v(1,2) b(1) by (cases s) auto
    have "dropWhile isspace (rev s) = rev s" using v(1,3) by (cases s rule: rev_cases) auto
    then have e: "strip_end (s @ t) = s"
      using t by (simp add: strip_end_def dropWhile_append)
    obtain x where "convert p s = Some x" using v(4) by auto
    moreover obtain y where "cp_ptr p = Some y" using assms(4) by auto
    ultimately show ?thesis using \<open>p = q\<close> d e v(1) b by (simp add: setting_line_def assign_def fun_upd_def)
  qed
qed simp

lemma parse_line_setting:
  assumes "p \<in> set parv" and "\<forall>q\<in>set parv. name_ok q" and "apart parv" and "cp_ptr p \<noteq> None"
    and "value_ok p s"
  shows "parse_line parv (setting_line p s @ [10, 0]) env = (0, assign p s env)"
proof -
  have n: "name_ok p" using assms(1,2) by blast
  let ?l = "setting_line p s @ [10]"
  have "0 \<notin> set ?l" using n assms(5) by (auto simp: name_ok_def value_ok_def setting_line_def)
  from c_string_append [OF this, of "[]"] have 1: "c_string (setting_line p s @ [10, 0]) = ?l" by simp
  obtain c cs where "cp_name p = c # cs" using n by (cases "cp_name p") (auto simp: name_ok_def)
  then have 2: "dropWhile isspace ?l = ?l" "?l \<noteq> []" "?l ! 0 \<noteq> 35"
    using n by (auto simp: name_ok_def setting_line_def)
  have "parse_params parv ?l env = (0, assign p s env)"
    using assms by (intro parse_params_setting) (auto simp: value_ok_def isspace_def)
  then show ?thesis using 1 2 by (simp add: parse_line_def)
qed

lemma suspend_parameters_ok: "(\<forall>q\<in>set suspend_parameters. name_ok q) \<and> apart suspend_parameters"
  by code_simp

lemma resume_parameters_ok: "(\<forall>q\<in>set resume_parameters. name_ok q) \<and> apart resume_parameters"
  by code_simp

lemma parse_lines_settings:
  assumes "\<forall>q\<in>set parv. name_ok q" and "apart parv"
    and "\<forall>(p, s)\<in>set xs. p \<in> set parv \<and> cp_ptr p \<noteq> None \<and> value_ok p s"
  shows "parse_lines parv (concat (map (\<lambda>(p, s). setting_line p s @ [10]) xs)) i env
    = (0, i + length xs, fold (\<lambda>(p, s). assign p s) xs env)"
  using assms(3)
proof (induction xs arbitrary: i env)
  case Nil
  then show ?case by (simp add: parse_lines.simps)
next
  case (Cons x xs)
  obtain p s where x: "x = (p, s)" by fastforce
  have ps: "p \<in> set parv" "cp_ptr p \<noteq> None" "value_ok p s" using Cons.prems x by auto
  have n: "name_ok p" using ps(1) assms(1) by blast
  have "10 \<notin> set (setting_line p s)" "length (setting_line p s) + 1 < MAX_STR_LEN"
    using n ps(3) by (auto simp: setting_line_def name_ok_def value_ok_def)
  note f = fgets_line [OF this, of "[]"]
  show ?case
    using Cons.IH Cons.prems x f parse_line_setting [OF ps(1) assms(1,2) ps(2,3)]
    by (subst parse_lines.simps) simp
qed

text \<open>
  C24: What the documentation says a configuration file means. For both tables: a file of lines
  \<open>name = value\<close>, for parameters the tool has a variable for and values that convert, none of them
  too long for the line buffer, is parsed without an error, and leaves in the variables exactly the
  converted values, the last one where a parameter is set twice; no parameter name is taken for
  another one.
\<close>

theorem config_file_sets_parameters:
  assumes "parv = suspend_parameters \<or> parv = resume_parameters"
    and "\<forall>(p, s)\<in>set xs. p \<in> set parv \<and> cp_ptr p \<noteq> None \<and> value_ok p s"
  shows "parse (Inr (concat (map (\<lambda>(p, s). setting_line p s @ [10]) xs))) parv env
    = (0, fold (\<lambda>(p, s). assign p s) xs env)"
  using assms(1) parse_lines_settings [OF _ _ assms(2), of 0 env] suspend_parameters_ok resume_parameters_ok
  by (auto simp: parse_def)

lemma config_file_sets_parameters_witness:
  "parse (Inr (concat (map (\<lambda>(p, s). setting_line p s @ [10])
      [(par ''resume device'' Fmt_s (Some Resume_dev_name) MAX_STR_LEN, bytes_of ''/dev/sda2''),
       (par ''resume offset'' Fmt_llu (Some Resume_offset) 0, decimal 4096)]))) suspend_parameters Map.empty
    = (0, fold (\<lambda>(p, s). assign p s)
      [(par ''resume device'' Fmt_s (Some Resume_dev_name) MAX_STR_LEN, bytes_of ''/dev/sda2''),
       (par ''resume offset'' Fmt_llu (Some Resume_offset) 0, decimal 4096)] Map.empty)"
  by (rule config_file_sets_parameters)
     (simp_all add: suspend_parameters_def value_ok_def setting_line_def MAX_STR_LEN_def convert_def
       scan_number_def isdigit_def decimal.simps isblank_def isspace_def)

text \<open>
  Numbers come back as they were written: the line \<open>resume offset = n\<close>, with \<open>n\<close> in decimal and
  below \<open>2 ^ 63\<close>, sets the offset to \<open>n\<close>, in both tools.
\<close>

lemma config_number_roundtrip:
  assumes "parv = suspend_parameters \<or> parv = resume_parameters" and "n < 2 ^ 63"
  shows "parse_line parv (bytes_of ''resume offset'' @ bytes_of '' = '' @ decimal n @ [10, 0]) env
    = (0, env(Resume_offset \<mapsto> Num (int n)))"
proof -
  let ?p = "par ''resume offset'' Fmt_llu (Some Resume_offset) 0"
  have p: "?p \<in> set parv" using assms(1) by (auto simp: suspend_parameters_def resume_parameters_def)
  have ok: "(\<forall>q\<in>set parv. name_ok q) \<and> apart parv"
    using assms(1) suspend_parameters_ok resume_parameters_ok by auto
  have c: "convert ?p (decimal n) = Some (Num (int n))"
    using assms(2) by (simp add: convert_def scan_number_decimal int_of_64_def signed_of_int
        signed_take_bit_int_eq_self)
  have "n < 10 ^ Suc 18" using assms(2) by simp
  from length_decimal [OF this] have len: "length (decimal n) \<le> 19" by simp
  have "\<forall>c\<in>set (decimal n). \<not> isblank c \<and> \<not> isspace c \<and> c \<noteq> 0 \<and> c \<noteq> 10"
    using decimal_digits [of n] by (auto dest: isdigit_not)
  then have "value_ok ?p (decimal n)"
    using len c by (auto simp: value_ok_def setting_line_def MAX_STR_LEN_def)
  from parse_line_setting [OF p _ _ _ this, of env] show ?thesis
    using ok c by (simp add: setting_line_def assign_def)
qed

lemma config_number_roundtrip_witness:
  "parse_line resume_parameters (bytes_of ''resume offset'' @ bytes_of '' = '' @ decimal 34816 @ [10, 0]) Map.empty
    = (0, Map.empty(Resume_offset \<mapsto> Num (int 34816)))"
  by (rule config_number_roundtrip) simp_all

text \<open>
  The parser always comes to an end, and it stops at the first error: the value of a malformed
  line is the error of the whole file, the lines behind it are not looked at, and the settings in
  front of it stay in force.
\<close>

lemma config_error_stops:
  assumes "parv = suspend_parameters \<or> parv = resume_parameters"
    and "\<forall>(p, s)\<in>set xs. p \<in> set parv \<and> cp_ptr p \<noteq> None \<and> value_ok p s"
    and "10 \<notin> set bad" and "length bad + 1 < MAX_STR_LEN" and "e \<noteq> 0"
    and "parse_line parv (bad @ [10, 0]) (fold (\<lambda>(p, s). assign p s) xs env) = (e, env')"
  shows "parse (Inr (concat (map (\<lambda>(p, s). setting_line p s @ [10]) xs) @ bad @ [10] @ rest)) parv env = (e, env')"
proof -
  have "(\<forall>q\<in>set parv. name_ok q) \<and> apart parv"
    using assms(1) suspend_parameters_ok resume_parameters_ok by auto
  then have ok: "\<forall>q\<in>set parv. name_ok q" "apart parv" by auto
  have "\<exists>i'. parse_lines parv (concat (map (\<lambda>(p, s). setting_line p s @ [10]) xs) @ bad @ [10] @ rest) i env = (e, i', env')"
    for i
    using assms(2,6)
  proof (induction xs arbitrary: i env)
    case Nil
    then show ?case using fgets_line [OF assms(3,4), of "[]" rest] assms(5)
      by (subst parse_lines.simps) simp
  next
    case (Cons x xs)
    obtain p s where x: "x = (p, s)" by fastforce
    have ps: "p \<in> set parv" "cp_ptr p \<noteq> None" "value_ok p s" using Cons.prems x by auto
    have n: "name_ok p" using ps(1) ok by blast
    have "10 \<notin> set (setting_line p s)" "length (setting_line p s) + 1 < MAX_STR_LEN"
      using n ps(3) by (auto simp: setting_line_def name_ok_def value_ok_def)
    note f = fgets_line [OF this, of "[]"]
    show ?case
      using Cons.IH [of "assign p s env" "i + 1"] Cons.prems x f parse_line_setting [OF ps(1) ok ps(2,3), of env]
      by (subst parse_lines.simps) simp
  qed
  from this [of 0] show ?thesis by (auto simp: parse_def)
qed

lemma config_error_stops_witness:
  "parse (Inr (concat (map (\<lambda>(p, s). setting_line p s @ [10])
      [(par ''compress'' Fmt_c (Some Do_compress) 0, bytes_of ''y'')]) @ bytes_of ''splash y'' @ [10] @ [1, 2, 3]))
      suspend_parameters Map.empty = (- EINVAL, Map.empty(Do_compress \<mapsto> Chr 121))"
  by (rule config_error_stops)
     (simp_all add: suspend_parameters_def value_ok_def setting_line_def MAX_STR_LEN_def convert_def
       isblank_def isspace_def assign_def parse_line_def c_string_def)

end
