(* ===== verification/S2ram.thy ===== *)
theory S2ram
  imports Vt Radeontool Dmi Config_Parser
begin

text \<open>
  Suspending to RAM: \<open>s2ram-x86.c\<close> (the whitelist of machines and the quirks before and after),
  \<open>s2ram.c\<close> (kernel mode setting, the quirks of the configuration file, \<open>/sys/power/state\<close>) and the
  program of \<open>s2ram-main.c\<close>. The whitelist, which the build generates, is a parameter; messages are
  left out. \<open>None\<close> is the overrun of \<open>Dmi\<close>.
\<close>

section \<open>State\<close>

definition S3_BIOS :: u32 where "S3_BIOS = 0x01"
definition S3_MODE :: u32 where "S3_MODE = 0x02"
definition VBE_SAVE :: u32 where "VBE_SAVE = 0x04"
definition VBE_POST :: u32 where "VBE_POST = 0x08"
definition RADEON_OFF :: u32 where "RADEON_OFF = 0x10"
definition UNSURE :: u32 where "UNSURE = 0x20"
definition NOFB :: u32 where "NOFB = 0x40"
definition VBE_MODE :: u32 where "VBE_MODE = 0x80"
definition PCI_SAVE :: u32 where "PCI_SAVE = 0x100"

definition S2RAM_OK :: int where "S2RAM_OK = 0"
definition S2RAM_FAIL :: int where "S2RAM_FAIL = 1"
definition S2RAM_NOFB :: int where "S2RAM_NOFB = 126"
definition S2RAM_UNKNOWN :: int where "S2RAM_UNKNOWN = 127"

lemmas flag_defs = S3_BIOS_def S3_MODE_def VBE_SAVE_def VBE_POST_def RADEON_OFF_def UNSURE_def NOFB_def
  VBE_MODE_def PCI_SAVE_def

record machine_entry =
  me_vendor :: "byte list"
  me_product :: "byte list"
  me_version :: "byte list"
  me_bios :: "byte list"
  me_flags :: u32

text \<open>The static and global variables, that of \<open>radeontool.c\<close> included.\<close>

record s2ram_state =
  dmi :: dmi_info
  dmi_scanned :: bool
  quirks :: u32
  force :: bool
  fb_nosuspend :: bool
  no_kms_flag :: bool
  vbe_buffer :: "int option"
  vbe_mode :: int
  vga_pci_state :: "byte list"
  vga_dev :: "pci_dev option"
  radeon_cntl_mem :: "nat option"

definition has_quirk :: "s2ram_state \<Rightarrow> u32 \<Rightarrow> bool" where
  "has_quirk st q \<longleftrightarrow> quirks st AND q \<noteq> 0"

definition add_quirk :: "u32 \<Rightarrow> s2ram_state \<Rightarrow> s2ram_state" where
  "add_quirk q st = st\<lparr>quirks := quirks st OR q\<rparr>"

section \<open>The whitelist\<close>

text \<open>A trailing star stands for anything; the empty string matches always.\<close>

definition match :: "byte list \<Rightarrow> byte list \<Rightarrow> bool" where
  "match t s =
     (let len = length s
      in if len = 0 then True
         else if s ! (len - 1) = 42 then take (len - 1) t = take (len - 1) s
         else t = s)"

definition entry_matches :: "dmi_info \<Rightarrow> machine_entry \<Rightarrow> bool" where
  "entry_matches d e \<longleftrightarrow>
     match (sys_vendor d) (me_vendor e) \<and> match (sys_product d) (me_product e) \<and>
     match (sys_version d) (me_version e) \<and> match (bios_version d) (me_bios e)"

fun match_loop :: "dmi_info \<Rightarrow> nat \<Rightarrow> machine_entry list \<Rightarrow> int" where
  "match_loop d i [] = - 1"
| "match_loop d i (e # es) = (if entry_matches d e then int i else match_loop d (i + 1) es)"

definition scan_once :: "'w posix \<Rightarrow> 'w machine \<Rightarrow> s2ram_state \<Rightarrow> 'w \<Rightarrow> (s2ram_state \<times> 'w) option" where
  "scan_once P M st w =
     (if dmi_scanned st then Some (st, w)
      else map_option (\<lambda>(d, w). (st\<lparr>dmi := d, dmi_scanned := True\<rparr>, w)) (dmi_scan P M (dmi st) w))"

definition machine_match ::
  "'w posix \<Rightarrow> 'w machine \<Rightarrow> machine_entry list \<Rightarrow> s2ram_state \<Rightarrow> 'w \<Rightarrow> (int \<times> s2ram_state \<times> 'w) option" where
  "machine_match P M W st w =
     map_option (\<lambda>(st, w). (match_loop (dmi st) 0 W, st, w)) (scan_once P M st w)"

text \<open>\<open>identify_machine\<close> prints the four strings.\<close>

definition identify_machine :: "'w posix \<Rightarrow> 'w machine \<Rightarrow> s2ram_state \<Rightarrow> 'w \<Rightarrow> (s2ram_state \<times> 'w) option" where
  "identify_machine P M st w = scan_once P M st w"

definition s2ram_check ::
  "'w machine \<Rightarrow> machine_entry list \<Rightarrow> int \<Rightarrow> s2ram_state \<Rightarrow> 'w \<Rightarrow> int \<times> s2ram_state \<times> 'w" where
  "s2ram_check M W i st w =
     (if i < 0 then (S2RAM_UNKNOWN, st, w)
      else let st = st\<lparr>quirks := me_flags (W ! nat i)\<rparr>;
               (fb, w) = (if has_quirk st NOFB then is_framebuffer M w else (False, w))
           in (if has_quirk st NOFB \<and> fb then S2RAM_NOFB else S2RAM_OK, st, w))"

definition machine_known ::
  "'w posix \<Rightarrow> 'w machine \<Rightarrow> machine_entry list \<Rightarrow> s2ram_state \<Rightarrow> 'w \<Rightarrow> (int \<times> s2ram_state \<times> 'w) option" where
  "machine_known P M W st w =
     do {
       (i, st, w) \<leftarrow> machine_match P M W st w;
       if i < 0 then map_option (\<lambda>(st, w). (1, st, w)) (identify_machine P M st w)
       else do {
         let (r, st, w) = s2ram_check M W i st w;
         (st, w) \<leftarrow> identify_machine P M st w;
         Some (sint (quirks st AND UNSURE), st, w)
       }
     }"

definition s2ram_is_supported ::
  "'w posix \<Rightarrow> 'w machine \<Rightarrow> machine_entry list \<Rightarrow> s2ram_state \<Rightarrow> 'w \<Rightarrow> (int \<times> s2ram_state \<times> 'w) option" where
  "s2ram_is_supported P M W st w =
     (if force st then Some (0, st, w)
      else if quirks st \<noteq> 0 then Some (EINVAL, st, w)
      else map_option (\<lambda>(i, st, w). s2ram_check M W i st w) (machine_match P M W st w))"

section \<open>The quirks\<close>

definition acpi_file :: string where "acpi_file = ''/proc/sys/kernel/acpi_video_flags''"

definition set_acpi_video_mode :: "'w machine \<Rightarrow> u32 \<Rightarrow> 'w \<Rightarrow> int \<times> 'w" where
  "set_acpi_video_mode M mode w =
     (let (ok, w) = mc_fopen M acpi_file False w
      in if \<not> ok then (S2RAM_FAIL, w)
         else let (old, w) = mc_scan_long M acpi_file w
         in case old of
              None \<Rightarrow> (S2RAM_FAIL, w)
            | Some old \<Rightarrow>
                (let (r, w) = mc_fclose M acpi_file w;
                     (ok, w) = mc_fopen M acpi_file True w
                 in if \<not> ok then (S2RAM_FAIL, w)
                    else let new = old AND (NOT 0 - ucast S3_BIOS - ucast S3_MODE);
                             w = mc_print_long M acpi_file (new OR scast mode) w;
                             (r, w) = mc_fclose M acpi_file w
                         in (S2RAM_OK, w)))"

text \<open>\<open>snprintf\<close> cuts the name of the file after 254 characters.\<close>

definition state_file :: "byte list \<Rightarrow> byte list" where
  "state_file n = take 254 (map of_char ''/sys/class/graphics/'' @ n @ map of_char ''/state'')"

fun fbcon_entries :: "'w machine \<Rightarrow> int \<Rightarrow> byte list list \<Rightarrow> 'w \<Rightarrow> 'w" where
  "fbcon_entries M state [] w = w"
| "fbcon_entries M state (n # ns) w =
     (if take 1 n = [46] then fbcon_entries M state ns w
      else let (ok, w) = mc_access M (state_file n) True w
           in fbcon_entries M state ns (if ok then mc_write_state M (state_file n) state w else w))"

definition fbcon_state :: "'w machine \<Rightarrow> int \<Rightarrow> 'w \<Rightarrow> 'w" where
  "fbcon_state M state w =
     (let (r, w) = mc_readdir M ''/sys/class/graphics'' w
      in case r of Inl e \<Rightarrow> w | Inr ns \<Rightarrow> fbcon_entries M state ns w)"

definition suspend_fbcon :: "'w machine \<Rightarrow> 'w \<Rightarrow> 'w" where "suspend_fbcon M w = fbcon_state M 1 w"
definition resume_fbcon :: "'w machine \<Rightarrow> 'w \<Rightarrow> 'w" where "resume_fbcon M w = fbcon_state M 0 w"

fun first_vga :: "'w machine \<Rightarrow> pci_dev list \<Rightarrow> 'w \<Rightarrow> pci_dev option \<times> 'w" where
  "first_vga M [] w = (None, w)"
| "first_vga M (d # ds) w =
     (let (c, w) = pci_class M d w in if c = 0x300 then (Some d, w) else first_vga M ds w)"

definition find_vga :: "'w machine \<Rightarrow> s2ram_state \<Rightarrow> 'w \<Rightarrow> bool \<times> s2ram_state \<times> 'w" where
  "find_vga M st w =
     (let (ds, w) = pci_scan_bus M w;
          (d, w) = first_vga M ds w
      in case d of None \<Rightarrow> (False, st, w) | Some d \<Rightarrow> (True, st\<lparr>vga_dev := Some d\<rparr>, w))"

definition save_vga_pci :: "'w machine \<Rightarrow> s2ram_state \<Rightarrow> 'w \<Rightarrow> s2ram_state \<times> 'w" where
  "save_vga_pci M st w =
     (case vga_dev st of
        None \<Rightarrow> (st, w)
      | Some d \<Rightarrow> (let (bs, w) = pci_read_block M d 256 w in (st\<lparr>vga_pci_state := bs\<rparr>, w)))"

definition restore_vga_pci :: "'w machine \<Rightarrow> s2ram_state \<Rightarrow> 'w \<Rightarrow> 'w" where
  "restore_vga_pci M st w = (case vga_dev st of None \<Rightarrow> w | Some d \<Rightarrow> pci_write_block M d (vga_pci_state st) w)"

definition hack_vbe_save :: "'w machine \<Rightarrow> s2ram_state \<Rightarrow> 'w \<Rightarrow> s2ram_state \<times> 'w" where
  "hack_vbe_save M st w =
     (if has_quirk st VBE_SAVE
      then (let (b, w) = vbe_save_state M (vbetool_init M w) in (st\<lparr>vbe_buffer := b\<rparr>, w)) else (st, w))"

definition hack_vbe_mode :: "'w machine \<Rightarrow> s2ram_state \<Rightarrow> 'w \<Rightarrow> s2ram_state \<times> 'w" where
  "hack_vbe_mode M st w =
     (if has_quirk st VBE_MODE
      then (let (m, w) = vbe_get_mode M (vbetool_init M w) in (st\<lparr>vbe_mode := m\<rparr>, w)) else (st, w))"

definition hack_radeon :: "'w posix \<Rightarrow> 'w machine \<Rightarrow> s2ram_state \<Rightarrow> 'w \<Rightarrow> s2ram_state \<times> 'w" where
  "hack_radeon P M st w =
     (if has_quirk st RADEON_OFF
      then (let (a, w) = map_radeon_cntl_mem P M w in (st\<lparr>radeon_cntl_mem := a\<rparr>, radeon_cmd_light M a False w))
      else (st, w))"

definition hack_pci :: "'w machine \<Rightarrow> s2ram_state \<Rightarrow> 'w \<Rightarrow> bool \<times> s2ram_state \<times> 'w" where
  "hack_pci M st w =
     (if has_quirk st PCI_SAVE
      then (let (found, st, w) = find_vga M st (pci_alloc M w)
            in if found then (True, save_vga_pci M st w) else (False, st, w))
      else (True, st, w))"

definition s2ram_hacks :: "'w posix \<Rightarrow> 'w machine \<Rightarrow> s2ram_state \<Rightarrow> 'w \<Rightarrow> int \<times> s2ram_state \<times> 'w" where
  "s2ram_hacks P M st w =
     (let (r, w) = set_acpi_video_mode M (quirks st AND (S3_BIOS OR S3_MODE)) w
      in if r \<noteq> 0 then (r, st, w)
         else let (st, w) = hack_vbe_save M st w;
                  (st, w) = hack_vbe_mode M st w;
                  (st, w) = hack_radeon P M st w;
                  (ok, st, w) = hack_pci M st w
              in if \<not> ok then (1, st, w)
                 else (0, st, if fb_nosuspend st then w else suspend_fbcon M w))"

definition s2ram_resume :: "'w machine \<Rightarrow> s2ram_state \<Rightarrow> 'w \<Rightarrow> 'w" where
  "s2ram_resume M st w =
     (let w = (if has_quirk st PCI_SAVE then pci_cleanup M (restore_vga_pci M st w) else w);
          w = (if has_quirk st VBE_POST then vbe_do_post M (vbetool_init M w) else w);
          w = (case vbe_buffer st of None \<Rightarrow> w | Some b \<Rightarrow> vbe_restore_state M b (vbetool_init M w));
          w = (if 0 \<le> vbe_mode st then vbe_set_mode M (vbe_mode st) (vbetool_init M w) else w);
          w = (if fb_nosuspend st then w else resume_fbcon M w)
      in if has_quirk st RADEON_OFF then radeon_cmd_light M (radeon_cntl_mem st) True w else w)"

section \<open>Options and configuration\<close>

text \<open>\<open>optarg\<close> is the argument of the option, if it has one.\<close>

definition atoi :: "byte list \<Rightarrow> int" where
  "atoi s = (case scan_number s of None \<Rightarrow> 0 | Some x \<Rightarrow> int_of_32 x)"

definition s2ram_add_flag :: "int \<Rightarrow> byte list \<Rightarrow> s2ram_state \<Rightarrow> s2ram_state" where
  "s2ram_add_flag opt optarg st =
     (if opt = 1 \<or> opt = 102 then st\<lparr>force := True\<rparr>
      else if opt = 2 \<or> opt = 115 then add_quirk VBE_SAVE st
      else if opt = 3 \<or> opt = 112 then add_quirk VBE_POST st
      else if opt = 4 \<or> opt = 109 then add_quirk VBE_MODE st
      else if opt = 5 \<or> opt = 114 then add_quirk RADEON_OFF st
      else if opt = 6 \<or> opt = 118 then add_quirk PCI_SAVE st
      else if opt = 7 \<or> opt = 97 then add_quirk (word_of_int (atoi optarg) AND (S3_BIOS OR S3_MODE)) st
      else if opt = 8 then st\<lparr>fb_nosuspend := True\<rparr>
      else if opt = 9 \<or> opt = 107 then st\<lparr>no_kms_flag := True\<rparr>
      else st)"

definition tolower :: "byte \<Rightarrow> byte" where
  "tolower c = (if 65 \<le> c \<and> c \<le> 90 then c + 32 else c)"

text \<open>\<open>strstr(s, sub) != NULL\<close>.\<close>

fun has_substring :: "byte list \<Rightarrow> byte list \<Rightarrow> bool" where
  "has_substring sub [] \<longleftrightarrow> sub = []"
| "has_substring sub (c # cs) \<longleftrightarrow> take (length sub) (c # cs) = sub \<or> has_substring sub cs"

definition quirk_if :: "byte list \<Rightarrow> string \<Rightarrow> u32 \<Rightarrow> s2ram_state \<Rightarrow> s2ram_state" where
  "quirk_if s name q st = (if has_substring (bytes_of name) s then add_quirk q st else st)"

definition s2ram_add_quirks :: "byte list \<Rightarrow> s2ram_state \<Rightarrow> s2ram_state" where
  "s2ram_add_quirks s st =
     (let s = map tolower s;
          st = quirk_if s ''vbe_post'' VBE_POST st;
          st = quirk_if s ''vbe_save'' VBE_SAVE st;
          st = quirk_if s ''vbe_mode'' VBE_MODE st;
          st = quirk_if s ''radeon_off'' RADEON_OFF st;
          st = quirk_if s ''pci_save'' PCI_SAVE st;
          st = quirk_if s ''s3_bios'' S3_BIOS st;
          st = quirk_if s ''s3_mode'' S3_MODE st
      in if has_substring (bytes_of ''fb_nosuspend'') s then st\<lparr>fb_nosuspend := True\<rparr> else st)"

definition s2ram_check_kms :: "'w machine \<Rightarrow> 'w \<Rightarrow> int \<times> 'w" where
  "s2ram_check_kms M w =
     (let (r, w) = mc_readdir M ''/sys/class/drm'' w
      in case r of
           Inl e \<Rightarrow> (e, w)
         | Inr names \<Rightarrow> (if \<exists>n\<in>set names. take 6 n = bytes_of ''card0-'' then 0 else - ENOENT, w))"

definition state_name :: string where "state_name = ''/sys/power/state''"

definition s2ram_generic_do :: "'w machine \<Rightarrow> 'w \<Rightarrow> int \<times> 'w" where
  "s2ram_generic_do M w =
     (let (ok, w) = mc_fopen M state_name True w
      in if \<not> ok then (ENODEV, w)
         else let ((n, errno), w) = mc_print M state_name (bytes_of ''mem'') w;
                  ret = (if n < 0 then errno else 0);
                  ((c, errno), w) = mc_fclose M state_name w
              in (if c < 0 then errno else ret, w))"

text \<open>The configuration file: \<open>None\<close> if \<open>stat\<close> does not find it, otherwise what \<open>fopen\<close> gives. The
  result is the return value and the state.\<close>

definition get_s2ram_config :: "(int + byte list) option \<Rightarrow> s2ram_state \<Rightarrow> int \<times> s2ram_state" where
  "get_s2ram_config conf st =
     (case conf of
        None \<Rightarrow> (- ENOENT, st)
      | Some file \<Rightarrow>
          (let (error, env) = parse file s2ram_parameters [S2ram_force \<mapsto> Chr 0, S2ram_quirks \<mapsto> Str []]
           in if error \<noteq> 0 then (error, st)
              else if env S2ram_force = Some (Chr 121) then
                (let st = st\<lparr>force := True\<rparr>
                 in (0, case env S2ram_quirks of
                          Some (Str q) \<Rightarrow> if q \<noteq> [] then s2ram_add_quirks q st else st
                        | _ \<Rightarrow> st))
              else (- 1, st)))"

section \<open>The program\<close>

text \<open>
  The options as \<open>getopt_long\<close> returns them. \<open>Inl\<close> is the exit status of an option that ends the
  program: \<open>-h\<close>, \<open>-V\<close>, \<open>-i\<close>, \<open>-n\<close>, \<open>-K\<close> and a wrong one.
\<close>

fun s2ram_options ::
  "'w posix \<Rightarrow> 'w machine \<Rightarrow> machine_entry list \<Rightarrow> (int \<times> byte list) list \<Rightarrow> s2ram_state \<Rightarrow> 'w \<Rightarrow>
   (int option \<times> s2ram_state \<times> 'w) option" where
  "s2ram_options P M W [] st w = Some (None, st, w)"
| "s2ram_options P M W ((opt, optarg) # opts) st w =
     (if opt = 104 \<or> opt = 86 then Some (Some 0, st, w)
      else if opt = 105 then map_option (\<lambda>(st, w). (Some 0, st, w)) (identify_machine P M st w)
      else if opt = 110 then map_option (\<lambda>(r, st, w). (Some r, st, w)) (machine_known P M W st w)
      else if opt = 75 then (let (r, w) = s2ram_check_kms M w in Some (Some r, st, w))
      else if opt = 63 then Some (Some 1, st, w)
      else s2ram_options P M W opts (s2ram_add_flag opt optarg st) w)"

text \<open>From the switch to the first console to the end.\<close>

definition s2ram_out :: "'w posix \<Rightarrow> 'w machine \<Rightarrow> int \<Rightarrow> 'w \<Rightarrow> 'w" where
  "s2ram_out P M active_console w = (if 0 < active_console then snd (chvt P M active_console w) else w)"

definition s2ram_suspend :: "'w posix \<Rightarrow> 'w machine \<Rightarrow> s2ram_state \<Rightarrow> 'w \<Rightarrow> int \<times> s2ram_state \<times> 'w" where
  "s2ram_suspend P M st w =
     (let (active_console, w) = fgconsole P w;
          (b, w) = chvt P M 1 w;
          (ret, st, w) = s2ram_hacks P M st w
      in if ret \<noteq> 0 then (ret, st, s2ram_out P M active_console w)
         else let (ret, w) = s2ram_generic_do M w;
                  w = s2ram_resume M st w
              in (ret, st, s2ram_out P M active_console w))"

text \<open>Without kernel mode setting: the configuration file, else the whitelist.\<close>

definition s2ram_quirky ::
  "'w posix \<Rightarrow> 'w machine \<Rightarrow> machine_entry list \<Rightarrow> (int + byte list) option \<Rightarrow> s2ram_state \<Rightarrow> 'w \<Rightarrow>
   (int \<times> s2ram_state \<times> 'w) option" where
  "s2ram_quirky P M W conf st w =
     (let (ret, st) = get_s2ram_config conf st
      in if ret \<noteq> 0 then do {
           (ret, st, w) \<leftarrow> s2ram_is_supported P M W st w;
           if ret = S2RAM_UNKNOWN then map_option (\<lambda>(st, w). (ret, st, w)) (identify_machine P M st w)
           else if ret \<noteq> 0 then Some (ret, st, w)
           else Some (s2ram_suspend P M st w)
         }
         else Some (s2ram_suspend P M st w))"

definition s2ram_main ::
  "'w posix \<Rightarrow> 'w machine \<Rightarrow> machine_entry list \<Rightarrow> (int + byte list) option \<Rightarrow> (int \<times> byte list) list \<Rightarrow> s2ram_state \<Rightarrow>
   'w \<Rightarrow> (int \<times> s2ram_state \<times> 'w) option" where
  "s2ram_main P M W conf opts st w =
     do {
       (status, st, w) \<leftarrow> s2ram_options P M W opts st w;
       case status of
         Some r \<Rightarrow> Some (r, st, w)
       | None \<Rightarrow>
           if no_kms_flag st then s2ram_quirky P M W conf st w
           else let (r, w) = s2ram_check_kms M w
                in if r = 0 then (let (r, w) = s2ram_generic_do M w in Some (r, st, w))
                   else s2ram_quirky P M W conf st w
     }"

section \<open>Which machine\<close>

text \<open>What the patterns of the whitelist mean.\<close>

definition fits :: "byte list \<Rightarrow> byte list \<Rightarrow> bool" where
  "fits t s \<longleftrightarrow> s = [] \<or> (\<exists>p q. s = p @ [42] \<and> t = p @ q) \<or> last s \<noteq> 42 \<and> t = s"

definition recognised :: "dmi_info \<Rightarrow> machine_entry \<Rightarrow> bool" where
  "recognised d e \<longleftrightarrow>
     fits (sys_vendor d) (me_vendor e) \<and> fits (sys_product d) (me_product e) \<and>
     fits (sys_version d) (me_version e) \<and> fits (bios_version d) (me_bios e)"

lemma match_fits: "match t s \<longleftrightarrow> fits t s"
proof (cases s rule: rev_cases)
  case (snoc p c)
  have "take (length p) t = p \<longleftrightarrow> (\<exists>q. t = p @ q)" by (metis append_eq_conv_conj append_take_drop_id)
  then show ?thesis by (auto simp: snoc match_def fits_def)
qed (simp add: match_def fits_def)

lemma match_loop_cases:
  "match_loop d i W = - 1 \<and> (\<forall>e\<in>set W. \<not> recognised d e)
   \<or> (\<exists>j<length W. match_loop d i W = int (i + j) \<and> recognised d (W ! j) \<and> (\<forall>k<j. \<not> recognised d (W ! k)))"
proof (induction W arbitrary: i)
  case (Cons e W)
  have m: "entry_matches d e \<longleftrightarrow> recognised d e"
    by (simp add: entry_matches_def recognised_def match_fits)
  show ?case
  proof (cases "recognised d e")
    case False
    from Cons.IH [of "i + 1"] show ?thesis
    proof (elim disjE exE conjE)
      fix j
      assume j: "j < length W" "match_loop d (i + 1) W = int (i + 1 + j)" "recognised d (W ! j)"
        "\<forall>k<j. \<not> recognised d (W ! k)"
      have "\<forall>k<Suc j. \<not> recognised d ((e # W) ! k)" using j(4) False by (auto simp: nth_Cons split: nat.split)
      then show ?thesis using j False m by (intro disjI2 exI [of _ "Suc j"]) simp
    qed (use False m in simp)
  qed (use m in \<open>auto intro!: exI [of _ 0]\<close>)
qed simp

text \<open>
  The whitelist is read from the top: \<open>machine_match\<close> gives the first entry all four of whose
  patterns fit the strings of the machine, and -1 just when there is none.
\<close>

lemma machine_match_first:
  assumes "machine_match P M W st w = Some (i, st', w')"
  shows "i = - 1 \<and> (\<forall>e\<in>set W. \<not> recognised (dmi st') e)
    \<or> (\<exists>j<length W. i = int j \<and> recognised (dmi st') (W ! j) \<and> (\<forall>k<j. \<not> recognised (dmi st') (W ! k)))"
  using assms match_loop_cases [of "dmi st'" 0 W] by (auto simp: machine_match_def)

section \<open>What the quirks leave behind\<close>

text \<open>The number in the file of the ACPI video flags.\<close>

definition acpi_flags_file :: "'w machine \<Rightarrow> ('w \<Rightarrow> u64) \<Rightarrow> bool" where
  "acpi_flags_file M v \<longleftrightarrow>
     (\<forall>n b w. v (snd (mc_fopen M n b w)) = v w) \<and>
     (\<forall>n w. v (snd (mc_fclose M n w)) = v w) \<and>
     (\<forall>w x w'. mc_scan_long M acpi_file w = (Some x, w') \<longrightarrow> x = v w \<and> v w' = v w) \<and>
     (\<forall>x w. v (mc_print_long M acpi_file x w) = x)"

text \<open>
  \<open>set_acpi_video_mode\<close> sets the two bits of the kernel's ACPI video flags that belong to it to the
  mode asked for, and leaves the others alone.
\<close>

lemma acpi_mode_other_bits:
  assumes store: "acpi_flags_file M v" and ok: "set_acpi_video_mode M mode w = (0, w')"
    and mode: "mode AND (S3_BIOS OR S3_MODE) = mode"
  shows "v w' = (v w AND NOT 3) OR ucast mode"
proof -
  obtain b1 w1 where 1: "mc_fopen M acpi_file False w = (b1, w1)" by fastforce
  obtain x w2 where 2: "mc_scan_long M acpi_file w1 = (x, w2)" by fastforce
  obtain r w3 where 3: "mc_fclose M acpi_file w2 = (r, w3)" by fastforce
  obtain b2 w4 where 4: "mc_fopen M acpi_file True w3 = (b2, w4)" by fastforce
  have "b1" "b2" "x \<noteq> None" using ok 1 2 3 4 by (auto simp: set_acpi_video_mode_def S2RAM_FAIL_def split: if_splits option.splits)
  then obtain old where x: "x = Some old" by blast
  have keep: "v w1 = v w" "old = v w1"
    using store 1 2 x unfolding acpi_flags_file_def by (metis snd_conv)+
  define w5 where "w5 = mc_print_long M acpi_file (old AND (NOT 0 - ucast S3_BIOS - ucast S3_MODE) OR scast mode) w4"
  have "w' = snd (mc_fclose M acpi_file w5)"
    using ok 1 2 3 4 x \<open>b1\<close> \<open>b2\<close> by (simp add: set_acpi_video_mode_def w5_def split: prod.splits)
  then have res: "v w' = old AND (NOT 0 - ucast S3_BIOS - ucast S3_MODE) OR scast mode"
    using store unfolding acpi_flags_file_def w5_def by metis
  have mask: "(NOT 0 - ucast S3_BIOS - ucast S3_MODE :: u64) = NOT 3" by (simp add: flag_defs)
  have sc: "scast mode = (ucast mode :: u64)"
  proof -
    have "mode AND 3 = mode" using mode by (simp add: flag_defs)
    moreover have "(3 :: u32) = mask 2" by (simp add: mask_eq_exp_minus_1)
    ultimately have m: "mode AND mask 2 = mode" by simp
    have small: "k < 2" if "bit mode k" for k
      using that by (subst (asm) m [symmetric]) (simp add: bit_simps)
    show ?thesis
      by (rule bit_word_eqI) (auto simp: bit_simps min_def dest: small split: if_splits)
  qed
  show ?thesis using res keep unfolding mask sc by simp
qed

text \<open>The configuration space of the devices, which nothing but \<open>pci_write_block\<close> changes.\<close>

definition pci_store :: "'w machine \<Rightarrow> ('w \<Rightarrow> pci_dev \<Rightarrow> byte list) \<Rightarrow> bool" where
  "pci_store M conf \<longleftrightarrow>
     (\<forall>w d. length (conf w d) = 256) \<and>
     (\<forall>d n w. fst (pci_read_block M d n w) = take n (conf w d) \<and> conf (snd (pci_read_block M d n w)) = conf w) \<and>
     (\<forall>d bs w. length bs \<le> 256 \<longrightarrow> conf (pci_write_block M d bs w) = (conf w)(d := bs @ drop (length bs) (conf w d))) \<and>
     (\<forall>w. conf (pci_cleanup M w) = conf w) \<and>
     (\<forall>n b w. conf (snd (mc_access M n b w)) = conf w) \<and>
     (\<forall>n v w. conf (mc_write_state M n v w) = conf w) \<and>
     (\<forall>n w. conf (snd (mc_readdir M n w)) = conf w)"

lemma pci_storeD:
  assumes "pci_store M conf"
  shows "length (conf w d) = 256" and "pci_read_block M d n w = (bs, w') \<Longrightarrow> bs = take n (conf w d) \<and> conf w' = conf w"
    and "length bs \<le> 256 \<Longrightarrow> conf (pci_write_block M d bs w) = (conf w)(d := bs @ drop (length bs) (conf w d))"
    and "conf (pci_cleanup M w) = conf w" and "mc_access M m b w = (x, w') \<Longrightarrow> conf w' = conf w"
    and "conf (mc_write_state M m v w) = conf w" and "mc_readdir M k w = (r, w') \<Longrightarrow> conf w' = conf w"
  using assms unfolding pci_store_def by (metis fst_conv snd_conv)+

lemma fbcon_state_conf:
  assumes "pci_store M conf"
  shows "conf (fbcon_state M state w) = conf w"
proof -
  have "conf (fbcon_entries M state ns w) = conf w" for ns w
    by (induction ns arbitrary: w)
       (auto simp: pci_storeD(6) [OF assms] dest: pci_storeD(5) [OF assms] split: prod.split)
  then show ?thesis
    by (auto simp: fbcon_state_def dest: pci_storeD(7) [OF assms] split: prod.split sum.split)
qed

text \<open>
  C39: What the graphics card had in its configuration space when \<open>s2ram_hacks\<close> was done is there again
  after \<open>s2ram_resume\<close>, whatever the sleep has done to it, and no other device is touched.
\<close>

theorem vga_config_restored:
  assumes store: "pci_store M conf" and st: "quirks st = PCI_SAVE" "vbe_buffer st = None" "vbe_mode st < 0"
    and hacks: "s2ram_hacks P M st w = (0, st', w1)"
  shows "\<exists>d. vga_dev st' = Some d \<and> conf (s2ram_resume M st' w2) = (conf w2)(d := conf w1 d)"
proof -
  have q: "has_quirk st PCI_SAVE" "\<not> has_quirk st VBE_SAVE" "\<not> has_quirk st VBE_MODE" "\<not> has_quirk st RADEON_OFF"
    by (simp_all add: has_quirk_def st flag_defs)
  obtain r w3 where "set_acpi_video_mode M (quirks st AND (S3_BIOS OR S3_MODE)) w = (r, w3)" by fastforce
  then obtain st1 w4 w5 where f: "find_vga M st (pci_alloc M w3) = (True, st1, w4)" and s: "save_vga_pci M st1 w4 = (st', w5)"
    and w1: "w1 = (if fb_nosuspend st' then w5 else suspend_fbcon M w5)"
    using hacks q
    by (auto simp: s2ram_hacks_def hack_vbe_save_def hack_vbe_mode_def hack_radeon_def hack_pci_def Let_def
        split: prod.splits if_splits)
  obtain d where st1: "st1 = st\<lparr>vga_dev := Some d\<rparr>"
    using f by (auto simp: find_vga_def split: prod.splits option.splits)
  obtain bs where rd: "pci_read_block M d 256 w4 = (bs, w5)" and st': "st' = st1\<lparr>vga_pci_state := bs\<rparr>"
    using s st1 by (auto simp: save_vga_pci_def split: prod.splits)
  have bs: "bs = conf w1 d"
    using pci_storeD(2) [OF store rd] pci_storeD(1) [OF store, of w4 d] w1 fbcon_state_conf [OF store, of 1 w5]
    by (simp add: suspend_fbcon_def split: if_splits)
  have "conf (s2ram_resume M st' w2) = (conf w2)(d := bs @ drop (length bs) (conf w2 d))"
    using q(1) st st1 st' fbcon_state_conf [OF store] pci_storeD(3,4) [OF store] pci_storeD(1) [OF store] bs
    by (simp add: s2ram_resume_def restore_vga_pci_def resume_fbcon_def has_quirk_def flag_defs Let_def)
  then show ?thesis using bs st1 st' pci_storeD(1) [OF store] by simp
qed

text \<open>
  A part \<open>f\<close> of the machine that only stores through a mapping change (the VBE functions aside): \<open>leaves_awake\<close>, and
  \<open>leaves_alone\<close> when the sleep leaves it, too.
\<close>

definition leaves_awake :: "'w posix \<Rightarrow> 'w machine \<Rightarrow> ('w \<Rightarrow> 'a) \<Rightarrow> bool" where
  "leaves_awake P M f \<longleftrightarrow>
     (\<forall>n m w. f (snd (sys_open P n m w)) = f w) \<and> (\<forall>fd w. f (sys_close P fd w) = f w) \<and>
     (\<forall>fd r w. f (snd (sys_vt P fd r w)) = f w) \<and> (\<forall>n w. f (mc_usleep M n w) = f w) \<and>
     (\<forall>n w. f (snd (mc_malloc M n w)) = f w) \<and> (\<forall>fd b n w. f (snd (mc_map_device M fd b n w)) = f w) \<and>
     (\<forall>n b w. f (snd (mc_fopen M n b w)) = f w) \<and> (\<forall>n w. f (snd (mc_fclose M n w)) = f w) \<and>
     (\<forall>n w. f (snd (mc_scan_long M n w)) = f w) \<and> (\<forall>n v w. f (mc_print_long M n v w) = f w) \<and>
     (\<forall>n w. f (snd (mc_readdir M n w)) = f w) \<and>
     (\<forall>n b w. f (snd (mc_access M n b w)) = f w) \<and> (\<forall>n v w. f (mc_write_state M n v w) = f w)"

definition leaves_alone :: "'w posix \<Rightarrow> 'w machine \<Rightarrow> ('w \<Rightarrow> 'a) \<Rightarrow> bool" where
  "leaves_alone P M f \<longleftrightarrow> leaves_awake P M f \<and> (\<forall>n t w. f (snd (mc_print M n t w)) = f w)"

definition pci_leaves_alone :: "'w machine \<Rightarrow> ('w \<Rightarrow> 'a) \<Rightarrow> bool" where
  "pci_leaves_alone M f \<longleftrightarrow>
     (\<forall>w. f (pci_alloc M w) = f w) \<and> (\<forall>w. f (snd (pci_scan_bus M w)) = f w) \<and>
     (\<forall>d w. f (snd (pci_class M d w)) = f w) \<and> (\<forall>d n w. f (snd (pci_read_block M d n w)) = f w) \<and>
     (\<forall>d bs w. f (pci_write_block M d bs w) = f w) \<and> (\<forall>w. f (pci_cleanup M w) = f w)"

lemma leaves_awakeD:
  assumes "leaves_awake P M f"
  shows "f (snd (sys_open P n m w)) = f w" "f (sys_close P fd w) = f w" "f (snd (sys_vt P fd r w)) = f w"
    "f (mc_usleep M k w) = f w" "f (snd (mc_malloc M k w)) = f w" "f (snd (mc_map_device M fd b k w)) = f w"
    "f (snd (mc_fopen M n wr w)) = f w" "f (snd (mc_fclose M n w)) = f w" "f (snd (mc_scan_long M n w)) = f w"
    "f (mc_print_long M n v w) = f w" "f (snd (mc_readdir M n w)) = f w"
    "f (snd (mc_access M file wr w)) = f w" "f (mc_write_state M file i w) = f w"
  using assms by (simp_all add: leaves_awake_def)

lemma leaves_aloneD:
  assumes "leaves_alone P M f"
  shows "leaves_awake P M f" "f (snd (mc_print M n t w)) = f w"
  using assms by (simp_all add: leaves_alone_def)

lemma pci_leaves_aloneD:
  assumes "pci_leaves_alone M f"
  shows "f (pci_alloc M w) = f w" "f (snd (pci_scan_bus M w)) = f w" "f (snd (pci_class M d w)) = f w"
    "f (snd (pci_read_block M d k w)) = f w" "f (pci_write_block M d bs w) = f w" "f (pci_cleanup M w) = f w"
  using assms by (simp_all add: pci_leaves_alone_def)

lemmas let_pair = Let_def case_prod_beta

lemma fgconsole_keeps:
  assumes "leaves_awake P M f"
  shows "f (snd (getconsolefd P w)) = f w" and "f (snd (fgconsole P w)) = f w"
proof -
  note keep = leaves_awakeD [OF assms]
  have console: "f (snd (is_a_console P fd v)) = f v" for fd v
    by (simp add: is_a_console_def let_pair keep)
  then have names: "f (snd (try_names P ns v)) = f v" for ns v
    by (induction ns arbitrary: v) (simp_all add: open_a_console_def let_pair keep)
  have streams: "f (snd (try_streams P fds v)) = f v" for fds v
    by (induction fds arbitrary: v) (simp_all add: let_pair console)
  show "f (snd (getconsolefd P w)) = f w"
    by (simp add: getconsolefd_def let_pair names streams del: try_names.simps try_streams.simps)
  then show "f (snd (fgconsole P w)) = f w"
    by (simp add: fgconsole_def let_pair keep)
qed

lemma chvt_keeps:
  assumes "leaves_awake P M f"
  shows "f (snd (chvt P M n w)) = f w"
proof -
  have "f (snd (chvt_loop P M n i v)) = f v" for i v
    by (induction i arbitrary: v) (simp_all add: let_pair leaves_awakeD [OF assms] fgconsole_keeps [OF assms])
  then show ?thesis by (simp add: chvt_def)
qed

lemma fbcon_state_keeps:
  assumes "leaves_awake P M f"
  shows "f (fbcon_state M i w) = f w"
proof -
  have "f (fbcon_entries M i ns v) = f v" for ns v
    by (induction ns arbitrary: v) (simp_all add: let_pair leaves_awakeD [OF assms])
  then show ?thesis by (simp add: fbcon_state_def let_pair leaves_awakeD [OF assms] split: sum.split)
qed

lemma set_acpi_video_mode_keeps:
  "leaves_awake P M f \<Longrightarrow> f (snd (set_acpi_video_mode M mode w)) = f w"
  by (simp add: set_acpi_video_mode_def let_pair leaves_awakeD split: option.split)

lemma s2ram_generic_do_keeps:
  "leaves_alone P M f \<Longrightarrow> f (snd (s2ram_generic_do M w)) = f w"
  by (simp add: s2ram_generic_do_def let_pair leaves_aloneD leaves_awakeD [of P M])

lemma first_vga_keeps: "pci_leaves_alone M f \<Longrightarrow> f (snd (first_vga M ds w)) = f w"
  by (induction ds arbitrary: w) (simp_all add: let_pair pci_leaves_aloneD)

lemma radeon_find_keeps: "pci_leaves_alone M f \<Longrightarrow> f (snd (radeon_find M ds w)) = f w"
  by (induction ds arbitrary: w) (simp_all add: let_pair pci_leaves_aloneD split: option.split)

lemma map_radeon_cntl_mem_keeps:
  "leaves_awake P M f \<Longrightarrow> pci_leaves_alone M f \<Longrightarrow> f (snd (map_radeon_cntl_mem P M w)) = f w"
  by (simp add: map_radeon_cntl_mem_def map_device_memory_def let_pair leaves_awakeD pci_leaves_aloneD radeon_find_keeps)

lemma hack_pci_keeps:
  "pci_leaves_alone M f \<Longrightarrow> f (snd (snd (hack_pci M st w))) = f w"
  by (simp add: hack_pci_def find_vga_def save_vga_pci_def let_pair pci_leaves_aloneD first_vga_keeps split: option.split)

text \<open>A PCI bus whose devices stay where and what they are.\<close>

definition fixed_bus :: "'w machine \<Rightarrow> pci_dev list \<Rightarrow> (pci_dev \<Rightarrow> u16) \<Rightarrow> bool" where
  "fixed_bus M ds cls \<longleftrightarrow> (\<forall>w. fst (pci_scan_bus M w) = ds) \<and> (\<forall>d w. fst (pci_class M d w) = cls d)"

lemma first_vga_found:
  "fixed_bus M ds0 cls \<Longrightarrow> d \<in> set ds \<Longrightarrow> cls d = 0x300 \<Longrightarrow> fst (first_vga M ds w) \<noteq> None"
  by (induction ds arbitrary: w) (auto simp: let_pair fixed_bus_def)

lemma radeon_find_vga:
  "fixed_bus M ds0 cls \<Longrightarrow> fst (radeon_find M ds w) \<noteq> - 1 \<Longrightarrow> \<exists>d\<in>set ds. cls d = 0x300"
  by (induction ds arbitrary: w) (auto simp: let_pair fixed_bus_def split: if_splits option.splits)

lemma map_radeon_Some:
  assumes bus: "fixed_bus M ds cls" and "fst (map_radeon_cntl_mem P M w) = Some mem"
  shows "(\<exists>d\<in>set ds. cls d = 0x300) \<and> (\<exists>fd b n v. fst (mc_map_device M fd b n v) = Some mem)"
proof -
  let ?w = "pci_alloc M (snd (mc_malloc M 64 w))"
  have "fst (radeon_find M ds (snd (pci_scan_bus M ?w))) \<noteq> - 1"
    using assms by (auto simp: map_radeon_cntl_mem_def let_pair fixed_bus_def split: if_splits)
  moreover have "\<exists>fd b n v. fst (mc_map_device M fd b n v) = Some mem"
    using assms(2) by (auto simp: map_radeon_cntl_mem_def map_device_memory_def let_pair split: if_splits)
  ultimately show ?thesis using radeon_find_vga [OF bus] by blast
qed

lemma radeon_cmd_light_None [simp]: "radeon_cmd_light M None on w = w"
  by (simp add: radeon_cmd_light_def radeon_get_def radeon_set_def)

lemma hack_pci_fields:
  assumes "hack_pci M st w = (ok, st', w')"
  shows "quirks st' = quirks st" "vbe_buffer st' = vbe_buffer st" "vbe_mode st' = vbe_mode st"
    "radeon_cntl_mem st' = radeon_cntl_mem st" "fb_nosuspend st' = fb_nosuspend st"
  using assms by (auto simp: hack_pci_def find_vga_def save_vga_pci_def let_pair split: if_splits option.splits)

lemma hack_pci_found:
  assumes "fixed_bus M ds cls" and "d \<in> set ds" "cls d = 0x300"
  shows "fst (hack_pci M st w)"
proof -
  have "fst (pci_scan_bus M v) = ds" for v using assms(1) by (simp add: fixed_bus_def)
  then show ?thesis using first_vga_found [OF assms]
    by (auto simp: hack_pci_def find_vga_def let_pair split: option.split) (metis option.distinct(1))
qed

lemma s2ram_resume_panel:
  assumes keep: "leaves_awake P M reg" "pci_leaves_alone M reg"
    and "\<not> has_quirk st VBE_POST" "vbe_buffer st = None" "vbe_mode st < 0"
    and mem: "\<forall>m. radeon_cntl_mem st = Some m \<longrightarrow> has_quirk st RADEON_OFF \<and> plain_register M (m + RADEON_LVDS_GEN_CNTL) reg"
    and on: "radeon_cntl_mem st = None \<Longrightarrow> bit (reg w) 0"
  shows "bit (reg (s2ram_resume M st w)) 0"
proof -
  define v where "v = (let w = (if has_quirk st PCI_SAVE then pci_cleanup M (restore_vga_pci M st w) else w)
    in if fb_nosuspend st then w else resume_fbcon M w)"
  have "reg v = reg w"
    by (simp add: v_def restore_vga_pci_def resume_fbcon_def fbcon_state_keeps [OF keep(1)] pci_leaves_aloneD [OF keep(2)]
        Let_def split: option.split)
  moreover have "s2ram_resume M st w = (if has_quirk st RADEON_OFF then radeon_cmd_light M (radeon_cntl_mem st) True v else v)"
    using assms(3-5) by (simp add: s2ram_resume_def v_def Let_def)
  ultimately show ?thesis using mem on radeon_cmd_light_reg [of M _ reg True v]
    by (cases "radeon_cntl_mem st") (auto simp: RADEON_LVDS_ON_def bit_simps)
qed

text \<open>After the hacks: either one of them has failed with the panel on, or waking up switches it on.\<close>

lemma panel_after_hacks:
  assumes reg: "\<forall>fd b n v mem. fst (mc_map_device M fd b n v) = Some mem \<longrightarrow> plain_register M (mem + RADEON_LVDS_GEN_CNTL) reg"
    and keep: "leaves_alone P M reg" "pci_leaves_alone M reg" and bus: "fixed_bus M ds cls"
    and st: "\<not> has_quirk st VBE_SAVE" "\<not> has_quirk st VBE_MODE" "\<not> has_quirk st VBE_POST"
      "vbe_buffer st = None" "vbe_mode st < 0" "radeon_cntl_mem st = None"
    and run: "s2ram_hacks P M st v = (r, st', v')" and on: "bit (reg v) 0"
  shows "if r \<noteq> 0 then bit (reg v') 0 else bit (reg (s2ram_resume M st' (snd (s2ram_generic_do M v')))) 0"
proof -
  have awake: "leaves_awake P M reg" using keep(1) by (rule leaves_aloneD(1))
  define v1 where "v1 = snd (set_acpi_video_mode M (quirks st AND (S3_BIOS OR S3_MODE)) v)"
  have v1: "reg v1 = reg v" by (simp add: v1_def set_acpi_video_mode_keeps [OF awake])
  define mem where "mem = (if has_quirk st RADEON_OFF then fst (map_radeon_cntl_mem P M v1) else None)"
  define v2 where "v2 = (if has_quirk st RADEON_OFF then snd (map_radeon_cntl_mem P M v1) else v1)"
  have v2: "reg v2 = reg v" by (simp add: v2_def map_radeon_cntl_mem_keeps [OF awake keep(2)] v1)
  define st2 where "st2 = st\<lparr>radeon_cntl_mem := mem\<rparr>"
  define pci where "pci = hack_pci M st2 (radeon_cmd_light M mem False v2)"
  have radeon: "hack_radeon P M st v1 = (st2, radeon_cmd_light M mem False v2)"
    using st(6) by (simp add: hack_radeon_def let_pair st2_def mem_def v2_def)
  have pci_reg: "reg (snd (snd pci)) = reg (radeon_cmd_light M mem False v2)"
    by (simp add: pci_def hack_pci_keeps [OF keep(2)])
  obtain ok st3 v3 where p: "pci = (ok, st3, v3)" by (metis surj_pair)
  note f = hack_pci_fields [OF p [unfolded pci_def]]
  have plain: "plain_register M (m + RADEON_LVDS_GEN_CNTL) reg \<and> has_quirk st RADEON_OFF \<and> ok" if "mem = Some m" for m
  proof -
    have m: "has_quirk st RADEON_OFF" "fst (map_radeon_cntl_mem P M v1) = Some m"
      using that by (auto simp: mem_def split: if_splits)
    from map_radeon_Some [OF bus m(2)] show ?thesis
      using reg m(1) hack_pci_found [OF bus, of _ st2 "radeon_cmd_light M mem False v2"] p by (auto simp: pci_def)
  qed
  have v3: "mem = None \<Longrightarrow> reg v3 = reg v" using pci_reg v2 p by simp
  define v4 where "v4 = (if fb_nosuspend st then v3 else suspend_fbcon M v3)"
  have v4: "reg (snd (s2ram_generic_do M v4)) = reg v3"
    by (simp add: s2ram_generic_do_keeps [OF keep(1)] v4_def suspend_fbcon_def fbcon_state_keeps [OF awake])
  have hacks: "(r, st', v') = (let r = fst (set_acpi_video_mode M (quirks st AND (S3_BIOS OR S3_MODE)) v)
       in if r \<noteq> 0 then (r, st, v1) else if \<not> ok then (1, st3, v3) else (0, st3, v4))"
    using st(1,2) radeon p f
    by (simp add: run [symmetric] s2ram_hacks_def let_pair hack_vbe_save_def hack_vbe_mode_def v1_def pci_def st2_def v4_def)
  have "bit (reg (s2ram_resume M st3 (snd (s2ram_generic_do M v4)))) 0"
    by (rule s2ram_resume_panel [OF awake keep(2)]) (use f st plain v3 v4 on in \<open>auto simp: has_quirk_def st2_def\<close>)
  moreover have "\<not> ok \<Longrightarrow> bit (reg v3) 0"
    using plain v3 on by (cases mem) auto
  ultimately show ?thesis using v1 on hacks by (auto simp: Let_def split: if_splits)
qed


section \<open>Small machines\<close>

definition unknown_machine :: dmi_info where
  "unknown_machine = \<lparr>bios_version = [], sys_vendor = [], sys_product = [], sys_version = []\<rparr>"

definition s2ram_start :: s2ram_state where
  "s2ram_start =
     \<lparr>dmi = unknown_machine, dmi_scanned = False, quirks = 0, force = False, fb_nosuspend = False, no_kms_flag = False,
      vbe_buffer = None, vbe_mode = - 1, vga_pci_state = replicate 256 0, vga_dev = None, radeon_cntl_mem = None\<rparr>"

definition thinkpad :: dmi_info where
  "thinkpad = \<lparr>bios_version = bytes_of ''1RETDRWW'', sys_vendor = bytes_of ''IBM'', sys_product = bytes_of ''2373K4G'',
     sys_version = bytes_of ''ThinkPad T42''\<rparr>"

definition small_whitelist :: "machine_entry list" where
  "small_whitelist =
     [\<lparr>me_vendor = bytes_of ''IBM'', me_product = bytes_of ''2366*'', me_version = [], me_bios = [], me_flags = VBE_POST\<rparr>,
      \<lparr>me_vendor = bytes_of ''IBM'', me_product = bytes_of ''2373*'', me_version = [], me_bios = [], me_flags = RADEON_OFF\<rparr>]"

lemma machine_match_first_witness:
  "1 = (- 1 :: int) \<and> (\<forall>e\<in>set small_whitelist. \<not> recognised (dmi (s2ram_start\<lparr>dmi := thinkpad, dmi_scanned := True\<rparr>)) e)
    \<or> (\<exists>j<length small_whitelist. 1 = int j \<and> recognised (dmi (s2ram_start\<lparr>dmi := thinkpad, dmi_scanned := True\<rparr>)) (small_whitelist ! j)
         \<and> (\<forall>k<j. \<not> recognised (dmi (s2ram_start\<lparr>dmi := thinkpad, dmi_scanned := True\<rparr>)) (small_whitelist ! k)))"
  by (rule machine_match_first [where P = idle_posix and M = idle_machine and w = "()" and w' = "()"
        and st = "s2ram_start\<lparr>dmi := thinkpad, dmi_scanned := True\<rparr>"])
     (simp add: machine_match_def scan_once_def small_whitelist_def entry_matches_def match_def thinkpad_def)

definition acpi_machine :: "u64 machine" where
  "acpi_machine = idle_machine\<lparr>mc_scan_long := (\<lambda>n w. (Some w, w)), mc_print_long := (\<lambda>n v w. v)\<rparr>"

lemma acpi_mode_other_bits_witness: "id (0x11 :: u64) = (id 0x12 AND NOT 3) OR ucast (1 :: u32)"
  by (rule acpi_mode_other_bits [where M = acpi_machine])
     (simp_all add: acpi_flags_file_def acpi_machine_def idle_machine_def set_acpi_video_mode_def S2RAM_OK_def flag_defs)

definition ati_card :: pci_dev where
  "ati_card = \<lparr>pd_slot = 8, vendor_id = 0x1002, base_addr = [0xE0000000, 0xC000, 0xFCFF0000, 0, 0, 0],
     region_size = [134217728, 256, 65536, 0, 0, 0]\<rparr>"

definition config_machine :: "(pci_dev \<Rightarrow> byte list) machine" where
  "config_machine = idle_machine
     \<lparr>pci_scan_bus := (\<lambda>w. ([ati_card], w)), pci_class := (\<lambda>d w. (0x300, w)),
      pci_read_block := (\<lambda>d n w. (take n (take 256 (w d @ replicate 256 0)), w)),
      pci_write_block := (\<lambda>d bs w. w(d := bs @ drop (length bs) (take 256 (w d @ replicate 256 0))))\<rparr>"

lemma vga_config_restored_witness:
  "\<exists>d. vga_dev (s2ram_start\<lparr>quirks := PCI_SAVE, vga_dev := Some ati_card, vga_pci_state := replicate 256 7\<rparr>) = Some d \<and>
     (\<lambda>w d. take 256 (w d @ replicate 256 0))
       (s2ram_resume config_machine
         (s2ram_start\<lparr>quirks := PCI_SAVE, vga_dev := Some ati_card, vga_pci_state := replicate 256 7\<rparr>) (\<lambda>d. []))
     = ((\<lambda>w d. take 256 (w d @ replicate 256 0)) (\<lambda>d. []))
         (d := (\<lambda>w d. take 256 (w d @ replicate 256 0)) (\<lambda>d. replicate 256 7) d)"
proof (rule vga_config_restored [where P = idle_posix and st = "s2ram_start\<lparr>quirks := PCI_SAVE\<rparr>" and w = "\<lambda>d. replicate 256 7"])
  show "pci_store config_machine (\<lambda>w d. take 256 (w d @ replicate 256 0))"
    by (auto simp: pci_store_def config_machine_def idle_machine_def fun_eq_iff)
  show "s2ram_hacks idle_posix config_machine (s2ram_start\<lparr>quirks := PCI_SAVE\<rparr>) (\<lambda>d. replicate 256 7)
    = (0, s2ram_start\<lparr>quirks := PCI_SAVE, vga_dev := Some ati_card, vga_pci_state := replicate 256 7\<rparr>, \<lambda>d. replicate 256 7)"
    by (simp add: s2ram_hacks_def set_acpi_video_mode_def hack_vbe_save_def hack_vbe_mode_def hack_radeon_def hack_pci_def
        find_vga_def save_vga_pci_def suspend_fbcon_def fbcon_state_def has_quirk_def s2ram_start_def config_machine_def
        idle_machine_def S2RAM_OK_def flag_defs)
qed (simp_all add: s2ram_start_def)

lemma idle_fgconsole: "fgconsole idle_posix w = (1, w)"
  by (simp add: fgconsole_def getconsolefd_def open_a_console_def is_a_console_def idle_posix_def KB_84_def KB_101_def)

lemma idle_chvt: "chvt idle_posix M 1 w = (True, w)"
proof -
  have "chvt_loop idle_posix M 1 (Suc 49) w = (True, w)" by (subst chvt_loop.simps(2)) (simp add: idle_fgconsole)
  then show ?thesis by (simp add: chvt_def USER_WAIT_MAX_ITERATIONS_def)
qed

lemma ati_card_base: "radeon_base ati_card (replicate 64 0) = Some (- 50397184)" "vendor_id ati_card = 0x1002"
  by code_simp+

definition panel_machine :: "u64 machine" where
  "panel_machine = one_register\<lparr>pci_scan_bus := (\<lambda>w. ([ati_card], w)), pci_class := (\<lambda>d w. (0x300, w))\<rparr>"

lemma panel_machine_fields:
  "mc_fopen panel_machine n b w = (True, w)" "mc_scan_long panel_machine n w = (Some 0, w)"
  "mc_fclose panel_machine n w = ((0, 0), w)" "mc_print_long panel_machine n v w = w" "pci_alloc panel_machine w = w"
  "pci_scan_bus panel_machine w = ([ati_card], w)" "pci_class panel_machine d w = (0x300, w)"
  "pci_read_block panel_machine d k w = (replicate k 0, w)" "pci_write_block panel_machine d bs w = w"
  "pci_cleanup panel_machine w = w" "mc_readdir panel_machine n w = (Inr [], w)"
  "mc_print panel_machine n t w = ((int (length t), 0), w)"
  "mc_read64 panel_machine a w = (w, w)" "mc_write64 panel_machine a v w = v"
  by (simp_all add: panel_machine_def one_register_def idle_machine_def)

lemmas panel_simps = panel_machine_fields flag_defs has_quirk_def radeon_cmd_light_def radeon_get_def radeon_set_def
  RADEON_LVDS_ON_def fbcon_state_def


end
