(* ===== verification/Console.thy ===== *)
theory Console
  imports Posix
begin

text \<open>
  The virtual terminal of the suspend tool: \<open>console_fd\<close>, \<open>prepare_console\<close>, \<open>restore_console\<close>,
  \<open>lock_vt\<close> and \<open>unlock_vt\<close> of \<open>suspend.c\<close>, with the functions on \<open>/proc/sys/vm/swappiness\<close> and, from
  \<open>loglevel.c\<close>, on \<open>/proc/sys/kernel/printk\<close>; the terminal functions of \<open>vt.c\<close>. Messages are left out.
\<close>

section \<open>Opening\<close>

text \<open>\<open>sprintf("/dev/tty%d", vt)\<close> for a number that is not negative.\<close>

definition tty_name :: "int \<Rightarrow> string" where
  "tty_name vt = ''/dev/tty'' @ map (\<lambda>b. char_of (unat b)) (decimal (nat vt))"

definition console_fd :: "'w posix \<Rightarrow> string \<Rightarrow> 'w \<Rightarrow> int \<times> 'w" where
  "console_fd P fname w =
     (let ((fd, errno), w) = sys_open P fname O_RDONLY w;
          ((fd, errno), w) = (if fd < 0 \<and> errno = EACCES then sys_open P fname O_WRONLY w else ((fd, errno), w))
      in if 0 \<le> fd then
           (let (r, w) = sys_vt P fd KDGKBTYPE w
            in if v_ret r \<noteq> 0 \<or> v_out r \<noteq> KB_101 \<and> v_out r \<noteq> KB_84
               then (- ENOTTY, sys_close P fd w) else (fd, w))
         else (fd, w))"

section \<open>prepare_console and restore_console\<close>

text \<open>
  The variables are \<open>*orig_vc\<close>, \<open>*new_vc\<close> and \<open>set_kmsg_redirect\<close>. \<open>tiocl[0]\<close> keeps the request
  number 17 if the first request fails.
\<close>

record console =
  orig_vc :: int
  new_vc :: int
  set_kmsg_redirect :: bool

definition find_vt :: "'w posix \<Rightarrow> int \<Rightarrow> console \<Rightarrow> 'w \<Rightarrow> (int \<times> int \<times> bool \<times> int \<times> console) \<times> 'w" where
  "find_vt P fd c w =
     (let (r, w) = sys_vt P fd TIOCL_GETKMSGREDIRECT w;
          tiocl = (if v_ret r = 0 then v_out r else 17);
          vt = (if v_ret r = 0 \<and> 0 < tiocl then tiocl else - 1);
          (r, w) = sys_vt P fd VT_GETSTATE w;
          error = v_ret r
      in if error = 0 then
           (let c = c\<lparr>orig_vc := v_out r\<rparr>
            in if vt < 0 then
                 (let (r, w) = sys_vt P fd VT_OPENQRY w
                  in ((v_ret r, if v_ret r = 0 then v_out r else vt, True, tiocl, c), w))
               else ((0, vt, False, tiocl, c), w))
         else ((error, vt, False, tiocl, c), w))"

definition redirect_kmsg :: "'w posix \<Rightarrow> int \<Rightarrow> int \<Rightarrow> int \<Rightarrow> console \<Rightarrow> 'w \<Rightarrow> console \<times> 'w" where
  "redirect_kmsg P fd vt tiocl c w =
     (if tiocl = 0 then
        (let (r, w) = sys_vt P fd (TIOCL_SETKMSGREDIRECT vt) w
         in (c\<lparr>set_kmsg_redirect := (v_ret r = 0)\<rparr>, w))
      else (c\<lparr>set_kmsg_redirect := False\<rparr>, w))"

definition prepare_console :: "'w posix \<Rightarrow> console \<Rightarrow> 'w \<Rightarrow> (int \<times> console) \<times> 'w" where
  "prepare_console P c w =
     (let (fd, w) = console_fd P ''/dev/console'' w
      in if fd < 0 then ((fd, c), w)
         else let ((error, vt, clear_vt, tiocl, c), w) = find_vt P fd c w;
                  w = sys_close P fd w
         in if error \<noteq> 0 \<or> vt < 0 then ((- 1, c), w)
         else let ((fd, errno), w) = sys_open P (tty_name vt) O_RDWR w
         in if fd < 0 then ((fd, c), w)
         else let (r, w) = sys_vt P fd (VT_ACTIVATE vt) w
         in if v_ret r \<noteq> 0 then ((v_ret r, c), sys_close P fd w)
         else let (r, w) = sys_vt P fd (VT_WAITACTIVE vt) w
         in if v_ret r \<noteq> 0 then ((v_ret r, c), sys_close P fd w)
         else let w = (if clear_vt then sys_clear_vt P fd w else w);
                  w = sys_dup2 P fd 2 (sys_dup2 P fd 1 (sys_dup2 P fd 0 w));
                  (c, w) = redirect_kmsg P fd vt tiocl (c\<lparr>new_vc := vt\<rparr>) w
              in ((fd, c), w))"

definition restore_console :: "'w posix \<Rightarrow> int \<Rightarrow> console \<Rightarrow> 'w \<Rightarrow> 'w" where
  "restore_console P fd c w =
     (let (r, w) = sys_vt P fd (VT_ACTIVATE (orig_vc c)) w
      in if v_ret r \<noteq> 0 then sys_close P fd w
         else let (r, w) = sys_vt P fd (VT_WAITACTIVE (orig_vc c)) w;
                  w = (if set_kmsg_redirect c then snd (sys_vt P fd (TIOCL_SETKMSGREDIRECT 0) w) else w)
              in sys_close P fd w)"

section \<open>lock_vt and unlock_vt\<close>

text \<open>The variables \<open>vfd\<close> and \<open>orig_vtm\<close>.\<close>

record vt_lock =
  vfd :: int
  orig_vtm :: vt_mode

definition unlock_vt :: "'w posix \<Rightarrow> vt_lock \<Rightarrow> 'w \<Rightarrow> 'w" where
  "unlock_vt P l w = sys_close P (vfd l) (snd (sys_vt P (vfd l) (VT_SETMODE (orig_vtm l)) w))"

definition lock_vt :: "'w posix \<Rightarrow> vt_lock \<Rightarrow> 'w \<Rightarrow> (int \<times> vt_lock) \<times> 'w" where
  "lock_vt P l w =
     (let (fd, w) = console_fd P ''/dev/console'' w
      in if fd < 0 then ((fd, l), w)
         else let (r, w) = sys_vt P fd VT_GETSTATE w;
                  w = sys_close P fd w
         in if v_ret r < 0 then ((v_ret r, l), w)
         else let ((vfd, errno), w) = sys_open P (tty_name (v_out r)) O_RDWR w;
                  l = l\<lparr>vfd := vfd\<rparr>
         in if vfd < 0 then ((vfd, l), w)
         else let (r, w) = sys_vt P vfd VT_GETMODE w
         in if v_ret r < 0 then ((v_ret r, l), w)
         else let w = sys_ignore_usr1 P w;
                  l = l\<lparr>orig_vtm := v_mode r\<rparr>;
                  vtm = (v_mode r)\<lparr>vt_process := True, vt_relsig := SIGUSR1, vt_acqsig := SIGUSR1\<rparr>;
                  (r, w) = sys_vt P vfd (VT_SETMODE vtm) w
              in ((if v_ret r < 0 then v_ret r else 0, l), w))"

section \<open>swappiness and loglevel\<close>

text \<open>The result of opening is whether the file pointer is not \<open>NULL\<close>.\<close>

definition swappiness_name :: string where "swappiness_name = ''/proc/sys/vm/swappiness''"
definition printk_name :: string where "printk_name = ''/proc/sys/kernel/printk''"

definition open_swappiness :: "'w posix \<Rightarrow> 'w \<Rightarrow> bool \<times> 'w" where
  "open_swappiness P w = file_open P swappiness_name w"

definition get_swappiness :: "'w posix \<Rightarrow> bool \<Rightarrow> 'w \<Rightarrow> int \<times> 'w" where
  "get_swappiness P f w =
     (if f then (let (x, w) = file_read_int P swappiness_name w in (case x of None \<Rightarrow> - 1 | Some v \<Rightarrow> v, w))
      else (- 1, w))"

definition set_swappiness :: "'w posix \<Rightarrow> bool \<Rightarrow> int \<Rightarrow> 'w \<Rightarrow> 'w" where
  "set_swappiness P f v w = (if f then file_write_int P swappiness_name v w else w)"

definition close_swappiness :: "'w posix \<Rightarrow> bool \<Rightarrow> 'w \<Rightarrow> 'w" where
  "close_swappiness P f w = (if f then file_close P swappiness_name w else w)"

text \<open>The results of \<open>open_printk\<close>: \<open>printk_file != NULL\<close> and \<open>proc_mounted\<close>.\<close>

definition open_printk :: "'w posix \<Rightarrow> 'w \<Rightarrow> (bool \<times> bool) \<times> 'w" where
  "open_printk P w =
     (let (s, w) = sys_stat P printk_name w
      in if st_ret s \<noteq> 0 \<and> st_errno s = ENOENT then
           (let ((r, errno), w) = sys_mount P ''/proc'' ''proc'' w
            in if r \<noteq> 0 then ((False, False), w)
               else let (f, w) = file_open P printk_name w in ((f, True), w))
         else let (f, w) = file_open P printk_name w in ((f, False), w))"

definition get_kernel_console_loglevel :: "'w posix \<Rightarrow> bool \<Rightarrow> 'w \<Rightarrow> int \<times> 'w" where
  "get_kernel_console_loglevel P f w =
     (if f then (let (x, w) = file_read_int P printk_name w in (case x of None \<Rightarrow> - 1 | Some v \<Rightarrow> v, w))
      else (- 1, w))"

definition set_kernel_console_loglevel :: "'w posix \<Rightarrow> bool \<Rightarrow> int \<Rightarrow> 'w \<Rightarrow> 'w" where
  "set_kernel_console_loglevel P f v w = (if f then file_write_int P printk_name v w else w)"

definition close_printk :: "'w posix \<Rightarrow> bool \<Rightarrow> bool \<Rightarrow> 'w \<Rightarrow> 'w" where
  "close_printk P f mounted w =
     (let w = (if f then file_close P printk_name w else w)
      in if mounted then snd (sys_umount P ''/proc'' w) else w)"

section \<open>The terminal\<close>

text \<open>What counts of the terminals: the active one, where kernel messages go, and the mode of the
  terminal behind a descriptor. The requests may fail.\<close>

record 'w tty =
  tv_active :: "'w \<Rightarrow> int"
  tv_redirect :: "'w \<Rightarrow> int"
  tv_mode :: "'w \<Rightarrow> int \<Rightarrow> vt_mode"

definition same_tty :: "'w tty \<Rightarrow> 'w \<Rightarrow> 'w \<Rightarrow> bool" where
  "same_tty T w w' \<longleftrightarrow> tv_active T w' = tv_active T w \<and> tv_redirect T w' = tv_redirect T w \<and> tv_mode T w' = tv_mode T w"

definition vt_effect :: "'w tty \<Rightarrow> int \<Rightarrow> vt_request \<Rightarrow> 'w \<Rightarrow> vt_result \<Rightarrow> 'w \<Rightarrow> bool" where
  "vt_effect T fd req w r w' \<longleftrightarrow>
     (case req of
        VT_GETSTATE \<Rightarrow> same_tty T w w' \<and> (v_ret r = 0 \<longrightarrow> v_out r = tv_active T w)
      | TIOCL_GETKMSGREDIRECT \<Rightarrow> same_tty T w w' \<and> (v_ret r = 0 \<longrightarrow> v_out r = tv_redirect T w)
      | VT_GETMODE \<Rightarrow> same_tty T w w' \<and> (v_ret r = 0 \<longrightarrow> v_mode r = tv_mode T w fd)
      | VT_ACTIVATE n \<Rightarrow> tv_redirect T w' = tv_redirect T w \<and> tv_mode T w' = tv_mode T w
      | VT_WAITACTIVE n \<Rightarrow> tv_redirect T w' = tv_redirect T w \<and> tv_mode T w' = tv_mode T w
          \<and> (v_ret r = 0 \<longrightarrow> tv_active T w' = n)
      | TIOCL_SETKMSGREDIRECT v \<Rightarrow> tv_active T w' = tv_active T w \<and> tv_mode T w' = tv_mode T w
          \<and> tv_redirect T w' = (if v_ret r = 0 then v else tv_redirect T w)
      | VT_SETMODE m \<Rightarrow> tv_active T w' = tv_active T w \<and> tv_redirect T w' = tv_redirect T w
          \<and> tv_mode T w' = (if v_ret r = 0 then (tv_mode T w)(fd := m) else tv_mode T w)
      | _ \<Rightarrow> same_tty T w w')"

definition console_device :: "'w posix \<Rightarrow> 'w tty \<Rightarrow> bool" where
  "console_device P T \<longleftrightarrow>
     (\<forall>n m w r w'. sys_open P n m w = (r, w') \<longrightarrow> same_tty T w w') \<and>
     (\<forall>fd w. same_tty T w (sys_close P fd w)) \<and>
     (\<forall>a b w. same_tty T w (sys_dup2 P a b w)) \<and>
     (\<forall>fd w. same_tty T w (sys_clear_vt P fd w)) \<and>
     (\<forall>w. same_tty T w (sys_ignore_usr1 P w)) \<and>
     (\<forall>fd req w r w'. sys_vt P fd req w = (r, w') \<longrightarrow> vt_effect T fd req w r w')"

lemma console_deviceD:
  assumes "console_device P T"
  shows "sys_open P n m w = (x, w') \<Longrightarrow> same_tty T w w'" and "same_tty T w (sys_close P fd w)"
    and "same_tty T w (sys_dup2 P a b w)" and "same_tty T w (sys_clear_vt P fd w)"
    and "same_tty T w (sys_ignore_usr1 P w)" and "sys_vt P fd req w = (r, w') \<Longrightarrow> vt_effect T fd req w r w'"
  using assms unfolding console_device_def by (elim conjE; blast)+

lemma same_tty_trans: "same_tty T w w' \<Longrightarrow> same_tty T w' w'' \<Longrightarrow> same_tty T w w''"
  by (simp add: same_tty_def)

lemma same_tty_refl [simp]: "same_tty T w w"
  by (simp add: same_tty_def)

lemma console_fd_same:
  assumes dev: "console_device P T" and "console_fd P n w = (fd, w')"
  shows "same_tty T w w'"
proof -
  obtain f1 e1 w1 where o1: "sys_open P n O_RDONLY w = ((f1, e1), w1)" by (metis surj_pair)
  obtain f2 e2 w2 where o2: "(if f1 < 0 \<and> e1 = EACCES then sys_open P n O_WRONLY w1 else ((f1, e1), w1)) = ((f2, e2), w2)"
    by (metis surj_pair)
  obtain r w3 where v: "sys_vt P f2 KDGKBTYPE w2 = (r, w3)" by fastforce
  have "same_tty T w w1" using console_deviceD(1) [OF dev o1] .
  moreover have "same_tty T w1 w2" using o2 console_deviceD(1) [OF dev] by (auto split: if_splits)
  moreover have "same_tty T w2 w3" using console_deviceD(6) [OF dev v] by (simp add: vt_effect_def)
  moreover have "w' = w2 \<or> w' = w3 \<or> w' = sys_close P f2 w3"
    using assms(2) o1 o2 v by (auto simp: console_fd_def Let_def split: if_splits)
  ultimately show ?thesis using console_deviceD(2) [OF dev] same_tty_trans by metis
qed

lemma find_vt_result:
  assumes dev: "console_device P T" and f: "find_vt P fd c w = ((error, vt, clear, tiocl, c'), w')"
  shows "same_tty T w w' \<and> (error = 0 \<longrightarrow> orig_vc c' = tv_active T w) \<and> (tiocl = 0 \<longrightarrow> tv_redirect T w = 0)"
proof -
  obtain r1 w1 where 1: "sys_vt P fd TIOCL_GETKMSGREDIRECT w = (r1, w1)" by fastforce
  obtain r2 w2 where 2: "sys_vt P fd VT_GETSTATE w1 = (r2, w2)" by fastforce
  obtain r3 w3 where 3: "sys_vt P fd VT_OPENQRY w2 = (r3, w3)" by fastforce
  note e = console_deviceD(6) [OF dev 1] console_deviceD(6) [OF dev 2] console_deviceD(6) [OF dev 3]
  show ?thesis
    using f e by (auto simp: find_vt_def 1 2 3 vt_effect_def same_tty_def Let_def split: if_splits)
qed

lemma redirect_kmsg_result:
  assumes dev: "console_device P T" and "redirect_kmsg P fd vt tiocl c w = (c', w')"
  shows "orig_vc c' = orig_vc c \<and> tv_active T w' = tv_active T w \<and> tv_mode T w' = tv_mode T w
    \<and> (set_kmsg_redirect c' \<longrightarrow> tiocl = 0) \<and> (\<not> set_kmsg_redirect c' \<longrightarrow> tv_redirect T w' = tv_redirect T w)"
proof -
  obtain r1 w1 where 1: "sys_vt P fd (TIOCL_SETKMSGREDIRECT vt) w = (r1, w1)" by fastforce
  show ?thesis
    using assms(2) console_deviceD(6) [OF dev 1] by (auto simp: redirect_kmsg_def 1 vt_effect_def split: if_splits)
qed

lemma prepare_console_result:
  assumes dev: "console_device P T" and p: "prepare_console P c w = ((fd, c'), w')" and fd: "0 \<le> fd"
    and v: "\<forall>fd req w. v_ret (fst (sys_vt P fd req w)) \<le> 0"
  shows "orig_vc c' = tv_active T w \<and> (if set_kmsg_redirect c' then tv_redirect T w = 0 else tv_redirect T w' = tv_redirect T w)"
proof -
  obtain f1 w1 where 1: "console_fd P ''/dev/console'' w = (f1, w1)" by fastforce
  obtain er vt cl ti c2 w2 where 2: "find_vt P f1 c w1 = ((er, vt, cl, ti, c2), w2)" by (metis surj_pair)
  define w3 where "w3 = sys_close P f1 w2"
  obtain f3 e3 w4 where 3: "sys_open P (tty_name vt) O_RDWR w3 = ((f3, e3), w4)" by (metis surj_pair)
  obtain r4 w5 where 4: "sys_vt P f3 (VT_ACTIVATE vt) w4 = (r4, w5)" by fastforce
  obtain r5 w6 where 5: "sys_vt P f3 (VT_WAITACTIVE vt) w5 = (r5, w6)" by fastforce
  define w7 where "w7 = sys_dup2 P f3 2 (sys_dup2 P f3 1 (sys_dup2 P f3 0 (if cl then sys_clear_vt P f3 w6 else w6)))"
  obtain c8 w8 where 8: "redirect_kmsg P f3 vt ti (c2\<lparr>new_vc := vt\<rparr>) w7 = (c8, w8)" by fastforce
  have neg: "v_ret r4 \<le> 0" "v_ret r5 \<le> 0" using v 4 5 by (metis fst_conv)+
  have run: "er = 0" "v_ret r4 = 0" "v_ret r5 = 0" "c' = c8" "w' = w8"
    using p fd neg unfolding prepare_console_def
    by (auto simp: 1 2 3 4 5 8 Let_def simp flip: w3_def w7_def split: if_splits)
  note s = console_fd_same [OF dev 1] find_vt_result [OF dev 2] console_deviceD(2) [OF dev, of w2 f1]
    console_deviceD(1) [OF dev 3] console_deviceD(6) [OF dev 4] console_deviceD(6) [OF dev 5]
  have "tv_redirect T w7 = tv_redirect T w6"
    using console_deviceD(3,4) [OF dev] unfolding w7_def same_tty_def by (simp split: if_split)
  then have "tv_redirect T w7 = tv_redirect T w"
    using s by (simp add: vt_effect_def same_tty_def flip: w3_def)
  then show ?thesis
    using redirect_kmsg_result [OF dev 8] s run by (auto simp: same_tty_def)
qed

section \<open>Properties\<close>

text \<open>
  C30: \<open>restore_console\<close> undoes \<open>prepare_console\<close>: whatever has happened to the terminals in between
  (the redirection of kernel messages apart), when its requests succeed the terminal that was active
  before is active again and kernel messages go where they went before.
\<close>

theorem console_restored:
  assumes dev: "console_device P T" and neg: "\<forall>fd req w. v_ret (fst (sys_vt P fd req w)) \<le> 0"
    and p: "prepare_console P c w = ((fd, c'), w1)" and fd: "0 \<le> fd"
    and between: "tv_redirect T w2 = tv_redirect T w1"
    and ok: "\<forall>req\<in>{VT_ACTIVATE (orig_vc c'), VT_WAITACTIVE (orig_vc c'), TIOCL_SETKMSGREDIRECT 0}.
      \<forall>w. v_ret (fst (sys_vt P fd req w)) = 0"
  shows "tv_active T (restore_console P fd c' w2) = tv_active T w
    \<and> tv_redirect T (restore_console P fd c' w2) = tv_redirect T w"
proof -
  obtain r3 w3 where 3: "sys_vt P fd (VT_ACTIVATE (orig_vc c')) w2 = (r3, w3)" by fastforce
  obtain r4 w4 where 4: "sys_vt P fd (VT_WAITACTIVE (orig_vc c')) w3 = (r4, w4)" by fastforce
  obtain r5 w5 where 5: "sys_vt P fd (TIOCL_SETKMSGREDIRECT 0) w4 = (r5, w5)" by fastforce
  have r: "v_ret r3 = 0" "v_ret r4 = 0" "v_ret r5 = 0" using ok 3 4 5 by (metis fst_conv insertCI)+
  have "restore_console P fd c' w2 = sys_close P fd (if set_kmsg_redirect c' then w5 else w4)"
    by (simp add: restore_console_def 3 4 5 r)
  then show ?thesis
    using prepare_console_result [OF dev p fd neg] between r console_deviceD(2) [OF dev]
      console_deviceD(6) [OF dev 3] console_deviceD(6) [OF dev 4] console_deviceD(6) [OF dev 5]
    by (auto simp: vt_effect_def same_tty_def)
qed

text \<open>
  \<open>unlock_vt\<close> gives the terminal back the mode that it had before \<open>lock_vt\<close>, whatever its mode is
  meanwhile, when its request succeeds.
\<close>

lemma vt_mode_restored:
  assumes dev: "console_device P T" and neg: "\<forall>fd req w. v_ret (fst (sys_vt P fd req w)) \<le> 0"
    and l: "lock_vt P l w = ((0, l'), w1)"
    and ok: "\<forall>w. v_ret (fst (sys_vt P (vfd l') (VT_SETMODE (orig_vtm l')) w)) = 0"
  shows "tv_mode T (unlock_vt P l' w2) (vfd l') = tv_mode T w (vfd l')"
proof -
  obtain f1 w3 where 1: "console_fd P ''/dev/console'' w = (f1, w3)" by fastforce
  obtain r2 w4 where 2: "sys_vt P f1 VT_GETSTATE w3 = (r2, w4)" by fastforce
  define w5 where "w5 = sys_close P f1 w4"
  obtain f3 e3 w6 where 3: "sys_open P (tty_name (v_out r2)) O_RDWR w5 = ((f3, e3), w6)" by (metis surj_pair)
  obtain r4 w7 where 4: "sys_vt P f3 VT_GETMODE w6 = (r4, w7)" by fastforce
  have "v_ret r4 \<le> 0" using neg 4 by (metis fst_conv)
  then have run: "0 \<le> f3 \<longrightarrow> v_ret r4 = 0" "vfd l' = f3" "0 \<le> f3 \<longrightarrow> orig_vtm l' = v_mode r4" "0 \<le> f3"
    using l neg unfolding lock_vt_def by (auto simp: 1 2 3 4 Let_def simp flip: w5_def split: if_splits prod.splits)
  have "tv_mode T w6 = tv_mode T w" "v_mode r4 = tv_mode T w6 f3"
    using console_fd_same [OF dev 1] console_deviceD(6) [OF dev 2] console_deviceD(2) [OF dev, of w4 f1]
      console_deviceD(1) [OF dev 3] console_deviceD(6) [OF dev 4] run
    by (simp_all add: vt_effect_def same_tty_def flip: w5_def)
  moreover obtain r8 w8 where 8: "sys_vt P (vfd l') (VT_SETMODE (orig_vtm l')) w2 = (r8, w8)" by fastforce
  moreover have "v_ret r8 = 0" using ok 8 by (metis fst_conv)
  ultimately show ?thesis
    using console_deviceD(6) [OF dev 8] console_deviceD(2) [OF dev, of w8 "vfd l'"] run
    by (simp add: unlock_vt_def vt_effect_def same_tty_def)
qed

text \<open>A terminal for the witnesses: 7 is active, kernel messages are not redirected, 9 is free.\<close>

record tty_world =
  tw_active :: int
  tw_redirect :: int
  tw_mode :: "int \<Rightarrow> vt_mode"

definition tty_posix :: "tty_world posix" where
  "tty_posix =
     \<lparr>sys_open = (\<lambda>n m w. ((5, 0), w)), sys_close = (\<lambda>fd w. w), sys_dup2 = (\<lambda>a b w. w),
      sys_stat = (\<lambda>n w. (\<lparr>st_ret = - 1, st_errno = ENOENT, st_type = Other_file, st_rdev = 0, st_size = 0\<rparr>, w)),
      sys_mkdir = (\<lambda>n w. ((0, 0), w)), sys_mount = (\<lambda>n t w. ((0, 0), w)), sys_umount = (\<lambda>n w. ((0, 0), w)),
      sys_chdir = (\<lambda>n w. ((0, 0), w)), sys_mknod = (\<lambda>n d w. ((0, 0), w)), sys_mlockall = (\<lambda>w. ((0, 0), w)),
      sys_setrlimits = (\<lambda>w. w), sys_sync = (\<lambda>w. w),
      sys_vt = (\<lambda>fd req w.
        (\<lparr>v_ret = 0, v_errno = 0,
          v_out = (case req of KDGKBTYPE \<Rightarrow> KB_101 | VT_GETSTATE \<Rightarrow> tw_active w
                   | TIOCL_GETKMSGREDIRECT \<Rightarrow> tw_redirect w | VT_OPENQRY \<Rightarrow> 9 | _ \<Rightarrow> 0),
          v_mode = tw_mode w fd\<rparr>,
         case req of VT_WAITACTIVE n \<Rightarrow> w\<lparr>tw_active := n\<rparr> | TIOCL_SETKMSGREDIRECT n \<Rightarrow> w\<lparr>tw_redirect := n\<rparr>
         | VT_SETMODE m \<Rightarrow> w\<lparr>tw_mode := (tw_mode w)(fd := m)\<rparr> | _ \<Rightarrow> w)),
      sys_ignore_usr1 = (\<lambda>w. w), sys_clear_vt = (\<lambda>fd w. w), file_open = (\<lambda>n w. (False, w)),
      file_read_int = (\<lambda>n w. (None, w)), file_write_int = (\<lambda>n v w. w), file_close = (\<lambda>n w. w)\<rparr>"

definition one_tty :: "tty_world tty" where
  "one_tty = \<lparr>tv_active = tw_active, tv_redirect = tw_redirect, tv_mode = tw_mode\<rparr>"

definition tty_start :: tty_world where
  "tty_start = \<lparr>tw_active = 7, tw_redirect = 0, tw_mode = (\<lambda>fd. \<lparr>vt_process = False, vt_relsig = 0, vt_acqsig = 0\<rparr>)\<rparr>"

lemma tty_console_device: "console_device tty_posix one_tty"
  by (auto simp: console_device_def tty_posix_def one_tty_def vt_effect_def same_tty_def split: vt_request.split)

lemma tty_vt_ret [simp]: "v_ret (fst (sys_vt tty_posix fd req w)) = 0"
  by (simp add: tty_posix_def)

definition no_console :: console where
  "no_console = \<lparr>orig_vc = - 1, new_vc = - 1, set_kmsg_redirect = False\<rparr>"

lemma console_restored_witness:
  "\<exists>c' w1. prepare_console tty_posix no_console tty_start = ((5, c'), w1) \<and> tw_active w1 = 9 \<and> tw_redirect w1 = 9
     \<and> tw_active (restore_console tty_posix 5 c' w1) = 7 \<and> tw_redirect (restore_console tty_posix 5 c' w1) = 0"
proof -
  obtain c' w1 where p: "prepare_console tty_posix no_console tty_start = ((5, c'), w1)"
    and a: "tw_active w1 = 9" "tw_redirect w1 = 9"
    by (simp add: prepare_console_def console_fd_def find_vt_def redirect_kmsg_def tty_posix_def tty_start_def KB_101_def)
  have "tv_active one_tty (restore_console tty_posix 5 c' w1) = tv_active one_tty tty_start
    \<and> tv_redirect one_tty (restore_console tty_posix 5 c' w1) = tv_redirect one_tty tty_start"
    by (rule console_restored [OF tty_console_device _ p]) simp_all
  then show ?thesis using p a by (auto simp: one_tty_def tty_start_def)
qed

definition no_lock :: vt_lock where
  "no_lock = \<lparr>vfd = - 1, orig_vtm = \<lparr>vt_process = False, vt_relsig = 0, vt_acqsig = 0\<rparr>\<rparr>"

lemma vt_mode_restored_witness:
  "\<exists>l' w1. lock_vt tty_posix no_lock tty_start = ((0, l'), w1) \<and> vt_process (tw_mode w1 5)
     \<and> tw_mode (unlock_vt tty_posix l' w1) 5 = tw_mode tty_start 5"
proof -
  obtain l' w1 where p: "lock_vt tty_posix no_lock tty_start = ((0, l'), w1)"
    and a: "vt_process (tw_mode w1 5)" "vfd l' = 5"
    by (simp add: lock_vt_def console_fd_def tty_posix_def tty_start_def KB_101_def)
  have "tv_mode one_tty (unlock_vt tty_posix l' w1) (vfd l') = tv_mode one_tty tty_start (vfd l')"
    by (rule vt_mode_restored [OF tty_console_device _ p]) simp_all
  then show ?thesis using p a by (auto simp: one_tty_def)
qed

end
