(* ===== verification/Allocator.thy ===== *)
theory Allocator
  imports Prelude
begin

text \<open>
  What the clients of a memory allocator rely on, for the pool of \<open>memalloc.c\<close> and the real mode memory of
  \<open>x86-common.c\<close>: a call returns; it hands out an address nobody holds, and memory nobody holds, and records
  it, or it fails and changes nothing; releasing an address forgets exactly that one.
\<close>

locale allocator =
  fixes alloc :: "'n \<Rightarrow> 'm \<Rightarrow> ('a option \<times> 'm) option"
    and dealloc :: "'a \<Rightarrow> 'm \<Rightarrow> 'm option"
    and inv :: "'m \<Rightarrow> bool"
    and owned :: "'m \<Rightarrow> ('a \<times> 'l) set"
    and covers :: "'a \<times> 'l \<Rightarrow> nat set"
    and usable :: "'n \<Rightarrow> bool"
  assumes alloc_law: "inv m \<Longrightarrow> usable n \<Longrightarrow> alloc n m = Some (None, m) \<or>
      (\<exists>a l m'. alloc n m = Some (Some a, m') \<and> inv m' \<and> a \<notin> fst ` owned m \<and> owned m' = insert (a, l) (owned m))"
    and dealloc_law: "inv m \<Longrightarrow> \<exists>m'. dealloc a m = Some m' \<and> inv m' \<and> owned m' = {r \<in> owned m. fst r \<noteq> a}"
    and disjoint_law: "inv m \<Longrightarrow> r \<in> owned m \<Longrightarrow> s \<in> owned m \<Longrightarrow> r \<noteq> s \<Longrightarrow> covers r \<inter> covers s = {}"
begin

lemma alloc_returns: "inv m \<Longrightarrow> usable n \<Longrightarrow> \<exists>r. alloc n m = Some r"
  using alloc_law [of m n] by auto

lemma alloc_SomeD:
  assumes "inv m" and "usable n" and "alloc n m = Some (Some a, m')"
  shows "inv m'" and "a \<notin> fst ` owned m" and "\<exists>l. owned m' = insert (a, l) (owned m)"
  using alloc_law [OF assms(1,2)] assms(3) by auto

lemma alloc_fresh:
  assumes "inv m" and "usable n" and "alloc n m = Some (Some a, m')" and "r \<in> owned m" and "(a, l) \<in> owned m'"
  shows "covers (a, l) \<inter> covers r = {}"
proof -
  note d = alloc_SomeD [OF assms(1-3)]
  have "r \<in> owned m'" "(a, l) \<noteq> r" using d(2,3) assms(4) by (auto simp: rev_image_eqI)
  then show ?thesis using disjoint_law [OF d(1) assms(5)] by blast
qed

lemma alloc_dealloc:
  assumes "inv m" and "usable n" and "alloc n m = Some (Some a, m')"
  shows "\<exists>m''. dealloc a m' = Some m'' \<and> inv m'' \<and> owned m'' = owned m"
proof -
  note d = alloc_SomeD [OF assms]
  obtain m'' where m'': "dealloc a m' = Some m''" "inv m''" "owned m'' = {r \<in> owned m'. fst r \<noteq> a}"
    using dealloc_law [OF d(1)] by blast
  have "{r \<in> owned m'. fst r \<noteq> a} = owned m" using d(2,3) by (auto simp: rev_image_eqI)
  with m'' show ?thesis by auto
qed

text \<open>A whole list of addresses released.\<close>

lemma dealloc_all:
  "inv m \<Longrightarrow> \<exists>m'. foldr (\<lambda>a r. Option.bind r (dealloc a)) as (Some m) = Some m' \<and> inv m' \<and> owned m' = {r \<in> owned m. fst r \<notin> set as}"
proof (induction as)
  case (Cons a as)
  then obtain m1 where m1: "foldr (\<lambda>a r. Option.bind r (dealloc a)) as (Some m) = Some m1" "inv m1"
    "owned m1 = {r \<in> owned m. fst r \<notin> set as}" by blast
  obtain m2 where "dealloc a m1 = Some m2" "inv m2" "owned m2 = {r \<in> owned m1. fst r \<noteq> a}"
    using dealloc_law [OF m1(2)] by blast
  with m1 show ?case by auto
qed auto

end

end
