(* ===== verification/Memalloc.thy ===== *)
theory Memalloc
  imports Allocator "HOL-Library.Monad_Syntax"
begin

text \<open>
  The pool allocator of \<open>memalloc.c\<close>. All memory the suspend and resume tools touch
  while processes are frozen comes from one preallocated, page-aligned pool; an array of
  slots records the allocations in address order. The state is the set of static variables
  of the file; addresses and sizes are \<open>64 word\<close>, the \<open>unsigned int\<close> variables \<open>32 word\<close>.

  The theorems: \<open>getmem\<close> returns aligned memory inside the pool that overlaps no live
  allocation, \<open>freemem\<close> (a binary search over the slots) releases exactly the allocation
  that starts at the given address, and both keep the slot array sorted and disjoint.
\<close>

section \<open>State\<close>

record mem_slot =
  slot_addr :: u64
  slot_size :: u64

record memalloc =
  page_size :: u32
  buffer_size :: u32
  page_mask :: u64
  mem_pool :: u64
  pool_size :: u64
  slots :: "mem_slot list"  \<comment> \<open>the whole array, stale entries included\<close>
  nr_slots :: u32
  cur_slot :: nat           \<comment> \<open>\<open>cur_slot - slots\<close> of the code\<close>

definition ALIGN_QWORD :: u32 where "ALIGN_QWORD = 8"
definition BUFFER_PAGES :: u32 where "BUFFER_PAGES = 32"
definition sizeof_mem_slot :: u64 where "sizeof_mem_slot = 16"

section \<open>Operations\<close>

text \<open>The argument is what \<open>getpagesize()\<close> returns.\<close>

definition get_page_and_buffer_sizes :: "u32 \<Rightarrow> memalloc \<Rightarrow> memalloc" where
  "get_page_and_buffer_sizes pagesize m =
     m\<lparr>page_size := pagesize,
       page_mask := NOT (ucast pagesize - 1),
       buffer_size := pagesize * BUFFER_PAGES\<rparr>"

definition round_up_page_size :: "memalloc \<Rightarrow> u64 \<Rightarrow> u64" where
  "round_up_page_size m sz = (sz + ucast (page_size m) - 1) AND page_mask m"

definition round_down_page_size :: "memalloc \<Rightarrow> u64 \<Rightarrow> u64" where
  "round_down_page_size m sz = sz AND page_mask m"

text \<open>
  \<open>malloc\<close> is the C library's: the address of the new block and what its first bytes
  hold, read as slots; \<open>None\<close> is \<open>NULL\<close>.
\<close>

definition init_memalloc ::
  "(u64 \<Rightarrow> (u64 \<times> mem_slot list) option) \<Rightarrow> u64 \<Rightarrow> u64 \<Rightarrow> memalloc \<Rightarrow> int \<times> memalloc" where
  "init_memalloc malloc aux pool m =
     (let slots_size = round_up_page_size m aux;
          m = m\<lparr>pool_size := round_up_page_size m pool\<rparr>
      in case malloc (slots_size + pool_size m + ucast (page_size m)) of
           None \<Rightarrow> (- ENOMEM, m)
         | Some (mem, contents) \<Rightarrow>
             (let m = m\<lparr>slots := contents,
                        nr_slots := ucast (slots_size div sizeof_mem_slot),
                        cur_slot := 0\<rparr>;
                  mem = mem + slots_size;
                  addr = mem AND NOT (ucast (page_size m) - 1);
                  mem = (if addr < mem then addr + ucast (page_size m) else mem)
              in (0, m\<lparr>mem_pool := mem\<rparr>)))"

text \<open>
  \<open>while (align_size < size) align_size <<= 1;\<close> on an \<open>unsigned int\<close>: for sizes beyond
  \<open>2^31\<close> the shift wraps to 0 and the loop does not end, which is \<open>None\<close>.
\<close>

partial_function (option) align_loop :: "u64 \<Rightarrow> u32 \<Rightarrow> u32 option" where
  "align_loop sz a = (if ucast a < sz then align_loop sz (push_bit 1 a) else Some a)"

definition getmem_align :: "memalloc \<Rightarrow> u64 \<Rightarrow> (u32 \<times> u32) option" where
  "getmem_align m sz =
     (if ucast (page_size m) \<le> sz
      then Some (page_size m, ucast (page_mask m))
      else do { a \<leftarrow> align_loop sz ALIGN_QWORD; Some (a, NOT (a - 1)) })"

definition getmem_addr :: "memalloc \<Rightarrow> u64 \<Rightarrow> u64 option" where
  "getmem_addr m sz =
     (if 0 < cur_slot m then do {
        (align_size, align_mask) \<leftarrow> getmem_align m sz;
        let last_slot = slots m ! (cur_slot m - 1);
        Some (mem_pool m + ((slot_addr last_slot - mem_pool m + slot_size last_slot
                             + ucast align_size - 1) AND ucast align_mask))
      } else Some (mem_pool m))"

text \<open>The outer option is termination, the inner one the \<open>NULL\<close> result.\<close>

definition getmem :: "u64 \<Rightarrow> memalloc \<Rightarrow> (u64 option \<times> memalloc) option" where
  "getmem sz m =
     (if unat (nr_slots m) \<le> cur_slot m then Some (None, m)
      else do {
        addr \<leftarrow> getmem_addr m sz;
        let used = addr - mem_pool m;
        if pool_size m < used \<or> pool_size m - used < sz then Some (None, m)
        else Some (Some addr,
                   m\<lparr>slots := (slots m)[cur_slot m := \<lparr>slot_addr = addr, slot_size = sz\<rparr>],
                     cur_slot := Suc (cur_slot m)\<rparr>)
      })"

text \<open>
  \<open>do last_slot--; while (!last_slot->size && last_slot >= slots);\<close> as a count \<open>n\<close> of
  the slots up to and including \<open>last_slot\<close>. (The code reads \<open>last_slot->size\<close> before it
  compares with \<open>slots\<close>, so with \<open>n = 0\<close> it reads one slot in front of the array; the
  value does not matter, the loop stops either way.)
\<close>

fun pop_freed :: "mem_slot list \<Rightarrow> nat \<Rightarrow> nat" where
  "pop_freed xs 0 = 0"
| "pop_freed xs (Suc n) = (if slot_size (xs ! n) = 0 then pop_freed xs n else Suc n)"

definition free_slot :: "nat \<Rightarrow> memalloc \<Rightarrow> memalloc" where
  "free_slot slot m =
     (let xs = (slots m)[slot := (slots m ! slot)\<lparr>slot_size := 0\<rparr>]
      in if Suc slot = cur_slot m
         then m\<lparr>slots := xs, cur_slot := pop_freed xs slot\<rparr>
         else m\<lparr>slots := xs\<rparr>)"

text \<open>The search loop of \<open>freemem\<close>; the index of the slot to free.\<close>

function find_slot :: "mem_slot list \<Rightarrow> u64 \<Rightarrow> nat \<Rightarrow> nat \<Rightarrow> nat option" where
  "find_slot xs address i j =
     (let k = (i + j) div 2
      in if slot_addr (xs ! k) = address then Some k
         else if address > slot_addr (xs ! k) then
           (if i \<noteq> k then (if k < j then find_slot xs address k j else None)
            else if slot_addr (xs ! j) = address then Some j else None)
         else (if i < k then find_slot xs address i k else None))"
  by pat_completeness auto
termination
  by (relation "measure (\<lambda>(xs, a, i, j). j - i)") auto

declare find_slot.simps [simp del]

definition freemem :: "u64 \<Rightarrow> memalloc \<Rightarrow> memalloc" where
  "freemem address m =
     (if cur_slot m = 0 then m
      else case find_slot (slots m) address 0 (cur_slot m - 1) of
             Some k \<Rightarrow> free_slot k m
           | None \<Rightarrow> m)"

section \<open>Page geometry and rounding\<close>

definition page_geometry :: "nat \<Rightarrow> memalloc \<Rightarrow> bool" where
  "page_geometry k m \<longleftrightarrow> 3 \<le> k \<and> k \<le> 20 \<and> page_size m = 2 ^ k \<and> page_mask m = NOT (mask k)"

lemma unat_page_size_word [simp]: "k < 32 \<Longrightarrow> unat (2 ^ k :: u32) = 2 ^ k"
  by (simp add: unat_pow2)

lemma ucast_page_size [simp]: "k < 32 \<Longrightarrow> (ucast (2 ^ k :: u32) :: u64) = 2 ^ k"
  by (rule bit_word_eqI) (auto simp: bit_simps)

lemma get_page_and_buffer_sizes_geometry:
  "3 \<le> k \<Longrightarrow> k \<le> 20 \<Longrightarrow> page_geometry k (get_page_and_buffer_sizes (2 ^ k) m)"
  by (simp add: page_geometry_def get_page_and_buffer_sizes_def mask_eq_exp_minus_1)

lemma unat_p64: "k < 64 \<Longrightarrow> unat (2 ^ k :: u64) = 2 ^ k"
  by (simp add: unat_pow2)

lemma unat_round_up_page_size:
  assumes "page_geometry k m" and "unat n + 2 ^ k \<le> 2 ^ 64"
  shows "unat (round_up_page_size m n) = roundup (2 ^ k) (unat n)"
proof -
  from assms have k: "k \<le> 20" and ps: "page_size m = 2 ^ k" and pm: "page_mask m = NOT (mask k)"
    by (auto simp: page_geometry_def)
  have "unat (n + (2 ^ k - 1 :: u64)) = unat n + unat (2 ^ k - 1 :: u64)"
  proof (rule unat_add_lem [THEN iffD1])
    have "unat (2 ^ k - 1 :: u64) = 2 ^ k - 1"
      using k by (simp add: unat_minus_one unat_p64)
    moreover have "(0::nat) < 2 ^ k" by simp
    ultimately show "unat n + unat (2 ^ k - 1 :: u64) < 2 ^ LENGTH(64)"
      using assms(2) by simp
  qed
  moreover have "unat (2 ^ k - 1 :: u64) = 2 ^ k - 1"
    using k by (simp add: unat_minus_one unat_p64)
  ultimately show ?thesis
    using k by (simp add: round_up_page_size_def ps pm unat_and_not_mask roundup_def flip: add_diff_eq)
qed

lemma unat_round_down_page_size:
  "page_geometry k m \<Longrightarrow> unat (round_down_page_size m n) = unat n div 2 ^ k * 2 ^ k"
  by (simp add: page_geometry_def round_down_page_size_def unat_and_not_mask)

text \<open>The alignment loop ends with the least power of two that is large enough.\<close>

lemma align_loop_pow:
  assumes "c \<le> 31" and "unat n \<le> 2 ^ c" and "b \<le> c"
  shows "\<exists>d. b \<le> d \<and> d \<le> c \<and> align_loop n (2 ^ b) = Some (2 ^ d) \<and> unat n \<le> 2 ^ d"
  using assms(3)
proof (induction "c - b" arbitrary: b rule: less_induct)
  case less
  have u: "unat (ucast (2 ^ b :: u32) :: u64) = 2 ^ b"
    using less.prems assms(1) by (simp add: unat_p64)
  show ?case
  proof (cases "(ucast (2 ^ b :: u32) :: u64) < n")
    case False
    then have "unat n \<le> 2 ^ b"
      using u by (simp add: word_less_nat_alt)
    with False less.prems show ?thesis
      by (intro exI [of _ b]) (simp add: align_loop.simps)
  next
    case True
    then have "(2::nat) ^ b < unat n"
      using u by (simp add: word_less_nat_alt)
    then have "(2::nat) ^ b < 2 ^ c"
      using assms(2) by linarith
    then have "Suc b \<le> c"
      by (simp add: power_strict_increasing_iff Suc_le_eq)
    moreover from this have "c - Suc b < c - b" by simp
    ultimately obtain d where "Suc b \<le> d" "d \<le> c" "align_loop n (2 ^ Suc b) = Some (2 ^ d)" "unat n \<le> 2 ^ d"
      using less.hyps [of "Suc b"] by blast
    moreover have "align_loop n (2 ^ b) = align_loop n (2 ^ Suc b)"
      using True by (subst align_loop.simps) (simp add: push_bit_eq_mult mult.commute)
    ultimately show ?thesis by (intro exI [of _ d]) auto
  qed
qed

section \<open>The allocator invariant\<close>

definition live :: "memalloc \<Rightarrow> mem_slot list" where
  "live m = take (cur_slot m) (slots m)"

text \<open>The allocations in force: freed slots that could not be removed yet have size 0.\<close>

definition regions :: "memalloc \<Rightarrow> mem_slot list" where
  "regions m = filter (\<lambda>s. slot_size s \<noteq> 0) (live m)"

definition slot_end :: "mem_slot \<Rightarrow> nat" where
  "slot_end s = unat (slot_addr s) + unat (slot_size s)"

definition below :: "mem_slot \<Rightarrow> mem_slot \<Rightarrow> bool" where
  "below s t \<longleftrightarrow> slot_addr s < slot_addr t \<and> slot_end s \<le> unat (slot_addr t)"

definition in_pool :: "memalloc \<Rightarrow> mem_slot \<Rightarrow> bool" where
  "in_pool m s \<longleftrightarrow> unat (mem_pool m) \<le> unat (slot_addr s) \<and>
     slot_end s \<le> unat (mem_pool m) + unat (pool_size m)"

definition pool_wf :: "nat \<Rightarrow> memalloc \<Rightarrow> bool" where
  "pool_wf k m \<longleftrightarrow> page_geometry k m \<and> unat (mem_pool m) + unat (pool_size m) < 2 ^ 64 \<and>
     unat (pool_size m) \<le> 2 ^ 31 \<and> 2 ^ k dvd unat (mem_pool m) \<and>
     cur_slot m \<le> length (slots m) \<and> unat (nr_slots m) \<le> length (slots m)"

definition mem_wf :: "nat \<Rightarrow> memalloc \<Rightarrow> bool" where
  "mem_wf k m \<longleftrightarrow> pool_wf k m \<and> (\<forall>s\<in>set (live m). in_pool m s) \<and> sorted_wrt below (live m) \<and>
     (live m \<noteq> [] \<longrightarrow> slot_size (last (live m)) \<noteq> 0)"

lemma mem_wf_pool_wf: "mem_wf k m \<Longrightarrow> pool_wf k m"
  by (simp add: mem_wf_def)

lemma length_live: "pool_wf k m \<Longrightarrow> length (live m) = cur_slot m"
  by (simp add: pool_wf_def live_def)

lemma last_live: "pool_wf k m \<Longrightarrow> 0 < cur_slot m \<Longrightarrow> last (live m) = slots m ! (cur_slot m - 1)"
  by (cases "cur_slot m") (auto simp: pool_wf_def live_def take_Suc_conv_app_nth)

text \<open>The first pool offset behind the last allocation.\<close>

definition top :: "memalloc \<Rightarrow> nat" where
  "top m = (if live m = [] then 0 else slot_end (last (live m)) - unat (mem_pool m))"

lemma top_le_pool_size: "mem_wf k m \<Longrightarrow> top m \<le> unat (pool_size m)"
  by (auto simp: top_def mem_wf_def in_pool_def dest!: bspec [OF _ last_in_set])

lemma mask_trunc_32:
  fixes v :: u64 and x :: u32
  assumes "unat v < 2 ^ 32" and "\<And>n. n < 32 \<Longrightarrow> bit x n = (d \<le> n)"
  shows "v AND ucast x = v AND NOT (mask d)"
proof (rule bit_word_eqI)
  fix n
  assume n: "n < LENGTH(64)"
  have "take_bit 32 v = v"
    using assms(1) by (simp add: word_eq_iff_unsigned [where ?'a = nat] unsigned_take_bit_eq take_bit_nat_eq_self)
  then have "bit v n \<Longrightarrow> n < 32"
    by (metis bit_take_bit_iff)
  then show "bit (v AND ucast x) n = bit (v AND NOT (mask d)) n"
    using n assms(2) by (auto simp: bit_simps)
qed

lemma getmem_align_pow:
  assumes "page_geometry k m"
  obtains d where "3 \<le> d" "d \<le> k" "unat n \<le> 2 ^ d \<or> d = k"
    "\<exists>x. getmem_align m n = Some (2 ^ d, x) \<and> (\<forall>i < 32. bit x i = (d \<le> i))"
proof (cases "ucast (page_size m) \<le> n")
  case True
  with assms show ?thesis
    by (intro that [of k]) (auto simp: page_geometry_def getmem_align_def bit_simps)
next
  case False
  have u: "unat (ucast (page_size m) :: u64) = 2 ^ k"
    using assms by (simp add: page_geometry_def unat_p64)
  with False have n: "unat n \<le> 2 ^ k"
    by (simp add: word_le_nat_alt)
  from assms have k: "k \<le> 20" "3 \<le> k" by (auto simp: page_geometry_def)
  from align_loop_pow [OF _ n, of 3] k obtain d where
    d: "3 \<le> d" "d \<le> k" "align_loop n (2 ^ 3) = Some (2 ^ d)" "unat n \<le> 2 ^ d"
    by auto
  have "NOT (2 ^ d - 1) = (NOT (mask d) :: u32)"
    by (simp add: mask_eq_exp_minus_1)
  then have "\<forall>i < 32. bit (NOT (2 ^ d - 1) :: u32) i = (d \<le> i)"
    by (auto simp: bit_simps)
  with d False show ?thesis
    by (intro that [of d]) (auto simp: getmem_align_def ALIGN_QWORD_def)
qed

lemma getmem_addr_aligned:
  assumes wf: "mem_wf k m"
  obtains d al where "3 \<le> d" "d \<le> k" "unat n \<le> 2 ^ d \<or> d = k"
    "getmem_addr m n = Some (mem_pool m + al)"
    "unat al = roundup (2 ^ d) (top m)"
proof (cases "cur_slot m = 0")
  case True
  with wf have "top m = 0" by (simp add: top_def live_def)
  moreover have "roundup (2 ^ k) 0 = 0" by (simp add: roundup_def)
  ultimately show ?thesis
    using True wf by (intro that [of k 0]) (auto simp: getmem_addr_def mem_wf_def pool_wf_def page_geometry_def)
next
  case False
  define s where "s = slots m ! (cur_slot m - 1)"
  have pw: "pool_wf k m" and geo: "page_geometry k m"
    using wf by (auto simp: mem_wf_def pool_wf_def)
  obtain d x where d: "3 \<le> d" "d \<le> k" "unat n \<le> 2 ^ d \<or> d = k"
    and al: "getmem_align m n = Some (2 ^ d, x)" and x: "\<forall>i < 32. bit x i = (d \<le> i)"
    using getmem_align_pow [OF geo, of n] by metis
  have d20: "d \<le> 20" using d(2) geo by (simp add: page_geometry_def)
  have ne: "live m \<noteq> []" and last: "last (live m) = s"
    using False length_live [OF pw] last_live [OF pw] by (auto simp: s_def)
  then have ip: "in_pool m s"
    using wf by (metis mem_wf_def last_in_set)
  have off: "unat (slot_addr s - mem_pool m) = unat (slot_addr s) - unat (mem_pool m)"
    using ip by (intro unat_sub) (auto simp: in_pool_def word_le_nat_alt)
  have t: "top m = unat (slot_addr s - mem_pool m) + unat (slot_size s)"
    using ip ne by (auto simp: top_def last slot_end_def off in_pool_def)
  have t31: "top m \<le> 2 ^ 31"
    using top_le_pool_size [OF wf] pw by (auto simp: pool_wf_def)
  let ?v = "slot_addr s - mem_pool m + slot_size s + ucast (2 ^ d :: u32) - 1"
  have d32: "(2::nat) ^ d \<le> 2 ^ 20" using d20 by (rule power_increasing) simp
  have v: "unat ?v = top m + 2 ^ d - 1"
  proof -
    have e: "unat (ucast (2 ^ d :: u32) :: u64) = 2 ^ d" using d20 by (simp add: unat_p64)
    have s1: "unat (slot_addr s - mem_pool m + slot_size s) = top m"
      using t t31 by (subst unat_add_lem [THEN iffD1]) auto
    have s2: "unat (slot_addr s - mem_pool m + slot_size s + ucast (2 ^ d :: u32)) = top m + 2 ^ d"
      using s1 e t31 d32 by (subst unat_add_lem [THEN iffD1]) auto
    then have "slot_addr s - mem_pool m + slot_size s + ucast (2 ^ d :: u32) \<noteq> 0"
      by (metis add_is_0 power_not_zero unat_0 zero_neq_numeral)
    then show ?thesis using s2 by (simp add: unat_minus_one)
  qed
  have "?v AND ucast x = ?v AND NOT (mask d)"
    using x v t31 d32 by (intro mask_trunc_32) auto
  then have r: "unat (?v AND ucast x) = roundup (2 ^ d) (top m)"
    by (simp only: unat_and_not_mask v roundup_def)
  show ?thesis
    using False d al r by (intro that [of d "?v AND ucast x"]) (auto simp: getmem_addr_def Let_def s_def)
qed

section \<open>getmem\<close>

text \<open>
  Everything about one call: it ends; on failure nothing changes; on success the new
  region starts at a multiple of the alignment, lies behind every slot in use and inside
  the pool. Failure happens exactly when the slots or the aligned rest of the pool run out.
\<close>

lemma getmem_cases:
  assumes wf: "mem_wf k m"
  obtains d off where "3 \<le> d" "d \<le> k" "unat n \<le> 2 ^ d \<or> d = k" "off = roundup (2 ^ d) (top m)"
    "unat (nr_slots m) \<le> cur_slot m \<or> unat (pool_size m) < off + unat n \<longrightarrow>
     getmem n m = Some (None, m)"
    "\<not> (unat (nr_slots m) \<le> cur_slot m \<or> unat (pool_size m) < off + unat n) \<longrightarrow>
     (\<exists>addr. unat addr = unat (mem_pool m) + off \<and>
       getmem n m = Some (Some addr,
         m\<lparr>slots := (slots m)[cur_slot m := \<lparr>slot_addr = addr, slot_size = n\<rparr>],
           cur_slot := Suc (cur_slot m)\<rparr>))"
proof -
  obtain d al where d: "3 \<le> d" "d \<le> k" "unat n \<le> 2 ^ d \<or> d = k"
    and ga: "getmem_addr m n = Some (mem_pool m + al)"
    and al: "unat al = roundup (2 ^ d) (top m)"
    by (rule getmem_addr_aligned [OF wf])
  have room: "(pool_size m < al \<or> pool_size m - al < n) \<longleftrightarrow> unat (pool_size m) < unat al + unat n"
  proof (cases "pool_size m < al")
    case False
    then have "unat (pool_size m - al) = unat (pool_size m) - unat al" "unat al \<le> unat (pool_size m)"
      by (auto intro: unat_sub simp: word_le_nat_alt word_less_nat_alt)
    with False show ?thesis by (auto simp: word_less_nat_alt)
  qed (auto simp: word_less_nat_alt)
  have sum: "unat (mem_pool m + al) = unat (mem_pool m) + unat al"
    if "unat al \<le> unat (pool_size m)"
    using that wf by (intro unat_add_lem [THEN iffD1]) (auto simp: mem_wf_def pool_wf_def)
  show ?thesis
  proof (rule that [OF d refl]; intro impI)
    assume "unat (nr_slots m) \<le> cur_slot m \<or> unat (pool_size m) < roundup (2 ^ d) (top m) + unat n"
    then show "getmem n m = Some (None, m)"
      using room by (auto simp: Let_def getmem_def ga al)
  next
    assume "\<not> (unat (nr_slots m) \<le> cur_slot m \<or> unat (pool_size m) < roundup (2 ^ d) (top m) + unat n)"
    then show "\<exists>addr. unat addr = unat (mem_pool m) + roundup (2 ^ d) (top m) \<and>
       getmem n m = Some (Some addr,
         m\<lparr>slots := (slots m)[cur_slot m := \<lparr>slot_addr = addr, slot_size = n\<rparr>],
           cur_slot := Suc (cur_slot m)\<rparr>)"
      using room sum by (intro exI [of _ "mem_pool m + al"]) (auto simp: Let_def getmem_def ga al)
  qed
qed

definition owns :: "memalloc \<Rightarrow> u64 \<Rightarrow> bool" where
  "owns m a \<longleftrightarrow> (\<exists>s\<in>set (regions m). slot_addr s = a)"

lemma live_push:
  "pool_wf k m \<Longrightarrow> cur_slot m < unat (nr_slots m) \<Longrightarrow>
   live (m\<lparr>slots := (slots m)[cur_slot m := s], cur_slot := Suc (cur_slot m)\<rparr>) = live m @ [s]"
  by (auto simp: live_def pool_wf_def take_Suc_conv_app_nth)

lemma below_new_slot:
  assumes wf: "mem_wf k m" and s: "s \<in> set (live m)"
    and t: "unat (mem_pool m) + top m \<le> unat (slot_addr t)"
  shows "below s t"
proof -
  obtain xs l where l: "live m = xs @ [l]"
    using s by (metis append_butlast_last_id empty_iff empty_set)
  have sl: "s = l \<or> below s l" and "slot_size l \<noteq> 0" and "in_pool m l"
    using wf s by (auto simp: mem_wf_def l sorted_wrt_append)
  then have "slot_end l \<le> unat (slot_addr t)" and "unat (slot_addr l) < slot_end l"
    using t by (auto simp: top_def l in_pool_def slot_end_def unat_gt_0)
  with sl show ?thesis
    by (auto simp: below_def word_less_nat_alt slot_end_def)
qed

text \<open>Functional specification of \<open>getmem\<close> over the allocations in force.\<close>

lemma getmem_spec:
  assumes wf: "mem_wf k m" and n: "n \<noteq> 0"
  shows "getmem n m = Some (None, m) \<or>
    (\<exists>a m' d. getmem n m = Some (Some a, m') \<and> mem_wf k m' \<and>
       regions m' = regions m @ [\<lparr>slot_addr = a, slot_size = n\<rparr>] \<and>
       in_pool m \<lparr>slot_addr = a, slot_size = n\<rparr> \<and>
       (\<forall>s\<in>set (live m). below s \<lparr>slot_addr = a, slot_size = n\<rparr>) \<and>
       3 \<le> d \<and> (unat n \<le> 2 ^ d \<or> d = k) \<and> 2 ^ d dvd unat a)"
proof -
  obtain d off where d: "3 \<le> d" "d \<le> k" "unat n \<le> 2 ^ d \<or> d = k" and off: "off = roundup (2 ^ d) (top m)"
    and fail: "unat (nr_slots m) \<le> cur_slot m \<or> unat (pool_size m) < off + unat n \<longrightarrow>
      getmem n m = Some (None, m)"
    and succ: "\<not> (unat (nr_slots m) \<le> cur_slot m \<or> unat (pool_size m) < off + unat n) \<longrightarrow>
     (\<exists>addr. unat addr = unat (mem_pool m) + off \<and>
       getmem n m = Some (Some addr,
         m\<lparr>slots := (slots m)[cur_slot m := \<lparr>slot_addr = addr, slot_size = n\<rparr>],
           cur_slot := Suc (cur_slot m)\<rparr>))"
    by (rule getmem_cases [OF wf, of n])
  show ?thesis
  proof (cases "unat (nr_slots m) \<le> cur_slot m \<or> unat (pool_size m) < off + unat n")
    case True
    with fail show ?thesis by blast
  next
    case False
    with succ obtain a where a: "unat a = unat (mem_pool m) + off"
      and r0: "getmem n m = Some (Some a,
         m\<lparr>slots := (slots m)[cur_slot m := \<lparr>slot_addr = a, slot_size = n\<rparr>],
           cur_slot := Suc (cur_slot m)\<rparr>)" by blast
    define m' where "m' = m\<lparr>slots := (slots m)[cur_slot m := \<lparr>slot_addr = a, slot_size = n\<rparr>],
                         cur_slot := Suc (cur_slot m)\<rparr>"
    have r: "getmem n m = Some (Some a, m')" by (simp add: r0 m'_def)
  let ?new = "\<lparr>slot_addr = a, slot_size = n\<rparr>"
    have pw: "pool_wf k m" using wf by (rule mem_wf_pool_wf)
    have off_top: "top m \<le> off"
      unfolding off by (rule roundup_ge) simp
    have ip: "in_pool m ?new"
      using False by (simp add: in_pool_def slot_end_def a)
    have bl: "\<forall>s\<in>set (live m). below s ?new"
      using below_new_slot [OF wf] off_top a by simp
    have lv: "live m' = live m @ [?new]"
      unfolding m'_def using pw False by (intro live_push) auto
    have "pool_wf k m'"
      using pw False by (auto simp: m'_def pool_wf_def page_geometry_def)
    moreover have "in_pool m' s = in_pool m s" for s by (simp add: in_pool_def m'_def)
    ultimately have "mem_wf k m'"
      using wf lv ip bl n by (auto simp: mem_wf_def sorted_wrt_append)
    moreover have "regions m' = regions m @ [?new]"
      using n by (simp add: regions_def lv)
    moreover have "2 ^ d dvd unat a"
    proof -
      have "(2::nat) ^ d dvd 2 ^ k" using d(2) by (rule le_imp_power_dvd)
      then show ?thesis
        using pw unfolding a pool_wf_def off by (intro dvd_add dvd_roundup) (auto intro: dvd_trans)
    qed
    ultimately show ?thesis using r ip bl d by blast
  qed
qed

section \<open>freemem\<close>

lemma below_addr_mono: "below s t \<Longrightarrow> slot_addr s < slot_addr t"
  by (simp add: below_def)

lemma sorted_live_nth:
  "mem_wf k m \<Longrightarrow> i < j \<Longrightarrow> j < cur_slot m \<Longrightarrow> below (slots m ! i) (slots m ! j)"
  using sorted_wrt_nth_less [of below "live m" i j]
  by (auto simp: mem_wf_def pool_wf_def live_def)

text \<open>The binary search finds the slot with the given address, if there is one.\<close>

lemma find_slot_complete:
  assumes "\<And>a b. a < b \<Longrightarrow> b < n \<Longrightarrow> slot_addr (xs ! a) < slot_addr (xs ! b)"
    and "j < n" and "i \<le> x" and "x \<le> j" and "slot_addr (xs ! x) = address"
  shows "find_slot xs address i j = Some x"
  using assms
proof (induction xs address i j rule: find_slot.induct)
  case (1 xs address i j)
  let ?k = "(i + j) div 2"
  have mono: "slot_addr (xs ! a) < slot_addr (xs ! b) \<longleftrightarrow> a < b" if "a < n" "b < n" for a b
    using that "1.prems"(1) [of a b] "1.prems"(1) [of b a]
    by (metis less_asym less_irrefl linorder_neqE_nat)
  have x: "x < n" and k: "?k < n" and addr: "address = slot_addr (xs ! x)"
    using "1.prems" by auto
  consider "x = ?k" | "?k < x" | "x < ?k" by linarith
  then show ?case
  proof cases
    case 1
    then show ?thesis by (subst find_slot.simps) (simp add: addr)
  next
    case 2
    then have gt: "slot_addr (xs ! ?k) < address" using mono [OF k x] addr by simp
    show ?thesis
    proof (cases "i = ?k")
      case True
      with 2 "1.prems" have "x = j" by linarith
      with gt True show ?thesis by (subst find_slot.simps) (auto simp: Let_def addr)
    next
      case False
      with 2 "1.prems" gt have "find_slot xs address ?k j = Some x"
        by (intro "1.IH"(1) [OF refl]) auto
      with gt False 2 "1.prems" show ?thesis by (subst find_slot.simps) (auto simp: Let_def)
    qed
  next
    case 3
    then have lt: "address < slot_addr (xs ! ?k)" using mono [OF x k] addr by simp
    with 3 "1.prems" k have "find_slot xs address i ?k = Some x"
      by (intro "1.IH"(2) [OF refl]) auto
    with lt 3 "1.prems"(3) show ?thesis by (subst find_slot.simps) (auto simp: Let_def)
  qed
qed

lemma find_slot_sound:
  "find_slot xs address i j = Some x \<Longrightarrow> i \<le> j \<Longrightarrow> slot_addr (xs ! x) = address \<and> x \<le> j"
proof (induction xs address i j rule: find_slot.induct)
  case (1 xs address i j)
  from "1.prems" show ?case
    by (subst (asm) find_slot.simps) (auto simp: Let_def split: if_splits dest: "1.IH" [OF refl])
qed

lemma find_slot_eq:
  assumes wf: "mem_wf k m" and "0 < cur_slot m"
  shows "find_slot (slots m) address 0 (cur_slot m - 1) = Some x \<longleftrightarrow>
    x < cur_slot m \<and> slot_addr (slots m ! x) = address"
proof
  assume "find_slot (slots m) address 0 (cur_slot m - 1) = Some x"
  from find_slot_sound [OF this] assms(2) show "x < cur_slot m \<and> slot_addr (slots m ! x) = address"
    by auto
next
  assume "x < cur_slot m \<and> slot_addr (slots m ! x) = address"
  with assms(2) show "find_slot (slots m) address 0 (cur_slot m - 1) = Some x"
    by (intro find_slot_complete [where n = "cur_slot m"])
       (auto intro: below_addr_mono sorted_live_nth [OF wf])
qed

lemma pop_freed_le: "pop_freed xs n \<le> n"
  by (induction xs n rule: pop_freed.induct) auto

lemma pop_freed_last: "pop_freed xs n \<noteq> 0 \<Longrightarrow> slot_size (xs ! (pop_freed xs n - 1)) \<noteq> 0"
  by (induction xs n rule: pop_freed.induct) auto

lemma filter_pop_freed:
  "n \<le> length xs \<Longrightarrow> filter (\<lambda>s. slot_size s \<noteq> 0) (take (pop_freed xs n) xs) =
     filter (\<lambda>s. slot_size s \<noteq> 0) (take n xs)"
  by (induction xs n rule: pop_freed.induct) (auto simp: take_Suc_conv_app_nth)

lemma pop_freed_take: "n \<le> c \<Longrightarrow> pop_freed (take c xs) n = pop_freed xs n"
  by (induction n) auto

definition release :: "nat \<Rightarrow> mem_slot list \<Rightarrow> mem_slot list" where
  "release i xs = xs[i := (xs ! i)\<lparr>slot_size := 0\<rparr>]"

lemma length_release [simp]: "length (release i xs) = length xs"
  by (simp add: release_def)

lemma release_Nil [simp]: "release i [] = []"
  by (simp add: release_def)

lemma nth_release:
  "j < length xs \<Longrightarrow> release i xs ! j = (if j = i then (xs ! i)\<lparr>slot_size := 0\<rparr> else xs ! j)"
  by (simp add: release_def nth_list_update)

lemma live_free_slot:
  assumes "pool_wf k m" and "i < cur_slot m"
  shows "live (free_slot i m) =
    (if Suc i = length (live m) then take (pop_freed (release i (live m)) i) (release i (live m))
     else release i (live m))"
proof -
  have u: "release i (live m) = take (cur_slot m) (release i (slots m))"
    using assms(2) by (simp add: release_def live_def take_update_swap)
  have "pop_freed (release i (live m)) i = pop_freed (release i (slots m)) i"
    unfolding u using assms(2) by (intro pop_freed_take) simp
  moreover have "pop_freed (release i (slots m)) i \<le> cur_slot m"
    using pop_freed_le [of "release i (slots m)" i] assms(2) by simp
  ultimately show ?thesis
    using u by (simp add: length_live [OF assms(1)])
      (simp add: free_slot_def Let_def live_def min_def release_def)
qed

lemma cur_slot_free_slot: "i < cur_slot m \<Longrightarrow> cur_slot (free_slot i m) \<le> cur_slot m"
  using pop_freed_le [of "(slots m)[i := (slots m ! i)\<lparr>slot_size := 0\<rparr>]" i]
  by (simp add: free_slot_def Let_def)

lemma sorted_release:
  "sorted_wrt below xs \<Longrightarrow> sorted_wrt below (release i xs)"
  by (cases "i < length xs")
    (auto simp: release_def sorted_wrt_iff_nth_less nth_list_update below_def slot_end_def
       dest!: spec [where P = "\<lambda>i. \<forall>j>i. Q i j" for Q])

lemma regions_free_slot:
  assumes pw: "pool_wf k m" and i: "i < cur_slot m"
  shows "regions (free_slot i m) = filter (\<lambda>s. slot_size s \<noteq> 0) (release i (live m))"
proof (cases "Suc i = length (live m)")
  case True
  then have "release i (live m) = take i (release i (live m)) @ [(live m ! i)\<lparr>slot_size := 0\<rparr>]"
    by (intro nth_equalityI) (auto simp: nth_append nth_release not_less dest: less_antisym)
  then have "filter (\<lambda>s. slot_size s \<noteq> 0) (release i (live m)) =
      filter (\<lambda>s. slot_size s \<noteq> 0) (take i (release i (live m)) @ [(live m ! i)\<lparr>slot_size := 0\<rparr>])"
    by (rule arg_cong)
  with True show ?thesis
    by (simp add: regions_def live_free_slot [OF pw i] filter_pop_freed)
next
  case False
  then show ?thesis by (simp add: regions_def live_free_slot [OF pw i])
qed

lemma free_slot_wf:
  assumes wf: "mem_wf k m" and i: "i < cur_slot m"
  shows "mem_wf k (free_slot i m)"
proof -
  have pw: "pool_wf k m" using wf by (rule mem_wf_pool_wf)
  let ?ys = "release i (live m)"
  have len: "length (live m) = cur_slot m" by (rule length_live [OF pw])
  note lv = live_free_slot [OF pw i]
  obtain n where n: "live (free_slot i m) = take n ?ys"
    using lv by (metis order_refl take_all)
  have ys: "in_pool m s" if "s \<in> set ?ys" for s
  proof -
    from that obtain j where "j < cur_slot m" "s = ?ys ! j" by (auto simp: in_set_conv_nth len)
    moreover from this have "in_pool m (live m ! j)"
      using wf len by (simp add: mem_wf_def)
    ultimately show ?thesis
      using len by (auto simp: in_pool_def slot_end_def nth_release)
  qed
  have "pool_wf k (free_slot i m)"
    using pw cur_slot_free_slot [OF i] by (auto simp: pool_wf_def page_geometry_def free_slot_def Let_def)
  moreover have "in_pool (free_slot i m) s = in_pool m s" for s
    by (simp add: in_pool_def free_slot_def Let_def)
  moreover have "sorted_wrt below (take n ?ys)"
    using wf by (intro sorted_wrt_take sorted_release) (simp add: mem_wf_def)
  moreover have "slot_size (last (live (free_slot i m))) \<noteq> 0" if ne: "live (free_slot i m) \<noteq> []"
  proof (cases "Suc i = length (live m)")
    case True
    let ?p = "pop_freed ?ys i"
    have "?p \<noteq> 0" using ne True lv by auto
    moreover have "?p \<le> i" by (rule pop_freed_le)
    ultimately show ?thesis
      using True pop_freed_last [of ?ys i] len i by (simp add: lv array_simps)
  next
    case False
    then have "last ?ys = last (live m)" using i len
      by (cases "live m = []") (auto simp: last_conv_nth release_def)
    with False ne wf show ?thesis by (auto simp: lv mem_wf_def)
  qed
  ultimately show ?thesis
    using ys by (auto simp: mem_wf_def n dest: in_set_takeD)
qed

lemma filter_release:
  assumes "sorted_wrt below xs" and "x < length xs" and "slot_addr (xs ! x) = p"
  shows "filter (\<lambda>s. slot_size s \<noteq> 0) (release x xs) =
    filter (\<lambda>s. slot_addr s \<noteq> p) (filter (\<lambda>s. slot_size s \<noteq> 0) xs)"
proof -
  have xs: "xs = take x xs @ xs ! x # drop (Suc x) xs"
    using assms(2) by (rule id_take_nth_drop)
  have ne: "slot_addr s \<noteq> p" if "s \<in> set (take x xs) \<union> set (drop (Suc x) xs)" for s
    using assms that by (subst (asm) xs) (auto simp: sorted_wrt_append below_def)
  have id: "filter (\<lambda>s. slot_addr s \<noteq> p \<and> slot_size s \<noteq> 0) ys = filter (\<lambda>s. slot_size s \<noteq> 0) ys"
    if "set ys \<subseteq> set (take x xs) \<union> set (drop (Suc x) xs)" for ys
    using that ne by (intro filter_cong) auto
  have "release x xs = take x xs @ (xs ! x)\<lparr>slot_size := 0\<rparr> # drop (Suc x) xs"
    using assms(2) by (simp add: release_def upd_conv_take_nth_drop)
  moreover have "filter (\<lambda>s. slot_addr s \<noteq> p \<and> slot_size s \<noteq> 0) xs =
      filter (\<lambda>s. slot_size s \<noteq> 0) (take x xs) @ filter (\<lambda>s. slot_size s \<noteq> 0) (drop (Suc x) xs)"
    using assms(3) by (subst xs) (simp add: id)
  ultimately show ?thesis by (simp add: conj_commute)
qed

lemma freemem_spec:
  assumes wf: "mem_wf k m"
  shows "mem_wf k (freemem p m) \<and>
    regions (freemem p m) = filter (\<lambda>s. slot_addr s \<noteq> p) (regions m)"
proof (cases "cur_slot m = 0")
  case True
  then show ?thesis using wf by (simp add: freemem_def regions_def live_def)
next
  case False
  note pw = mem_wf_pool_wf [OF wf]
  note eq = find_slot_eq [OF wf, of p]
  show ?thesis
  proof (cases "find_slot (slots m) p 0 (cur_slot m - 1)")
    case None
    have "slot_addr s \<noteq> p" if "s \<in> set (live m)" for s
    proof -
      from that obtain x where "x < cur_slot m" "s = slots m ! x"
        using length_live [OF pw] by (auto simp: in_set_conv_nth live_def)
      with eq [of x] None False show ?thesis by auto
    qed
    then have "filter (\<lambda>s. slot_addr s \<noteq> p) (regions m) = regions m"
      by (auto simp: regions_def intro: filter_cong)
    with None wf show ?thesis by (simp add: freemem_def)
  next
    case (Some x)
    with eq [of x] False have x: "x < cur_slot m" "slot_addr (slots m ! x) = p" by auto
    then have "slot_addr (live m ! x) = p" by (simp add: live_def)
    moreover have "sorted_wrt below (live m)" using wf by (simp add: mem_wf_def)
    ultimately have "regions (free_slot x m) = filter (\<lambda>s. slot_addr s \<noteq> p) (regions m)"
      using filter_release [of "live m" x p] x length_live [OF pw]
      by (simp only: regions_free_slot [OF pw x(1)]) (simp add: regions_def)
    then show ?thesis
      using Some False free_slot_wf [OF wf x(1)] by (simp add: freemem_def)
  qed
qed

section \<open>init_memalloc\<close>

lemma unat_align_down:
  "k < 64 \<Longrightarrow> unat (x AND NOT (2 ^ k - 1) :: u64) = unat x div 2 ^ k * 2 ^ k"
  by (simp add: unat_and_not_mask flip: mask_eq_exp_minus_1)

lemma init_memalloc_wf:
  assumes geo: "page_geometry k m"
    and aux: "unat aux \<le> 2 ^ 20" and pool: "unat pool \<le> 2 ^ 30"
    and mal: "malloc (round_up_page_size m aux + round_up_page_size m pool + ucast (page_size m)) =
      Some (mem, contents)"
    and block: "unat mem + 2 ^ 32 < 2 ^ 64"
    and contents: "roundup (2 ^ k) (unat aux) div 16 \<le> length contents"
  obtains m' where "init_memalloc malloc aux pool m = (0, m')" "mem_wf k m'" "regions m' = []"
    "cur_slot m' = 0" "unat (nr_slots m') = roundup (2 ^ k) (unat aux) div 16"
    "unat (pool_size m') = roundup (2 ^ k) (unat pool)"
    "unat mem + roundup (2 ^ k) (unat aux) \<le> unat (mem_pool m')"
    "unat (mem_pool m') < unat mem + roundup (2 ^ k) (unat aux) + 2 ^ k"
proof -
  have k: "k \<le> 20" "3 \<le> k" and ps: "page_size m = 2 ^ k" using geo by (auto simp: page_geometry_def)
  have k20: "(2::nat) ^ k \<le> 2 ^ 20" using k(1) by (rule power_increasing) simp
  let ?A = "roundup (2 ^ k) (unat aux)" and ?P = "roundup (2 ^ k) (unat pool)"
  have A: "unat (round_up_page_size m aux) = ?A" and P: "unat (round_up_page_size m pool) = ?P"
    using aux pool k20 by (auto intro!: unat_round_up_page_size [OF geo])
  have Ab: "?A \<le> 2 ^ 21" and Pb: "?P \<le> 2 ^ 30 + 2 ^ 20"
    using roundup_less [of "2 ^ k" "unat aux"] roundup_less [of "2 ^ k" "unat pool"] aux pool k20
    by auto
  define base where "base = mem + round_up_page_size m aux"
  have base: "unat base = unat mem + ?A"
    using block Ab A unfolding base_def by (subst unat_add_lem [THEN iffD1]) auto
  define addr where "addr = base AND NOT (2 ^ k - 1)"
  have addr: "unat addr = unat base div 2 ^ k * 2 ^ k"
    unfolding addr_def using k by (intro unat_align_down) simp
  define mp where "mp = (if addr < base then addr + 2 ^ k else base)"
  have dm: "unat addr + unat base mod 2 ^ k = unat base"
    by (simp only: addr div_mult_mod_eq)
  have mp: "unat base \<le> unat mp \<and> unat mp < unat base + 2 ^ k \<and> 2 ^ k dvd unat mp"
  proof (cases "addr < base")
    case True
    have lt: "unat base mod 2 ^ k < 2 ^ k" by simp
    from True have ab: "unat addr < unat base" by (simp add: word_less_nat_alt)
    have "unat (addr + 2 ^ k) = unat addr + 2 ^ k"
      using dm base block Ab k20 k by (subst unat_add_lem [THEN iffD1]) (auto simp: unat_p64)
    with True have e: "unat mp = unat addr + 2 ^ k" by (simp add: mp_def)
    have "unat base \<le> unat mp" using lt dm unfolding e by linarith
    moreover have "unat mp < unat base + 2 ^ k" using ab by (simp add: e)
    moreover have "2 ^ k dvd unat mp" by (simp add: e addr)
    ultimately show ?thesis by blast
  next
    case False
    then have "unat base mod 2 ^ k = 0" using dm by (simp add: word_less_nat_alt)
    with False show ?thesis by (auto simp: mp_def)
  qed
  define m' where "m' = m\<lparr>pool_size := round_up_page_size m pool, slots := contents,
    nr_slots := ucast (round_up_page_size m aux div sizeof_mem_slot), cur_slot := 0, mem_pool := mp\<rparr>"
  have "init_memalloc malloc aux pool m = (0, m')"
    using mal k by (simp add: init_memalloc_def Let_def m'_def mp_def addr_def base_def ps)
  moreover have nr: "unat (nr_slots m') = ?A div 16"
    using Ab by (simp add: m'_def sizeof_mem_slot_def unsigned_ucast_eq unat_div A take_bit_nat_eq_self)
  moreover have "mem_wf k m'"
    using geo mp base block Ab Pb contents nr k20
    by (auto simp: mem_wf_def pool_wf_def live_def m'_def P page_geometry_def)
  ultimately show ?thesis
    using mp base by (intro that [of m']) (auto simp: m'_def regions_def live_def P)
qed

section \<open>The interface the swap writer and reader rely on\<close>

text \<open>The allocations in force as address and size, and the addresses each of them covers.\<close>

definition owned_regions :: "memalloc \<Rightarrow> (u64 \<times> u64) set" where
  "owned_regions m = (\<lambda>s. (slot_addr s, slot_size s)) ` set (regions m)"

definition region_covers :: "u64 \<times> u64 \<Rightarrow> nat set" where
  "region_covers r = {unat (fst r) ..< unat (fst r) + unat (snd r)}"

lemma image_filter_conv: "{r \<in> f ` A. P r} = f ` {s \<in> A. P (f s)}"
  by blast

lemma regions_apart:
  assumes "mem_wf k m" "s \<in> set (regions m)" "t \<in> set (regions m)" "s \<noteq> t"
  shows "below s t \<or> below t s"
proof -
  obtain i j where ij: "i < length (live m)" "j < length (live m)" "s = live m ! i" "t = live m ! j"
    using assms(2,3) by (auto simp: regions_def in_set_conv_nth)
  have sorted: "sorted_wrt below (live m)" using assms(1) by (simp add: mem_wf_def)
  show ?thesis
    using sorted_wrt_nth_less [OF sorted, of i j] sorted_wrt_nth_less [OF sorted, of j i] ij assms(4)
    by (cases i j rule: linorder_cases) auto
qed

interpretation pool: allocator getmem "\<lambda>a m. Some (freemem a m)" "mem_wf k" owned_regions region_covers "\<lambda>n. n \<noteq> 0" for k
proof unfold_locales
  fix m :: memalloc and n :: u64
  assume "mem_wf k m" "n \<noteq> 0"
  from getmem_spec [OF this]
  show "getmem n m = Some (None, m) \<or>
      (\<exists>a l m'. getmem n m = Some (Some a, m') \<and> mem_wf k m' \<and> a \<notin> fst ` owned_regions m \<and>
        owned_regions m' = insert (a, l) (owned_regions m))"
  proof (rule disjE)
    assume "\<exists>a m' d. getmem n m = Some (Some a, m') \<and> mem_wf k m' \<and>
       regions m' = regions m @ [\<lparr>slot_addr = a, slot_size = n\<rparr>] \<and> in_pool m \<lparr>slot_addr = a, slot_size = n\<rparr> \<and>
       (\<forall>s\<in>set (live m). below s \<lparr>slot_addr = a, slot_size = n\<rparr>) \<and>
       3 \<le> d \<and> (unat n \<le> 2 ^ d \<or> d = k) \<and> 2 ^ d dvd unat a"
    then obtain a m' where m': "getmem n m = Some (Some a, m')" "mem_wf k m'"
      "regions m' = regions m @ [\<lparr>slot_addr = a, slot_size = n\<rparr>]"
      and top: "\<forall>s\<in>set (live m). below s \<lparr>slot_addr = a, slot_size = n\<rparr>" by blast
    have "a \<notin> fst ` owned_regions m"
      using bspec [OF top] by (force simp: owned_regions_def regions_def below_def)
    moreover have "owned_regions m' = insert (a, n) (owned_regions m)"
      by (simp add: owned_regions_def m'(3))
    ultimately show ?thesis using m'(1,2) by blast
  qed simp
next
  fix m :: memalloc and a :: u64
  assume "mem_wf k m"
  then have wf: "mem_wf k (freemem a m)"
    and regions: "set (regions (freemem a m)) = {s \<in> set (regions m). slot_addr s \<noteq> a}"
    using freemem_spec [of k m a] by simp_all
  have "owned_regions (freemem a m) = {r \<in> owned_regions m. fst r \<noteq> a}"
    unfolding owned_regions_def regions image_filter_conv fst_conv ..
  with wf show "\<exists>m'. Some (freemem a m) = Some m' \<and> mem_wf k m' \<and>
      owned_regions m' = {r \<in> owned_regions m. fst r \<noteq> a}" by blast
next
  fix m :: memalloc and r s :: "u64 \<times> u64"
  assume "mem_wf k m" "r \<in> owned_regions m" "s \<in> owned_regions m" "r \<noteq> s"
  then obtain t u where tu: "t \<in> set (regions m)" "u \<in> set (regions m)" "t \<noteq> u" "r = (slot_addr t, slot_size t)"
    "s = (slot_addr u, slot_size u)" by (auto simp: owned_regions_def)
  with regions_apart [OF \<open>mem_wf k m\<close>, of t u] show "region_covers r \<inter> region_covers s = {}"
    by (auto simp: region_covers_def slot_end_def below_def)
qed

section \<open>Properties\<close>

lemma roundup_pow_mono: "d \<le> k \<Longrightarrow> roundup (2 ^ d) n \<le> roundup (2 ^ k) n"
  by (intro roundup_least roundup_ge dvd_trans [OF le_imp_power_dvd dvd_roundup]) auto

text \<open>A pool with room for four slots, for the witnesses.\<close>

definition example_pool :: memalloc where
  "example_pool = \<lparr>page_size = 4096, buffer_size = 131072, page_mask = NOT 4095,
     mem_pool = 0x10000, pool_size = 0x8000, slots = replicate 4 \<lparr>slot_addr = 0, slot_size = 0\<rparr>,
     nr_slots = 4, cur_slot = 0\<rparr>"

lemma example_pool_wf: "mem_wf 12 example_pool"
  by (simp add: mem_wf_def pool_wf_def page_geometry_def example_pool_def live_def mask_eq_exp_minus_1)

text \<open>
  C13: Memory handed out by \<open>getmem\<close> is safe to use. A call always returns; it either
  returns \<open>NULL\<close> and changes nothing, or a region that lies inside the pool, starts behind
  the end of every allocation in force, and is aligned to a power of two that is at least
  8 and at least the requested size, unless it is the page size. The new region is the only
  change to the set of allocations and the slot array stays sorted.
\<close>

theorem getmem_safe:
  assumes "mem_wf k m" and "n \<noteq> 0"
  shows "getmem n m = Some (None, m) \<or>
    (\<exists>a m' d. getmem n m = Some (Some a, m') \<and> mem_wf k m' \<and>
       regions m' = regions m @ [\<lparr>slot_addr = a, slot_size = n\<rparr>] \<and>
       in_pool m \<lparr>slot_addr = a, slot_size = n\<rparr> \<and>
       (\<forall>s\<in>set (regions m). slot_end s \<le> unat a) \<and>
       3 \<le> d \<and> (unat n \<le> 2 ^ d \<or> d = k) \<and> 2 ^ d dvd unat a)"
proof -
  have "slot_end s \<le> unat a"
    if "\<forall>s\<in>set (live m). below s \<lparr>slot_addr = a, slot_size = n\<rparr>" "s \<in> set (regions m)" for a s
    using that by (auto simp: regions_def below_def)
  with getmem_spec [OF assms] show ?thesis by blast
qed

theorem getmem_safe_witness:
  "getmem 100 example_pool = Some (None, example_pool) \<or>
    (\<exists>a m' d. getmem 100 example_pool = Some (Some a, m') \<and> mem_wf 12 m' \<and>
       regions m' = regions example_pool @ [\<lparr>slot_addr = a, slot_size = 100\<rparr>] \<and>
       in_pool example_pool \<lparr>slot_addr = a, slot_size = 100\<rparr> \<and>
       (\<forall>s\<in>set (regions example_pool). slot_end s \<le> unat a) \<and>
       3 \<le> d \<and> (unat (100 :: u64) \<le> 2 ^ d \<or> d = 12) \<and> 2 ^ d dvd unat a)"
  by (rule getmem_safe [OF example_pool_wf]) simp

text \<open>
  C15: The pool does not refuse memory it has. If a slot is free and the request fits behind
  the last allocation, even after rounding up to a page boundary, \<open>getmem\<close> succeeds.
\<close>

theorem getmem_allocates:
  assumes wf: "mem_wf k m" and slot: "cur_slot m < unat (nr_slots m)"
    and room: "roundup (2 ^ k) (top m) + unat n \<le> unat (pool_size m)"
  shows "\<exists>a m'. getmem n m = Some (Some a, m') \<and> cur_slot m' = Suc (cur_slot m) \<and>
    unat a \<le> unat (mem_pool m) + roundup (2 ^ k) (top m)"
proof -
  obtain d off where "d \<le> k" and off: "off = roundup (2 ^ d) (top m)"
    and succ: "\<not> (unat (nr_slots m) \<le> cur_slot m \<or> unat (pool_size m) < off + unat n) \<longrightarrow>
     (\<exists>addr. unat addr = unat (mem_pool m) + off \<and>
       getmem n m = Some (Some addr,
         m\<lparr>slots := (slots m)[cur_slot m := \<lparr>slot_addr = addr, slot_size = n\<rparr>],
           cur_slot := Suc (cur_slot m)\<rparr>))"
    by (rule getmem_cases [OF wf, of n])
  from \<open>d \<le> k\<close> have "off \<le> roundup (2 ^ k) (top m)"
    unfolding off by (rule roundup_pow_mono)
  with succ slot room show ?thesis by fastforce
qed

theorem getmem_allocates_witness:
  "\<exists>a m'. getmem 100 example_pool = Some (Some a, m') \<and> cur_slot m' = Suc (cur_slot example_pool) \<and>
    unat a \<le> unat (mem_pool example_pool) + roundup (2 ^ 12) (top example_pool)"
  by (rule getmem_allocates [OF example_pool_wf])
     (simp_all add: example_pool_def top_def live_def roundup_def)

text \<open>
  C14: \<open>freemem\<close> frees exactly the allocation that starts at its argument: the binary search
  over the slots (with freed slots still between them) finds it whenever it exists, every
  other allocation is kept, and an address that starts no allocation changes none.
\<close>

theorem freemem_exact:
  assumes "mem_wf k m"
  shows "mem_wf k (freemem p m) \<and>
    regions (freemem p m) = filter (\<lambda>s. slot_addr s \<noteq> p) (regions m)"
  using assms by (rule freemem_spec)

theorem freemem_exact_witness:
  "mem_wf 12 (freemem 0x10000 example_pool) \<and>
    regions (freemem 0x10000 example_pool) = filter (\<lambda>s. slot_addr s \<noteq> 0x10000) (regions example_pool)"
  by (rule freemem_exact [OF example_pool_wf])

text \<open>
  Allocation and release cancel: after \<open>getmem\<close> succeeded, freeing its result leaves the same allocations in
  force as before the call.
\<close>

lemma getmem_freemem_undo:
  assumes "mem_wf k m" and "n \<noteq> 0" and "getmem n m = Some (Some a, m')"
  shows "owned_regions (freemem a m') = owned_regions m"
  using pool.alloc_dealloc [OF assms] by auto

end
