(* ===== verification/Md5.thy ===== *)
theory Md5
  imports Bytes
begin

text \<open>
  The MD5 code of \<open>md5.c\<close>, which the image checksum and the password hashing use: the
  compression function with its 64 unrolled operations on 32-bit registers, the context with
  its 128-byte buffer, and the padding of \<open>md5_finish_ctx\<close>.

  The specification is RFC 1321 in its loop form: the message is padded, cut into 64-byte
  blocks, and each block goes through 64 steps given by index formulas and tables. The theorems
  show that the unrolled code is that loop, and that feeding a message in any sequence of
  pieces gives the digest of the whole message, whatever the alignment of the pieces.
\<close>

section \<open>The context\<close>

record md5_ctx =
  rA :: u32
  rB :: u32
  rC :: u32
  rD :: u32
  total0 :: u32
  total1 :: u32
  buflen :: u32
  md5_buf :: "byte list"   \<comment> \<open>\<open>char buffer[128]\<close>\<close>

definition md5_init_ctx :: "md5_ctx \<Rightarrow> md5_ctx" where
  "md5_init_ctx ctx = ctx\<lparr>rA := 0x67452301, rB := 0xefcdab89, rC := 0x98badcfe, rD := 0x10325476,
     total0 := 0, total1 := 0, buflen := 0\<rparr>"

text \<open>The machine is little-endian: \<open>SWAP(n)\<close> is \<open>n\<close>.\<close>

definition md5_read_ctx :: "md5_ctx \<Rightarrow> byte list" where
  "md5_read_ctx ctx = le_bytes 4 (rA ctx) @ le_bytes 4 (rB ctx) @ le_bytes 4 (rC ctx) @ le_bytes 4 (rD ctx)"

section \<open>The compression function\<close>

type_synonym md5_regs = "u32 \<times> u32 \<times> u32 \<times> u32"

definition rol :: "u32 \<Rightarrow> nat \<Rightarrow> u32" where
  "rol x n = (push_bit n x OR drop_bit (32 - n) x)"

definition FF :: "u32 \<Rightarrow> u32 \<Rightarrow> u32 \<Rightarrow> u32" where "FF b c d = d XOR (b AND (c XOR d))"
definition FG :: "u32 \<Rightarrow> u32 \<Rightarrow> u32 \<Rightarrow> u32" where "FG b c d = FF d b c"
definition FH :: "u32 \<Rightarrow> u32 \<Rightarrow> u32 \<Rightarrow> u32" where "FH b c d = b XOR c XOR d"
definition FI :: "u32 \<Rightarrow> u32 \<Rightarrow> u32 \<Rightarrow> u32" where "FI b c d = c XOR (b OR NOT d)"

text \<open>\<open>OP(f, a, b, c, d, k, s, T)\<close> for the four register orders the code uses; the macro of
  the first round is the same with \<open>FF\<close> and the words in order.\<close>

definition OP :: "(u32 \<Rightarrow> u32 \<Rightarrow> u32 \<Rightarrow> u32) \<Rightarrow> nat \<Rightarrow> nat \<Rightarrow> u32 \<Rightarrow> u32 list \<Rightarrow> u32 \<Rightarrow> u32 \<Rightarrow> u32 \<Rightarrow> u32 \<Rightarrow> u32" where
  "OP f k s T words a b c d = rol (a + (f b c d + words ! k + T)) s + b"

definition OP_A :: "(u32 \<Rightarrow> u32 \<Rightarrow> u32 \<Rightarrow> u32) \<Rightarrow> nat \<Rightarrow> nat \<Rightarrow> u32 \<Rightarrow> u32 list \<Rightarrow> md5_regs \<Rightarrow> md5_regs" where
  "OP_A f k s T words = (\<lambda>(A, B, C, D). (OP f k s T words A B C D, B, C, D))"

definition OP_D :: "(u32 \<Rightarrow> u32 \<Rightarrow> u32 \<Rightarrow> u32) \<Rightarrow> nat \<Rightarrow> nat \<Rightarrow> u32 \<Rightarrow> u32 list \<Rightarrow> md5_regs \<Rightarrow> md5_regs" where
  "OP_D f k s T words = (\<lambda>(A, B, C, D). (A, B, C, OP f k s T words D A B C))"

definition OP_C :: "(u32 \<Rightarrow> u32 \<Rightarrow> u32 \<Rightarrow> u32) \<Rightarrow> nat \<Rightarrow> nat \<Rightarrow> u32 \<Rightarrow> u32 list \<Rightarrow> md5_regs \<Rightarrow> md5_regs" where
  "OP_C f k s T words = (\<lambda>(A, B, C, D). (A, B, OP f k s T words C D A B, D))"

definition OP_B :: "(u32 \<Rightarrow> u32 \<Rightarrow> u32 \<Rightarrow> u32) \<Rightarrow> nat \<Rightarrow> nat \<Rightarrow> u32 \<Rightarrow> u32 list \<Rightarrow> md5_regs \<Rightarrow> md5_regs" where
  "OP_B f k s T words = (\<lambda>(A, B, C, D). (A, OP f k s T words B C D A, C, D))"

definition round1 :: "(u32 list \<Rightarrow> md5_regs \<Rightarrow> md5_regs) list" where
  "round1 = [
     OP_A FF 0 7 0xd76aa478, OP_D FF 1 12 0xe8c7b756,
     OP_C FF 2 17 0x242070db, OP_B FF 3 22 0xc1bdceee,
     OP_A FF 4 7 0xf57c0faf, OP_D FF 5 12 0x4787c62a,
     OP_C FF 6 17 0xa8304613, OP_B FF 7 22 0xfd469501,
     OP_A FF 8 7 0x698098d8, OP_D FF 9 12 0x8b44f7af,
     OP_C FF 10 17 0xffff5bb1, OP_B FF 11 22 0x895cd7be,
     OP_A FF 12 7 0x6b901122, OP_D FF 13 12 0xfd987193,
     OP_C FF 14 17 0xa679438e, OP_B FF 15 22 0x49b40821]"

definition round2 :: "(u32 list \<Rightarrow> md5_regs \<Rightarrow> md5_regs) list" where
  "round2 = [
     OP_A FG 1 5 0xf61e2562, OP_D FG 6 9 0xc040b340,
     OP_C FG 11 14 0x265e5a51, OP_B FG 0 20 0xe9b6c7aa,
     OP_A FG 5 5 0xd62f105d, OP_D FG 10 9 0x02441453,
     OP_C FG 15 14 0xd8a1e681, OP_B FG 4 20 0xe7d3fbc8,
     OP_A FG 9 5 0x21e1cde6, OP_D FG 14 9 0xc33707d6,
     OP_C FG 3 14 0xf4d50d87, OP_B FG 8 20 0x455a14ed,
     OP_A FG 13 5 0xa9e3e905, OP_D FG 2 9 0xfcefa3f8,
     OP_C FG 7 14 0x676f02d9, OP_B FG 12 20 0x8d2a4c8a]"

definition round3 :: "(u32 list \<Rightarrow> md5_regs \<Rightarrow> md5_regs) list" where
  "round3 = [
     OP_A FH 5 4 0xfffa3942, OP_D FH 8 11 0x8771f681,
     OP_C FH 11 16 0x6d9d6122, OP_B FH 14 23 0xfde5380c,
     OP_A FH 1 4 0xa4beea44, OP_D FH 4 11 0x4bdecfa9,
     OP_C FH 7 16 0xf6bb4b60, OP_B FH 10 23 0xbebfbc70,
     OP_A FH 13 4 0x289b7ec6, OP_D FH 0 11 0xeaa127fa,
     OP_C FH 3 16 0xd4ef3085, OP_B FH 6 23 0x04881d05,
     OP_A FH 9 4 0xd9d4d039, OP_D FH 12 11 0xe6db99e5,
     OP_C FH 15 16 0x1fa27cf8, OP_B FH 2 23 0xc4ac5665]"

definition round4 :: "(u32 list \<Rightarrow> md5_regs \<Rightarrow> md5_regs) list" where
  "round4 = [
     OP_A FI 0 6 0xf4292244, OP_D FI 7 10 0x432aff97,
     OP_C FI 14 15 0xab9423a7, OP_B FI 5 21 0xfc93a039,
     OP_A FI 12 6 0x655b59c3, OP_D FI 3 10 0x8f0ccc92,
     OP_C FI 10 15 0xffeff47d, OP_B FI 1 21 0x85845dd1,
     OP_A FI 8 6 0x6fa87e4f, OP_D FI 15 10 0xfe2ce6e0,
     OP_C FI 6 15 0xa3014314, OP_B FI 13 21 0x4e0811a1,
     OP_A FI 4 6 0xf7537e82, OP_D FI 11 10 0xbd3af235,
     OP_C FI 2 15 0x2ad7d2bb, OP_B FI 9 21 0xeb86d391]"

text \<open>One turn of the loop: the sixteen words of a block, the four rounds, and the addition of
  the saved registers.\<close>

definition block_words :: "byte list \<Rightarrow> u32 list" where
  "block_words bs = map (\<lambda>i. le_word (take 4 (drop (4 * i) bs))) [0..<16]"

definition md5_block :: "byte list \<Rightarrow> md5_regs \<Rightarrow> md5_regs" where
  "md5_block bs = (\<lambda>(A, B, C, D).
     let (A', B', C', D') = fold (\<lambda>op. op (block_words bs)) (round1 @ round2 @ round3 @ round4) (A, B, C, D)
     in (A' + A, B' + B, C' + C, D' + D))"

text \<open>\<open>while (words < endp)\<close>, with \<open>n\<close> the words left; every turn consumes 16 words.\<close>

function md5_loop :: "nat \<Rightarrow> byte list \<Rightarrow> md5_regs \<Rightarrow> md5_regs" where
  "md5_loop n bs regs = (if 0 < n then md5_loop (n - 16) (drop 64 bs) (md5_block bs regs) else regs)"
  by pat_completeness auto
termination by (relation "measure (\<lambda>(n, bs, regs). n)") auto

declare md5_loop.simps [simp del]

text \<open>\<open>len\<close> is the length of the list of bytes handed over; \<open>total[0] < len\<close> compares in
  \<open>size_t\<close>.\<close>

definition md5_add_total :: "nat \<Rightarrow> md5_ctx \<Rightarrow> md5_ctx" where
  "md5_add_total len ctx =
     (let ctx = ctx\<lparr>total0 := total0 ctx + of_nat len\<rparr>
      in if unat (total0 ctx) < len then ctx\<lparr>total1 := total1 ctx + 1\<rparr> else ctx)"

definition md5_process_block :: "byte list \<Rightarrow> md5_ctx \<Rightarrow> md5_ctx" where
  "md5_process_block bs ctx =
     (let regs = (rA ctx, rB ctx, rC ctx, rD ctx);
          ctx = md5_add_total (length bs) ctx;
          (A, B, C, D) = md5_loop (length bs div 4) bs regs
      in ctx\<lparr>rA := A, rB := B, rC := C, rD := D\<rparr>)"

section \<open>Bytes in any number\<close>

text \<open>\<open>memcpy(&buf[at], bs, length bs)\<close>\<close>

definition buf_put :: "nat \<Rightarrow> byte list \<Rightarrow> byte list \<Rightarrow> byte list" where
  "buf_put at bs buf = take at buf @ bs @ drop (at + length bs) buf"

text \<open>The first part of \<open>md5_process_bytes\<close>: there are bytes in the buffer already. The result
  is the context and the number of bytes taken.\<close>

definition md5_fill_buffer :: "byte list \<Rightarrow> md5_ctx \<Rightarrow> nat \<times> md5_ctx" where
  "md5_fill_buffer bs ctx =
     (if buflen ctx \<noteq> 0 then
        (let left_over = unat (buflen ctx);
             add = (if 128 - left_over > length bs then length bs else 128 - left_over);
             ctx = ctx\<lparr>md5_buf := buf_put left_over (take add bs) (md5_buf ctx),
                       buflen := buflen ctx + of_nat add\<rparr>
         in if 64 < buflen ctx then
              (let ctx = md5_process_block (take (unat (buflen ctx AND NOT 63)) (md5_buf ctx)) ctx;
                   ctx = ctx\<lparr>buflen := buflen ctx AND 63\<rparr>
               in (add, ctx\<lparr>md5_buf := buf_put 0
                       (take (unat (buflen ctx)) (drop ((left_over + add) div 64 * 64) (md5_buf ctx)))
                       (md5_buf ctx)\<rparr>))
            else (add, ctx))
      else (0, ctx))"

text \<open>\<open>while (len > 64)\<close> of the unaligned case: one block at a time through the buffer.\<close>

function md5_unaligned :: "byte list \<Rightarrow> md5_ctx \<Rightarrow> byte list \<times> md5_ctx" where
  "md5_unaligned bs ctx =
     (if 64 < length bs
      then md5_unaligned (drop 64 bs)
             (md5_process_block (take 64 bs) (ctx\<lparr>md5_buf := buf_put 0 (take 64 bs) (md5_buf ctx)\<rparr>))
      else (bs, ctx))"
  by pat_completeness auto
termination by (relation "measure (\<lambda>(bs, ctx). length bs)") auto

declare md5_unaligned.simps [simp del]

text \<open>The last part: what is left goes to the buffer.\<close>

definition md5_keep_rest :: "byte list \<Rightarrow> md5_ctx \<Rightarrow> md5_ctx" where
  "md5_keep_rest bs ctx =
     (if 0 < length bs then
        (let left_over = unat (buflen ctx);
             ctx = ctx\<lparr>md5_buf := buf_put left_over bs (md5_buf ctx)\<rparr>;
             left_over = left_over + length bs
         in if 64 \<le> left_over then
              (let ctx = md5_process_block (take 64 (md5_buf ctx)) ctx;
                   left_over = left_over - 64
               in ctx\<lparr>md5_buf := buf_put 0 (take left_over (drop 64 (md5_buf ctx))) (md5_buf ctx),
                      buflen := of_nat left_over\<rparr>)
            else ctx\<lparr>buflen := of_nat left_over\<rparr>)
      else ctx)"

text \<open>\<open>addr\<close> is the address of the bytes, which only decides how they are read.\<close>

definition md5_process_bytes :: "nat \<Rightarrow> byte list \<Rightarrow> md5_ctx \<Rightarrow> md5_ctx" where
  "md5_process_bytes addr bs ctx =
     (let (add, ctx) = md5_fill_buffer bs ctx;
          addr = addr + add; bs = drop add bs;
          (bs, ctx) = (if 64 \<le> length bs then
                         if addr mod 4 \<noteq> 0 then md5_unaligned bs ctx
                         else (let n = length bs div 64 * 64
                               in (drop n bs, md5_process_block (take n bs) ctx))
                       else (bs, ctx))
      in md5_keep_rest bs ctx)"

definition fillbuf :: "byte list" where "fillbuf = 0x80 # replicate 63 0"

definition md5_finish_ctx :: "md5_ctx \<Rightarrow> byte list \<times> md5_ctx" where
  "md5_finish_ctx ctx =
     (let bytes = unat (buflen ctx);
          ctx = md5_add_total bytes ctx;
          pad = (if 56 \<le> bytes then 64 + 56 - bytes else 56 - bytes);
          buf = buf_put bytes (take pad fillbuf) (md5_buf ctx);
          buf = buf_put (bytes + pad) (le_bytes 4 (push_bit 3 (total0 ctx))) buf;
          buf = buf_put (bytes + pad + 4)
                  (le_bytes 4 (push_bit 3 (total1 ctx) OR drop_bit 29 (total0 ctx))) buf;
          ctx = md5_process_block (take (bytes + pad + 8) buf) (ctx\<lparr>md5_buf := buf\<rparr>)
      in (md5_read_ctx ctx, ctx))"

definition md5_buffer :: "nat \<Rightarrow> byte list \<Rightarrow> md5_ctx \<Rightarrow> byte list" where
  "md5_buffer addr bs ctx = fst (md5_finish_ctx (md5_process_bytes addr bs (md5_init_ctx ctx)))"

section \<open>RFC 1321\<close>

definition md5_T :: "u32 list" where
  "md5_T = [
     0xd76aa478, 0xe8c7b756, 0x242070db, 0xc1bdceee, 0xf57c0faf, 0x4787c62a,
     0xa8304613, 0xfd469501, 0x698098d8, 0x8b44f7af, 0xffff5bb1, 0x895cd7be,
     0x6b901122, 0xfd987193, 0xa679438e, 0x49b40821, 0xf61e2562, 0xc040b340,
     0x265e5a51, 0xe9b6c7aa, 0xd62f105d, 0x02441453, 0xd8a1e681, 0xe7d3fbc8,
     0x21e1cde6, 0xc33707d6, 0xf4d50d87, 0x455a14ed, 0xa9e3e905, 0xfcefa3f8,
     0x676f02d9, 0x8d2a4c8a, 0xfffa3942, 0x8771f681, 0x6d9d6122, 0xfde5380c,
     0xa4beea44, 0x4bdecfa9, 0xf6bb4b60, 0xbebfbc70, 0x289b7ec6, 0xeaa127fa,
     0xd4ef3085, 0x04881d05, 0xd9d4d039, 0xe6db99e5, 0x1fa27cf8, 0xc4ac5665,
     0xf4292244, 0x432aff97, 0xab9423a7, 0xfc93a039, 0x655b59c3, 0x8f0ccc92,
     0xffeff47d, 0x85845dd1, 0x6fa87e4f, 0xfe2ce6e0, 0xa3014314, 0x4e0811a1,
     0xf7537e82, 0xbd3af235, 0x2ad7d2bb, 0xeb86d391]"

definition rfc_F :: "u32 \<Rightarrow> u32 \<Rightarrow> u32 \<Rightarrow> u32" where "rfc_F x y z = (x AND y) OR (NOT x AND z)"
definition rfc_G :: "u32 \<Rightarrow> u32 \<Rightarrow> u32 \<Rightarrow> u32" where "rfc_G x y z = (x AND z) OR (y AND NOT z)"
definition rfc_H :: "u32 \<Rightarrow> u32 \<Rightarrow> u32 \<Rightarrow> u32" where "rfc_H x y z = x XOR y XOR z"
definition rfc_I :: "u32 \<Rightarrow> u32 \<Rightarrow> u32 \<Rightarrow> u32" where "rfc_I x y z = y XOR (x OR NOT z)"

definition rfc_fun :: "nat \<Rightarrow> u32 \<Rightarrow> u32 \<Rightarrow> u32 \<Rightarrow> u32" where
  "rfc_fun i = [rfc_F, rfc_G, rfc_H, rfc_I] ! (i div 16)"

definition rfc_index :: "nat \<Rightarrow> nat" where
  "rfc_index i = [i, 5 * i + 1, 3 * i + 5, 7 * i] ! (i div 16) mod 16"

definition rfc_shift :: "nat \<Rightarrow> nat" where
  "rfc_shift i = [[7, 12, 17, 22], [5, 9, 14, 20], [4, 11, 16, 23], [6, 10, 15, 21]] ! (i div 16) ! (i mod 4)"

definition rfc_step :: "u32 list \<Rightarrow> nat \<Rightarrow> md5_regs \<Rightarrow> md5_regs" where
  "rfc_step X i = (\<lambda>(a, b, c, d).
     (d, b + rol (a + rfc_fun i b c d + X ! rfc_index i + md5_T ! i) (rfc_shift i), b, c))"

definition rfc_block :: "md5_regs \<Rightarrow> byte list \<Rightarrow> md5_regs" where
  "rfc_block = (\<lambda>(A, B, C, D) bs.
     let (a, b, c, d) = fold (rfc_step (block_words bs)) [0..<64] (A, B, C, D)
     in (a + A, b + B, c + C, d + D))"

fun blocks :: "byte list \<Rightarrow> byte list list" where
  "blocks bs = (if 64 \<le> length bs then take 64 bs # blocks (drop 64 bs) else [])"

declare blocks.simps [simp del]

definition rfc_pad :: "byte list \<Rightarrow> byte list" where
  "rfc_pad m = m @ 0x80 # replicate ((119 - length m mod 64) mod 64) 0
     @ le_bytes 8 (of_nat (8 * length m) :: u64)"

definition rfc_init :: md5_regs where
  "rfc_init = (0x67452301, 0xefcdab89, 0x98badcfe, 0x10325476)"

definition rfc_hash :: "byte list \<Rightarrow> md5_regs" where
  "rfc_hash bs = foldl rfc_block rfc_init (blocks bs)"

definition rfc_md5 :: "byte list \<Rightarrow> byte list" where
  "rfc_md5 m = (case rfc_hash (rfc_pad m) of
     (A, B, C, D) \<Rightarrow> le_bytes 4 A @ le_bytes 4 B @ le_bytes 4 C @ le_bytes 4 D)"

section \<open>The unrolled rounds\<close>

definition rot :: "md5_regs \<Rightarrow> md5_regs" where
  "rot = (\<lambda>(A, B, C, D). (D, A, B, C))"

lemma rfc_step_OP: "rfc_step X i st =
    rot (OP_A (rfc_fun i) (rfc_index i) (rfc_shift i) (md5_T ! i) X st)"
  by (cases st) (simp add: rfc_step_def rot_def OP_A_def OP_def ac_simps)

lemma four_OPs:
  "OP_B f4 k4 s4 T4 X (OP_C f3 k3 s3 T3 X (OP_D f2 k2 s2 T2 X (OP_A f1 k1 s1 T1 X st))) =
     rot (OP_A f4 k4 s4 T4 X (rot (OP_A f3 k3 s3 T3 X (rot (OP_A f2 k2 s2 T2 X (rot (OP_A f1 k1 s1 T1 X st)))))))"
  by (cases st) (simp add: rot_def OP_A_def OP_B_def OP_C_def OP_D_def)

lemma rfc_functions: "rfc_F = FF" "rfc_G = FG" "rfc_H = FH" "rfc_I = FI"
  by (auto simp: fun_eq_iff rfc_F_def rfc_G_def rfc_H_def rfc_I_def FF_def FG_def FH_def FI_def
      intro!: bit_word_eqI simp: bit_simps)

lemma round1_rfc: "fold (\<lambda>op. op X) round1 st = fold (rfc_step X) [0..<16] st"
  by (simp add: round1_def four_OPs upt_rec rfc_step_OP rfc_fun_def rfc_index_def rfc_shift_def
      md5_T_def rfc_functions flip: numeral_2_eq_2)

lemma round2_rfc: "fold (\<lambda>op. op X) round2 st = fold (rfc_step X) [16..<32] st"
  by (simp add: round2_def four_OPs upt_rec rfc_step_OP rfc_fun_def rfc_index_def rfc_shift_def
      md5_T_def rfc_functions)

lemma round3_rfc: "fold (\<lambda>op. op X) round3 st = fold (rfc_step X) [32..<48] st"
  by (simp add: round3_def four_OPs upt_rec rfc_step_OP rfc_fun_def rfc_index_def rfc_shift_def
      md5_T_def rfc_functions)

lemma round4_rfc: "fold (\<lambda>op. op X) round4 st = fold (rfc_step X) [48..<64] st"
  by (simp add: round4_def four_OPs upt_rec rfc_step_OP rfc_fun_def rfc_index_def rfc_shift_def
      md5_T_def rfc_functions)

lemma rounds_rfc:
  "fold (\<lambda>op. op X) (round1 @ round2 @ round3 @ round4) st = fold (rfc_step X) [0..<64] st"
proof -
  have "[0..<64] = [0..<16] @ [16..<32] @ [32..<48] @ [48..<64]"
    by code_simp
  then show ?thesis
    by (simp only: fold_append o_apply round1_rfc round2_rfc round3_rfc round4_rfc)
qed

lemma md5_block_step: "md5_block bs regs = rfc_block regs bs"
  by (cases regs) (simp add: md5_block_def rfc_block_def rounds_rfc del: fold_append)

text \<open>
  C19: one turn of the unrolled loop of \<open>md5_process_block\<close>, 64 macro calls with their
  constants, register orders and word indices written out, is the block step of RFC 1321: 64
  steps of the same shape, whose functions, indices, shifts and constants come from formulas
  and tables.
\<close>

theorem md5_block_rfc: "md5_block bs regs = rfc_block regs bs"
  by (rule md5_block_step)

lemma block_words_take: "block_words (take 64 bs) = block_words bs"
  by (auto simp: block_words_def drop_take min_def)

lemma rfc_block_take: "rfc_block regs (take 64 bs) = rfc_block regs bs"
  by (simp add: rfc_block_def block_words_take split: prod.split)

lemma md5_loop_rfc:
  "64 dvd length bs \<Longrightarrow> md5_loop (length bs div 4) bs regs = foldl rfc_block regs (blocks bs)"
proof (induction bs arbitrary: regs rule: blocks.induct)
  case (1 bs)
  show ?case
  proof (cases "64 \<le> length bs")
    case True
    then have "64 dvd length (drop 64 bs)" "(length bs - 64) div 4 = length bs div 4 - 16"
      "0 < length bs div 4"
      using "1.prems" by auto
    then show ?thesis
      using 1 True by (simp add: md5_loop.simps [of "length bs div 4"] blocks.simps [of bs]
          md5_block_step rfc_block_take)
  next
    case False
    then have "bs = []" using "1.prems" by (cases bs) (auto dest: dvd_imp_le)
    then show ?thesis by (simp add: md5_loop.simps blocks.simps)
  qed
qed

lemma blocks_append: "64 dvd length xs \<Longrightarrow> blocks (xs @ ys) = blocks xs @ blocks ys"
proof (induction xs rule: blocks.induct)
  case (1 bs)
  show ?case
  proof (cases "64 \<le> length bs")
    case True
    then show ?thesis
      using 1 by (simp add: blocks.simps [of bs] blocks.simps [of "bs @ ys"])
  next
    case False
    then have "bs = []" using "1.prems" by (cases bs) (auto dest: dvd_imp_le)
    then show ?thesis by (simp add: blocks.simps [of "[]"])
  qed
qed

lemma rfc_hash_append:
  "64 dvd length xs \<Longrightarrow> rfc_hash (xs @ ys) = foldl rfc_block (rfc_hash xs) (blocks ys)"
  by (simp add: rfc_hash_def blocks_append)

section \<open>What a context stands for\<close>

definition md5_tot :: "md5_ctx \<Rightarrow> nat" where
  "md5_tot ctx = unat (total0 ctx) + 2 ^ 32 * unat (total1 ctx)"

definition md5_regs_of :: "md5_ctx \<Rightarrow> md5_regs" where
  "md5_regs_of ctx = (rA ctx, rB ctx, rC ctx, rD ctx)"

lemma md5_tot_less: "md5_tot ctx < 2 ^ 64"
proof -
  have "unat (total0 ctx) < 2 ^ 32" "unat (total1 ctx) < 2 ^ 32"
    using unsigned_less [of "total0 ctx"] unsigned_less [of "total1 ctx"] by simp_all
  then show ?thesis unfolding md5_tot_def by simp
qed

lemma md5_tot_add:
  assumes "len < 2 ^ 32"
  shows "md5_tot (md5_add_total len ctx) = (md5_tot ctx + len) mod 2 ^ 64"
proof -
  define a b where "a = unat (total0 ctx)" and "b = unat (total1 ctx)"
  have ab: "a < 2 ^ 32" "b < 2 ^ 32"
    using unsigned_less [of "total0 ctx"] unsigned_less [of "total1 ctx"] by (simp_all add: a_def b_def)
  have s: "unat (total0 ctx + of_nat len) = (a + len) mod 2 ^ 32"
    using assms by (simp add: unat_word_ariths unsigned_of_nat take_bit_eq_mod a_def)
  have t: "unat (total1 ctx + 1) = (b + 1) mod 2 ^ 32"
    by (simp add: unat_word_ariths b_def)
  show ?thesis
  proof (cases "a + len < 2 ^ 32")
    case True
    then show ?thesis
      using s ab by (simp add: md5_add_total_def md5_tot_def flip: a_def b_def)
  next
    case False
    then have m: "(a + len) mod 2 ^ 32 = a + len - 2 ^ 32" using ab assms by (simp add: mod_if)
    then have "(a + len) mod 2 ^ 32 < len" using ab False by simp
    then have "md5_tot (md5_add_total len ctx) = a + len - 2 ^ 32 + 2 ^ 32 * ((b + 1) mod 2 ^ 32)"
      using s m t by (simp add: md5_add_total_def md5_tot_def Let_def)
    also have "\<dots> = (a + 2 ^ 32 * b + len) mod 2 ^ 64"
    proof (cases "b + 1 < 2 ^ 32")
      case True
      then have "a + 2 ^ 32 * b + len < 2 ^ 64" using ab assms by simp
      then show ?thesis using True False by simp
    next
      case b: False
      then have "b = 2 ^ 32 - 1" using ab by simp
      then show ?thesis using False ab assms by (simp add: mod_if)
    qed
    finally show ?thesis by (simp add: md5_tot_def flip: a_def b_def)
  qed
qed

text \<open>What the registers and the byte count say has been hashed.\<close>

definition md5_done :: "md5_ctx \<Rightarrow> byte list \<Rightarrow> bool" where
  "md5_done ctx d \<longleftrightarrow> 64 dvd length d \<and> md5_regs_of ctx = rfc_hash d
     \<and> md5_tot ctx = length d mod 2 ^ 64"

text \<open>The message a context stands for: what has been hashed and what waits in the buffer.\<close>

definition md5_rel :: "md5_ctx \<Rightarrow> byte list \<Rightarrow> bool" where
  "md5_rel ctx m \<longleftrightarrow> length (md5_buf ctx) = 128 \<and> unat (buflen ctx) \<le> 64
     \<and> (\<exists>d. md5_done ctx d \<and> m = d @ take (unat (buflen ctx)) (md5_buf ctx))"

lemma md5_done_update [simp]:
  "md5_done (ctx\<lparr>md5_buf := b\<rparr>) d = md5_done ctx d"
  "md5_done (ctx\<lparr>buflen := n\<rparr>) d = md5_done ctx d"
  by (simp_all add: md5_done_def md5_regs_of_def md5_tot_def)

lemma md5_add_total_simps [simp]:
  "md5_buf (md5_add_total n ctx) = md5_buf ctx" "buflen (md5_add_total n ctx) = buflen ctx"
  "md5_regs_of (md5_add_total n ctx) = md5_regs_of ctx"
  by (simp_all add: md5_add_total_def Let_def md5_regs_of_def)

lemma md5_process_block_simps [simp]:
  "md5_buf (md5_process_block bs ctx) = md5_buf ctx"
  "buflen (md5_process_block bs ctx) = buflen ctx"
  by (simp_all add: md5_process_block_def Let_def split: prod.split)

lemma md5_process_block_regs:
  "64 dvd length bs \<Longrightarrow>
   md5_regs_of (md5_process_block bs ctx) = foldl rfc_block (md5_regs_of ctx) (blocks bs)"
  by (simp add: md5_process_block_def Let_def md5_regs_of_def md5_loop_rfc split: prod.split)

lemma md5_process_block_done:
  assumes "md5_done ctx d" and "64 dvd length bs" and "length bs < 2 ^ 32"
  shows "md5_done (md5_process_block bs ctx) (d @ bs)"
proof -
  have "md5_regs_of (md5_process_block bs ctx) = foldl rfc_block (md5_regs_of ctx) (blocks bs)"
    using assms(2) by (rule md5_process_block_regs)
  moreover have "md5_tot (md5_process_block bs ctx) = md5_tot (md5_add_total (length bs) ctx)"
    by (simp add: md5_process_block_def Let_def md5_tot_def split: prod.split)
  ultimately show ?thesis
    using assms by (simp add: md5_done_def rfc_hash_append md5_tot_add mod_add_left_eq)
qed


section \<open>Feeding a message\<close>

lemma length_buf_put [simp]: "at + length bs \<le> length buf \<Longrightarrow> length (buf_put at bs buf) = length buf"
  by (simp add: buf_put_def)

lemma take_buf_put:
  "at \<le> length buf \<Longrightarrow> take (at + length bs) (buf_put at bs buf) = take at buf @ bs"
  by (simp add: buf_put_def)

lemma take_buf_put_0 [simp]: "n = length bs \<Longrightarrow> take n (buf_put 0 bs buf) = bs"
  by (simp add: buf_put_def)

lemma md5_process_block_rel:
  assumes "md5_done ctx d" and "64 dvd length p" and "length p < 2 ^ 32"
    and "md5_buf ctx' = b" and "length b = 128" and "buflen ctx' = n" and "unat n \<le> 64"
    and "ctx' = (md5_process_block p ctx)\<lparr>buflen := n, md5_buf := b\<rparr>"
  shows "md5_rel ctx' (d @ p @ take (unat n) b)"
  using md5_process_block_done [OF assms(1-3)] assms(4-)
  by (auto simp: md5_rel_def)

lemma and_63: "unat (x AND 63 :: u32) = unat x mod 64"
proof -
  have "x AND 63 = take_bit 6 x" by (simp only: take_bit_eq_mask mask_eq_exp_minus_1) simp
  moreover have "unat (take_bit 6 x) = unat x mod 64"
    by (subst unsigned_take_bit_eq) (simp_all add: take_bit_eq_mod)
  ultimately show ?thesis by simp
qed

lemma and_not_63: "unat (x AND NOT 63 :: u32) = unat x div 64 * 64"
  using unat_and_not_mask [of x 6] by (simp add: mask_eq_exp_minus_1)

lemma md5_fill_buffer_rel:
  assumes rel: "md5_rel ctx m" and f: "md5_fill_buffer bs ctx = (add, ctx')"
  shows "md5_rel ctx' (m @ take add bs) \<and> add \<le> length bs \<and> (add < length bs \<longrightarrow> buflen ctx' = 0)"
proof (cases "buflen ctx = 0")
  case True
  then show ?thesis using f rel by (auto simp: md5_fill_buffer_def)
next
  case False
  define n where "n = unat (buflen ctx)"
  obtain d where d: "md5_done ctx d" "m = d @ take n (md5_buf ctx)"
    and len: "length (md5_buf ctx) = 128" and n: "n \<le> 64"
    using rel by (auto simp: md5_rel_def n_def)
  define a where "a = (if 128 - n > length bs then length bs else 128 - n)"
  have a: "a \<le> length bs" "n + a \<le> 128" "a < length bs \<Longrightarrow> n + a = 128"
    using n by (auto simp: a_def)
  define buf where "buf = buf_put n (take a bs) (md5_buf ctx)"
  have buf: "length buf = 128" "take (n + a) buf = take n (md5_buf ctx) @ take a bs"
    using a len take_buf_put [of n "md5_buf ctx" "take a bs"] by (simp_all add: buf_def)
  define ctx1 where "ctx1 = ctx\<lparr>md5_buf := buf, buflen := buflen ctx + of_nat a\<rparr>"
  have bl: "unat (buflen ctx1) = n + a"
    using a by (simp add: ctx1_def n_def unat_word_ariths unsigned_of_nat take_bit_nat_eq_self)
  have ctx1_buf: "md5_buf ctx1 = buf" by (simp add: ctx1_def)
  have m: "m @ take a bs = d @ take (n + a) buf" using d buf by simp
  have done1: "md5_done ctx1 d" using d by (simp add: ctx1_def)
  show ?thesis
  proof (cases "64 < buflen ctx1")
    case False
    then have "n + a \<le> 64" using bl by (simp add: word_less_nat_alt)
    moreover have "add = a" "ctx' = ctx1"
      using f \<open>buflen ctx \<noteq> 0\<close> False
      by (auto simp: md5_fill_buffer_def Let_def ctx1_def buf_def a_def n_def split: if_splits)
    ultimately show ?thesis
      using done1 m bl buf a by (force simp: md5_rel_def ctx1_def)
  next
    case True
    define q where "q = (n + a) div 64 * 64"
    have q: "q \<le> n + a" "64 dvd q" "q + (n + a) mod 64 = n + a" by (simp_all add: q_def)
    define b where "b = buf_put 0 (take ((n + a) mod 64) (drop q buf)) buf"
    have r: "(n + a) mod 64 \<le> 128 - q" using q a by linarith
    have "add = a" "ctx' = (md5_process_block (take q buf) ctx1)\<lparr>buflen := buflen ctx1 AND 63, md5_buf := b\<rparr>"
      using f \<open>buflen ctx \<noteq> 0\<close> True
      unfolding md5_fill_buffer_def Let_def n_def [symmetric] a_def [symmetric] buf_def [symmetric]
        ctx1_def [symmetric] q_def [symmetric] ctx1_buf
      using and_not_63 [of "buflen ctx1"] by (auto simp: and_63 bl b_def ctx1_buf q_def)
    moreover have "unat (buflen ctx1 AND 63) = (n + a) mod 64" by (simp add: and_63 bl)
    moreover have "take ((n + a) mod 64) b = take ((n + a) mod 64) (drop q buf)"
      unfolding b_def using r buf(1) by (intro take_buf_put_0) simp
    moreover have "take q buf @ take ((n + a) mod 64) (drop q buf) = take (n + a) buf"
      using q(3) by (metis take_add)
    moreover have "length b = 128" using r buf(1) by (simp add: b_def)
    moreover have "length (take q buf) < 2 ^ 32" "64 dvd length (take q buf)"
      using q a buf(1) by simp_all
    moreover have "a < length bs \<longrightarrow> buflen ctx1 AND 63 = 0"
    proof
      assume "a < length bs"
      then have "unat (buflen ctx1 AND 63) = 0" using a(3) \<open>unat (buflen ctx1 AND 63) = (n + a) mod 64\<close> by simp
      then show "buflen ctx1 AND 63 = 0" by (simp only: unsigned_eq_0_iff)
    qed
    ultimately show ?thesis
      using md5_process_block_rel [OF done1, of "take q buf" ctx' b "buflen ctx1 AND 63"] m a
      by (simp add: less_imp_le)
  qed
qed

lemma md5_unaligned_rel:
  "md5_rel ctx m \<Longrightarrow> buflen ctx = 0 \<Longrightarrow> md5_unaligned bs ctx = (bs', ctx') \<Longrightarrow>
   \<exists>p. bs = p @ bs' \<and> md5_rel ctx' (m @ p) \<and> buflen ctx' = 0 \<and> length bs' \<le> 64"
proof (induction bs ctx arbitrary: m rule: md5_unaligned.induct)
  case (1 bs ctx)
  show ?case
  proof (cases "64 < length bs")
    case False
    then show ?thesis using "1.prems" by (auto simp: md5_unaligned.simps [of bs])
  next
    case True
    let ?ctx = "md5_process_block (take 64 bs) (ctx\<lparr>md5_buf := buf_put 0 (take 64 bs) (md5_buf ctx)\<rparr>)"
    have "md5_rel ?ctx (m @ take 64 bs)"
      using "1.prems"(1,2) True by (auto simp: md5_rel_def md5_process_block_done)
    moreover have "buflen ?ctx = 0" using "1.prems" by simp
    moreover have "md5_unaligned (drop 64 bs) ?ctx = (bs', ctx')"
      using "1.prems"(3) True by (simp add: md5_unaligned.simps [of bs])
    ultimately obtain p where "drop 64 bs = p @ bs'" "md5_rel ctx' ((m @ take 64 bs) @ p)"
      "buflen ctx' = 0" "length bs' \<le> 64"
      using "1.IH" [OF True] by blast
    then show ?thesis by (intro exI [of _ "take 64 bs @ p"]) (simp flip: append_assoc, metis append_take_drop_id append_assoc)
  qed
qed

lemma md5_keep_rest_rel:
  assumes "md5_rel ctx m" and "bs = [] \<or> buflen ctx = 0" and "length bs \<le> 64"
  shows "md5_rel (md5_keep_rest bs ctx) (m @ bs)"
proof (cases "bs = []")
  case True
  then show ?thesis using assms(1) by (simp add: md5_keep_rest_def)
next
  case False
  then have 0: "buflen ctx = 0" using assms(2) by simp
  obtain d where d: "md5_done ctx d" "m = d" "length (md5_buf ctx) = 128"
    using assms(1) 0 by (auto simp: md5_rel_def)
  show ?thesis
  proof (cases "length bs = 64")
    case True
    then show ?thesis
      using d False 0 by (auto simp: md5_keep_rest_def Let_def md5_rel_def intro!: exI [of _ "d @ bs"]
          md5_process_block_done)
  next
    case False
    then have "unat (of_nat (length bs) :: u32) = length bs"
      using assms(3) by (simp add: unsigned_of_nat take_bit_nat_eq_self)
    then show ?thesis
      using d False 0 assms(3) by (auto simp: md5_keep_rest_def Let_def md5_rel_def intro!: exI [of _ d])
  qed
qed

lemma md5_process_bytes_rel:
  assumes "md5_rel ctx m" and "length bs < 2 ^ 32"
  shows "md5_rel (md5_process_bytes addr bs ctx) (m @ bs)"
proof -
  obtain add ctx1 where f: "md5_fill_buffer bs ctx = (add, ctx1)" by fastforce
  note r = md5_fill_buffer_rel [OF assms(1) f]
  let ?bs = "drop add bs"
  have b0: "?bs = [] \<or> buflen ctx1 = 0" using r by auto
  have whole: "(m @ take add bs) @ ?bs = m @ bs" by simp
  consider (short) "length ?bs < 64" | (slow) "64 \<le> length ?bs" "(addr + add) mod 4 \<noteq> 0"
    | (fast) "64 \<le> length ?bs" "(addr + add) mod 4 = 0" by linarith
  then show ?thesis
  proof cases
    case short
    then show ?thesis
      using md5_keep_rest_rel [of ctx1 "m @ take add bs" ?bs] r b0 f
      by (auto simp: md5_process_bytes_def Let_def)
  next
    case slow
    then have "buflen ctx1 = 0" using b0 by auto
    obtain bs' ctx2 where u: "md5_unaligned ?bs ctx1 = (bs', ctx2)" by fastforce
    obtain p where "?bs = p @ bs'" "md5_rel ctx2 ((m @ take add bs) @ p)" "buflen ctx2 = 0" "length bs' \<le> 64"
      using md5_unaligned_rel [OF _ \<open>buflen ctx1 = 0\<close> u] r by blast
    moreover have "md5_process_bytes addr bs ctx = md5_keep_rest bs' ctx2"
      using slow f u by (simp add: md5_process_bytes_def Let_def)
    ultimately show ?thesis
      using md5_keep_rest_rel [of ctx2 "(m @ take add bs) @ p" bs'] whole by simp
  next
    case fast
    then have z: "buflen ctx1 = 0" using b0 by auto
    define n where "n = length ?bs div 64 * 64"
    have "length ?bs - n = length ?bs mod 64" unfolding n_def by (rule minus_div_mult_eq_mod)
    then have n: "n \<le> length ?bs" "64 dvd n" "length ?bs - n < 64"
      unfolding n_def by simp_all
    have p: "md5_process_bytes addr bs ctx
        = md5_keep_rest (drop n ?bs) (md5_process_block (take n ?bs) ctx1)"
      using fast f by (simp add: md5_process_bytes_def Let_def n_def)
    have "md5_rel (md5_process_block (take n ?bs) ctx1) ((m @ take add bs) @ take n ?bs)"
      using r z n assms(2) md5_process_block_done [of ctx1 "m @ take add bs" "take n ?bs"]
      by (auto simp: md5_rel_def)
    then have "md5_rel (md5_process_bytes addr bs ctx) (((m @ take add bs) @ take n ?bs) @ drop n ?bs)"
      unfolding p using z n by (intro md5_keep_rest_rel) auto
    moreover have "((m @ take add bs) @ take n ?bs) @ drop n ?bs = m @ bs"
      by (metis append_assoc append_take_drop_id)
    ultimately show ?thesis by simp
  qed
qed

lemma md5_init_rel: "length (md5_buf ctx) = 128 \<Longrightarrow> md5_rel (md5_init_ctx ctx) []"
  by (simp add: md5_rel_def md5_init_ctx_def md5_done_def md5_regs_of_def md5_tot_def
      rfc_hash_def blocks.simps rfc_init_def)


section \<open>The digest\<close>

lemma le_bytes_split:
  "le_bytes 8 (x :: u64) = le_bytes 4 (ucast x :: u32) @ le_bytes 4 (ucast (drop_bit 32 x) :: u32)"
  by (simp add: eval_nat_numeral)
     (intro conjI bit_word_eqI; auto simp: bit_simps)

lemma md5_length_words:
  assumes "md5_tot ctx = len mod 2 ^ 64"
  shows "le_bytes 4 (push_bit 3 (total0 ctx))
      @ le_bytes 4 (push_bit 3 (total1 ctx) OR drop_bit 29 (total0 ctx))
    = le_bytes 8 (of_nat (8 * len) :: u64)"
proof -
  define w :: u64 where "w = of_nat len"
  have "unat w = md5_tot ctx" by (simp add: w_def assms unsigned_of_nat take_bit_eq_mod)
  moreover have "unat (total0 ctx) < 2 ^ 32" using unsigned_less [of "total0 ctx"] by simp
  ultimately have "unat w mod 2 ^ 32 = unat (total0 ctx)" "unat w div 2 ^ 32 = unat (total1 ctx)"
    by (simp_all add: md5_tot_def)
  moreover have "unat (ucast w :: u32) = unat w mod 2 ^ 32"
    by (simp add: unsigned_ucast_eq take_bit_eq_mod)
  moreover have "unat (ucast (drop_bit 32 w) :: u32) = unat w div 2 ^ 32"
  proof -
    have "unat w < 2 ^ 64" using unsigned_less [of w] by simp
    then have "take_bit 32 (unat w div 2 ^ 32) = unat w div 2 ^ 32"
      by (simp add: take_bit_nat_eq_self)
    then show ?thesis by (simp add: unsigned_ucast_eq unat_drop_bit_div)
  qed
  ultimately have t: "total0 ctx = ucast w" "total1 ctx = ucast (drop_bit 32 w)"
    by (simp_all add: word_unat_eq_iff)
  have "push_bit 3 (total0 ctx) = ucast (push_bit 3 w)"
    unfolding t by (rule bit_word_eqI) (auto simp: bit_simps)
  moreover have "push_bit 3 (total1 ctx) OR drop_bit 29 (total0 ctx) = ucast (drop_bit 32 (push_bit 3 w))"
    unfolding t by (rule bit_word_eqI) (auto simp: bit_simps)
  moreover have "of_nat (8 * len) = push_bit 3 w" by (simp add: w_def push_bit_eq_mult)
  ultimately show ?thesis by (simp only: le_bytes_split)
qed

lemma md5_finish_ctx_rfc:
  assumes "md5_rel ctx m"
  shows "fst (md5_finish_ctx ctx) = rfc_md5 m"
proof -
  define n where "n = unat (buflen ctx)"
  obtain d where d: "md5_done ctx d" "m = d @ take n (md5_buf ctx)"
    and len: "length (md5_buf ctx) = 128" and n: "n \<le> 64"
    using assms by (auto simp: md5_rel_def n_def)
  have ld: "length m = length d + n" "64 dvd length d"
    using d n len by (auto simp: md5_done_def)
  then have mod: "length m mod 64 = n mod 64" by (auto elim!: dvdE)
  define pad where "pad = (if 56 \<le> n then 64 + 56 - n else 56 - n)"
  have pad: "pad \<le> 64" "0 < pad" "n + pad + 8 \<le> 128" "pad - 1 = (119 - length m mod 64) mod 64"
    unfolding mod using n by (auto simp: pad_def mod_if)
  define ctx1 where "ctx1 = md5_add_total n ctx"
  have tot: "md5_tot ctx1 = length m mod 2 ^ 64"
    using d n ld by (simp add: ctx1_def md5_tot_add md5_done_def mod_add_left_eq)
  define num where "num = le_bytes 4 (push_bit 3 (total0 ctx1))
      @ le_bytes 4 (push_bit 3 (total1 ctx1) OR drop_bit 29 (total0 ctx1))"
  define buf where "buf = buf_put (n + pad + 4) (le_bytes 4 (push_bit 3 (total1 ctx1) OR drop_bit 29 (total0 ctx1)))
     (buf_put (n + pad) (le_bytes 4 (push_bit 3 (total0 ctx1)))
       (buf_put n (take pad fillbuf) (md5_buf ctx)))"
  have "take (n + pad + 8) buf = take n (md5_buf ctx) @ take pad fillbuf @ num"
    using len pad n by (simp add: buf_def buf_put_def num_def fillbuf_def)
  moreover have "take pad fillbuf = 0x80 # replicate (pad - 1) 0"
    using pad by (cases pad) (auto simp: fillbuf_def)
  moreover have "num = le_bytes 8 (of_nat (8 * length m) :: u64)"
    unfolding num_def by (rule md5_length_words [OF tot])
  ultimately have all: "d @ take (n + pad + 8) buf = rfc_pad m"
    using d(2) pad(4) by (simp add: rfc_pad_def)
  have lbuf: "length buf = 128" using len pad n by (simp add: buf_def fillbuf_def)
  have "64 dvd length (take (n + pad + 8) buf)"
    using n lbuf by (auto simp: pad_def)
  moreover have "md5_regs_of (ctx1\<lparr>md5_buf := buf\<rparr>) = rfc_hash d"
    using d by (simp add: ctx1_def md5_done_def md5_regs_of_def md5_add_total_def Let_def)
  ultimately have "md5_regs_of (md5_process_block (take (n + pad + 8) buf) (ctx1\<lparr>md5_buf := buf\<rparr>))
      = rfc_hash (d @ take (n + pad + 8) buf)"
    using ld by (simp only: md5_process_block_regs rfc_hash_append)
  then have "rfc_hash (rfc_pad m) = md5_regs_of (md5_process_block (take (n + pad + 8) buf) (ctx1\<lparr>md5_buf := buf\<rparr>))"
    unfolding all by (rule sym)
  then show ?thesis
    by (simp add: md5_finish_ctx_def Let_def rfc_md5_def n_def [symmetric] pad_def [symmetric]
        ctx1_def [symmetric] md5_read_ctx_def md5_regs_of_def buf_def [symmetric] split: prod.split)
qed

lemma md5_pieces_rel:
  "md5_rel ctx m \<Longrightarrow> \<forall>(addr, bs)\<in>set ps. length bs < 2 ^ 32 \<Longrightarrow>
   md5_rel (fold (\<lambda>(addr, bs). md5_process_bytes addr bs) ps ctx) (m @ concat (map snd ps))"
proof (induction ps arbitrary: ctx m)
  case (Cons p ps)
  obtain addr bs where p: "p = (addr, bs)" by fastforce
  then have "md5_rel (md5_process_bytes addr bs ctx) (m @ bs)"
    using Cons.prems by (auto intro: md5_process_bytes_rel)
  from Cons.IH [OF this] Cons.prems show ?case by (simp add: p)
qed simp

text \<open>
  C20: a message handed to \<open>md5_process_bytes\<close> in any pieces, of any lengths below \<open>2^32\<close> and
  at any addresses, aligned or not, and then finished, gives the MD5 digest of RFC 1321 of the
  whole message: the buffering, the three ways of reading a piece, the two-word byte counter
  and the padding lose and reorder nothing.
\<close>

theorem md5_pieces_rfc:
  assumes "length (md5_buf ctx) = 128" and "\<forall>(addr, bs)\<in>set ps. length bs < 2 ^ 32"
  shows "fst (md5_finish_ctx (fold (\<lambda>(addr, bs). md5_process_bytes addr bs) ps (md5_init_ctx ctx)))
    = rfc_md5 (concat (map snd ps))"
  using md5_finish_ctx_rfc [OF md5_pieces_rel [OF md5_init_rel [OF assms(1)] assms(2)]] by simp

definition zero_ctx :: md5_ctx where
  "zero_ctx = \<lparr>rA = 0, rB = 0, rC = 0, rD = 0, total0 = 0, total1 = 0, buflen = 0,
     md5_buf = replicate 128 0\<rparr>"

lemma md5_pieces_rfc_witness:
  "fst (md5_finish_ctx (fold (\<lambda>(addr, bs). md5_process_bytes addr bs)
      [(0, [0x61]), (1, replicate 200 0x62), (3, [0x63])] (md5_init_ctx zero_ctx)))
    = rfc_md5 (concat (map snd [(0::nat, [0x61]), (1, replicate 200 0x62), (3, [0x63])]))"
  by (rule md5_pieces_rfc) (auto simp: zero_ctx_def)

lemma md5_buffer_rfc:
  assumes "length (md5_buf ctx) = 128" and "length bs < 2 ^ 32"
  shows "md5_buffer addr bs ctx = rfc_md5 bs"
  using md5_finish_ctx_rfc [OF md5_process_bytes_rel [OF md5_init_rel [OF assms(1)] assms(2)]]
  by (simp add: md5_buffer_def)

text \<open>Whole blocks straight from memory, as the image code hashes them.\<close>

lemma md5_process_blocks_rel:
  assumes "md5_rel ctx m" and "buflen ctx = 0" and "64 dvd length bs" and "length bs < 2 ^ 32"
  shows "md5_rel (md5_process_block bs ctx) (m @ bs)"
  using assms by (auto simp: md5_rel_def md5_process_block_done)

end
