(* ===== verification/Key.thy ===== *)
theory Key
  imports C_String Memalloc Md5
begin

text \<open>
  Passphrases and keys: \<open>encrypt.c\<close>, \<open>generate_key\<close> of \<open>suspend.c\<close>, \<open>decrypt_key\<close> and
  \<open>restore_key\<close> of \<open>load.c\<close>. The image is encrypted with a key and an initialization vector that
  come either from the MD5 digest of a passphrase and a salt, or from the random generator,
  encrypted with a public RSA key. libgcrypt is a parameter: a record of functions over the world,
  where the symmetric cipher handles live.
\<close>

section \<open>encrypt.c\<close>

definition PASS_SIZE :: nat where "PASS_SIZE = 128"
definition KEY_SIZE :: nat where "KEY_SIZE = 16"
definition CIPHER_BLOCK :: nat where "CIPHER_BLOCK = 8"
definition PK_KEY_SIZE :: nat where "PK_KEY_SIZE = 16"
definition PK_CIPHER_BLOCK :: nat where "PK_CIPHER_BLOCK = 16"
definition KEY_TEST_DATA :: "byte list" where "KEY_TEST_DATA = map of_char ''12345678''"
definition RSA_FIELDS :: nat where "RSA_FIELDS = 6"
definition RSA_FIELDS_PUB :: nat where "RSA_FIELDS_PUB = 2"

text \<open>The inner loop of \<open>read_password\<close>, \<open>len\<close> is \<open>strlen(pass_buf) - 1\<close>; \<open>None\<close> if it does not
  end, which is what happens at the end of the input.\<close>

partial_function (option) read_nonempty :: "byte list \<Rightarrow> byte list \<Rightarrow> (byte list \<times> byte list) option" where
  "read_nonempty pass_buf input =
     (let (pass_buf, input) = fgets PASS_SIZE pass_buf input
      in if strlen pass_buf \<le> 1 then read_nonempty pass_buf input else Some (pass_buf, input))"

definition strip_newline :: "nat \<Rightarrow> byte list \<Rightarrow> byte list" where
  "strip_newline n buf = (if buf ! n = 10 then buf[n := 0] else buf)"

text \<open>\<open>pass_buf\<close> and \<open>vrfy_buf\<close> are the two halves of the buffer.\<close>

partial_function (option) read_password ::
  "bool \<Rightarrow> byte list \<Rightarrow> byte list \<Rightarrow> byte list \<Rightarrow> (byte list \<times> byte list \<times> byte list) option" where
  "read_password vrfy pass_buf vrfy_buf input = do {
     (pass_buf, input) \<leftarrow> read_nonempty pass_buf input;
     let len = strlen pass_buf - 1;
     let pass_buf = strip_newline len pass_buf;
     if \<not> vrfy then Some (pass_buf, vrfy_buf, input)
     else do {
       let (vrfy_buf, input) = fgets PASS_SIZE vrfy_buf input;
       let vrfy_buf = strip_newline len vrfy_buf;
       if take PASS_SIZE (c_string pass_buf) \<noteq> take PASS_SIZE (c_string vrfy_buf)
       then read_password vrfy pass_buf vrfy_buf input
       else Some (pass_buf, vrfy_buf, input)
     }
   }"

text \<open>
  The key and the initialization vector. \<open>al\<close> is the address of the passphrase modulo 4, \<open>ctx\<close>
  what the checksum context on the stack holds before it is initialized.
\<close>

definition encrypt_init :: "nat \<Rightarrow> md5_ctx \<Rightarrow> byte list \<Rightarrow> byte list \<times> byte list" where
  "encrypt_init al ctx pass_buf =
     (let ivec = strncpy_zero CIPHER_BLOCK pass_buf;
          ctx = md5_init_ctx ctx;
          ctx = md5_process_bytes al (c_string pass_buf) ctx
      in (fst (md5_finish_ctx ctx), ivec))"

text \<open>\<open>urandom\<close>: what \<open>read\<close> delivers, \<open>None\<close> if the device cannot be opened.\<close>

definition get_random_salt :: "('w \<Rightarrow> byte list option \<times> 'w) \<Rightarrow> nat \<Rightarrow> 'w \<Rightarrow> byte list \<times> 'w" where
  "get_random_salt urandom sz w =
     (let salt = replicate sz 0;
          (got, w) = urandom w
      in (case got of None \<Rightarrow> salt | Some bs \<Rightarrow> take sz bs @ drop (length bs) salt, w))"

section \<open>libgcrypt\<close>

text \<open>
  \<open>'m\<close> are the multi-precision integers, \<open>'s\<close> the S-expressions. Error codes are integers, 0 is
  success. The cipher functions with the prefix \<open>pk\<close> work on the handle that \<open>decrypt_key\<close> opens,
  the others on \<open>cipher_handle\<close>.
\<close>

record ('w, 'm, 's) gcrypt =
  pk_open :: "'w \<Rightarrow> int \<times> 'w"
  pk_setkey :: "byte list \<Rightarrow> 'w \<Rightarrow> int \<times> 'w"
  pk_setiv :: "byte list \<Rightarrow> 'w \<Rightarrow> int \<times> 'w"
  pk_encrypt :: "byte list \<Rightarrow> 'w \<Rightarrow> (int \<times> byte list) \<times> 'w"
  pk_decrypt :: "byte list \<Rightarrow> 'w \<Rightarrow> (int \<times> byte list) \<times> 'w"
  pk_close :: "'w \<Rightarrow> 'w"
  cipher_open :: "'w \<Rightarrow> int \<times> 'w"
  cipher_setkey :: "byte list \<Rightarrow> 'w \<Rightarrow> int \<times> 'w"
  cipher_setiv :: "byte list \<Rightarrow> 'w \<Rightarrow> int \<times> 'w"
  cipher_close :: "'w \<Rightarrow> 'w"
  mpi_scan :: "byte list \<Rightarrow> int \<times> 'm"
  mpi_print :: "nat \<Rightarrow> 'm \<Rightarrow> int \<times> byte list"
  mpi_aprint :: "'m \<Rightarrow> int \<times> byte list"
  sexp_private_key :: "(byte list \<times> 'm) list \<Rightarrow> int \<times> 's"
  sexp_public_key :: "(byte list \<times> 'm) list \<Rightarrow> int \<times> 's"
  sexp_enc_val :: "'m \<Rightarrow> int \<times> 's"
  sexp_data :: "'m \<Rightarrow> int \<times> 's"
  rsa_encrypt :: "'s \<Rightarrow> 's \<Rightarrow> int \<times> 's"
  rsa_decrypt :: "'s \<Rightarrow> 's \<Rightarrow> int \<times> 's"
  sexp_find_a :: "'s \<Rightarrow> 's option"
  sexp_nth_1 :: "'s \<Rightarrow> 'm option"

section \<open>The RSA key\<close>

record RSA_data =
  rsa_field :: "byte list list"    \<comment> \<open>six names of two characters\<close>
  rsa_size :: "nat list"           \<comment> \<open>\<open>unsigned short\<close>\<close>
  rsa_key_test :: "byte list"
  rsa_bytes :: "byte list"         \<comment> \<open>\<open>data\<close>\<close>

record key_data =
  kd_key :: "byte list"
  kd_ivec :: "byte list"
  kd_rsa :: RSA_data
  kd_encrypted_key :: "byte list"  \<comment> \<open>the first \<open>size\<close> bytes of \<open>data\<close>\<close>

text \<open>The password loop of \<open>decrypt_key\<close>: \<open>ask\<close> is \<open>splash.read_password\<close>. The result is the error
  that broke it off, or 0, the key and the vector; \<open>None\<close> if the right passphrase never comes.\<close>

partial_function (option) ask_pk_key ::
  "('w, 'm, 's) gcrypt \<Rightarrow> ('w \<Rightarrow> byte list \<times> 'w) \<Rightarrow> nat \<Rightarrow> md5_ctx \<Rightarrow> byte list \<Rightarrow> 'w \<Rightarrow>
   (int \<times> byte list \<times> byte list \<times> 'w) option" where
  "ask_pk_key G ask al ctx key_test w =
     (let (password, w) = ask w;
          ivec_buf = strncpy_zero PK_CIPHER_BLOCK password;
          (key_buf, ctx) = md5_finish_ctx (md5_process_bytes al (c_string password) (md5_init_ctx ctx));
          (r, w) = pk_setkey G key_buf w;
          (r, w) = (if r = 0 then pk_setiv G ivec_buf w else (r, w));
          ((r, out), w) = (if r = 0 then pk_encrypt G KEY_TEST_DATA w else ((r, []), w))
      in if r \<noteq> 0 then Some (r, key_buf, ivec_buf, w)
         else if out = key_test then Some (0, key_buf, ivec_buf, w)
         else ask_pk_key G ask al ctx key_test w)"

text \<open>The loop over the RSA fields, from field \<open>mi\<close> on: error and numbers.\<close>

function rsa_params ::
  "('w, 'm, 's) gcrypt \<Rightarrow> RSA_data \<Rightarrow> nat \<Rightarrow> byte list \<Rightarrow> 'w \<Rightarrow> (int \<times> 'm list) \<times> 'w" where
  "rsa_params G rsa mi buf w =
     (if mi < RSA_FIELDS then
        (let s = rsa_size rsa ! mi;
             ((r, num), w) = (if RSA_FIELDS_PUB \<le> mi then pk_decrypt G (take s buf) w
                              else ((0, take s buf), w))
         in if r \<noteq> 0 then ((r, []), w)
            else let (r, x) = mpi_scan G num
                 in if r \<noteq> 0 then ((r, []), w)
                    else let ((r, xs), w) = rsa_params G rsa (mi + 1) (drop s buf) w in ((r, x # xs), w))
      else ((0, []), w))"
  by pat_completeness auto
termination
  by (relation "measure (\<lambda>(G, rsa, mi, buf, w). RSA_FIELDS - mi)") auto

declare rsa_params.simps [simp del]

text \<open>From the private key on: the bytes of the main key. \<open>None\<close> stands for a \<open>NULL\<close> number handed
  to \<open>gcry_mpi_aprint\<close> (\<open>if (!mpi)\<close> looks at the array, not at the number).\<close>

definition decrypt_main_key ::
  "('w, 'm, 's) gcrypt \<Rightarrow> RSA_data \<Rightarrow> 'm list \<Rightarrow> byte list \<Rightarrow> (int \<times> byte list) option" where
  "decrypt_main_key G rsa nums enc_key =
     (let (r, rsa_priv) = sexp_private_key G (zip (rsa_field rsa) nums)
      in if r \<noteq> 0 then Some (r, [])
         else let (r, a) = mpi_scan G enc_key
         in if r \<noteq> 0 then Some (r, [])
         else let (r, rsa_ciph) = sexp_enc_val G a
         in if r \<noteq> 0 then Some (r, [])
         else let (r, rsa_plain) = rsa_decrypt G rsa_ciph rsa_priv
         in if r \<noteq> 0 then Some (r, [])
         else case sexp_nth_1 G rsa_plain of
                None \<Rightarrow> None
              | Some x \<Rightarrow> (let (_, res) = mpi_aprint G x
                          in if length res = KEY_SIZE + CIPHER_BLOCK then Some (0, res)
                             else Some (- ENODATA, [])))"

text \<open>
  \<open>key\<close> and \<open>ivec\<close> are the arrays of the caller. The in-place decryption of the RSA data in the
  header page is left out, nothing reads it afterwards. \<open>None\<close> if the passphrase loop does not end
  or a \<open>NULL\<close> from \<open>getmem\<close> is written to.
\<close>

definition decrypt_key ::
  "('w, 'm, 's) gcrypt \<Rightarrow> ('w \<Rightarrow> byte list \<times> 'w) \<Rightarrow> nat \<Rightarrow> md5_ctx \<Rightarrow> RSA_data \<Rightarrow> byte list \<Rightarrow>
   byte list \<Rightarrow> byte list \<Rightarrow> memalloc \<Rightarrow> 'w \<Rightarrow> (int \<times> byte list \<times> byte list \<times> memalloc \<times> 'w) option" where
  "decrypt_key G ask al ctx rsa enc_key key ivec m w =
     (let (r, w) = pk_open G w
      in if r \<noteq> 0 then Some (r, key, ivec, m, w)
         else do {
           (key_mem, m) \<leftarrow> getmem (of_nat PK_KEY_SIZE) m;
           (ivec_mem, m) \<leftarrow> getmem (of_nat PK_CIPHER_BLOCK) m;
           (out_mem, m) \<leftarrow> getmem (of_nat (length KEY_TEST_DATA)) m;
           key_addr \<leftarrow> key_mem; ivec_addr \<leftarrow> ivec_mem; out_addr \<leftarrow> out_mem;
           (r, key_buf, ivec_buf, w) \<leftarrow> ask_pk_key G ask al ctx (rsa_key_test rsa) w;
           let w = pk_close G w;
           let (r, w) = (if r = 0 then pk_open G w else (r, w));
           (r, key, ivec, w) \<leftarrow>
             (if r \<noteq> 0 then Some (r, key, ivec, w)
              else do {
                let (r, w) = pk_setkey G key_buf w;
                let (r, w) = (if r = 0 then pk_setiv G ivec_buf w else (r, w));
                let ((r, nums), w) = (if r = 0 then rsa_params G rsa 0 (rsa_bytes rsa) w else ((r, []), w));
                (r, res) \<leftarrow> (if r = 0 then decrypt_main_key G rsa nums enc_key else Some (r, []));
                Some (r, if r = 0 then take KEY_SIZE res else key,
                      if r = 0 then drop KEY_SIZE res else ivec, pk_close G w)
              });
           Some (r, key, ivec, freemem key_addr (freemem ivec_addr (freemem out_addr m)), w)
         })"

text \<open>\<open>salt\<close>, \<open>rsa\<close> and the encrypted key come from the image header.\<close>

definition restore_key ::
  "('w, 'm, 's) gcrypt \<Rightarrow> ('w \<Rightarrow> byte list \<times> 'w) \<Rightarrow> nat \<Rightarrow> md5_ctx \<Rightarrow> bool \<Rightarrow> byte list \<Rightarrow> RSA_data \<Rightarrow>
   byte list \<Rightarrow> byte list \<Rightarrow> byte list \<Rightarrow> memalloc \<Rightarrow> 'w \<Rightarrow>
   (int \<times> byte list \<times> byte list \<times> memalloc \<times> 'w) option" where
  "restore_key G ask al ctx use_rsa salt rsa enc_key key ivec m w = do {
     (error, key, ivec, m, w) \<leftarrow>
       (if use_rsa then decrypt_key G ask al ctx rsa enc_key key ivec m w
        else (let (password, w) = ask w;
                  (key, ivec) = encrypt_init al ctx password
              in Some (0, key, map2 (XOR) ivec salt, m, w)));
     let (error, w) = (if error = 0 then cipher_open G w else (error, w));
     let (error, w) =
       (if error = 0 then
          (let (error, w) = cipher_setkey G key w;
               (error, w) = (if error = 0 then cipher_setiv G ivec w else (error, w))
           in (error, if error \<noteq> 0 then cipher_close G w else w))
        else (error, w));
     Some (error, key, ivec, m, w)
   }"

section \<open>generate_key\<close>

text \<open>\<open>for (mi = 0; mi < RSA_FIELDS_PUB; mi++)\<close>.\<close>

definition rsa_public :: "('w, 'm, 's) gcrypt \<Rightarrow> RSA_data \<Rightarrow> int \<times> 'm list" where
  "rsa_public G rsa =
     (let (r, n) = mpi_scan G (take (rsa_size rsa ! 0) (rsa_bytes rsa))
      in if r \<noteq> 0 then (r, [])
         else let (r, e) = mpi_scan G (take (rsa_size rsa ! 1) (drop (rsa_size rsa ! 0) (rsa_bytes rsa)))
              in if r \<noteq> 0 then (r, []) else (0, [n, e]))"

text \<open>The \<open>for (;;)\<close> loop: random bytes until they survive the conversion to a number and back.
  \<open>None\<close> if it does not end, \<open>Some None\<close> if the random generator fails.\<close>

partial_function (option) random_main_key ::
  "('w, 'm, 's) gcrypt \<Rightarrow> ('w \<Rightarrow> byte list \<times> 'w) \<Rightarrow> 'w \<Rightarrow> ((byte list \<times> 'm) option \<times> 'w) option" where
  "random_main_key G rnd w =
     (let (bs, w) = rnd w
      in if length bs \<noteq> KEY_SIZE + CIPHER_BLOCK then Some (None, w)
         else let (r, x) = mpi_scan G bs
         in if r \<noteq> 0 then random_main_key G rnd w
         else let (r, res) = mpi_aprint G x
         in if r \<noteq> 0 then random_main_key G rnd w
         else if length res = length bs \<and> bs = res then Some (Some (bs, x), w)
         else random_main_key G rnd w)"

definition KEY_DATA_SIZE :: nat where "KEY_DATA_SIZE = 512"

text \<open>The encrypted main key, \<open>None\<close> on an error.\<close>

definition encrypt_main_key :: "('w, 'm, 's) gcrypt \<Rightarrow> 's \<Rightarrow> 'm \<Rightarrow> byte list option" where
  "encrypt_main_key G rsa_pub x =
     (let (r, rsa_plain) = sexp_data G x
      in if r \<noteq> 0 then None
         else let (r, rsa_ciph) = rsa_encrypt G rsa_plain rsa_pub
         in if r \<noteq> 0 then None
         else case sexp_find_a G rsa_ciph of None \<Rightarrow> None
         | Some t \<Rightarrow> (case sexp_nth_1 G t of None \<Rightarrow> None
         | Some a \<Rightarrow> (let (r, res) = mpi_print G KEY_DATA_SIZE a in if r = 0 then Some res else None)))"

text \<open>
  \<open>key_file\<close> is the RSA data read from the key file (\<open>None\<close> if there is none) and \<open>rnd\<close> a read of
  24 bytes from \<open>/dev/urandom\<close> (\<open>None\<close> if it cannot be opened). The boolean is \<open>use_RSA\<close>.
\<close>

definition generate_key ::
  "('w, 'm, 's) gcrypt \<Rightarrow> RSA_data option \<Rightarrow> ('w \<Rightarrow> byte list \<times> 'w) option \<Rightarrow> bool \<Rightarrow> key_data \<Rightarrow> 'w \<Rightarrow>
   (bool \<times> key_data \<times> 'w) option" where
  "generate_key G key_file urandom use_rsa kd w =
     (case key_file of None \<Rightarrow> Some (use_rsa, kd, w)
      | Some rsa \<Rightarrow>
        (let kd = kd\<lparr>kd_rsa := rsa\<rparr>;
             (r, nums) = rsa_public G rsa
         in if r \<noteq> 0 then Some (use_rsa, kd, w)
            else let (r, rsa_pub) = sexp_public_key G (zip (take 2 (rsa_field rsa)) nums)
            in if r \<noteq> 0 then Some (use_rsa, kd, w)
            else case urandom of None \<Rightarrow> Some (use_rsa, kd, w)
            | Some rnd \<Rightarrow> do {
                (res, w) \<leftarrow> random_main_key G rnd w;
                case res of None \<Rightarrow> Some (use_rsa, kd, w)
                | Some (bs, x) \<Rightarrow>
                    (let kd = kd\<lparr>kd_key := take KEY_SIZE bs, kd_ivec := drop KEY_SIZE bs\<rparr>
                     in Some (case encrypt_main_key G rsa_pub x of
                                None \<Rightarrow> (use_rsa, kd, w)
                              | Some enc \<Rightarrow> (True, kd\<lparr>kd_encrypted_key := enc\<rparr>, w)))
              }))"

section \<open>Properties\<close>

lemma encrypt_init_ok:
  assumes "length (md5_buf ctx) = 128" and "length (c_string pass) < 2 ^ 32"
  shows "encrypt_init al ctx pass = (rfc_md5 (c_string pass), strncpy_zero CIPHER_BLOCK pass)"
  using md5_buffer_rfc [OF assms, of al] by (simp add: encrypt_init_def md5_buffer_def Let_def)

text \<open>
  C22: Suspend and resume derive the same cipher key and initialization vector. If the tool that
  saves the image mixes a salt into the vector and the tool that loads it is given the same
  passphrase, \<open>restore_key\<close> sets the key that \<open>encrypt_init\<close> computed (the MD5 digest of the
  passphrase) and the salted vector, wherever the two tools keep the passphrase and whatever is on
  their stacks; it fails only if libgcrypt does.
\<close>

theorem restore_key_same_key:
  assumes "length (md5_buf ctx) = 128" and "length (md5_buf ctx') = 128"
    and "c_string pass' = c_string pass" and "length (c_string pass) < 2 ^ 32"
    and "encrypt_init al ctx pass = (key, ivec)" and "ask w = (pass', w1)"
    and "cipher_open G w1 = (0, w2)" and "cipher_setkey G key w2 = (0, w3)"
    and "cipher_setiv G (map2 (XOR) ivec salt) w3 = (0, w4)"
  shows "restore_key G ask al' ctx' False salt rsa enc_key key0 ivec0 m w
      = Some (0, key, map2 (XOR) ivec salt, m, w4) \<and> key = rfc_md5 (c_string pass)"
proof -
  have k: "key = rfc_md5 (c_string pass)" "ivec = strncpy_zero CIPHER_BLOCK pass"
    using encrypt_init_ok [OF assms(1,4)] assms(5) by simp_all
  have "strncpy_zero CIPHER_BLOCK pass' = ivec" unfolding k(2) strncpy_zero_def assms(3) ..
  then have "encrypt_init al' ctx' pass' = (key, ivec)"
    using encrypt_init_ok [OF assms(2), of pass'] assms(3,4) k by simp
  then show ?thesis using assms(6-9) k by (simp add: restore_key_def)
qed

text \<open>A libgcrypt for the witnesses: nothing fails, numbers are byte lists, RSA reverses them.\<close>

definition toy_gcrypt :: "('w, byte list, byte list) gcrypt" where
  "toy_gcrypt =
     \<lparr>pk_open = (\<lambda>w. (0, w)), pk_setkey = (\<lambda>k w. (0, w)), pk_setiv = (\<lambda>v w. (0, w)),
      pk_encrypt = (\<lambda>d w. ((0, rev d), w)), pk_decrypt = (\<lambda>d w. ((0, rev d), w)), pk_close = (\<lambda>w. w),
      cipher_open = (\<lambda>w. (0, w)), cipher_setkey = (\<lambda>k w. (0, w)), cipher_setiv = (\<lambda>v w. (0, w)),
      cipher_close = (\<lambda>w. w), mpi_scan = (\<lambda>d. (0, d)), mpi_print = (\<lambda>n x. (0, x)),
      mpi_aprint = (\<lambda>x. (0, x)), sexp_private_key = (\<lambda>l. (0, concat (map snd l))),
      sexp_public_key = (\<lambda>l. (0, concat (map snd l))), sexp_enc_val = (\<lambda>x. (0, x)), sexp_data = (\<lambda>x. (0, x)),
      rsa_encrypt = (\<lambda>x k. (0, rev x)), rsa_decrypt = (\<lambda>x k. (0, rev x)),
      sexp_find_a = Some, sexp_nth_1 = Some\<rparr>"

lemma restore_key_same_key_witness:
  "restore_key toy_gcrypt (\<lambda>w. (map of_char ''secret'' @ [0, 7], w)) 1 zero_ctx False (replicate 8 5)
     \<lparr>rsa_field = [], rsa_size = [], rsa_key_test = [], rsa_bytes = []\<rparr> [] [] [] example_pool (0::nat)
     = Some (0, fst (encrypt_init 0 zero_ctx (map of_char ''secret'' @ [0])),
         map2 (XOR) (snd (encrypt_init 0 zero_ctx (map of_char ''secret'' @ [0]))) (replicate 8 5), example_pool, 0)
   \<and> fst (encrypt_init 0 zero_ctx (map of_char ''secret'' @ [0])) = rfc_md5 (c_string (map of_char ''secret'' @ [0]))"
  by (rule restore_key_same_key [where ctx = zero_ctx and ?w1.0 = 0 and ?w2.0 = 0 and ?w3.0 = 0 and
        pass' = "map of_char ''secret'' @ [0, 7]" and al = 0])
     (simp_all add: toy_gcrypt_def zero_ctx_def c_string_def)

text \<open>
  What the documentation of libgcrypt says of the functions used on the main key: the RSA functions
  of a key pair are inverse to each other, a number that has been printed is scanned back.
\<close>

definition rsa_pair :: "('w, 'm, 's) gcrypt \<Rightarrow> 's \<Rightarrow> 's \<Rightarrow> bool" where
  "rsa_pair G pub priv \<longleftrightarrow>
     (\<forall>x d c t a. sexp_data G x = (0, d) \<longrightarrow> rsa_encrypt G d pub = (0, c) \<longrightarrow> sexp_find_a G c = Some t \<longrightarrow>
        sexp_nth_1 G t = Some a \<longrightarrow>
        (\<exists>e p. sexp_enc_val G a = (0, e) \<and> rsa_decrypt G e priv = (0, p) \<and> sexp_nth_1 G p = Some x)) \<and>
     (\<forall>n x bs. mpi_print G n x = (0, bs) \<longrightarrow> mpi_scan G bs = (0, x))"

lemma random_main_key_ok:
  fixes G :: "('w, 'm, 's) gcrypt" and w w' :: 'w
  assumes "random_main_key G rnd w = Some (Some (bs, x), w')"
  shows "length bs = KEY_SIZE + CIPHER_BLOCK \<and> mpi_scan G bs = (0, x) \<and> mpi_aprint G x = (0, bs)"
proof -
  let ?P = "\<lambda>G' (rnd' :: 'w \<Rightarrow> byte list \<times> 'w) (w::'w) (r :: (byte list \<times> 'm) option \<times> 'w). G' = G \<longrightarrow>
    (\<forall>bs x. fst r = Some (bs, x) \<longrightarrow>
      length bs = KEY_SIZE + CIPHER_BLOCK \<and> mpi_scan G bs = (0, x) \<and> mpi_aprint G x = (0, bs))"
  have "?P G rnd w (Some (bs, x), w')"
  proof (rule random_main_key.raw_induct [OF _ assms, of ?P])
    fix rmk G' rnd' w r
    assume IH: "\<And>G rnd w r. rmk G rnd w = Some r \<Longrightarrow> ?P G rnd w r"
      and eq: "(let (bs, w) = rnd' w
      in if length bs \<noteq> KEY_SIZE + CIPHER_BLOCK then Some (None, w)
         else let (r, x) = mpi_scan G' bs
         in if r \<noteq> 0 then rmk G' rnd' w
         else let (r, res) = mpi_aprint G' x
         in if r \<noteq> 0 then rmk G' rnd' w
         else if length res = length bs \<and> bs = res then Some (Some (bs, x), w)
         else rmk G' rnd' w) = Some r"
    show "?P G' rnd' w r"
    proof (rule impI)
      assume G: "G' = G"
      obtain bs w1 where 1: "rnd' w = (bs, w1)" by fastforce
      obtain r1 x where 2: "mpi_scan G bs = (r1, x)" by fastforce
      obtain r2 res where 3: "mpi_aprint G x = (r2, res)" by fastforce
      show "\<forall>bs x. fst r = Some (bs, x) \<longrightarrow>
          length bs = KEY_SIZE + CIPHER_BLOCK \<and> mpi_scan G bs = (0, x) \<and> mpi_aprint G x = (0, bs)"
        using eq 1 2 3 G IH [of G rnd' w1 r] by (auto split: if_splits)
    qed
  qed
  then show ?thesis by simp
qed

text \<open>
  The main key survives the trip through RSA. If \<open>generate_key\<close> has drawn a main key and
  encrypted it with the public key, then \<open>decrypt_key\<close>, once it has set up the matching private key,
  gets exactly those 24 bytes back; in particular they always have the length it insists on,
  because \<open>generate_key\<close> draws again when a number loses leading zeros.
\<close>

lemma main_key_roundtrip:
  assumes "random_main_key G rnd w = Some (Some (bs, x), w')" and "encrypt_main_key G pub x = Some enc"
    and "sexp_private_key G (zip (rsa_field rsa) nums) = (0, priv)" and "rsa_pair G pub priv"
  shows "decrypt_main_key G rsa nums enc = Some (0, bs)"
proof -
  note r = random_main_key_ok [OF assms(1)]
  obtain d c t a where e: "sexp_data G x = (0, d)" "rsa_encrypt G d pub = (0, c)" "sexp_find_a G c = Some t"
    "sexp_nth_1 G t = Some a" "mpi_print G KEY_DATA_SIZE a = (0, enc)"
    using assms(2) by (auto simp: encrypt_main_key_def Let_def split: prod.splits if_splits option.splits)
  obtain e' p where "sexp_enc_val G a = (0, e')" "rsa_decrypt G e' priv = (0, p)" "sexp_nth_1 G p = Some x"
    using assms(4) e unfolding rsa_pair_def by blast
  moreover have "mpi_scan G enc = (0, a)" using assms(4) e unfolding rsa_pair_def by blast
  ultimately show ?thesis using assms(3) r by (simp add: decrypt_main_key_def)
qed

lemma main_key_roundtrip_witness:
  "decrypt_main_key (toy_gcrypt :: (nat, byte list, byte list) gcrypt) \<lparr>rsa_field = [], rsa_size = [], rsa_key_test = [], rsa_bytes = []\<rparr> []
     (rev (map of_nat [1..<25])) = Some (0, map of_nat [1..<25])"
proof (rule main_key_roundtrip [where rnd = "\<lambda>w. (map of_nat [1..<25], Suc w)" and w = 0 and w' = 1
      and x = "map of_nat [1..<25]" and pub = "[]" and priv = "[]"])
  show "random_main_key toy_gcrypt (\<lambda>w. (map of_nat [1..<25], Suc w)) 0
      = Some (Some (map of_nat [1..<25], map of_nat [1..<25]), 1)"
    by (subst random_main_key.simps) (simp add: toy_gcrypt_def KEY_SIZE_def CIPHER_BLOCK_def)
qed (auto simp: toy_gcrypt_def encrypt_main_key_def rsa_pair_def)

end
