(* ===== verification/Signature.thy ===== *)
theory Signature
  imports Kernel Bytes
begin

text \<open>
  The signature in the swap header: \<open>mark_swap\<close> and \<open>reset_signature\<close> of \<open>suspend.c\<close>,
  \<open>open_resume_dev\<close> and \<open>reset_signature\<close> of \<open>resume.c\<close>. The last 28 bytes of the first page of the
  swap area hold the offset of the image header, a place for the old signature and the signature.
\<close>

section \<open>The header\<close>

record swsusp_header =
  sw_image :: loff_t
  sw_orig_sig :: "byte list"
  sw_sig :: "byte list"

definition sizeof_swsusp_header :: nat where "sizeof_swsusp_header = 28"

definition SWSUSP_SIG :: "byte list" where
  "SWSUSP_SIG = map of_char ''ULSUSPEND'' @ [0]"

definition SWAP_SPACE :: "byte list" where "SWAP_SPACE = map of_char ''SWAP-SPACE''"
definition SWAPSPACE2 :: "byte list" where "SWAPSPACE2 = map of_char ''SWAPSPACE2''"

text \<open>The structure is packed.\<close>

definition swsusp_header_bytes :: "swsusp_header \<Rightarrow> byte list" where
  "swsusp_header_bytes sh = loff_bytes (sw_image sh) @ sw_orig_sig sh @ sw_sig sh"

definition swsusp_header_of :: "byte list \<Rightarrow> swsusp_header" where
  "swsusp_header_of bs =
     \<lparr>sw_image = loff_of bs, sw_orig_sig = take 10 (drop 8 bs), sw_sig = take 10 (drop 18 bs)\<rparr>"

text \<open>Where it is, \<open>shift\<close> in all four functions.\<close>

definition header_shift :: "nat \<Rightarrow> loff_t \<Rightarrow> loff_t" where
  "header_shift k resume_offset = (resume_offset + 1) * 2 ^ k - int sizeof_swsusp_header"

section \<open>suspend.c\<close>

definition mark_swap :: "nat \<Rightarrow> 'w kernel \<Rightarrow> loff_t \<Rightarrow> fd \<Rightarrow> loff_t \<Rightarrow> 'w \<Rightarrow> int \<times> 'w" where
  "mark_swap k K resume_offset fd start w =
     (let shift = header_shift k resume_offset;
          (p, w) = k_lseek K fd shift w
      in if p \<noteq> shift then (- EIO, w)
         else let ((n, bs), w) = k_read K fd sizeof_swsusp_header w
         in if n < int sizeof_swsusp_header then (- EIO, w)
         else let sh = swsusp_header_of bs
         in if sw_sig sh = SWAP_SPACE \<or> sw_sig sh = SWAPSPACE2 then
              (let sh = sh\<lparr>sw_orig_sig := sw_sig sh, sw_sig := SWSUSP_SIG, sw_image := start\<rparr>;
                   (p, w) = k_lseek K fd shift w
               in if p \<noteq> shift then (- EIO, w)
                  else let (n, w) = k_write K fd (swsusp_header_bytes sh) w
                  in (if n < int sizeof_swsusp_header then - EIO else 0, w))
            else (- ENODEV, w))"

text \<open>\<open>reset_signature\<close> sleeps forever after an error: \<open>None\<close>.\<close>

definition reset_signature :: "nat \<Rightarrow> 'w kernel \<Rightarrow> loff_t \<Rightarrow> fd \<Rightarrow> 'w \<Rightarrow> (int \<times> 'w) option" where
  "reset_signature k K resume_offset fd w =
     (let shift = header_shift k resume_offset;
          (p, w) = k_lseek K fd shift w
      in if p \<noteq> shift then Some (- EIO, w)
         else let ((n, bs), w) = k_read K fd sizeof_swsusp_header w;
                  error = (if n = int sizeof_swsusp_header
                           then (if SWSUSP_SIG \<noteq> sw_sig (swsusp_header_of bs) then - EINVAL else 0)
                           else if n < 0 then n else - EIO);
                  (error, w) =
                    (if error = 0 then
                       (let sh = swsusp_header_of bs;
                            sh = sh\<lparr>sw_sig := sw_orig_sig sh\<rparr>;
                            (p, w) = k_lseek K fd shift w
                        in if p = shift
                           then (let (n, w) = k_write K fd (swsusp_header_bytes sh) w
                                 in (if n \<noteq> int sizeof_swsusp_header
                                     then (if n < 0 then n else - EIO) else 0, w))
                           else (- EIO, w))
                     else (error, w));
                  w = k_fsync K fd w
              in if error \<noteq> 0 then None else Some (error, w))"

section \<open>resume.c\<close>

text \<open>\<open>open\<close> is the system call: the descriptor or -1, and \<open>errno\<close>. The result is the return
  value and the header, if it has been read.\<close>

definition open_resume_dev ::
  "nat \<Rightarrow> 'w kernel \<Rightarrow> (string \<Rightarrow> 'w \<Rightarrow> (int \<times> int) \<times> 'w) \<Rightarrow> loff_t \<Rightarrow> string \<Rightarrow> swsusp_header \<Rightarrow> 'w \<Rightarrow>
   int \<times> swsusp_header \<times> 'w" where
  "open_resume_dev k K open_rdwr resume_offset resume_dev_name sh w =
     (let shift = header_shift k resume_offset;
          ((fd, errno), w) = open_rdwr resume_dev_name w
      in if fd < 0 then (- errno, sh, w)
         else let (p, w) = k_lseek K fd shift w
         in if p \<noteq> shift then (- EIO, sh, w)
         else let ((n, bs), w) = k_read K fd sizeof_swsusp_header w
         in if n = int sizeof_swsusp_header then
              (let sh = swsusp_header_of bs
               in if SWSUSP_SIG \<noteq> sw_sig sh then (- ENOMEDIUM, sh, k_close K fd w) else (fd, sh, w))
            else (if n < 0 then n else - EIO, sh, w))"

definition resume_reset_signature ::
  "nat \<Rightarrow> 'w kernel \<Rightarrow> loff_t \<Rightarrow> fd \<Rightarrow> swsusp_header \<Rightarrow> 'w \<Rightarrow> int \<times> swsusp_header \<times> 'w" where
  "resume_reset_signature k K resume_offset fd sh w =
     (let shift = header_shift k resume_offset;
          sh = sh\<lparr>sw_sig := sw_orig_sig sh\<rparr>;
          (p, w) = k_lseek K fd shift w
      in if p \<noteq> shift then (- EIO, sh, w)
         else let (n, w) = k_write K fd (swsusp_header_bytes sh) w
         in if n = int sizeof_swsusp_header then (0, sh, k_fsync K fd w) else (- EIO, sh, w))"

section \<open>The header in memory\<close>

definition header_wf :: "swsusp_header \<Rightarrow> bool" where
  "header_wf sh \<longleftrightarrow> loff_range (sw_image sh) \<and> length (sw_orig_sig sh) = 10 \<and> length (sw_sig sh) = 10"

lemma length_signatures [simp]:
  "length SWSUSP_SIG = 10" "length SWAP_SPACE = 10" "length SWAPSPACE2 = 10"
  by (simp_all add: SWSUSP_SIG_def SWAP_SPACE_def SWAPSPACE2_def)

lemma signatures_differ [simp]: "SWSUSP_SIG \<noteq> SWAP_SPACE" "SWSUSP_SIG \<noteq> SWAPSPACE2"
  by (simp_all add: SWSUSP_SIG_def SWAP_SPACE_def SWAPSPACE2_def)

lemma length_header_bytes: "header_wf sh \<Longrightarrow> length (swsusp_header_bytes sh) = sizeof_swsusp_header"
  by (simp add: header_wf_def swsusp_header_bytes_def sizeof_swsusp_header_def)

lemma swsusp_header_roundtrip: "header_wf sh \<Longrightarrow> swsusp_header_of (swsusp_header_bytes sh) = sh"
  by (simp add: header_wf_def swsusp_header_bytes_def swsusp_header_of_def loff_of_bytes)

lemma header_wf_of: "length bs = sizeof_swsusp_header \<Longrightarrow> header_wf (swsusp_header_of bs)"
  using sint_range_size [of "le_word (take 8 bs) :: u64"]
  by (simp add: header_wf_def swsusp_header_of_def sizeof_swsusp_header_def loff_of_def loff_range_def
      word_size)

lemma sig_of_header_bytes: "header_wf sh \<Longrightarrow> drop 18 (swsusp_header_bytes sh) = sw_sig sh"
  by (simp add: header_wf_def swsusp_header_bytes_def)


section \<open>The device\<close>

text \<open>
  What a file descriptor of a disk promises: seeking sets the position, a read that delivers all
  bytes delivers those of the disk, a write that takes all bytes changes the disk there and
  nowhere else. Reads and writes may fail.
\<close>

record 'w disk =
  d_byte :: "'w \<Rightarrow> loff_t \<Rightarrow> byte"
  d_pos :: "'w \<Rightarrow> loff_t"

definition bytes_at :: "(loff_t \<Rightarrow> byte) \<Rightarrow> loff_t \<Rightarrow> nat \<Rightarrow> byte list" where
  "bytes_at f a n = map (\<lambda>i. f (a + int i)) [0..<n]"

definition overwrite :: "(loff_t \<Rightarrow> byte) \<Rightarrow> loff_t \<Rightarrow> byte list \<Rightarrow> loff_t \<Rightarrow> byte" where
  "overwrite f a bs x = (if a \<le> x \<and> x < a + int (length bs) then bs ! nat (x - a) else f x)"

definition disk_device :: "'w kernel \<Rightarrow> fd \<Rightarrow> 'w disk \<Rightarrow> bool" where
  "disk_device K fd D \<longleftrightarrow>
     (\<forall>off w p w'. k_lseek K fd off w = (p, w') \<longrightarrow> p = off \<longrightarrow> d_pos D w' = off \<and> d_byte D w' = d_byte D w) \<and>
     (\<forall>n w m bs w'. k_read K fd n w = ((m, bs), w') \<longrightarrow> d_byte D w' = d_byte D w \<and> m \<le> int n
        \<and> (m = int n \<longrightarrow> bs = bytes_at (d_byte D w) (d_pos D w) n)) \<and>
     (\<forall>bs w m w'. k_write K fd bs w = (m, w') \<longrightarrow> m \<le> int (length bs)
        \<and> (m = int (length bs) \<longrightarrow> d_byte D w' = overwrite (d_byte D w) (d_pos D w) bs)) \<and>
     (\<forall>w. d_byte D (k_fsync K fd w) = d_byte D w)"

lemma disk_deviceD:
  assumes "disk_device K fd D"
  shows "k_lseek K fd off w = (off, w') \<Longrightarrow> d_pos D w' = off \<and> d_byte D w' = d_byte D w"
    and "k_read K fd n w = ((m, bs), w') \<Longrightarrow> d_byte D w' = d_byte D w \<and> m \<le> int n
        \<and> (m = int n \<longrightarrow> bs = bytes_at (d_byte D w) (d_pos D w) n)"
    and "k_write K fd bs w = (m, w') \<Longrightarrow> m \<le> int (length bs)
        \<and> (m = int (length bs) \<longrightarrow> d_byte D w' = overwrite (d_byte D w) (d_pos D w) bs)"
    and "d_byte D (k_fsync K fd w) = d_byte D w"
  using assms unfolding disk_device_def by (elim conjE; blast)+

lemma length_bytes_at [simp]: "length (bytes_at f a n) = n"
  by (simp add: bytes_at_def)

lemma bytes_at_overwrite: "bytes_at (overwrite f a bs) a (length bs) = bs"
  by (auto simp: bytes_at_def overwrite_def intro: nth_equalityI)

lemma drop_bytes_at: "drop m (bytes_at f a n) = bytes_at f (a + int m) (n - m)"
  by (auto simp: bytes_at_def add.assoc intro!: nth_equalityI)

lemma bytes_at_cong: "(\<And>x. a \<le> x \<Longrightarrow> x < a + int n \<Longrightarrow> f x = g x) \<Longrightarrow> bytes_at f a n = bytes_at g a n"
  by (simp add: bytes_at_def)

lemma overwrite_outside: "x < a \<or> a + int (length bs) \<le> x \<Longrightarrow> overwrite f a bs x = f x"
  by (auto simp: overwrite_def)

text \<open>The header on the disk.\<close>

definition disk_header :: "nat \<Rightarrow> loff_t \<Rightarrow> (loff_t \<Rightarrow> byte) \<Rightarrow> swsusp_header" where
  "disk_header k resume_offset f =
     swsusp_header_of (bytes_at f (header_shift k resume_offset) sizeof_swsusp_header)"

definition store_header :: "nat \<Rightarrow> loff_t \<Rightarrow> swsusp_header \<Rightarrow> (loff_t \<Rightarrow> byte) \<Rightarrow> loff_t \<Rightarrow> byte" where
  "store_header k resume_offset sh f = overwrite f (header_shift k resume_offset) (swsusp_header_bytes sh)"

definition in_header :: "nat \<Rightarrow> loff_t \<Rightarrow> loff_t \<Rightarrow> bool" where
  "in_header k resume_offset x \<longleftrightarrow> header_shift k resume_offset \<le> x
     \<and> x < header_shift k resume_offset + int sizeof_swsusp_header"

lemma disk_header_wf [simp]: "header_wf (disk_header k ro f)"
  by (simp add: disk_header_def header_wf_of)

lemma disk_header_store [simp]: "header_wf sh \<Longrightarrow> disk_header k ro (store_header k ro sh f) = sh"
  by (metis bytes_at_overwrite disk_header_def length_header_bytes store_header_def swsusp_header_roundtrip)

lemma store_header_outside:
  "header_wf sh \<Longrightarrow> \<not> in_header k ro x \<Longrightarrow> store_header k ro sh f x = f x"
  by (auto simp: store_header_def in_header_def overwrite_def length_header_bytes)

lemma disk_header_cong:
  "(\<And>x. in_header k ro x \<Longrightarrow> f x = g x) \<Longrightarrow> disk_header k ro f = disk_header k ro g"
  unfolding disk_header_def by (metis bytes_at_cong in_header_def)

lemma sig_bytes: "sw_sig (disk_header k ro f) = bytes_at f (header_shift k ro + 18) 10"
  by (simp add: disk_header_def swsusp_header_of_def sizeof_swsusp_header_def drop_bytes_at)

section \<open>What the functions do to the disk\<close>

lemma mark_swap_cases:
  assumes dev: "disk_device K fd D" and mk: "mark_swap k K ro fd start w = (e, w1)" and rg: "loff_range start"
  shows "e = 0 \<or> e = - EIO \<or> e = - ENODEV"
    and "e = 0 \<Longrightarrow> sw_sig (disk_header k ro (d_byte D w)) \<in> {SWAP_SPACE, SWAPSPACE2}
      \<and> d_byte D w1 = store_header k ro ((disk_header k ro (d_byte D w))
           \<lparr>sw_orig_sig := sw_sig (disk_header k ro (d_byte D w)), sw_sig := SWSUSP_SIG, sw_image := start\<rparr>) (d_byte D w)"
    and "e = - ENODEV \<Longrightarrow> sw_sig (disk_header k ro (d_byte D w)) \<notin> {SWAP_SPACE, SWAPSPACE2}
      \<and> d_byte D w1 = d_byte D w"
proof -
  let ?a = "header_shift k ro" and ?n = sizeof_swsusp_header
  obtain p u1 where l1: "k_lseek K fd ?a w = (p, u1)" by fastforce
  obtain n bs u2 where r: "k_read K fd ?n u1 = ((n, bs), u2)" by (metis surj_pair)
  let ?h = "swsusp_header_of bs"
  let ?h' = "?h\<lparr>sw_orig_sig := sw_sig ?h, sw_sig := SWSUSP_SIG, sw_image := start\<rparr>"
  obtain p2 u3 where l2: "k_lseek K fd ?a u2 = (p2, u3)" by fastforce
  obtain n2 u4 where wr: "k_write K fd (swsusp_header_bytes ?h') u3 = (n2, u4)" by fastforce
  note run = mk [unfolded mark_swap_def Let_def, simplified l1 r l2 wr prod.case]
  have rd: "?h = disk_header k ro (d_byte D w) \<and> d_byte D u2 = d_byte D w \<and> length bs = ?n"
    if "p = ?a" "\<not> n < int ?n"
    using that disk_deviceD(1) [OF dev, of ?a w u1] l1 disk_deviceD(2) [OF dev r] by (simp add: disk_header_def)
  have w: "d_byte D u4 = store_header k ro ?h' (d_byte D u2)"
    if "p = ?a" "\<not> n < int ?n" "p2 = ?a" "\<not> n2 < int ?n"
  proof -
    have "header_wf ?h" using rd that header_wf_of by blast
    then have "header_wf ?h'" using rg by (simp add: header_wf_def)
    from length_header_bytes [OF this] show ?thesis
      using that disk_deviceD(1) [OF dev, of ?a u2 u3] l2 disk_deviceD(3) [OF dev wr]
      by (simp add: store_header_def)
  qed
  show "e = 0 \<or> e = - EIO \<or> e = - ENODEV"
    using run by (auto split: if_splits)
  show "sw_sig (disk_header k ro (d_byte D w)) \<in> {SWAP_SPACE, SWAPSPACE2}
      \<and> d_byte D w1 = store_header k ro ((disk_header k ro (d_byte D w))
           \<lparr>sw_orig_sig := sw_sig (disk_header k ro (d_byte D w)), sw_sig := SWSUSP_SIG, sw_image := start\<rparr>) (d_byte D w)"
    if "e = 0"
    using run rd w that by (auto split: if_splits)
  show "sw_sig (disk_header k ro (d_byte D w)) \<notin> {SWAP_SPACE, SWAPSPACE2} \<and> d_byte D w1 = d_byte D w"
    if "e = - ENODEV"
    using run rd that by (auto split: if_splits)
qed

lemma reset_signature_cases:
  assumes dev: "disk_device K fd D" and rs: "reset_signature k K ro fd w = Some (e, w1)"
  shows "e = - EIO \<and> (\<exists>p. p \<noteq> header_shift k ro \<and> k_lseek K fd (header_shift k ro) w = (p, w1))
    \<or> e = 0 \<and> sw_sig (disk_header k ro (d_byte D w)) = SWSUSP_SIG
      \<and> d_byte D w1 = store_header k ro ((disk_header k ro (d_byte D w))
           \<lparr>sw_sig := sw_orig_sig (disk_header k ro (d_byte D w))\<rparr>) (d_byte D w)"
proof -
  let ?a = "header_shift k ro" and ?n = sizeof_swsusp_header
  obtain p u1 where l1: "k_lseek K fd ?a w = (p, u1)" by fastforce
  obtain n bs u2 where r: "k_read K fd ?n u1 = ((n, bs), u2)" by (metis surj_pair)
  let ?h = "swsusp_header_of bs"
  let ?h' = "?h\<lparr>sw_sig := sw_orig_sig ?h\<rparr>"
  obtain p2 u3 where l2: "k_lseek K fd ?a u2 = (p2, u3)" by fastforce
  obtain n2 u4 where wr: "k_write K fd (swsusp_header_bytes ?h') u3 = (n2, u4)" by fastforce
  note run = rs [unfolded reset_signature_def Let_def, simplified l1 r l2 wr prod.case]
  show ?thesis
  proof (cases "p = ?a")
    case False
    then show ?thesis using run l1 by auto
  next
    case True
    have ok: "n = int ?n" "SWSUSP_SIG = sw_sig ?h" "p2 = ?a" "n2 = int ?n" "e = 0" "w1 = k_fsync K fd u4"
      using run True by (auto split: if_splits)
    have rd: "?h = disk_header k ro (d_byte D w) \<and> d_byte D u2 = d_byte D w"
      using True ok disk_deviceD(1) [OF dev, of ?a w u1] l1 disk_deviceD(2) [OF dev r] by (simp add: disk_header_def)
    then have "header_wf ?h" by simp
    then have "header_wf ?h'" by (simp add: header_wf_def)
    from length_header_bytes [OF this] have "d_byte D u4 = store_header k ro ?h' (d_byte D u2)"
      using ok disk_deviceD(1) [OF dev, of ?a u2 u3] l2 disk_deviceD(3) [OF dev wr]
      by (simp add: store_header_def)
    then show ?thesis using ok rd disk_deviceD(4) [OF dev] by simp
  qed
qed

lemma open_resume_dev_cases:
  assumes dev: "\<And>fd. 0 \<le> fd \<Longrightarrow> disk_device K fd D"
    and opn: "\<And>w f en w'. op name w = ((f, en), w') \<Longrightarrow> d_byte D w' = d_byte D w \<and> (f < 0 \<longrightarrow> 0 < en)"
    and o: "open_resume_dev k K op ro name sh0 w = (fd, sh, w1)" and fd: "0 \<le> fd"
  shows "sh = disk_header k ro (d_byte D w) \<and> sw_sig sh = SWSUSP_SIG \<and> d_byte D w1 = d_byte D w"
proof -
  let ?a = "header_shift k ro" and ?n = sizeof_swsusp_header
  obtain f en u0 where op: "op name w = ((f, en), u0)" by (metis surj_pair)
  obtain p u1 where l1: "k_lseek K f ?a u0 = (p, u1)" by fastforce
  obtain n bs u2 where r: "k_read K f ?n u1 = ((n, bs), u2)" by (metis surj_pair)
  note run = o [unfolded open_resume_dev_def Let_def, simplified op l1 r prod.case]
  show ?thesis
  proof (cases "0 \<le> f \<and> p = ?a \<and> n = int ?n \<and> SWSUSP_SIG = sw_sig (swsusp_header_of bs)")
    case True
    then show ?thesis
      using run opn [OF op] disk_deviceD(1) [OF dev, of f ?a u0 u1] l1 disk_deviceD(2) [OF dev r]
      by (auto simp: disk_header_def)
  next
    case False
    then show ?thesis using run fd opn [OF op] by (auto split: if_splits)
  qed
qed

lemma resume_reset_signature_cases:
  assumes dev: "disk_device K fd D" and wf: "header_wf sh"
    and rs: "resume_reset_signature k K ro fd sh w = (0, sh', w1)"
  shows "d_byte D w1 = store_header k ro (sh\<lparr>sw_sig := sw_orig_sig sh\<rparr>) (d_byte D w)"
proof -
  let ?a = "header_shift k ro" and ?h = "sh\<lparr>sw_sig := sw_orig_sig sh\<rparr>"
  obtain p u1 where l1: "k_lseek K fd ?a w = (p, u1)" by fastforce
  obtain n u2 where wr: "k_write K fd (swsusp_header_bytes ?h) u1 = (n, u2)" by fastforce
  note run = rs [unfolded resume_reset_signature_def Let_def, simplified l1 wr prod.case]
  have "header_wf ?h" using wf by (simp add: header_wf_def)
  then show ?thesis
    using run disk_deviceD(1) [OF dev, of ?a w u1] l1 disk_deviceD(3) [OF dev wr] disk_deviceD(4) [OF dev]
    by (auto simp: store_header_def length_header_bytes split: if_splits)
qed

section \<open>Properties\<close>

text \<open>A disk for the witnesses: a swap area of one page of 32 bytes, the first four bytes in front
  of the header, whose world is the bytes and the position.\<close>

record byte_world =
  bw_bytes :: "loff_t \<Rightarrow> byte"
  bw_pos :: loff_t

definition byte_kernel :: "byte_world kernel" where
  "byte_kernel =
     \<lparr>k_ioctl = (\<lambda>fd req w. (\<lparr>ret = - 1, errno = EINVAL, out = 0\<rparr>, w)),
      k_lseek = (\<lambda>fd off w. (off, w\<lparr>bw_pos := off\<rparr>)),
      k_read = (\<lambda>fd n w. ((int n, bytes_at (bw_bytes w) (bw_pos w) n), w\<lparr>bw_pos := bw_pos w + int n\<rparr>)),
      k_write = (\<lambda>fd bs w. (int (length bs),
        w\<lparr>bw_bytes := overwrite (bw_bytes w) (bw_pos w) bs, bw_pos := bw_pos w + int (length bs)\<rparr>)),
      k_fsync = (\<lambda>fd w. w), k_close = (\<lambda>fd w. w), k_sync_file_range = (\<lambda>fd w. w),
      k_reboot = (\<lambda>cmd w. w)\<rparr>"

definition byte_disk :: "byte_world disk" where
  "byte_disk = \<lparr>d_byte = bw_bytes, d_pos = bw_pos\<rparr>"

definition swap_area :: "loff_t \<Rightarrow> byte" where
  "swap_area x = (if 22 \<le> x \<and> x < 32 then SWAPSPACE2 ! nat (x - 22) else 0)"

definition swap_world :: byte_world where
  "swap_world = \<lparr>bw_bytes = swap_area, bw_pos = 0\<rparr>"

lemma byte_disk_device: "disk_device byte_kernel fd byte_disk"
  by (auto simp: disk_device_def byte_kernel_def byte_disk_def)

lemma swap_world_marked:
  obtains w1 where "mark_swap 5 byte_kernel 0 4 96 swap_world = (0, w1)"
    and "sw_sig (disk_header 5 0 (bw_bytes w1)) = SWSUSP_SIG"
proof -
  let ?r = "mark_swap 5 byte_kernel 0 4 96 swap_world"
  have "fst ?r = 0" by code_simp
  then obtain w1 where 1: "?r = (0, w1)" by (cases ?r) auto
  let ?h = "disk_header 5 0 (d_byte byte_disk swap_world)"
  have wf: "header_wf (?h\<lparr>sw_orig_sig := sw_sig ?h, sw_sig := SWSUSP_SIG, sw_image := 96\<rparr>)"
    using disk_header_wf [of 5 0 "d_byte byte_disk swap_world"] by (simp add: header_wf_def loff_range_def)
  have "bw_bytes w1 = store_header 5 0 (?h\<lparr>sw_orig_sig := sw_sig ?h, sw_sig := SWSUSP_SIG, sw_image := 96\<rparr>)
      (d_byte byte_disk swap_world)"
    using mark_swap_cases(2) [OF byte_disk_device 1 _ refl] by (simp add: loff_range_def byte_disk_def)
  then show ?thesis using that 1 wf by simp
qed

lemma header_wf_reset: "header_wf ((disk_header k ro f)\<lparr>sw_sig := sw_orig_sig (disk_header k ro f)\<rparr>)"
  using disk_header_wf [of k ro f] by (simp add: header_wf_def)

text \<open>
  C10: After a successful \<open>mark_swap\<close>, and whatever happens to the rest of the device,
  \<open>reset_signature\<close> puts the signature back that the swap area had before, and changes nothing
  outside the 28 bytes of the header.
\<close>

theorem mark_then_reset:
  assumes "disk_device K fd D" and "loff_range start" and "mark_swap k K ro fd start w = (0, w1)"
    and "\<forall>x. in_header k ro x \<longrightarrow> d_byte D w2 x = d_byte D w1 x"
    and "reset_signature k K ro fd w2 = Some (0, w3)"
  shows "bytes_at (d_byte D w3) (header_shift k ro + 18) 10 = bytes_at (d_byte D w) (header_shift k ro + 18) 10
    \<and> (\<forall>x. \<not> in_header k ro x \<longrightarrow> d_byte D w3 x = d_byte D w2 x)"
proof -
  let ?h = "disk_header k ro (d_byte D w)"
  let ?h1 = "?h\<lparr>sw_orig_sig := sw_sig ?h, sw_sig := SWSUSP_SIG, sw_image := start\<rparr>"
  have wf: "header_wf ?h1" "header_wf (?h1\<lparr>sw_sig := sw_orig_sig ?h1\<rparr>)"
    using disk_header_wf [of k ro "d_byte D w"] assms(2) by (simp_all add: header_wf_def)
  have "d_byte D w1 = store_header k ro ?h1 (d_byte D w)"
    using mark_swap_cases(2) [OF assms(1,3,2)] by simp
  then have h2: "disk_header k ro (d_byte D w2) = ?h1"
    using assms(4) disk_header_cong [of k ro "d_byte D w2" "d_byte D w1"] wf by simp
  have w3: "d_byte D w3 = store_header k ro (?h1\<lparr>sw_sig := sw_orig_sig ?h1\<rparr>) (d_byte D w2)"
    using reset_signature_cases [OF assms(1,5)] h2 by auto
  show ?thesis
    unfolding w3 using wf(2) by (simp add: sig_bytes [symmetric] store_header_outside)
qed

lemma mark_then_reset_witness:
  "\<exists>w1 w3. mark_swap 5 byte_kernel 0 4 96 swap_world = (0, w1)
    \<and> reset_signature 5 byte_kernel 0 4 w1 = Some (0, w3)
    \<and> (bytes_at (d_byte byte_disk w3) (header_shift 5 0 + 18) 10
         = bytes_at (d_byte byte_disk swap_world) (header_shift 5 0 + 18) 10
       \<and> (\<forall>x. \<not> in_header 5 0 x \<longrightarrow> d_byte byte_disk w3 x = d_byte byte_disk w1 x))"
proof -
  obtain w1 where 1: "mark_swap 5 byte_kernel 0 4 96 swap_world = (0, w1)"
    and m: "sw_sig (disk_header 5 0 (bw_bytes w1)) = SWSUSP_SIG" by (rule swap_world_marked)
  obtain w3 where 3: "reset_signature 5 byte_kernel 0 4 w1 = Some (0, w3)"
    using m header_wf_reset [of 5 0 "bw_bytes w1"]
    by (simp add: reset_signature_def byte_kernel_def disk_header_def Let_def length_header_bytes)
  show ?thesis
    using 1 3 mark_then_reset [OF byte_disk_device _ 1 _ 3] by (auto simp: loff_range_def)
qed

text \<open>
  C11: The resume tool finds what the suspend tool has left. After a successful \<open>mark_swap\<close>,
  \<open>open_resume_dev\<close>, if it returns a descriptor, returns the offset of the image header that was
  marked, and a successful \<open>reset_signature\<close> of \<open>resume.c\<close> puts the old signature back.
\<close>

theorem resume_finds_marked_image:
  assumes "\<forall>fd\<ge>0. disk_device K fd D" and "0 \<le> fd" and "loff_range start"
    and "\<forall>w f en w'. op name w = ((f, en), w') \<longrightarrow> d_byte D w' = d_byte D w \<and> (f < 0 \<longrightarrow> 0 < en)"
    and "mark_swap k K ro fd start w = (0, w1)"
    and "\<forall>x. in_header k ro x \<longrightarrow> d_byte D w2 x = d_byte D w1 x"
    and "open_resume_dev k K op ro name sh0 w2 = (fd2, sh, w3)" and "0 \<le> fd2"
  shows "sw_image sh = start \<and>
    (\<forall>w4 sh' w5. resume_reset_signature k K ro fd2 sh w4 = (0, sh', w5) \<longrightarrow>
       bytes_at (d_byte D w5) (header_shift k ro + 18) 10 = bytes_at (d_byte D w) (header_shift k ro + 18) 10
       \<and> (\<forall>x. \<not> in_header k ro x \<longrightarrow> d_byte D w5 x = d_byte D w4 x))"
proof -
  let ?h = "disk_header k ro (d_byte D w)"
  let ?h1 = "?h\<lparr>sw_orig_sig := sw_sig ?h, sw_sig := SWSUSP_SIG, sw_image := start\<rparr>"
  let ?h2 = "?h1\<lparr>sw_sig := sw_orig_sig ?h1\<rparr>"
  have wf: "header_wf ?h1" "header_wf ?h2"
    using disk_header_wf [of k ro "d_byte D w"] assms(3) by (simp_all add: header_wf_def)
  have dev: "\<And>fd. 0 \<le> fd \<Longrightarrow> disk_device K fd D" using assms(1) by blast
  have "d_byte D w1 = store_header k ro ?h1 (d_byte D w)"
    using mark_swap_cases(2) [OF dev [OF assms(2)] assms(5,3)] by simp
  then have h2: "disk_header k ro (d_byte D w2) = ?h1"
    using assms(6) disk_header_cong [of k ro "d_byte D w2" "d_byte D w1"] wf by simp
  have sh: "sh = ?h1"
    using open_resume_dev_cases [OF dev _ assms(7,8)] assms(4) h2 by blast
  have "bytes_at (d_byte D w5) (header_shift k ro + 18) 10 = bytes_at (d_byte D w) (header_shift k ro + 18) 10
       \<and> (\<forall>x. \<not> in_header k ro x \<longrightarrow> d_byte D w5 x = d_byte D w4 x)"
    if r: "resume_reset_signature k K ro fd2 sh w4 = (0, sh', w5)" for w4 sh' w5
    using resume_reset_signature_cases [OF dev [OF assms(8)] _ r] wf sh
    by (simp add: sig_bytes [symmetric] store_header_outside)
  with sh show ?thesis by simp
qed

lemma resume_finds_marked_image_witness:
  "\<exists>w1 sh w3 sh' w5. mark_swap 5 byte_kernel 0 4 96 swap_world = (0, w1)
    \<and> open_resume_dev 5 byte_kernel (\<lambda>n w. ((4, 0), w)) 0 ''/dev/sda2'' (swsusp_header_of []) w1 = (4, sh, w3)
    \<and> resume_reset_signature 5 byte_kernel 0 4 sh w3 = (0, sh', w5) \<and> sw_image sh = 96
    \<and> bytes_at (bw_bytes w5) (header_shift 5 0 + 18) 10 = bytes_at swap_area (header_shift 5 0 + 18) 10"
proof -
  obtain w1 where 1: "mark_swap 5 byte_kernel 0 4 96 swap_world = (0, w1)"
    and "sw_sig (disk_header 5 0 (bw_bytes w1)) = SWSUSP_SIG" by (rule swap_world_marked)
  let ?sh = "disk_header 5 0 (bw_bytes w1)"
  have "sw_sig ?sh = SWSUSP_SIG" by fact
  then obtain w3 where 2: "open_resume_dev 5 byte_kernel (\<lambda>n w. ((4, 0), w)) 0 ''/dev/sda2'' (swsusp_header_of []) w1
      = (4, ?sh, w3)"
    by (simp add: open_resume_dev_def byte_kernel_def disk_header_def Let_def)
  obtain sh' w5 where 3: "resume_reset_signature 5 byte_kernel 0 4 ?sh w3 = (0, sh', w5)"
    using header_wf_reset [of 5 0 "bw_bytes w1"]
    by (simp add: resume_reset_signature_def byte_kernel_def Let_def length_header_bytes)
  have "sw_image ?sh = 96 \<and>
    (\<forall>w4 sh' w5. resume_reset_signature 5 byte_kernel 0 4 ?sh w4 = (0, sh', w5) \<longrightarrow>
       bytes_at (d_byte byte_disk w5) (header_shift 5 0 + 18) 10
         = bytes_at (d_byte byte_disk swap_world) (header_shift 5 0 + 18) 10
       \<and> (\<forall>x. \<not> in_header 5 0 x \<longrightarrow> d_byte byte_disk w5 x = d_byte byte_disk w4 x))"
    by (rule resume_finds_marked_image [OF _ _ _ _ 1 _ 2])
       (auto simp: byte_disk_device loff_range_def)
  then show ?thesis using 1 2 3 by (auto simp: byte_disk_def swap_world_def)
qed

text \<open>
  Without the signature of the suspend tool on the device (nothing was marked, or
  \<open>mark_swap\<close> refused with \<open>-ENODEV\<close> and left the disk alone) \<open>reset_signature\<close> of
  \<open>suspend.c\<close> does not return: it sleeps forever, unless already the first \<open>lseek\<close> has failed.
\<close>

lemma reset_unmarked_hangs:
  assumes "disk_device K fd D" and "sw_sig (disk_header k ro (d_byte D w)) \<noteq> SWSUSP_SIG"
    and "fst (k_lseek K fd (header_shift k ro) w) = header_shift k ro"
  shows "reset_signature k K ro fd w = None"
proof (cases "reset_signature k K ro fd w")
  case (Some r)
  then show ?thesis using reset_signature_cases [OF assms(1), of k ro w] assms(2,3) by (cases r) auto
qed

lemma reset_unmarked_hangs_witness: "reset_signature 5 byte_kernel 0 4 swap_world = None"
  by (rule reset_unmarked_hangs [OF byte_disk_device]) code_simp+
end
