(* ===== verification/Image_Header.thy ===== *)
theory Image_Header
  imports Key Signature
begin

text \<open>
  The image header (\<open>struct image_header_info\<close> of \<open>swsusp.h\<close>) and how it lies in the page that
  \<open>write_image\<close> writes and \<open>read_or_verify\<close> reads: little-endian, with the padding of a 64-bit ABI.
\<close>

section \<open>The structure\<close>

record image_header_info =
  h_pages :: u64
  h_flags :: u32
  h_map_start :: loff_t
  h_image_data_size :: loff_t
  h_checksum :: "byte list"
  h_salt :: "byte list"
  h_rsa :: RSA_data
  h_key :: "byte list"              \<comment> \<open>the first \<open>size\<close> bytes of \<open>key.data\<close>\<close>
  h_writeout_time :: "byte list"    \<comment> \<open>the bytes of the \<open>double\<close>\<close>
  h_resume_pause :: int

definition IMAGE_CHECKSUM :: u32 where "IMAGE_CHECKSUM = 0x0001"
definition IMAGE_COMPRESSED :: u32 where "IMAGE_COMPRESSED = 0x0002"
definition IMAGE_ENCRYPTED :: u32 where "IMAGE_ENCRYPTED = 0x0004"
definition IMAGE_USE_RSA :: u32 where "IMAGE_USE_RSA = 0x0008"
definition PLATFORM_SUSPEND :: u32 where "PLATFORM_SUSPEND = 0x0010"

definition RSA_DATA_SIZE :: nat where "RSA_DATA_SIZE = 1808"
definition KEY_TEST_SIZE :: nat where "KEY_TEST_SIZE = 8"

section \<open>In memory\<close>

definition rsa_data_bytes :: "RSA_data \<Rightarrow> byte list" where
  "rsa_data_bytes r = concat (rsa_field r) @ concat (map (\<lambda>n. le_bytes 2 (of_nat n :: 16 word)) (rsa_size r))
     @ rsa_key_test r @ rsa_bytes r"

definition rsa_data_of :: "byte list \<Rightarrow> RSA_data" where
  "rsa_data_of bs =
     \<lparr>rsa_field = map (\<lambda>i. take 2 (drop (2 * i) bs)) [0..<RSA_FIELDS],
      rsa_size = map (\<lambda>i. unat (le_word (take 2 (drop (12 + 2 * i) bs)) :: 16 word)) [0..<RSA_FIELDS],
      rsa_key_test = take KEY_TEST_SIZE (drop 24 bs),
      rsa_bytes = take RSA_DATA_SIZE (drop 32 bs)\<rparr>"

definition image_header_bytes :: "image_header_info \<Rightarrow> byte list" where
  "image_header_bytes h =
     le_bytes 8 (h_pages h) @ le_bytes 4 (h_flags h) @ replicate 4 0 @ loff_bytes (h_map_start h)
     @ loff_bytes (h_image_data_size h) @ h_checksum h @ h_salt h @ rsa_data_bytes (h_rsa h)
     @ le_bytes 8 (of_nat (length (h_key h)) :: u64) @ h_key h @ replicate (KEY_DATA_SIZE - length (h_key h)) 0
     @ h_writeout_time h @ le_bytes 4 (word_of_int (h_resume_pause h) :: u32)"

text \<open>The page: cleared before the header is filled in.\<close>

definition header_page :: "nat \<Rightarrow> image_header_info \<Rightarrow> byte list" where
  "header_page k h = image_header_bytes h @ replicate (2 ^ k - length (image_header_bytes h)) 0"

definition image_header_of :: "byte list \<Rightarrow> image_header_info" where
  "image_header_of bs =
     \<lparr>h_pages = le_word (take 8 bs),
      h_flags = le_word (take 4 (drop 8 bs)),
      h_map_start = loff_of (drop 16 bs),
      h_image_data_size = loff_of (drop 24 bs),
      h_checksum = take 16 (drop 32 bs),
      h_salt = take 8 (drop 48 bs),
      h_rsa = rsa_data_of (drop 56 bs),
      h_key = take (unat (le_word (take 8 (drop 1896 bs)) :: u64)) (take KEY_DATA_SIZE (drop 1904 bs)),
      h_writeout_time = take 8 (drop 2416 bs),
      h_resume_pause = sint (le_word (take 4 (drop 2424 bs)) :: u32)\<rparr>"

section \<open>Round trip\<close>

definition rsa_wf :: "RSA_data \<Rightarrow> bool" where
  "rsa_wf r \<longleftrightarrow> length (rsa_field r) = RSA_FIELDS \<and> (\<forall>f\<in>set (rsa_field r). length f = 2)
     \<and> length (rsa_size r) = RSA_FIELDS \<and> (\<forall>n\<in>set (rsa_size r). n < 2 ^ 16)
     \<and> length (rsa_key_test r) = KEY_TEST_SIZE \<and> length (rsa_bytes r) = RSA_DATA_SIZE"

definition image_header_wf :: "image_header_info \<Rightarrow> bool" where
  "image_header_wf h \<longleftrightarrow> loff_range (h_map_start h) \<and> loff_range (h_image_data_size h)
     \<and> length (h_checksum h) = 16 \<and> length (h_salt h) = 8 \<and> rsa_wf (h_rsa h)
     \<and> length (h_key h) \<le> KEY_DATA_SIZE \<and> length (h_writeout_time h) = 8
     \<and> - (2 ^ 31) \<le> h_resume_pause h \<and> h_resume_pause h < 2 ^ 31"

lemma nth_chunk:
  assumes "\<forall>c\<in>set cs. length c = n" and "i < length cs"
  shows "take n (drop (n * i) (concat cs @ r)) = cs ! i"
  using assms
proof (induction cs arbitrary: i)
  case (Cons c cs)
  show ?case
  proof (cases i)
    case (Suc j)
    have "drop (n * i) (concat (c # cs) @ r) = drop (n * j) (concat cs @ r)"
      using Cons.prems Suc by simp
    then show ?thesis using Cons Suc by simp
  qed (use Cons.prems in simp)
qed simp

lemma length_chunks: "\<forall>c\<in>set cs. length c = n \<Longrightarrow> length (concat cs) = n * length cs"
  by (induction cs) auto

lemma length_rsa_data_bytes: "rsa_wf r \<Longrightarrow> length (rsa_data_bytes r) = 1840"
  using length_chunks [of "rsa_field r" 2]
    length_chunks [of "map (\<lambda>n. le_bytes 2 (of_nat n :: 16 word)) (rsa_size r)" 2]
  by (simp add: rsa_wf_def rsa_data_bytes_def RSA_FIELDS_def RSA_DATA_SIZE_def KEY_TEST_SIZE_def)

lemma rsa_data_roundtrip:
  assumes "rsa_wf r"
  shows "rsa_data_of (rsa_data_bytes r @ bs) = r"
proof -
  let ?s = "map (\<lambda>n. le_bytes 2 (of_nat n :: 16 word)) (rsa_size r)"
  let ?b = "rsa_data_bytes r @ bs"
  have wf: "length (rsa_field r) = 6" "\<forall>f\<in>set (rsa_field r). length f = 2" "length (rsa_size r) = 6"
    "\<forall>n\<in>set (rsa_size r). n < 2 ^ 16" "length (rsa_key_test r) = 8" "length (rsa_bytes r) = 1808"
    using assms by (simp_all add: rsa_wf_def RSA_FIELDS_def RSA_DATA_SIZE_def KEY_TEST_SIZE_def)
  have lf: "length (concat (rsa_field r)) = 12" using length_chunks [OF wf(2)] wf(1) by simp
  have ls: "length (concat ?s) = 12" using length_chunks [of ?s 2] wf(3) by simp
  have b: "?b = concat (rsa_field r) @ concat ?s @ rsa_key_test r @ rsa_bytes r @ bs"
    by (simp add: rsa_data_bytes_def)
  have d12: "drop (12 + m) ?b = drop m (concat ?s @ rsa_key_test r @ rsa_bytes r @ bs)" for m
    by (simp add: b lf)
  have "map (\<lambda>i. take 2 (drop (2 * i) ?b)) [0..<6] = rsa_field r"
  proof (rule nth_equalityI)
    fix i assume "i < length (map (\<lambda>i. take 2 (drop (2 * i) ?b)) [0..<6])"
    then have "i < length (rsa_field r)" using wf(1) by simp
    then have "take 2 (drop (2 * i) ?b) = rsa_field r ! i"
      unfolding b by (rule nth_chunk [OF wf(2)])
    then show "map (\<lambda>i. take 2 (drop (2 * i) ?b)) [0..<6] ! i = rsa_field r ! i"
      using \<open>i < length (rsa_field r)\<close> wf(1) by (simp del: take_append drop_append)
  qed (simp add: wf(1))
  moreover have "map (\<lambda>i. unat (le_word (take 2 (drop (12 + 2 * i) ?b)) :: 16 word)) [0..<6] = rsa_size r"
  proof (rule nth_equalityI)
    fix i assume "i < length (map (\<lambda>i. unat (le_word (take 2 (drop (12 + 2 * i) ?b)) :: 16 word)) [0..<6])"
    then have i: "i < 6" by simp
    then have "rsa_size r ! i < 2 ^ 16" using wf(3,4) by simp
    moreover have "take 2 (drop (12 + 2 * i) ?b) = le_bytes 2 (of_nat (rsa_size r ! i) :: 16 word)"
      unfolding d12 by (subst nth_chunk [of ?s 2]) (use wf(3) i in auto)
    ultimately show "map (\<lambda>i. unat (le_word (take 2 (drop (12 + 2 * i) ?b)) :: 16 word)) [0..<6] ! i = rsa_size r ! i"
      using i by (simp add: le_word_le_bytes_full unsigned_of_nat take_bit_nat_eq_self del: take_append drop_append)
  qed (simp add: wf(3))
  moreover have "take 8 (drop 24 ?b) = rsa_key_test r"
    using d12 [of 12] ls wf(5) by simp
  moreover have "take 1808 (drop 32 ?b) = rsa_bytes r"
    using d12 [of 20] ls wf(5,6) by simp
  ultimately show ?thesis
    by (simp add: rsa_data_of_def RSA_FIELDS_def RSA_DATA_SIZE_def KEY_TEST_SIZE_def)
qed

lemma length_image_header_bytes: "image_header_wf h \<Longrightarrow> length (image_header_bytes h) = 2428"
  by (simp add: image_header_wf_def image_header_bytes_def length_rsa_data_bytes KEY_DATA_SIZE_def)

lemma length_header_page: "image_header_wf h \<Longrightarrow> 12 \<le> k \<Longrightarrow> length (header_page k h) = 2 ^ k"
proof -
  assume "image_header_wf h" "12 \<le> k"
  moreover from this have "2 ^ 12 \<le> (2::nat) ^ k" by (intro power_increasing) auto
  ultimately show ?thesis by (simp add: header_page_def length_image_header_bytes)
qed

lemma image_header_roundtrip_bytes:
  assumes "image_header_wf h"
  shows "image_header_of (image_header_bytes h @ r) = h"
proof -
  have wf: "loff_range (h_map_start h)" "loff_range (h_image_data_size h)" "length (h_checksum h) = 16"
    "length (h_salt h) = 8" "rsa_wf (h_rsa h)" "length (h_key h) \<le> 512" "length (h_writeout_time h) = 8"
    "- (2 ^ 31) \<le> h_resume_pause h" "h_resume_pause h < 2 ^ 31"
    using assms by (simp_all add: image_header_wf_def KEY_DATA_SIZE_def)
  let ?key = "le_bytes 8 (of_nat (length (h_key h)) :: u64) @ h_key h @ replicate (512 - length (h_key h)) 0
     @ h_writeout_time h @ le_bytes 4 (word_of_int (h_resume_pause h) :: u32) @ r"
  let ?b = "image_header_bytes h @ r"
  have b: "?b = le_bytes 8 (h_pages h) @ le_bytes 4 (h_flags h) @ replicate 4 0 @ loff_bytes (h_map_start h)
     @ loff_bytes (h_image_data_size h) @ h_checksum h @ h_salt h @ rsa_data_bytes (h_rsa h) @ ?key"
    by (simp add: image_header_bytes_def KEY_DATA_SIZE_def)
  note l = length_rsa_data_bytes [OF wf(5)]
  have d56: "drop 56 ?b = rsa_data_bytes (h_rsa h) @ ?key" by (simp add: b wf)
  have "drop 1896 ?b = drop 1840 (drop 56 ?b)" by (simp only: drop_drop) simp
  then have d1896: "drop 1896 ?b = ?key" unfolding d56 using l by simp
  have rest: "drop 1904 ?b = drop 8 ?key" "drop 2416 ?b = drop 520 ?key" "drop 2424 ?b = drop 528 ?key"
    unfolding d1896 [symmetric] by (simp_all only: drop_drop) simp_all
  have "unat (of_nat (length (h_key h)) :: u64) = length (h_key h)"
    using wf(6) by (simp add: unsigned_of_nat take_bit_nat_eq_self)
  moreover have "sint (word_of_int (h_resume_pause h) :: u32) = h_resume_pause h"
    using wf(8,9) by (simp add: signed_of_int signed_take_bit_int_eq_self)
  ultimately show ?thesis
    unfolding image_header_of_def rest d1896 d56 KEY_DATA_SIZE_def rsa_data_roundtrip [OF wf(5)]
    using wf by (simp add: b le_word_le_bytes_full loff_of_bytes)
qed

lemma image_header_of_page: "image_header_wf h \<Longrightarrow> image_header_of (header_page k h) = h"
  by (simp add: header_page_def image_header_roundtrip_bytes)

definition zero_rsa :: RSA_data where
  "zero_rsa = \<lparr>rsa_field = replicate RSA_FIELDS [0, 0], rsa_size = replicate RSA_FIELDS 0,
     rsa_key_test = replicate KEY_TEST_SIZE 0, rsa_bytes = replicate RSA_DATA_SIZE 0\<rparr>"

text \<open>\<open>memset(header, 0, page_size)\<close>.\<close>

definition zero_header :: image_header_info where
  "zero_header = \<lparr>h_pages = 0, h_flags = 0, h_map_start = 0, h_image_data_size = 0,
     h_checksum = replicate 16 0, h_salt = replicate 8 0, h_rsa = zero_rsa, h_key = [],
     h_writeout_time = replicate 8 0, h_resume_pause = 0\<rparr>"

lemma zero_header_wf: "image_header_wf zero_header"
  by (simp add: zero_header_def image_header_wf_def loff_range_def rsa_wf_def zero_rsa_def RSA_FIELDS_def)



end
