(* ===== verification/Swap_Alloc.thy ===== *)
theory Swap_Alloc
  imports Kernel
begin

text \<open>
  Swap allocation of \<open>suspend.c\<close>: \<open>alloc_swap\<close> asks the kernel for swap pages one at a
  time and keeps them in an array of extents, found by binary search, grown, merged or
  inserted in place. The array is one page long: \<open>page_size / sizeof(struct extent)\<close>
  entries, the last of which is kept for the first extent of the next batch.

  The page size is \<open>2 ^ k\<close> for a parameter \<open>k\<close>. Offsets (\<open>loff_t\<close>) are unbounded
  integers here; the byte image of an extent keeps them at 64 bits.
\<close>

section \<open>The extents array\<close>

record extent =
  ext_start :: loff_t
  ext_end :: loff_t

abbreviation zero_extent :: extent where
  "zero_extent \<equiv> \<lparr>ext_start = 0, ext_end = 0\<rparr>"

abbreviation psz :: "nat \<Rightarrow> int" where
  "psz k \<equiv> 2 ^ k"

text \<open>\<open>page_size / sizeof(struct extent) - 1\<close>, with \<open>sizeof(struct extent) = 16\<close>.\<close>

definition max_extents :: "nat \<Rightarrow> nat" where
  "max_extents k = 2 ^ k div 16 - 1"

section \<open>Search\<close>

text \<open>How the \<open>do ... while\<close> loop with its \<open>Repeat\<close> label ends: \<open>break\<close> at a matching
  extent that the page extends at its start or at its end, or no match, with the final \<open>i\<close>.\<close>

datatype search = Grow_down nat | Grow_up nat | No_match nat

definition extent_match :: "nat \<Rightarrow> extent list \<Rightarrow> loff_t \<Rightarrow> nat \<Rightarrow> search option" where
  "extent_match k exts offset m =
     (if offset = ext_start (exts ! m) - psz k then Some (Grow_down m)
      else if offset = ext_end (exts ! m) then Some (Grow_up m)
      else None)"

text \<open>
  \<open>goto Repeat\<close> is taken with \<open>k = i = j\<close>: the body runs once more, at \<open>j\<close>, and
  whatever it finds the loop ends with \<open>i = j\<close>.
\<close>

function extent_search :: "nat \<Rightarrow> extent list \<Rightarrow> loff_t \<Rightarrow> nat \<Rightarrow> nat \<Rightarrow> search" where
  "extent_search k exts offset i j =
     (let m = (i + j) div 2
      in case extent_match k exts offset m of
           Some r \<Rightarrow> r
         | None \<Rightarrow>
             if offset > ext_end (exts ! m) then
               if i = m then
                 if i < j then
                   (case extent_match k exts offset j of Some r \<Rightarrow> r | None \<Rightarrow> No_match j)
                 else No_match i
               else if m < j then extent_search k exts offset m j else No_match m
             else if i < m then extent_search k exts offset i m else No_match i)"
  by pat_completeness auto
termination
  by (relation "measure (\<lambda>(k, e, off, i, j). j - i)") auto

declare extent_search.simps [simp del]

section \<open>Placing a page\<close>

text \<open>The three outcomes of the search, on the array and the number of extents in use.\<close>

definition grow_down :: "extent list \<Rightarrow> nat \<Rightarrow> nat \<Rightarrow> loff_t \<Rightarrow> extent list \<times> nat" where
  "grow_down exts nr m offset =
     (let exts = exts[m := (exts ! m)\<lparr>ext_start := offset\<rparr>]
      in if 0 < m \<and> ext_end (exts ! (m - 1)) = offset
         then (array_move (exts[m - 1 := (exts ! (m - 1))\<lparr>ext_end := ext_end (exts ! m)\<rparr>])
                 m (m + 1) (nr - m - 1), nr - 1)
         else (exts, nr))"

definition grow_up :: "nat \<Rightarrow> extent list \<Rightarrow> nat \<Rightarrow> nat \<Rightarrow> extent list \<times> nat" where
  "grow_up k exts nr m =
     (let exts = exts[m := (exts ! m)\<lparr>ext_end := ext_end (exts ! m) + psz k\<rparr>]
      in if m + 1 < nr \<and> ext_end (exts ! m) = ext_start (exts ! (m + 1))
         then (array_move (exts[m := (exts ! m)\<lparr>ext_end := ext_end (exts ! (m + 1))\<rparr>])
                 (m + 1) (m + 2) (nr - m - 2), nr - 1)
         else (exts, nr))"

definition new_extent :: "nat \<Rightarrow> extent list \<Rightarrow> nat \<Rightarrow> nat \<Rightarrow> loff_t \<Rightarrow> extent list \<times> nat" where
  "new_extent k exts nr i offset =
     (let new = \<lparr>ext_start = offset, ext_end = offset + psz k\<rparr>
      in if nr < max_extents k then
           (let i = (if offset > ext_end (exts ! i) then i + 1 else i)
            in ((array_move exts (i + 1) i (nr - i))[i := new], nr + 1))
         else (exts[nr := new], nr + 1))"

definition place_page :: "nat \<Rightarrow> extent list \<Rightarrow> nat \<Rightarrow> loff_t \<Rightarrow> extent list \<times> nat" where
  "place_page k exts nr offset =
     (case extent_search k exts offset 0 (nr - 1) of
        Grow_down m \<Rightarrow> grow_down exts nr m offset
      | Grow_up m \<Rightarrow> grow_up k exts nr m
      | No_match i \<Rightarrow> if 0 < offset then new_extent k exts nr i offset else (exts, nr))"

section \<open>alloc_swap\<close>

text \<open>
  The result is the return value (the number of extents or \<open>-ENOSPC\<close>), the array, the value
  left in \<open>*size_p\<close> and the world. \<open>get\<close> is \<open>get_swap_page(dev)\<close>.
\<close>

function alloc_swap_loop ::
  "nat \<Rightarrow> ('w \<Rightarrow> loff_t \<times> 'w) \<Rightarrow> loff_t \<Rightarrow> extent list \<Rightarrow> nat \<Rightarrow> loff_t \<Rightarrow> 'w \<Rightarrow>
   int \<times> extent list \<times> loff_t \<times> 'w" where
  "alloc_swap_loop k get total_size exts nr sz w =
     (if sz < total_size \<and> nr \<le> max_extents k then
        (let (offset, w) = get w
         in if offset = 0 then (- ENOSPC, exts, total_size, w)
            else let (exts, nr) = place_page k exts nr offset
                 in alloc_swap_loop k get total_size exts nr (sz + psz k) w)
      else (int nr, exts, sz, w))"
  by pat_completeness auto
termination
  by (relation "measure (\<lambda>(k, get, total, exts, nr, sz, w). nat (total - sz))") auto

declare alloc_swap_loop.simps [simp del]

definition alloc_swap ::
  "nat \<Rightarrow> 'w kernel \<Rightarrow> fd \<Rightarrow> extent list \<Rightarrow> nat \<Rightarrow> loff_t \<Rightarrow> 'w \<Rightarrow>
   int \<times> extent list \<times> loff_t \<times> 'w" where
  "alloc_swap k K dev exts nr total_size w =
     (if nr = 0 then
        (let (offset, w) = get_swap_page K dev w
         in if offset = 0 then (- ENOSPC, exts, total_size, w)
            else alloc_swap_loop k (get_swap_page K dev) total_size
                   (exts[0 := \<lparr>ext_start = offset, ext_end = offset + psz k\<rparr>]) 1 (psz k) w)
      else alloc_swap_loop k (get_swap_page K dev) total_size exts nr 0 w)"

section \<open>Correctness\<close>

text \<open>
  An extent stands for the set of its page offsets. \<open>exts_ok\<close> is the shape \<open>alloc_swap\<close>
  maintains: sorted, with a gap of at least one page between neighbours.
\<close>

definition seg :: "nat \<Rightarrow> loff_t \<Rightarrow> loff_t \<Rightarrow> loff_t set" where
  "seg k a b = {p. a \<le> p \<and> p < b \<and> psz k dvd p}"

definition ext_pages :: "nat \<Rightarrow> extent \<Rightarrow> loff_t set" where
  "ext_pages k e = seg k (ext_start e) (ext_end e)"

definition pages :: "nat \<Rightarrow> extent list \<Rightarrow> loff_t set" where
  "pages k es = (\<Union>e\<in>set es. ext_pages k e)"

definition ext_ok :: "nat \<Rightarrow> extent \<Rightarrow> bool" where
  "ext_ok k e \<longleftrightarrow> 0 < ext_start e \<and> ext_start e < ext_end e
     \<and> psz k dvd ext_start e \<and> psz k dvd ext_end e"

definition exts_ok :: "nat \<Rightarrow> extent list \<Rightarrow> bool" where
  "exts_ok k es \<longleftrightarrow> (\<forall>e\<in>set es. ext_ok k e) \<and> sorted_wrt (\<lambda>a b. ext_end a < ext_start b) es"

definition fresh_page :: "nat \<Rightarrow> loff_t \<Rightarrow> extent list \<Rightarrow> bool" where
  "fresh_page k p es \<longleftrightarrow> 0 < p \<and> psz k dvd p \<and> p \<notin> pages k es"

lemma aligned_less: "psz k dvd a \<Longrightarrow> psz k dvd b \<Longrightarrow> a < b \<Longrightarrow> a + psz k \<le> b"
proof -
  assume "psz k dvd a" "psz k dvd b" "a < b"
  then have "psz k dvd b - a" "0 < b - a" by simp_all
  then show ?thesis using zdvd_imp_le [of "psz k" "b - a"] by simp
qed

lemma seg_join: "a \<le> b \<Longrightarrow> b \<le> c \<Longrightarrow> seg k a c = seg k a b \<union> seg k b c"
  by (auto simp: seg_def)

lemma seg_single:
  assumes "psz k dvd a" shows "seg k a (a + psz k) = {a}"
proof -
  have "p = a" if "a \<le> p" "p < a + psz k" "psz k dvd p" for p
    using aligned_less [OF assms that(3)] that by force
  then show ?thesis using assms by (auto simp: seg_def)
qed

lemma seg_insert:
  assumes "a \<le> p" and "psz k dvd p" and "p + psz k \<le> c"
  shows "seg k a c = insert p (seg k a p \<union> seg k (p + psz k) c)"
proof -
  have "(0::int) < psz k" by simp
  with assms(1,3) have "p \<le> c" "p \<le> p + psz k" by linarith+
  have "seg k a c = seg k a p \<union> seg k p c" by (rule seg_join) (fact assms(1) \<open>p \<le> c\<close>)+
  also have "seg k p c = seg k p (p + psz k) \<union> seg k (p + psz k) c"
    by (rule seg_join) (fact assms(3) \<open>p \<le> p + psz k\<close>)+
  also have "seg k p (p + psz k) = {p}" by (rule seg_single [OF assms(2)])
  finally show ?thesis by blast
qed

lemma seg_empty [simp]: "b \<le> a \<Longrightarrow> seg k a b = {}"
  by (auto simp: seg_def)

lemma pages_append [simp]: "pages k (xs @ ys) = pages k xs \<union> pages k ys"
  by (auto simp: pages_def)

lemma pages_Cons [simp]: "pages k (e # es) = ext_pages k e \<union> pages k es"
  by (auto simp: pages_def)

lemma pages_Nil [simp]: "pages k [] = {}"
  by (simp add: pages_def)

lemma exts_ok_append:
  "exts_ok k (xs @ ys) \<longleftrightarrow> exts_ok k xs \<and> exts_ok k ys \<and>
     (\<forall>x\<in>set xs. \<forall>y\<in>set ys. ext_end x < ext_start y)"
  by (auto simp: exts_ok_def sorted_wrt_append)

lemma exts_ok_Cons:
  "exts_ok k (e # es) \<longleftrightarrow> ext_ok k e \<and> exts_ok k es \<and> (\<forall>y\<in>set es. ext_end e < ext_start y)"
  by (auto simp: exts_ok_def)

lemma exts_ok_Nil [simp]: "exts_ok k []"
  by (simp add: exts_ok_def)

lemma fresh_page_cases:
  assumes "fresh_page k p es" and "exts_ok k es" and "e \<in> set es"
  shows "p + psz k \<le> ext_start e \<or> ext_end e \<le> p"
proof (rule ccontr)
  assume *: "\<not> ?thesis"
  have e: "ext_ok k e" using assms by (auto simp: exts_ok_def)
  moreover have "psz k dvd p" using assms by (simp add: fresh_page_def)
  ultimately have "p < ext_start e \<longrightarrow> p + psz k \<le> ext_start e"
    using aligned_less [of k p "ext_start e"] by (simp add: ext_ok_def)
  with * have "ext_start e \<le> p" "p < ext_end e" by linarith+
  then have "p \<in> pages k es"
    using assms e by (auto simp: pages_def ext_pages_def seg_def fresh_page_def)
  then show False using assms(1) by (simp add: fresh_page_def)
qed

subsection \<open>The three outcomes on the list of extents in use\<close>

text \<open>The list in use is \<open>xs @ e # ys\<close>, with \<open>e\<close> the extent the search stopped at.\<close>

definition list_grow_down :: "extent list \<Rightarrow> extent \<Rightarrow> extent list \<Rightarrow> loff_t \<Rightarrow> extent list" where
  "list_grow_down xs e ys p =
     (if xs \<noteq> [] \<and> ext_end (last xs) = p
      then butlast xs @ (last xs)\<lparr>ext_end := ext_end e\<rparr> # ys
      else xs @ e\<lparr>ext_start := p\<rparr> # ys)"

definition list_grow_up :: "nat \<Rightarrow> extent list \<Rightarrow> extent \<Rightarrow> extent list \<Rightarrow> extent list" where
  "list_grow_up k xs e ys =
     (if ys \<noteq> [] \<and> ext_start (hd ys) = ext_end e + psz k
      then xs @ e\<lparr>ext_end := ext_end (hd ys)\<rparr> # tl ys
      else xs @ e\<lparr>ext_end := ext_end e + psz k\<rparr> # ys)"

lemma grow_down_list:
  "grow_down (xs @ e # ys @ zs) (length xs + 1 + length ys) (length xs) p = (exts', nr') \<Longrightarrow>
   take nr' exts' = list_grow_down xs e ys p \<and> length exts' = length (xs @ e # ys @ zs)
   \<and> nr' \<le> length xs + 1 + length ys"
  apply (cases xs rule: rev_cases)
   apply (auto simp: grow_down_def list_grow_down_def array_move_def Let_def nth_append list_update_append split: if_splits)
  done

lemma grow_up_list:
  "grow_up k (xs @ e # ys @ zs) (length xs + 1 + length ys) (length xs) = (exts', nr') \<Longrightarrow>
   take nr' exts' = list_grow_up k xs e ys \<and> length exts' = length (xs @ e # ys @ zs)
   \<and> nr' \<le> length xs + 1 + length ys"
  apply (cases ys)
   apply (auto simp: grow_up_def list_grow_up_def array_move_def Let_def nth_append list_update_append split: if_splits)
  done

lemma list_grow_down_ok:
  assumes ok: "exts_ok k (xs @ e # ys)" and f: "fresh_page k p (xs @ e # ys)"
    and p: "ext_start e = p + psz k"
  shows "exts_ok k (list_grow_down xs e ys p)
    \<and> pages k (list_grow_down xs e ys p) = insert p (pages k (xs @ e # ys))"
proof (cases "xs \<noteq> [] \<and> ext_end (last xs) = p")
  case True
  then obtain xs' d where xs: "xs = xs' @ [d]" and d: "ext_end d = p"
    by (metis append_butlast_last_id)
  have "ext_ok k d" "ext_ok k e" "psz k dvd p" "(0::int) < psz k"
    using ok f by (auto simp: xs exts_ok_def fresh_page_def)
  then have "p + psz k \<le> ext_end e" "ext_start d \<le> p" using p d by (auto simp: ext_ok_def)
  then have "ext_pages k (d\<lparr>ext_end := ext_end e\<rparr>) = insert p (ext_pages k d \<union> ext_pages k e)"
    using seg_insert [OF _ \<open>psz k dvd p\<close>] p d by (simp add: ext_pages_def)
  moreover have "list_grow_down xs e ys p = xs' @ d\<lparr>ext_end := ext_end e\<rparr> # ys"
    using True by (simp add: list_grow_down_def xs)
  moreover have "ext_start d < ext_end e"
    using \<open>ext_ok k d\<close> \<open>ext_ok k e\<close> \<open>(0::int) < psz k\<close> d p unfolding ext_ok_def by linarith
  then have "exts_ok k (xs' @ d\<lparr>ext_end := ext_end e\<rparr> # ys)"
    using ok by (auto simp: xs exts_ok_append exts_ok_Cons ext_ok_def d)
  ultimately show ?thesis by (auto simp: xs)
next
  case False
  have pos: "(0::int) < psz k" by simp
  have e: "ext_ok k e" "psz k dvd p" "0 < p" using ok f by (auto simp: exts_ok_def fresh_page_def)
  have "ext_end x < p" if x: "x \<in> set xs" for x
  proof -
    obtain xs' d where xs: "xs = xs' @ [d]" using x by (cases xs rule: rev_cases) auto
    have "ext_end d < ext_start e" using ok by (simp add: xs exts_ok_append exts_ok_Cons)
    moreover have "psz k dvd ext_end d" using ok by (simp add: xs exts_ok_append exts_ok_Cons ext_ok_def)
    then have "p < ext_end d \<longrightarrow> p + psz k \<le> ext_end d"
      using aligned_less [OF e(2)] by blast
    ultimately have "ext_end d \<le> p" using p by linarith
    then have "ext_end d < p" using False by (simp add: xs)
    moreover have "x = d \<or> ext_end x < ext_end d"
      using ok x by (force simp: xs exts_ok_append exts_ok_Cons ext_ok_def)
    ultimately show ?thesis by auto
  qed
  moreover have "ext_pages k (e\<lparr>ext_start := p\<rparr>) = insert p (ext_pages k e)"
    using seg_insert [OF order_refl e(2), of "ext_end e"] p e(1)
    by (simp add: ext_pages_def ext_ok_def)
  moreover have "list_grow_down xs e ys p = xs @ e\<lparr>ext_start := p\<rparr> # ys"
    using False by (auto simp: list_grow_down_def)
  moreover have "p < ext_end e"
    using e p pos unfolding ext_ok_def by linarith
  ultimately show ?thesis
    using ok e p by (auto simp: exts_ok_append exts_ok_Cons ext_ok_def)
qed

lemma list_grow_up_ok:
  assumes ok: "exts_ok k (xs @ e # ys)" and f: "fresh_page k (ext_end e) (xs @ e # ys)"
  shows "exts_ok k (list_grow_up k xs e ys)
    \<and> pages k (list_grow_up k xs e ys) = insert (ext_end e) (pages k (xs @ e # ys))"
proof (cases "ys \<noteq> [] \<and> ext_start (hd ys) = ext_end e + psz k")
  case True
  then obtain d ys' where ys: "ys = d # ys'" and d: "ext_start d = ext_end e + psz k"
    by (metis list.exhaust_sel)
  have pos: "(0::int) < psz k" by simp
  have "ext_ok k d" "ext_ok k e" using ok f by (auto simp: ys exts_ok_def)
  then have "ext_pages k (e\<lparr>ext_end := ext_end d\<rparr>)
      = insert (ext_end e) (ext_pages k e \<union> ext_pages k d)"
    using seg_insert [of "ext_start e" "ext_end e" k "ext_end d"] d
    by (simp add: ext_pages_def ext_ok_def)
  moreover have "list_grow_up k xs e ys = xs @ e\<lparr>ext_end := ext_end d\<rparr> # ys'"
    using True by (simp add: list_grow_up_def ys)
  moreover have "ext_start e < ext_end d"
    using \<open>ext_ok k d\<close> \<open>ext_ok k e\<close> d pos unfolding ext_ok_def by linarith
  then have "exts_ok k (xs @ e\<lparr>ext_end := ext_end d\<rparr> # ys')"
    using ok by (auto simp: ys exts_ok_append exts_ok_Cons ext_ok_def)
  ultimately show ?thesis by (auto simp: ys)
next
  case False
  have pos: "(0::int) < psz k" by simp
  have e: "ext_ok k e" using ok by (auto simp: exts_ok_def)
  have "ext_end e + psz k < ext_start y" if y: "y \<in> set ys" for y
  proof -
    obtain d ys' where ys: "ys = d # ys'" using y by (cases ys) auto
    have "ext_end e < ext_start d" using ok by (simp add: ys exts_ok_append exts_ok_Cons)
    then have "ext_end e + psz k \<le> ext_start d"
      using ok e aligned_less [of k "ext_end e" "ext_start d"]
      by (auto simp: ys exts_ok_append exts_ok_Cons ext_ok_def)
    then have "ext_end e + psz k < ext_start d" using False by (simp add: ys)
    moreover have "y = d \<or> ext_start d < ext_start y"
      using ok y by (force simp: ys exts_ok_append exts_ok_Cons ext_ok_def)
    ultimately show ?thesis by auto
  qed
  moreover have "ext_pages k (e\<lparr>ext_end := ext_end e + psz k\<rparr>) = insert (ext_end e) (ext_pages k e)"
    using seg_insert [of "ext_start e" "ext_end e" k "ext_end e + psz k"] e
    by (simp add: ext_pages_def ext_ok_def)
  moreover have "list_grow_up k xs e ys = xs @ e\<lparr>ext_end := ext_end e + psz k\<rparr> # ys"
    using False by (auto simp: list_grow_up_def)
  moreover have "ext_start e < ext_end e + psz k"
    using e pos unfolding ext_ok_def by linarith
  ultimately show ?thesis
    using ok e by (auto simp: exts_ok_append exts_ok_Cons ext_ok_def)
qed

definition list_insert :: "nat \<Rightarrow> extent list \<Rightarrow> nat \<Rightarrow> loff_t \<Rightarrow> extent list" where
  "list_insert k es i p = take i es @ \<lparr>ext_start = p, ext_end = p + psz k\<rparr> # drop i es"

definition gap_at :: "nat \<Rightarrow> extent list \<Rightarrow> nat \<Rightarrow> loff_t \<Rightarrow> bool" where
  "gap_at k es i p \<longleftrightarrow> (\<forall>a<i. ext_end (es ! a) < p) \<and>
     (\<forall>a. i \<le> a \<longrightarrow> a < length es \<longrightarrow> p + psz k < ext_start (es ! a))"

lemma exts_ok_nth_less:
  assumes "exts_ok k es" and "a < b" and "b < length es"
  shows "ext_end (es ! a) < ext_start (es ! b)"
  using assms by (auto simp: exts_ok_def sorted_wrt_iff_nth_less)

lemma list_insert_ok:
  assumes ok: "exts_ok k es" and f: "fresh_page k p es" and g: "gap_at k es i p"
    and i: "i \<le> length es"
  shows "exts_ok k (list_insert k es i p) \<and> pages k (list_insert k es i p) = insert p (pages k es)"
proof -
  have split: "exts_ok k (take i es @ drop i es)" using ok by simp
  have "ext_end x < p" if "x \<in> set (take i es)" for x
    using that g by (auto simp: in_set_conv_nth gap_at_def)
  moreover have "p + psz k < ext_start y" if "y \<in> set (drop i es)" for y
    using that g i by (auto simp: in_set_conv_nth gap_at_def)
  moreover have "ext_ok k \<lparr>ext_start = p, ext_end = p + psz k\<rparr>"
    using f by (auto simp: ext_ok_def fresh_page_def)
  ultimately have "exts_ok k (list_insert k es i p)"
    using split unfolding list_insert_def exts_ok_append exts_ok_Cons by auto
  moreover have "pages k es = pages k (take i es) \<union> pages k (drop i es)"
    by (metis append_take_drop_id pages_append)
  moreover have "ext_pages k \<lparr>ext_start = p, ext_end = p + psz k\<rparr> = {p}"
    using f by (simp add: ext_pages_def seg_single fresh_page_def)
  ultimately show ?thesis by (auto simp: list_insert_def)
qed

subsection \<open>The binary search\<close>

text \<open>What each outcome promises about the list and the page searched for.\<close>

fun search_ok :: "nat \<Rightarrow> extent list \<Rightarrow> loff_t \<Rightarrow> search \<Rightarrow> bool" where
  "search_ok k es p (Grow_down m) \<longleftrightarrow> m < length es \<and> ext_start (es ! m) = p + psz k"
| "search_ok k es p (Grow_up m) \<longleftrightarrow> m < length es \<and> ext_end (es ! m) = p"
| "search_ok k es p (No_match i) \<longleftrightarrow> i < length es \<and>
     gap_at k es (if ext_end (es ! i) < p then i + 1 else i) p"

lemma extent_match_ok:
  "extent_match k es p m = Some r \<Longrightarrow> m < length es \<Longrightarrow> search_ok k es p r"
  by (auto simp: extent_match_def split: if_splits)

lemma extent_match_None:
  assumes "extent_match k es p m = None" and "fresh_page k p es" and "exts_ok k es" and "m < length es"
  shows "p + psz k < ext_start (es ! m) \<or> ext_end (es ! m) < p"
  using assms fresh_page_cases [of k p es "es ! m"]
  by (auto simp: extent_match_def split: if_splits)

lemma extent_search_ok:
  assumes "fresh_page k p es" and "exts_ok k es"
  shows "i \<le> j \<Longrightarrow> j < length es \<Longrightarrow> \<forall>a<i. ext_end (es ! a) < p \<Longrightarrow>
    \<forall>a. j < a \<longrightarrow> a < length es \<longrightarrow> p + psz k < ext_start (es ! a) \<Longrightarrow>
    search_ok k es p (extent_search k es p i j)"
proof (induction "j - i" arbitrary: i j rule: less_induct)
  case less
  let ?m = "(i + j) div 2"
  have m: "i \<le> ?m" "?m \<le> j" "?m < length es" using less.prems by auto
  have es_ok: "ext_start (es ! b) < ext_end (es ! b)" if "b < length es" for b
    using that assms(2) by (auto simp: exts_ok_def ext_ok_def)
  have lower: "\<forall>a<b. ext_end (es ! a) < p" if "b < length es" "ext_end (es ! b) < p" for b
  proof (intro allI impI)
    fix a assume "a < b"
    then show "ext_end (es ! a) < p"
      using exts_ok_nth_less [OF assms(2) \<open>a < b\<close> that(1)] es_ok [OF that(1)] that(2) by linarith
  qed
  have upper: "\<forall>a>b. a < length es \<longrightarrow> p + psz k < ext_start (es ! a)"
    if "b < length es" "p + psz k < ext_start (es ! b)" for b
  proof (intro allI impI)
    fix a assume "b < a" "a < length es"
    then show "p + psz k < ext_start (es ! a)"
      using exts_ok_nth_less [OF assms(2), of b a] es_ok [OF that(1)] that(2) by linarith
  qed
  have not_both: "\<not> ext_end (es ! b) < p" if "b < length es" "p + psz k < ext_start (es ! b)" for b
  proof -
    have "(0::int) < psz k" by simp
    then show ?thesis using that(2) es_ok [OF that(1)] by linarith
  qed
  show ?case
  proof (cases "extent_match k es p ?m")
    case (Some r)
    then show ?thesis using m(3)
      by (subst extent_search.simps) (auto simp: Let_def intro: extent_match_ok)
  next
    case None
    note this_m = extent_match_None [OF None assms m(3)]
    show ?thesis
    proof (cases "ext_end (es ! ?m) < p")
      case above: True
      show ?thesis
      proof (cases "i = ?m")
        case True
        show ?thesis
        proof (cases "i < j")
          case True
          then have j: "j = i + 1" using \<open>i = ?m\<close> by auto
          show ?thesis
          proof (cases "extent_match k es p j")
            case (Some r)
            then show ?thesis
              using None above \<open>i = ?m\<close> True less.prems(2)
              by (subst extent_search.simps) (auto simp: Let_def intro: extent_match_ok)
          next
            case no_j: None
            have "search_ok k es p (No_match j)"
              using extent_match_None [OF no_j assms less.prems(2)] lower [of j] upper [of j]
                lower [OF m(3) above] above less.prems j \<open>i = ?m\<close> not_both [of j]
              by (auto simp: gap_at_def less_Suc_eq le_less)
            then show ?thesis
              using None above \<open>i = ?m\<close> True no_j
              by (subst extent_search.simps) (auto simp: Let_def)
          qed
        next
          case False
          then have "i = j" using less.prems by simp
          then show ?thesis
            using None above less.prems lower [of j]
            by (subst extent_search.simps) (auto simp: Let_def gap_at_def less_Suc_eq)
        qed
      next
        case False
        then have "?m < j" "j - ?m < j - i" using m by auto
        then have "search_ok k es p (extent_search k es p ?m j)"
          using less.hyps [of j ?m] less.prems lower [OF m(3) above] by auto
        then show ?thesis
          using None above False \<open>?m < j\<close> by (subst extent_search.simps) (simp add: Let_def)
      qed
    next
      case below: False
      then have start: "p + psz k < ext_start (es ! ?m)" using this_m by blast
      show ?thesis
      proof (cases "i < ?m")
        case True
        then have "search_ok k es p (extent_search k es p i ?m)"
          using less.hyps [of ?m i] less.prems m upper [OF m(3) start] by auto
        then show ?thesis
          using None below True by (subst extent_search.simps) (simp add: Let_def)
      next
        case False
        then have "i = ?m" using m by simp
        then have "search_ok k es p (No_match i)"
          using below start upper [OF m(3) start] less.prems m by (auto simp: gap_at_def le_less)
        then show ?thesis
          using None below False by (subst extent_search.simps) (simp add: Let_def)
      qed
    qed
  qed
qed


subsection \<open>Placing one page in the array\<close>

text \<open>
  The invariant between two iterations of \<open>alloc_swap\<close>: the extents in use are sorted and
  neither overlap nor touch, except for an overflow extent in the last slot of the array,
  which is only well-formed and apart from the others.
\<close>

definition table_ok :: "nat \<Rightarrow> extent list \<Rightarrow> nat \<Rightarrow> bool" where
  "table_ok k exts nr \<longleftrightarrow> length exts = max_extents k + 1 \<and> 0 < nr \<and> nr \<le> max_extents k + 1
     \<and> exts_ok k (take (min nr (max_extents k)) exts) \<and> (\<forall>e\<in>set (take nr exts). ext_ok k e)
     \<and> (nr = max_extents k + 1 \<longrightarrow>
          ext_pages k (exts ! max_extents k) \<inter> pages k (take (max_extents k) exts) = {})"

lemma split_at:
  assumes "m < nr" and "nr \<le> length exts"
  obtains xs e ys zs where "exts = xs @ e # ys @ zs" and "length xs = m"
    and "nr = length xs + 1 + length ys" and "exts ! m = e"
proof
  show "exts = take m exts @ exts ! m # take (nr - m - 1) (drop (Suc m) exts)
      @ drop (nr - m - 1) (drop (Suc m) exts)"
    using assms by (metis append_take_drop_id id_take_nth_drop less_le_trans)
qed (use assms in auto)

lemma take_split: "nr = length xs + 1 + length ys \<Longrightarrow> take nr (xs @ e # ys @ zs) = xs @ e # ys"
  by simp

lemma list_grow_down_Nil: "list_grow_down xs e ys p \<noteq> []"
  by (simp add: list_grow_down_def)

lemma list_grow_up_Nil: "list_grow_up k xs e ys \<noteq> []"
  by (simp add: list_grow_up_def)

lemma grow_down_ok:
  assumes "m < nr" and "nr \<le> length exts" and "exts_ok k (take nr exts)"
    and "fresh_page k p (take nr exts)" and "ext_start (exts ! m) = p + psz k"
    and "grow_down exts nr m p = (exts', nr')"
  shows "exts_ok k (take nr' exts') \<and> pages k (take nr' exts') = insert p (pages k (take nr exts))
    \<and> length exts' = length exts \<and> 0 < nr' \<and> nr' \<le> nr"
proof -
  obtain xs e ys zs where s: "exts = xs @ e # ys @ zs" "length xs = m"
    "nr = length xs + 1 + length ys" "exts ! m = e"
    using split_at [OF assms(1,2)] .
  have g: "take nr' exts' = list_grow_down xs e ys p \<and> length exts' = length exts \<and> nr' \<le> nr"
    using assms(6) grow_down_list [of xs e ys zs p exts' nr'] s by simp
  have t: "take nr exts = xs @ e # ys" using s(1,3) by simp
  have "0 < nr'" using g list_grow_down_Nil [of xs e ys p] by (cases nr') auto
  then show ?thesis
    using g list_grow_down_ok [of k xs e ys p] assms(3-5) s(4) unfolding t by simp
qed

lemma grow_up_ok:
  assumes "m < nr" and "nr \<le> length exts" and "exts_ok k (take nr exts)"
    and "fresh_page k p (take nr exts)" and "ext_end (exts ! m) = p"
    and "grow_up k exts nr m = (exts', nr')"
  shows "exts_ok k (take nr' exts') \<and> pages k (take nr' exts') = insert p (pages k (take nr exts))
    \<and> length exts' = length exts \<and> 0 < nr' \<and> nr' \<le> nr"
proof -
  obtain xs e ys zs where s: "exts = xs @ e # ys @ zs" "length xs = m"
    "nr = length xs + 1 + length ys" "exts ! m = e"
    using split_at [OF assms(1,2)] .
  have g: "take nr' exts' = list_grow_up k xs e ys \<and> length exts' = length exts \<and> nr' \<le> nr"
    using assms(6) grow_up_list [of k xs e ys zs exts' nr'] s by simp
  have t: "take nr exts = xs @ e # ys" using s(1,3) by simp
  have "0 < nr'" using g list_grow_up_Nil [of k xs e ys] by (cases nr') auto
  then show ?thesis
    using g list_grow_up_ok [of k xs e ys] assms(3-5) s(4) unfolding t by simp
qed

lemma take_array_insert:
  assumes "i \<le> nr" and "nr < length xs"
  shows "take (nr + 1) ((array_move xs (i + 1) i (nr - i))[i := x])
    = take i (take nr xs) @ x # drop i (take nr xs)"
proof -
  have "i + 1 + (nr - i) = nr + 1" using assms by simp
  then show ?thesis using assms
    by (auto simp: array_move_def list_update_append min_def upd_conv_take_nth_drop take_drop Suc_diff_le)
qed

lemma new_extent_ok:
  assumes t: "table_ok k exts nr" and nr: "nr \<le> max_extents k"
    and f: "fresh_page k p (take nr exts)" and i: "i < nr"
    and g: "gap_at k (take nr exts) (if ext_end (exts ! i) < p then i + 1 else i) p"
    and n: "new_extent k exts nr i p = (exts', nr')"
  shows "table_ok k exts' nr' \<and> pages k (take nr' exts') = insert p (pages k (take nr exts))"
proof (cases "nr < max_extents k")
  case True
  define i' where "i' = (if ext_end (exts ! i) < p then i + 1 else i)"
  have i': "i' \<le> nr" using i by (simp add: i'_def)
  have len: "length exts = max_extents k + 1" using t by (simp add: table_ok_def)
  have eq: "exts' = (array_move exts (i' + 1) i' (nr - i'))[i' := \<lparr>ext_start = p, ext_end = p + psz k\<rparr>]"
    "nr' = nr + 1"
    using n True by (auto simp: new_extent_def i'_def Let_def)
  have "take nr' exts' = list_insert k (take nr exts) i' p"
    unfolding eq list_insert_def using len True by (intro take_array_insert [OF i']) simp
  moreover have "length exts' = length exts"
    unfolding eq using i' len True by (simp add: array_simps)
  moreover have "exts_ok k (list_insert k (take nr exts) i' p)
      \<and> pages k (list_insert k (take nr exts) i' p) = insert p (pages k (take nr exts))"
    using t nr f g i' len by (intro list_insert_ok) (auto simp: table_ok_def i'_def min_def)
  ultimately show ?thesis using t True eq(2)
    by (auto simp: table_ok_def min_def exts_ok_def)
next
  case False
  then have nr: "nr = max_extents k" using nr by simp
  have eq: "exts' = exts[nr := \<lparr>ext_start = p, ext_end = p + psz k\<rparr>]" "nr' = nr + 1"
    using n nr by (auto simp: new_extent_def Let_def)
  have len: "length exts = max_extents k + 1" using t by (simp add: table_ok_def)
  have "take nr' exts' = take nr exts @ [\<lparr>ext_start = p, ext_end = p + psz k\<rparr>]"
    unfolding eq using len nr by (simp add: upd_conv_take_nth_drop)
  moreover have "ext_pages k \<lparr>ext_start = p, ext_end = p + psz k\<rparr> = {p}"
    using f by (simp add: ext_pages_def seg_single fresh_page_def)
  moreover have "ext_ok k \<lparr>ext_start = p, ext_end = p + psz k\<rparr>"
    using f by (auto simp: ext_ok_def fresh_page_def)
  moreover have "take (min nr' (max_extents k)) exts' = take nr exts"
    unfolding eq nr by simp
  moreover have "p \<notin> pages k (take nr exts)" using f by (simp add: fresh_page_def)
  moreover have "exts' ! max_extents k = \<lparr>ext_start = p, ext_end = p + psz k\<rparr>"
    "take (max_extents k) exts' = take nr exts"
    using len nr by (simp_all add: eq(1))
  ultimately show ?thesis using t len eq nr by (auto simp: table_ok_def)
qed

lemma place_page_search:
  assumes t: "table_ok k exts nr" and nr: "nr \<le> max_extents k"
    and f: "fresh_page k p (take nr exts)"
  shows "search_ok k (take nr exts) p (extent_search k exts p 0 (nr - 1))"
proof -
  let ?es = "take nr exts"
  have len: "length exts = max_extents k + 1" and pos: "0 < nr" and ok: "exts_ok k ?es"
    using t nr by (auto simp: table_ok_def min_def)
  have same: "extent_search k exts p i j = extent_search k ?es p i j" if "i \<le> j" "j < nr" for i j
    using that
  proof (induction k exts p i j rule: extent_search.induct)
    case (1 k exts p i j)
    have m: "(i + j) div 2 < nr" "i \<le> (i + j) div 2" "(i + j) div 2 \<le> j" using 1 by auto
    then have e: "extent_match k (take nr exts) p ((i + j) div 2) = extent_match k exts p ((i + j) div 2)"
      "extent_match k (take nr exts) p j = extent_match k exts p j"
      using 1 by (auto simp: extent_match_def)
    show ?case
      apply (subst (1 2) extent_search.simps)
      using 1 m e by (auto simp: Let_def split: option.splits)
  qed
  have "search_ok k ?es p (extent_search k ?es p 0 (nr - 1))"
    using len pos nr by (intro extent_search_ok [OF f ok]) auto
  then show ?thesis using same [of 0 "nr - 1"] pos by simp
qed

lemma place_page_ok:
  assumes t: "table_ok k exts nr" and nr: "nr \<le> max_extents k"
    and f: "fresh_page k p (take nr exts)"
    and r: "place_page k exts nr p = (exts', nr')"
  shows "table_ok k exts' nr' \<and> pages k (take nr' exts') = insert p (pages k (take nr exts))"
proof -
  let ?es = "take nr exts"
  have len: "length exts = max_extents k + 1" and ok: "exts_ok k ?es"
    using t nr by (auto simp: table_ok_def min_def)
  note s = place_page_search [OF t nr f]
  have ok_table: "table_ok k exts' nr'" if "exts_ok k (take nr' exts') \<and> length exts' = length exts
      \<and> 0 < nr' \<and> nr' \<le> nr"
    using that nr len by (auto simp: table_ok_def min_def exts_ok_def)
  show ?thesis
  proof (cases "extent_search k exts p 0 (nr - 1)")
    case (Grow_down m)
    then show ?thesis
      using grow_down_ok [of m nr exts k p exts' nr'] s r f ok len nr ok_table
      by (auto simp: place_page_def)
  next
    case (Grow_up m)
    then show ?thesis
      using grow_up_ok [of m nr exts k p exts' nr'] s r f ok len nr ok_table
      by (auto simp: place_page_def)
  next
    case (No_match i)
    have "0 < p" using f by (simp add: fresh_page_def)
    moreover have "i < nr" "gap_at k ?es (if ext_end (exts ! i) < p then i + 1 else i) p"
      using s No_match by (auto split: if_splits)
    ultimately show ?thesis
      using new_extent_ok [OF t nr f] r No_match by (simp add: place_page_def)
  qed
qed


subsection \<open>alloc_swap\<close>

text \<open>
  The contract of the kernel's swap allocator: a page it hands out is aligned, not zero and not
  in use; \<open>held\<close> is what it has handed out so far.
\<close>

definition hands_out :: "nat \<Rightarrow> ('w \<Rightarrow> loff_t set) \<Rightarrow> ('w \<Rightarrow> loff_t \<times> 'w) \<Rightarrow> bool" where
  "hands_out k held get \<longleftrightarrow> (\<forall>w p w'. get w = (p, w') \<longrightarrow>
     (if p = 0 then held w' = held w
      else 0 < p \<and> psz k dvd p \<and> p \<notin> held w \<and> held w' = insert p (held w)))"

lemma hands_outD:
  assumes "hands_out k held get" and "get w = (p, w')" and "p \<noteq> 0"
  shows "0 < p" and "psz k dvd p" and "p \<notin> held w" and "held w' = insert p (held w)"
  using assms unfolding hands_out_def by presburger+

lemma alloc_swap_loop_ok:
  assumes "hands_out k held get"
  shows "table_ok k exts nr \<Longrightarrow> pages k (take nr exts) \<subseteq> held w \<Longrightarrow>
    alloc_swap_loop k get total_size exts nr sz w = (r, exts', sz', w') \<Longrightarrow> r \<noteq> - ENOSPC \<Longrightarrow>
    \<exists>nr'. r = int nr' \<and> table_ok k exts' nr' \<and> held w \<subseteq> held w' \<and> finite (held w' - held w)
      \<and> pages k (take nr' exts') = pages k (take nr exts) \<union> (held w' - held w)
      \<and> sz' = sz + psz k * int (card (held w' - held w))
      \<and> (total_size \<le> sz' \<or> nr' = max_extents k + 1)"
  using assms
proof (induction k get total_size exts nr sz w arbitrary: r exts' sz' w' rule: alloc_swap_loop.induct)
  case (1 k get total_size exts nr sz w)
  show ?case
  proof (cases "sz < total_size \<and> nr \<le> max_extents k")
    case False
    then have "r = int nr" "exts' = exts" "sz' = sz" "w' = w"
      using "1.prems"(3) by (auto simp: alloc_swap_loop.simps [of k get total_size exts nr sz w])
    then show ?thesis using False "1.prems"(1) by (auto simp: table_ok_def)
  next
    case True
    obtain p w1 where g: "get w = (p, w1)" by fastforce
    have p0: "p \<noteq> 0"
      using True g "1.prems"(3,4)
      by (auto simp: alloc_swap_loop.simps [of k get total_size exts nr sz w] split: if_splits)
    obtain exts1 nr1 where pl: "place_page k exts nr p = (exts1, nr1)" by fastforce
    note h = hands_outD [OF "1.prems"(5) g p0]
    have "fresh_page k p (take nr exts)"
      using h "1.prems"(2) by (auto simp: fresh_page_def)
    then have t: "table_ok k exts1 nr1"
      and pg: "pages k (take nr1 exts1) = insert p (pages k (take nr exts))"
      using place_page_ok [OF "1.prems"(1) _ _ pl] True by blast+
    have rec: "alloc_swap_loop k get total_size exts1 nr1 (sz + psz k) w1 = (r, exts', sz', w')"
      using True g p0 pl "1.prems"(3)
      by (simp add: alloc_swap_loop.simps [of k get total_size exts nr sz w])
    have "pages k (take nr1 exts1) \<subseteq> held w1" using pg h "1.prems"(2) by auto
    from "1.IH" [OF True refl g [symmetric] p0 refl pl [symmetric] t this rec "1.prems"(4,5)]
    obtain nr' where i: "r = int nr'" "table_ok k exts' nr'" "held w1 \<subseteq> held w'"
      "finite (held w' - held w1)"
      "pages k (take nr' exts') = pages k (take nr1 exts1) \<union> (held w' - held w1)"
      "sz' = sz + psz k + psz k * int (card (held w' - held w1))"
      "total_size \<le> sz' \<or> nr' = max_extents k + 1" by blast
    have d: "held w' - held w = insert p (held w' - held w1)" "p \<notin> held w' - held w1"
      using h i(3) by auto
    show ?thesis
    proof (intro exI conjI)
      show "pages k (take nr' exts') = pages k (take nr exts) \<union> (held w' - held w)"
        using i(5) pg d(1) by auto
      show "sz' = sz + psz k * int (card (held w' - held w))"
        using i(4,6) d by (simp add: algebra_simps)
      show "held w \<subseteq> held w'" using i(3) h by auto
    qed (use i d in auto)
  qed
qed

lemma max_extents_pos:
  assumes "5 \<le> k"
  shows "1 \<le> max_extents k"
proof -
  have "(2::nat) ^ 5 \<le> 2 ^ k" using assms by (rule power_increasing) simp
  then show ?thesis by (simp add: max_extents_def)
qed

lemma alloc_swap_ok:
  assumes "hands_out k held (get_swap_page K dev)"
    and "5 \<le> k" and "length exts = max_extents k + 1"
    and "nr = 0 \<or> table_ok k exts nr" and "pages k (take nr exts) \<subseteq> held w"
    and "alloc_swap k K dev exts nr total_size w = (r, exts', sz, w')" and "r \<noteq> - ENOSPC"
  shows "\<exists>nr'. r = int nr' \<and> table_ok k exts' nr' \<and> held w \<subseteq> held w'
      \<and> pages k (take nr' exts') = pages k (take nr exts) \<union> (held w' - held w)
      \<and> sz = psz k * int (card (held w' - held w))
      \<and> (total_size \<le> sz \<or> nr' = max_extents k + 1)"
proof (cases "nr = 0")
  case False
  then have "alloc_swap_loop k (get_swap_page K dev) total_size exts nr 0 w = (r, exts', sz, w')"
    using assms(6) by (simp add: alloc_swap_def)
  from alloc_swap_loop_ok [OF assms(1) _ assms(5) this assms(7)] show ?thesis
    using assms(4) False by fastforce
next
  case True
  note k = max_extents_pos [OF assms(2)]
  obtain p w1 where g: "get_swap_page K dev w = (p, w1)" by fastforce
  have p0: "p \<noteq> 0" using g True assms(6,7) by (auto simp: alloc_swap_def split: if_splits)
  note h = hands_outD [OF assms(1) g p0]
  let ?e = "\<lparr>ext_start = p, ext_end = p + psz k\<rparr>"
  have "ext_ok k ?e" "ext_pages k ?e = {p}"
    using h by (auto simp: ext_ok_def ext_pages_def seg_single)
  moreover have tk: "take 1 (exts[0 := ?e]) = [?e]" using assms(3) by (cases exts) auto
  ultimately have t: "table_ok k (exts[0 := ?e]) 1" and pg: "pages k (take 1 (exts[0 := ?e])) = {p}"
    using assms(3) k by (auto simp: table_ok_def exts_ok_def min_def)
  have l: "alloc_swap_loop k (get_swap_page K dev) total_size (exts[0 := ?e]) 1 (psz k) w1 = (r, exts', sz, w')"
    using assms(6) True g p0 by (simp add: alloc_swap_def)
  have "pages k (take 1 (exts[0 := ?e])) \<subseteq> held w1" using pg h by auto
  from alloc_swap_loop_ok [OF assms(1) t this l assms(7)]
  obtain nr' where i: "r = int nr'" "table_ok k exts' nr'" "held w1 \<subseteq> held w'"
      "finite (held w' - held w1)"
      "pages k (take nr' exts') = pages k (take 1 (exts[0 := ?e])) \<union> (held w' - held w1)"
      "sz = psz k + psz k * int (card (held w' - held w1))"
      "total_size \<le> sz \<or> nr' = max_extents k + 1" by blast
  have d: "held w' - held w = insert p (held w' - held w1)" "p \<notin> held w' - held w1"
    using h i(3) by auto
  have "held w \<subseteq> held w'" using h(4) i(3) by auto
  moreover have "pages k (take nr' exts') = pages k (take nr exts) \<union> (held w' - held w)"
    using i(5) pg d(1) True by simp
  moreover have "sz = psz k * int (card (held w' - held w))"
    unfolding d(1) using i(4,6) d(2) by (simp add: algebra_simps)
  ultimately show ?thesis using i(1,2,7) by blast
qed

text \<open>
  C9: \<open>alloc_swap\<close>, unless it fails with \<open>-ENOSPC\<close>, returns a table of well-formed
  extents, sorted and pairwise apart, that covers exactly the pages of the extents it was given
  and the pages the kernel handed out meanwhile: no page is lost, none is invented. The size it
  reports is \<open>page_size\<close> times the number of new pages; it is at least what was asked for,
  unless the array is full, with the overflow extent in its last slot.
\<close>

theorem alloc_swap_pages:
  assumes "hands_out k held (get_swap_page K dev)"
    and "5 \<le> k" and "length exts = max_extents k + 1"
    and "nr = 0 \<or> table_ok k exts nr" and "pages k (take nr exts) \<subseteq> held w"
    and "alloc_swap k K dev exts nr total_size w = (r, exts', sz, w')" and "r \<noteq> - ENOSPC"
  shows "\<exists>nr'. r = int nr' \<and> table_ok k exts' nr'
      \<and> pages k (take nr' exts') = pages k (take nr exts) \<union> (held w' - held w)
      \<and> sz = psz k * int (card (held w' - held w))
      \<and> (total_size \<le> sz \<or> nr' = max_extents k + 1)"
  using alloc_swap_ok [OF assms] by blast

subsection \<open>The slots that are not in use\<close>

text \<open>
  A merge moves the extents behind it down by one slot and leaves the last of them where it was:
  the slots from \<open>nr_extents\<close> on are zero only as long as nothing has been merged. If the kernel
  hands out its pages upwards, no two extents are ever merged.
\<close>

definition slots_clean :: "nat \<Rightarrow> extent list \<Rightarrow> nat \<Rightarrow> bool" where
  "slots_clean k exts nr \<longleftrightarrow> (\<forall>i. nr \<le> i \<longrightarrow> i \<le> max_extents k \<longrightarrow> exts ! i = zero_extent)"

definition hands_out_upwards :: "('w \<Rightarrow> loff_t set) \<Rightarrow> ('w \<Rightarrow> loff_t \<times> 'w) \<Rightarrow> bool" where
  "hands_out_upwards held get \<longleftrightarrow> (\<forall>w p w'. get w = (p, w') \<longrightarrow> p \<noteq> 0 \<longrightarrow> (\<forall>q\<in>held w. q < p))"

lemma place_page_clean:
  assumes t: "table_ok k exts nr" and nr: "nr \<le> max_extents k"
    and f: "fresh_page k p (take nr exts)"
    and above: "\<forall>e\<in>set (take nr exts). ext_end e \<le> p"
    and c: "slots_clean k exts nr" and r: "place_page k exts nr p = (exts', nr')"
  shows "slots_clean k exts' nr'"
proof -
  have ok: "\<forall>e\<in>set (take nr exts). ext_start e < ext_end e" and len: "length exts = max_extents k + 1"
    using t by (auto simp: table_ok_def ext_ok_def)
  have psz: "(0::int) < psz k" by simp
  have below: "ext_start (exts ! m) < p" "ext_end (exts ! m) \<le> p" if "m < nr" for m
  proof -
    have "exts ! m \<in> set (take nr exts)" using that len nr by (auto simp: in_set_conv_nth)
    then show "ext_start (exts ! m) < p" "ext_end (exts ! m) \<le> p" using ok above by force+
  qed
  note s = place_page_search [OF t nr f]
  show ?thesis
  proof (cases "extent_search k exts p 0 (nr - 1)")
    case (Grow_down m)
    then have False using s below [of m] psz by auto
    then show ?thesis ..
  next
    case (Grow_up m)
    then have m: "m < nr" "ext_end (exts ! m) = p" using s by auto
    have "p + psz k \<noteq> ext_start (exts ! (m + 1))" if "m + 1 < nr"
      using below(1) [OF that] psz by linarith
    then have "exts' = exts[m := (exts ! m)\<lparr>ext_end := p + psz k\<rparr>]" "nr' = nr"
      using r Grow_up m nr len by (auto simp: place_page_def grow_up_def Let_def split: if_splits)
    then show ?thesis using c m by (auto simp: slots_clean_def)
  next
    case (No_match i)
    then have i: "i < nr" using s by auto
    have "new_extent k exts nr i p = (exts', nr')" "0 < p"
      using r No_match f by (auto simp: place_page_def fresh_page_def)
    then show ?thesis
      using c i len nr by (auto simp: slots_clean_def new_extent_def Let_def array_simps nth_list_update
          split: if_splits)
  qed
qed

lemma held_pages_below:
  assumes up: "\<forall>q\<in>held. q < p" and al: "psz k dvd p" and es: "\<forall>e\<in>set es. ext_ok k e"
    and sub: "pages k es \<subseteq> held" and e: "e \<in> set es"
  shows "ext_end e \<le> p"
proof -
  have ok: "ext_ok k e" using es e by simp
  then have "ext_start e \<le> ext_end e - psz k"
    using aligned_less [of k "ext_start e" "ext_end e"] by (simp add: ext_ok_def)
  then have "ext_end e - psz k \<in> ext_pages k e" using ok by (simp add: ext_pages_def seg_def ext_ok_def)
  then have "ext_end e - psz k < p" using up sub e by (auto simp: pages_def)
  then show ?thesis
    using aligned_less [of k "ext_end e - psz k" p] ok al by (simp add: ext_ok_def)
qed

lemma alloc_swap_loop_clean:
  assumes "hands_out k held get" and "hands_out_upwards held get"
  shows "table_ok k exts nr \<Longrightarrow> pages k (take nr exts) \<subseteq> held w \<Longrightarrow> slots_clean k exts nr \<Longrightarrow>
    alloc_swap_loop k get total_size exts nr sz w = (int nr', exts', sz', w') \<Longrightarrow>
    slots_clean k exts' nr'"
  using assms
proof (induction k get total_size exts nr sz w arbitrary: nr' exts' sz' w' rule: alloc_swap_loop.induct)
  case (1 k get total_size exts nr sz w)
  show ?case
  proof (cases "sz < total_size \<and> nr \<le> max_extents k")
    case False
    then show ?thesis
      using "1.prems"(3,4) by (auto simp: alloc_swap_loop.simps [of k get total_size exts nr sz w])
  next
    case True
    obtain p w1 where g: "get w = (p, w1)" by fastforce
    have p0: "p \<noteq> 0"
      using True g "1.prems"(4)
      by (auto simp: alloc_swap_loop.simps [of k get total_size exts nr sz w] split: if_splits)
    obtain exts1 nr1 where pl: "place_page k exts nr p = (exts1, nr1)" by fastforce
    note h = hands_outD [OF "1.prems"(5) g p0]
    have f: "fresh_page k p (take nr exts)"
      using h "1.prems"(2) by (auto simp: fresh_page_def)
    then have t: "table_ok k exts1 nr1"
      and pg: "pages k (take nr1 exts1) = insert p (pages k (take nr exts))"
      using place_page_ok [OF "1.prems"(1) _ _ pl] True by blast+
    have "\<forall>q\<in>held w. q < p" using "1.prems"(6) g p0 by (auto simp: hands_out_upwards_def)
    then have "\<forall>e\<in>set (take nr exts). ext_end e \<le> p"
      using held_pages_below [OF _ h(2) _ "1.prems"(2)] "1.prems"(1) by (auto simp: table_ok_def)
    then have cl: "slots_clean k exts1 nr1"
      using place_page_clean [OF "1.prems"(1) _ f _ "1.prems"(3) pl] True by blast
    have rec: "alloc_swap_loop k get total_size exts1 nr1 (sz + psz k) w1 = (int nr', exts', sz', w')"
      using True g p0 pl "1.prems"(4)
      by (simp add: alloc_swap_loop.simps [of k get total_size exts nr sz w])
    have "pages k (take nr1 exts1) \<subseteq> held w1" using pg h "1.prems"(2) by auto
    from "1.IH" [OF True refl g [symmetric] p0 refl pl [symmetric] t this cl rec "1.prems"(5,6)]
    show ?thesis .
  qed
qed

lemma alloc_swap_clean:
  assumes "hands_out k held (get_swap_page K dev)" and "hands_out_upwards held (get_swap_page K dev)"
    and "5 \<le> k" and "length exts = max_extents k + 1"
    and "nr = 0 \<or> table_ok k exts nr" and "pages k (take nr exts) \<subseteq> held w" and "slots_clean k exts nr"
    and "alloc_swap k K dev exts nr total_size w = (int nr', exts', sz, w')"
  shows "slots_clean k exts' nr'"
proof (cases "nr = 0")
  case False
  then have "alloc_swap_loop k (get_swap_page K dev) total_size exts nr 0 w = (int nr', exts', sz, w')"
    using assms(8) by (simp add: alloc_swap_def)
  with False show ?thesis using alloc_swap_loop_clean [OF assms(1,2)] assms by blast
next
  case True
  have k: "1 \<le> max_extents k" using max_extents_pos [OF assms(3)] .
  obtain p w1 where g: "get_swap_page K dev w = (p, w1)" by fastforce
  have p0: "p \<noteq> 0" using g True assms(8) by (auto simp: alloc_swap_def split: if_splits)
  note h = hands_outD [OF assms(1) g p0]
  let ?e = "\<lparr>ext_start = p, ext_end = p + psz k\<rparr>"
  have "ext_ok k ?e" "ext_pages k ?e = {p}"
    using h by (auto simp: ext_ok_def ext_pages_def seg_single)
  moreover have "take 1 (exts[0 := ?e]) = [?e]" using assms(4) by (cases exts) auto
  ultimately have t: "table_ok k (exts[0 := ?e]) 1" and pg: "pages k (take 1 (exts[0 := ?e])) = {p}"
    using assms(4) k by (auto simp: table_ok_def exts_ok_def min_def)
  have l: "alloc_swap_loop k (get_swap_page K dev) total_size (exts[0 := ?e]) 1 (psz k) w1 = (int nr', exts', sz, w')"
    using assms(8) True g p0 by (simp add: alloc_swap_def)
  have "pages k (take 1 (exts[0 := ?e])) \<subseteq> held w1" using pg h by auto
  moreover have "slots_clean k (exts[0 := ?e]) 1" using assms(7) True by (auto simp: slots_clean_def)
  ultimately show ?thesis using alloc_swap_loop_clean [OF assms(1,2) t _ _ l] by blast
qed

subsection \<open>A concrete kernel\<close>

text \<open>
  A kernel for the witnesses: its world is the number of swap pages handed out, \<open>f n\<close> is the
  offset of the \<open>n\<close>-th, and every call but the swap allocation fails.
\<close>

definition swap_kernel :: "(nat \<Rightarrow> loff_t) \<Rightarrow> nat kernel" where
  "swap_kernel f =
     \<lparr>k_ioctl = (\<lambda>dev req n. if req = SNAPSHOT_ALLOC_SWAP_PAGE
                            then (\<lparr>ret = 0, errno = 0, out = f n\<rparr>, Suc n)
                            else (\<lparr>ret = - 1, errno = EINVAL, out = 0\<rparr>, n)),
      k_lseek = (\<lambda>fd p n. (p, n)), k_read = (\<lambda>fd c n. ((- 1, []), n)),
      k_write = (\<lambda>fd bs n. (int (length bs), n)), k_fsync = (\<lambda>fd n. n), k_close = (\<lambda>fd n. n),
      k_sync_file_range = (\<lambda>fd n. n), k_reboot = (\<lambda>cmd n. n)\<rparr>"

lemma get_swap_page_swap_kernel [simp]: "get_swap_page (swap_kernel f) dev n = (f n, Suc n)"
  by (simp add: get_swap_page_def ioctl_fallback_def swap_kernel_def)

lemma hands_out_swap_kernel:
  assumes "inj f" and "\<And>n. 0 < f n \<and> psz k dvd f n"
  shows "hands_out k (\<lambda>n. f ` {..<n}) (get_swap_page (swap_kernel f) dev)"
  using assms by (auto simp: hands_out_def lessThan_Suc inj_eq less_le)

text \<open>Two pages asked for, page offsets of 32 bytes handed out upwards.\<close>

lemma alloc_swap_pages_witness:
  "\<exists>nr'. (1::int) = int nr' \<and> table_ok 5 [\<lparr>ext_start = 32, ext_end = 96\<rparr>, zero_extent] nr'
      \<and> pages 5 (take nr' [\<lparr>ext_start = 32, ext_end = 96\<rparr>, zero_extent])
          = pages 5 (take 0 [zero_extent, zero_extent])
            \<union> ((\<lambda>n. 32 * (int n + 1)) ` {..<2} - (\<lambda>n. 32 * (int n + 1)) ` {..<0})
      \<and> 64 = psz 5 * int (card ((\<lambda>n. 32 * (int n + 1)) ` {..<2} - (\<lambda>n. 32 * (int n + 1)) ` {..<0}))
      \<and> (64 \<le> (64::int) \<or> nr' = max_extents 5 + 1)"
proof (rule alloc_swap_pages [where held = "\<lambda>n. (\<lambda>n. 32 * (int n + 1)) ` {..<n}" and w = 0 and w' = 2
      and K = "swap_kernel (\<lambda>n. 32 * (int n + 1))" and dev = 3 and total_size = 64])
  have m [simp]: "max_extents 5 = 1" by (simp add: max_extents_def)
  show "hands_out 5 (\<lambda>n. (\<lambda>n. 32 * (int n + 1)) ` {..<n})
      (get_swap_page (swap_kernel (\<lambda>n. 32 * (int n + 1))) 3)"
    by (rule hands_out_swap_kernel) (auto simp: inj_def)
  show "alloc_swap 5 (swap_kernel (\<lambda>n. 32 * (int n + 1))) 3 [zero_extent, zero_extent] 0 64 0
      = (1, [\<lparr>ext_start = 32, ext_end = 96\<rparr>, zero_extent], 64, 2)"
    by (simp add: alloc_swap_def alloc_swap_loop.simps place_page_def extent_search.simps Let_def
        extent_match_def grow_up_def numeral_2_eq_2)
qed (auto simp: max_extents_def)

end
