(* ===== verification/Swap_Writer.thy ===== *)
theory Swap_Writer
  imports Memalloc Swap_Alloc Md5
begin

text \<open>
  The swap writer of \<open>suspend.c\<close>, up to \<open>save_image\<close>: image pages are collected in a
  buffer of 32 pages; a full buffer is checksummed, compressed and encrypted as configured, and
  written page by page to the swap pages that \<open>next_swap_page\<close> takes from the preallocated
  extents. When the extents run out their array goes to the swap page reserved for it, linked
  to the next one, and \<open>preallocate_swap\<close> starts a new batch.

  This is the build without \<open>CONFIG_THREADS\<close> (\<open>use_threads\<close> only decides the sizes of the
  buffers in \<open>init_swap_writer\<close>); the threaded pipeline is modelled on its own. Progress
  messages are left out.
\<close>

section \<open>Configuration and libraries\<close>

record image_opts =
  do_compress :: bool
  do_encrypt :: bool
  use_threads :: bool
  compute_checksum :: bool
  verify_image :: bool
  early_writeout :: bool
  compress_buf_size :: nat
  encrypt_buf_size :: nat

datatype shutdown = SHUTDOWN_METHOD_SHUTDOWN | SHUTDOWN_METHOD_PLATFORM | SHUTDOWN_METHOD_REBOOT

text \<open>
  The libraries (LZO, libgcrypt) and the splash interface are not part of the modelled code.
  The open cipher handle is part of the world.
\<close>

record 'w libs =
  lzo_work_size :: nat                                       \<comment> \<open>\<open>LZO1X_1_MEM_COMPRESS\<close>\<close>
  lzo_compress :: "byte list \<Rightarrow> byte list"
  lzo_decompress :: "byte list \<Rightarrow> byte list option"
  gcry_encrypt :: "byte list \<Rightarrow> 'w \<Rightarrow> (int \<times> byte list) \<times> 'w"
  gcry_decrypt :: "byte list \<Rightarrow> 'w \<Rightarrow> (int \<times> byte list) \<times> 'w"
  key_pressed :: "'w \<Rightarrow> int \<times> 'w"
  prepare_abort :: "'w \<Rightarrow> int \<times> 'w"
  restore_abort :: "'w \<Rightarrow> 'w"
  mem_byte :: "u64 \<Rightarrow> byte"                                  \<comment> \<open>what the pool holds at the start\<close>

definition WRITE_BUFFERS :: nat where "WRITE_BUFFERS = 4"
definition ABORT_KEY_CODE :: int where "ABORT_KEY_CODE = 14"
definition REBOOT_KEY_CODE :: int where "REBOOT_KEY_CODE = 19"

abbreviation page_bytes :: "nat \<Rightarrow> nat" where
  "page_bytes k \<equiv> 2 ^ k"

definition buffer_bytes :: "nat \<Rightarrow> nat" where
  "buffer_bytes k = page_bytes k * 32"

section \<open>State\<close>

text \<open>
  \<open>cur_extent\<close> is always \<open>extents + cur_extent_idx\<close>. \<open>w_data\<close> is what lies between
  \<open>buffer\<close> and \<open>page_ptr\<close>, \<open>w_block\<close> the contents of the write buffer if that is another
  one, \<open>w_encrypt_pos\<close> is \<open>encrypt_ptr - encrypt_buffer\<close>. Pointers are \<open>None\<close> for
  \<open>NULL\<close>.
\<close>

record swap_writer =
  w_extents :: "extent list"
  w_nr_extents :: nat
  w_cur_extent_idx :: nat
  w_cur_offset :: loff_t
  w_swap_needed :: loff_t
  w_written_data :: loff_t
  w_extents_spc :: loff_t
  w_data :: "byte list"
  w_block :: "byte list"
  w_dev :: fd
  w_fd :: fd
  w_input :: fd
  w_ctx :: md5_ctx
  w_encrypt_pos :: nat
  w_extents_mem :: "u64 option"
  w_buffer_mem :: "u64 option"
  w_write_buffer_mem :: "u64 option"
  w_lzo_work_mem :: "u64 option"
  w_encrypt_mem :: "u64 option"

definition w_cur_extent :: "swap_writer \<Rightarrow> extent" where
  "w_cur_extent h = w_extents h ! w_cur_extent_idx h"

section \<open>Pages and buffers\<close>

text \<open>\<open>off_t\<close> and the byte counts are 64 bits wide; the page is the list handed over.\<close>

definition write_page :: "nat \<Rightarrow> 'w kernel \<Rightarrow> fd \<Rightarrow> byte list \<Rightarrow> loff_t \<Rightarrow> 'w \<Rightarrow> int \<times> 'w" where
  "write_page k K fd buf offset w =
     (if offset = 0 then (- EINVAL, w)
      else let (p, w) = k_lseek K fd offset w;
               (cnt, w) = (if p = offset then k_write K fd buf w else (0, w))
           in (if cnt \<noteq> psz k then - EIO else 0, w))"

definition ptr_value :: "u64 option \<Rightarrow> u64" where
  "ptr_value p = (case p of None \<Rightarrow> 0 | Some a \<Rightarrow> a)"

definition free_swap_writer :: "image_opts \<Rightarrow> swap_writer \<Rightarrow> memalloc \<Rightarrow> memalloc" where
  "free_swap_writer cfg h m =
     (let m = (if w_write_buffer_mem h \<noteq> w_buffer_mem h
               then freemem (ptr_value (w_write_buffer_mem h)) m else m);
          m = (if do_compress cfg then freemem (ptr_value (w_lzo_work_mem h)) m else m);
          m = (if w_encrypt_mem h \<noteq> None then freemem (ptr_value (w_encrypt_mem h)) m else m);
          m = freemem (ptr_value (w_buffer_mem h)) m
      in freemem (ptr_value (w_extents_mem h)) m)"

definition write_buf_size :: "image_opts \<Rightarrow> nat" where
  "write_buf_size cfg =
     (if do_compress cfg
      then compress_buf_size cfg
           + (if use_threads cfg then (WRITE_BUFFERS - 1) * compress_buf_size cfg else 0)
      else 0)"

definition zero_extents :: "nat \<Rightarrow> extent list" where
  "zero_extents k = replicate (max_extents k + 1) zero_extent"

text \<open>
  The buffers; \<open>None\<close> when \<open>getmem\<close> loops. No \<open>NULL\<close> result of \<open>getmem\<close> is looked at, the
  pointers are kept as they are.
\<close>

definition alloc_swap_writer ::
  "nat \<Rightarrow> image_opts \<Rightarrow> 'w libs \<Rightarrow> swap_writer \<Rightarrow> memalloc \<Rightarrow> (swap_writer \<times> memalloc) option" where
  "alloc_swap_writer k cfg L h m = do {
     (extents, m) \<leftarrow> getmem (of_nat (page_bytes k)) m;
     (buffer, m) \<leftarrow> getmem (of_nat (buffer_bytes k)) m;
     (enc, m) \<leftarrow> (if do_encrypt cfg then getmem (of_nat (encrypt_buf_size cfg)) m else Some (None, m));
     (lzo, m) \<leftarrow> (if do_compress cfg then getmem (of_nat (lzo_work_size L)) m
                 else Some (w_lzo_work_mem h, m));
     (wbuf, m) \<leftarrow> (if 0 < write_buf_size cfg then getmem (of_nat (write_buf_size cfg)) m
                  else if use_threads cfg then getmem (of_nat (buffer_bytes k * WRITE_BUFFERS)) m
                  else Some (buffer, m));
     Some (h\<lparr>w_extents_mem := extents, w_buffer_mem := buffer, w_encrypt_mem := enc,
             w_lzo_work_mem := lzo, w_write_buffer_mem := wbuf, w_data := [], w_encrypt_pos := 0,
             w_block := map (\<lambda>i. mem_byte L (ptr_value wbuf + of_nat i)) [0..<write_buf_size cfg]\<rparr>, m)
   }"

text \<open>The outer option is \<open>None\<close> when the code does not get to its end: \<open>getmem\<close> loops, or
  \<open>memset\<close> is called on a \<open>NULL\<close> array of extents.\<close>

definition init_swap_writer ::
  "nat \<Rightarrow> image_opts \<Rightarrow> 'w kernel \<Rightarrow> 'w libs \<Rightarrow> swap_writer \<Rightarrow> fd \<Rightarrow> fd \<Rightarrow> fd \<Rightarrow> memalloc \<Rightarrow> 'w \<Rightarrow>
   (int \<times> swap_writer \<times> memalloc \<times> 'w) option" where
  "init_swap_writer k cfg K L h dev fd inp m w = do {
     (h, m) \<leftarrow> alloc_swap_writer k cfg L h m;
     if w_extents_mem h = None then None
     else do {
       let h = h\<lparr>w_dev := dev, w_fd := fd, w_input := (if 0 \<le> inp then inp else dev),
                 w_written_data := 0, w_extents := zero_extents k, w_nr_extents := 0\<rparr>;
       let (offset, w) = get_swap_page K dev w;
       if offset = 0 then Some (- ENOSPC, h, free_swap_writer cfg h m, w)
       else do {
         let h = h\<lparr>w_extents_spc := offset\<rparr>;
         Some (0, if compute_checksum cfg \<or> verify_image cfg
                  then h\<lparr>w_ctx := md5_init_ctx (w_ctx h)\<rparr> else h, m, w)
       }
     }
   }"

section \<open>The supply of swap pages\<close>

text \<open>Sizes are not negative, so that C's division is \<open>div\<close>.\<close>

definition preallocate_swap ::
  "nat \<Rightarrow> image_opts \<Rightarrow> 'w kernel \<Rightarrow> swap_writer \<Rightarrow> 'w \<Rightarrow> loff_t \<times> swap_writer \<times> 'w" where
  "preallocate_swap k cfg K h w =
     (if w_swap_needed h < psz k then (0, h, w)
      else let sz = (if do_compress cfg \<and> w_swap_needed h > psz k then w_swap_needed h div 2
                     else w_swap_needed h);
               (nr, exts, sz, w) = alloc_swap k K (w_dev h) (w_extents h) (w_nr_extents h) sz w;
               h = h\<lparr>w_extents := exts\<rparr>
           in if nr \<le> 0 then (0, h, w)
              else let h = h\<lparr>w_nr_extents := (if nr < int (max_extents k) then nat nr else max_extents k),
                             w_cur_extent_idx := 0, w_cur_offset := ext_start (exts ! 0)\<rparr>
                   in (w_cur_offset h, h, w))"

definition extent_bytes :: "extent \<Rightarrow> byte list" where
  "extent_bytes e = loff_bytes (ext_start e) @ loff_bytes (ext_end e)"

definition extents_page :: "extent list \<Rightarrow> byte list" where
  "extents_page es = concat (map extent_bytes es)"

definition save_extents ::
  "nat \<Rightarrow> 'w kernel \<Rightarrow> bool \<Rightarrow> swap_writer \<Rightarrow> 'w \<Rightarrow> int \<times> swap_writer \<times> 'w" where
  "save_extents k K finish h w =
     (let (offset, w) = (if finish then (0, w) else get_swap_page K (w_dev h) w)
      in if \<not> finish \<and> offset = 0 then (- ENOSPC, h, w)
         else let n = max_extents k;
                  h = (if finish then h
                       else h\<lparr>w_extents := (w_extents h)[n := (w_extents h ! n)\<lparr>ext_start := offset\<rparr>]\<rparr>);
                  (error, w) = write_page k K (w_fd h) (extents_page (w_extents h)) (w_extents_spc h) w
              in (error, h\<lparr>w_extents_spc := offset\<rparr>, w))"

definition next_swap_page ::
  "nat \<Rightarrow> image_opts \<Rightarrow> 'w kernel \<Rightarrow> swap_writer \<Rightarrow> 'w \<Rightarrow> loff_t \<times> swap_writer \<times> 'w" where
  "next_swap_page k cfg K h w =
     (let h = h\<lparr>w_cur_offset := w_cur_offset h + psz k\<rparr>
      in if w_cur_offset h < ext_end (w_cur_extent h) then (w_cur_offset h, h, w)
         else let h = h\<lparr>w_cur_extent_idx := w_cur_extent_idx h + 1\<rparr>
              in if w_cur_extent_idx h < w_nr_extents h then
                   (let h = h\<lparr>w_cur_offset := ext_start (w_cur_extent h)\<rparr> in (w_cur_offset h, h, w))
                 else let (ext, h) =
                          (if ext_start (w_cur_extent h) < ext_end (w_cur_extent h)
                           then (w_cur_extent h,
                                 h\<lparr>w_extents := (w_extents h)[w_cur_extent_idx h := zero_extent],
                                   w_nr_extents := 1\<rparr>)
                           else (zero_extent, h\<lparr>w_nr_extents := 0\<rparr>));
                          (error, h, w) = save_extents k K False h w
                      in if error \<noteq> 0 then (0, h, w)
                         else preallocate_swap k cfg K
                                (h\<lparr>w_extents := (zero_extents k)[0 := ext]\<rparr>) w)"

definition save_page ::
  "nat \<Rightarrow> image_opts \<Rightarrow> 'w kernel \<Rightarrow> byte list \<Rightarrow> swap_writer \<Rightarrow> 'w \<Rightarrow> int \<times> swap_writer \<times> 'w" where
  "save_page k cfg K src h w =
     (let (offset, h, w) = next_swap_page k cfg K h w
      in if offset = 0 then (- ENOSPC, h, w)
         else let (error, w) = write_page k K (w_fd h) src offset w
              in if error \<noteq> 0 then (error, h, w)
                 else (0, h\<lparr>w_swap_needed := w_swap_needed h - psz k,
                            w_written_data := w_written_data h + psz k\<rparr>, w))"

section \<open>Flushing the buffer\<close>

definition encrypt_and_save_page ::
  "nat \<Rightarrow> image_opts \<Rightarrow> 'w kernel \<Rightarrow> 'w libs \<Rightarrow> byte list \<Rightarrow> swap_writer \<Rightarrow> 'w \<Rightarrow>
   int \<times> swap_writer \<times> 'w" where
  "encrypt_and_save_page k cfg K L src h w =
     (if do_encrypt cfg then
        (let ((error, enc), w) = gcry_encrypt L src w
         in if error \<noteq> 0 then (error, h, w)
            else let pos = w_encrypt_pos h + page_bytes k;
                     h = h\<lparr>w_encrypt_pos := (if encrypt_buf_size cfg \<le> pos then 0 else pos)\<rparr>
                 in save_page k cfg K enc h w)
      else save_page k cfg K src h w)"

text \<open>\<open>while (size > 0)\<close> over the write buffer, a page at a time; \<open>sz\<close> may go below 0 in the
  code, where the loop ends all the same.\<close>

function flush_pages ::
  "nat \<Rightarrow> image_opts \<Rightarrow> 'w kernel \<Rightarrow> 'w libs \<Rightarrow> nat \<Rightarrow> byte list \<Rightarrow> swap_writer \<Rightarrow> 'w \<Rightarrow>
   int \<times> swap_writer \<times> 'w" where
  "flush_pages k cfg K L sz src h w =
     (if 0 < sz then
        (let (error, h, w) = encrypt_and_save_page k cfg K L (take (page_bytes k) src) h w
         in if error \<noteq> 0 then (error, h, w)
            else flush_pages k cfg K L (sz - page_bytes k) (drop (page_bytes k) src) h w)
      else (0, h, w))"
  by pat_completeness auto
termination
  by (relation "measure (\<lambda>(k, cfg, K, L, sz, src, h, w). sz)") auto

declare flush_pages.simps [simp del]

text \<open>What the write buffer holds after compression: the size of the compressed data, the data,
  and whatever was there before.\<close>

definition compressed_block :: "'w libs \<Rightarrow> byte list \<Rightarrow> byte list" where
  "compressed_block L data =
     le_bytes 8 (of_nat (length (lzo_compress L data)) :: u64) @ lzo_compress L data"

definition flush_buffer ::
  "nat \<Rightarrow> image_opts \<Rightarrow> 'w kernel \<Rightarrow> 'w libs \<Rightarrow> swap_writer \<Rightarrow> 'w \<Rightarrow> int \<times> swap_writer \<times> 'w" where
  "flush_buffer k cfg K L h w =
     (if w_data h = [] then (0, h, w)
      else let h = (if compute_checksum cfg \<or> verify_image cfg
                    then h\<lparr>w_ctx := md5_process_block (w_data h) (w_ctx h)\<rparr> else h)
           in if do_compress cfg then
                (let block = compressed_block L (w_data h);
                     h = h\<lparr>w_block := block @ drop (length block) (w_block h)\<rparr>
                 in flush_pages k cfg K L (length block) (w_block h) h w)
              else flush_pages k cfg K L (length (w_data h)) (w_data h) h w)"

section \<open>Saving the image\<close>

text \<open>
  \<open>while ((key = splash.key_pressed()) > 0)\<close>: the answer is whether the user aborts, and the
  shutdown method.
\<close>

partial_function (option) handle_keys ::
  "'w libs \<Rightarrow> bool \<Rightarrow> shutdown \<Rightarrow> 'w \<Rightarrow> (bool \<times> shutdown \<times> 'w) option" where
  "handle_keys L abort_possible method w =
     (let (key, w) = key_pressed L w
      in if 0 < key then
           if key = ABORT_KEY_CODE \<and> abort_possible then Some (True, method, w)
           else if key = REBOOT_KEY_CODE
                then handle_keys L abort_possible SHUTDOWN_METHOD_REBOOT w
                else handle_keys L abort_possible method w
         else Some (False, method, w))"

text \<open>
  The \<open>for\<close> loop of \<open>save_image\<close>; \<open>n\<close> is \<open>nr_pages\<close>. The result is the error, the number of
  pages read, the writer, the shutdown method and the world; \<open>None\<close> if the loop does not end.
\<close>

partial_function (option) save_loop ::
  "nat \<Rightarrow> image_opts \<Rightarrow> 'w kernel \<Rightarrow> 'w libs \<Rightarrow> bool \<Rightarrow> nat \<Rightarrow> nat \<Rightarrow> nat \<Rightarrow> swap_writer \<Rightarrow> shutdown \<Rightarrow> 'w \<Rightarrow>
   (int \<times> nat \<times> swap_writer \<times> shutdown \<times> 'w) option" where
  "save_loop k cfg K L abort_possible step rate n h method w =
     (let ((ret, data), w) = k_read K (w_input h) (page_bytes k) w
      in if ret < psz k then
           Some (if ret < 0 then - EIO else if 0 < ret then - EFAULT else 0, n, h, method, w)
         else do {
           let h = h\<lparr>w_data := w_data h @ data\<rparr>;
           (abort, method, w) \<leftarrow> (if n mod step = 0 then handle_keys L abort_possible method w
                                  else Some (False, method, w));
           if abort then Some (- EINTR, n, h, method, w)
           else do {
             let w = (if (n + 1) mod rate = 0 then start_writeout K (w_fd h) w else w);
             if buffer_bytes k \<le> length (w_data h) then do {
               let (error, h, w) = flush_buffer k cfg K L h w;
               if error \<noteq> 0 then Some (error, n, h, method, w)
               else save_loop k cfg K L abort_possible step rate (n + 1) (h\<lparr>w_data := []\<rparr>) method w
             } else save_loop k cfg K L abort_possible step rate (n + 1) h method w
           }
         })"

definition save_image ::
  "nat \<Rightarrow> image_opts \<Rightarrow> 'w kernel \<Rightarrow> 'w libs \<Rightarrow> swap_writer \<Rightarrow> nat \<Rightarrow> shutdown \<Rightarrow> 'w \<Rightarrow>
   (int \<times> swap_writer \<times> shutdown \<times> 'w) option" where
  "save_image k cfg K L h nr_pages method w = do {
     let (r, w) = prepare_abort L w;
     let abort_possible = (r = 0);
     let step = (if nr_pages div 100 = 0 then 1 else nr_pages div 100);
     let rate = (if early_writeout cfg then step else nr_pages + 1);
     (error, n, h, method, w) \<leftarrow> save_loop k cfg K L abort_possible step rate 0 h method w;
     let (error, h, w) =
       (if error = 0 then
          (let (error, h, w) = flush_buffer k cfg K L h w
           in if error = 0 then save_extents k K True h w else (error, h, w))
        else (error, h, w));
     Some (error, h, method, if abort_possible then restore_abort L w else w)
   }"

definition enough_swap :: "image_opts \<Rightarrow> 'w kernel \<Rightarrow> swap_writer \<Rightarrow> 'w \<Rightarrow> bool \<times> 'w" where
  "enough_swap cfg K h w =
     (let (free_swap, w) = check_free_swap K (w_dev h) w;
          sz = (if do_compress cfg then w_swap_needed h div 2 else w_swap_needed h)
      in (free_swap > sz, w))"

end
