(* ===== verification/Swap_Reader.thy ===== *)
theory Swap_Reader
  imports Swap_Writer
begin

text \<open>
  The swap reader of \<open>load.c\<close>, up to \<open>load_image\<close>: it follows the chain of extents pages that
  the swap writer left on the disk, reads the pages of the extents in order, decrypts and
  decompresses them into the image buffer, checksums the buffer and passes its pages on to the
  kernel. Timing and progress messages and the \<open>posix_fadvise\<close> hints are left out.
\<close>

section \<open>State\<close>

record load_opts =
  verify_checksum :: bool
  do_decompress :: bool
  do_decrypt :: bool
  load_compress_buf_size :: nat

record swap_reader =
  r_extents :: "extent list"
  r_cur_extent :: nat          \<comment> \<open>\<open>cur_extent - extents\<close>\<close>
  r_cur_offset :: loff_t
  r_next_extents :: loff_t
  r_total_size :: loff_t
  r_data :: "byte list"        \<comment> \<open>the image data in \<open>buffer\<close>\<close>
  r_fd :: fd
  r_ctx :: md5_ctx
  r_extents_mem :: "u64 option"
  r_buffer_mem :: "u64 option"
  r_read_buffer_mem :: "u64 option"
  r_lzo_work_mem :: "u64 option"
  r_decrypt_mem :: "u64 option"

abbreviation r_extent :: "swap_reader \<Rightarrow> extent" where
  "r_extent h \<equiv> r_extents h ! r_cur_extent h"

section \<open>Pages and extents\<close>

text \<open>The result is the error and, if a page was read, its bytes; with \<open>offset = 0\<close> nothing is
  read and that is no error.\<close>

definition read_page :: "nat \<Rightarrow> 'w kernel \<Rightarrow> fd \<Rightarrow> loff_t \<Rightarrow> 'w \<Rightarrow> (int \<times> byte list option) \<times> 'w" where
  "read_page k K fd offset w =
     (if offset = 0 then ((0, None), w)
      else let (p, w) = k_lseek K fd offset w;
               ((cnt, data), w) = (if p = offset then k_read K fd (page_bytes k) w else ((0, []), w))
           in (if cnt < psz k then (- EIO, Some data) else (0, Some data), w))"

definition extent_of_bytes :: "byte list \<Rightarrow> extent" where
  "extent_of_bytes bs = \<lparr>ext_start = loff_of bs, ext_end = loff_of (drop 8 bs)\<rparr>"

definition extents_of_page :: "nat \<Rightarrow> byte list \<Rightarrow> extent list" where
  "extents_of_page k bs = map (\<lambda>i. extent_of_bytes (drop (16 * i) bs)) [0..<max_extents k + 1]"

definition load_extents_page ::
  "nat \<Rightarrow> 'w kernel \<Rightarrow> swap_reader \<Rightarrow> 'w \<Rightarrow> int \<times> swap_reader \<times> 'w" where
  "load_extents_page k K h w =
     (let ((error, page), w) = read_page k K (r_fd h) (r_next_extents h) w;
          h = (case page of Some bs \<Rightarrow> h\<lparr>r_extents := extents_of_page k bs\<rparr> | None \<Rightarrow> h)
      in if error \<noteq> 0 then (error, h, w)
         else let n = max_extents k;
                  h = h\<lparr>r_next_extents := ext_start (r_extents h ! n)\<rparr>;
                  h = h\<lparr>r_extents := (r_extents h)[n := zero_extent], r_cur_extent := 0\<rparr>
              in (0, h\<lparr>r_cur_offset := ext_start (r_extent h)\<rparr>, w))"

definition free_swap_reader :: "load_opts \<Rightarrow> swap_reader \<Rightarrow> memalloc \<Rightarrow> memalloc" where
  "free_swap_reader cfg h m =
     (let m = (if do_decompress cfg
               then freemem (ptr_value (r_read_buffer_mem h)) (freemem (ptr_value (r_lzo_work_mem h)) m)
               else m);
          m = (if do_decrypt cfg then freemem (ptr_value (r_decrypt_mem h)) m else m)
      in freemem (ptr_value (r_extents_mem h)) (freemem (ptr_value (r_buffer_mem h)) m))"

text \<open>The buffers; \<open>None\<close> when \<open>getmem\<close> loops.\<close>

definition alloc_swap_reader ::
  "nat \<Rightarrow> load_opts \<Rightarrow> 'w libs \<Rightarrow> swap_reader \<Rightarrow> memalloc \<Rightarrow> (swap_reader \<times> memalloc) option" where
  "alloc_swap_reader k cfg L h m = do {
     (extents, m) \<leftarrow> getmem (of_nat (page_bytes k)) m;
     (buffer, m) \<leftarrow> getmem (of_nat (buffer_bytes k)) m;
     (dec, m) \<leftarrow> (if do_decrypt cfg then getmem (of_nat (page_bytes k)) m
                 else Some (r_decrypt_mem h, m));
     (rbuf, m) \<leftarrow> (if do_decompress cfg then getmem (of_nat (load_compress_buf_size cfg)) m
                  else Some (buffer, m));
     (lzo, m) \<leftarrow> (if do_decompress cfg then getmem (of_nat (lzo_work_size L)) m
                 else Some (r_lzo_work_mem h, m));
     Some (h\<lparr>r_extents_mem := extents, r_buffer_mem := buffer, r_decrypt_mem := dec,
             r_read_buffer_mem := rbuf, r_lzo_work_mem := lzo\<rparr>, m)
   }"

definition init_swap_reader ::
  "nat \<Rightarrow> load_opts \<Rightarrow> 'w kernel \<Rightarrow> 'w libs \<Rightarrow> swap_reader \<Rightarrow> fd \<Rightarrow> loff_t \<Rightarrow> loff_t \<Rightarrow> memalloc \<Rightarrow> 'w \<Rightarrow>
   (int \<times> swap_reader \<times> memalloc \<times> 'w) option" where
  "init_swap_reader k cfg K L h fd start image_size m w =
     (if start = 0 then Some (- EINVAL, h, m, w)
      else do {
        (h, m) \<leftarrow> alloc_swap_reader k cfg L (h\<lparr>r_fd := fd, r_total_size := image_size\<rparr>) m;
        let (error, h, w) = load_extents_page k K (h\<lparr>r_next_extents := start\<rparr>) w;
        if error \<noteq> 0 then Some (error, h, free_swap_reader cfg h m, w)
        else Some (0, if verify_checksum cfg then h\<lparr>r_ctx := md5_init_ctx (r_ctx h)\<rparr> else h, m, w)
      })"

text \<open>If the next extents page cannot be read, \<open>cur_offset = 0\<close> stops the reader later.\<close>

definition find_next_image_page ::
  "nat \<Rightarrow> 'w kernel \<Rightarrow> swap_reader \<Rightarrow> 'w \<Rightarrow> swap_reader \<times> 'w" where
  "find_next_image_page k K h w =
     (let h = h\<lparr>r_cur_offset := r_cur_offset h + psz k\<rparr>
      in if r_cur_offset h < ext_end (r_extent h) then (h, w)
         else let h = h\<lparr>r_cur_extent := r_cur_extent h + 1\<rparr>
              in if ext_start (r_extent h) < ext_end (r_extent h)
                 then (h\<lparr>r_cur_offset := ext_start (r_extent h)\<rparr>, w)
                 else let (error, h, w) = load_extents_page k K h w
                      in (if error \<noteq> 0 then h\<lparr>r_cur_offset := 0\<rparr> else h, w))"

section \<open>Buffers\<close>

text \<open>The page, decrypted if necessary; meaningful if the error is 0.\<close>

definition load_and_decrypt_page ::
  "nat \<Rightarrow> load_opts \<Rightarrow> 'w kernel \<Rightarrow> 'w libs \<Rightarrow> swap_reader \<Rightarrow> 'w \<Rightarrow> int \<times> byte list \<times> swap_reader \<times> 'w" where
  "load_and_decrypt_page k cfg K L h w =
     (if r_cur_offset h = 0 then (- EINVAL, [], h, w)
      else let ((error, page), w) = read_page k K (r_fd h) (r_cur_offset h) w;
               data = (case page of Some bs \<Rightarrow> bs | None \<Rightarrow> []);
               ((error, data), w) = (if error = 0 \<and> do_decrypt cfg then gcry_decrypt L data w
                                     else ((error, data), w))
           in if error = 0
              then (let (h, w) = find_next_image_page k K (h\<lparr>r_total_size := r_total_size h - psz k\<rparr>) w
                    in (0, data, h, w))
              else (error, data, h, w))"

text \<open>Loading whole pages until \<open>size\<close> bytes are there: \<open>buf\<close> holds what has been loaded.
  The option is the \<open>return 0\<close> on an error.\<close>

function load_block_pages ::
  "nat \<Rightarrow> load_opts \<Rightarrow> 'w kernel \<Rightarrow> 'w libs \<Rightarrow> nat \<Rightarrow> nat \<Rightarrow> byte list \<Rightarrow> swap_reader \<Rightarrow> 'w \<Rightarrow>
   byte list option \<times> swap_reader \<times> 'w" where
  "load_block_pages k cfg K L total_size sz buf h w =
     (if sz < total_size then
        (let (error, data, h, w) = load_and_decrypt_page k cfg K L h w
         in if error \<noteq> 0 then (None, h, w)
            else load_block_pages k cfg K L total_size (sz + page_bytes k) (buf @ data) h w)
      else (Some buf, h, w))"
  by pat_completeness auto
termination
  by (relation "measure (\<lambda>(k, cfg, K, L, total_size, sz, buf, h, w). total_size - sz)")
     (auto intro!: diff_less_mono2)

declare load_block_pages.simps [simp del]

function load_plain_pages ::
  "nat \<Rightarrow> load_opts \<Rightarrow> 'w kernel \<Rightarrow> 'w libs \<Rightarrow> nat \<Rightarrow> byte list \<Rightarrow> swap_reader \<Rightarrow> 'w \<Rightarrow>
   byte list option \<times> swap_reader \<times> 'w" where
  "load_plain_pages k cfg K L sz buf h w =
     (if sz < buffer_bytes k \<and> 0 < r_total_size h then
        (let (error, data, h, w) = load_and_decrypt_page k cfg K L h w
         in if error \<noteq> 0 then (None, h, w)
            else load_plain_pages k cfg K L (sz + page_bytes k) (buf @ data) h w)
      else (Some buf, h, w))"
  by pat_completeness auto
termination
  by (relation "measure (\<lambda>(k, cfg, K, L, sz, buf, h, w). buffer_bytes k - sz)")
     (auto intro!: diff_less_mono2)

declare load_plain_pages.simps [simp del]

text \<open>\<open>block->size\<close> is \<open>size_t\<close>; the sum with \<open>sizeof(size_t)\<close> wraps.\<close>

definition block_size :: "byte list \<Rightarrow> u64" where
  "block_size block = le_word (take 8 block)"

definition load_buffer ::
  "nat \<Rightarrow> load_opts \<Rightarrow> 'w kernel \<Rightarrow> 'w libs \<Rightarrow> swap_reader \<Rightarrow> 'w \<Rightarrow> nat \<times> swap_reader \<times> 'w" where
  "load_buffer k cfg K L h w =
     (let (res, h, w) =
        (if do_decompress cfg then
           (let (error, block, h, w) = load_and_decrypt_page k cfg K L h w
            in if error \<noteq> 0 then (None, h, w)
               else let (res, h, w) = load_block_pages k cfg K L (unat (block_size block + 8))
                                        (page_bytes k) block h w
                    in case res of None \<Rightarrow> (None, h, w)
                         | Some block \<Rightarrow>
                             (lzo_decompress L (take (unat (block_size block)) (drop 8 block)), h, w))
         else load_plain_pages k cfg K L 0 [] h w)
      in case res of None \<Rightarrow> (0, h, w)
         | Some data \<Rightarrow>
             (length data,
              h\<lparr>r_data := data,
                r_ctx := (if verify_checksum cfg then md5_process_block data (r_ctx h) else r_ctx h)\<rparr>, w))"

section \<open>Loading the image\<close>

text \<open>
  The \<open>do ... while\<close> loop of \<open>load_image\<close>, with \<open>n\<close> pages to go (at least one): \<open>buf\<close> is what
  the buffer still holds. With \<open>verify_only\<close> nothing is written.
\<close>

fun load_loop ::
  "nat \<Rightarrow> load_opts \<Rightarrow> 'w kernel \<Rightarrow> 'w libs \<Rightarrow> bool \<Rightarrow> fd \<Rightarrow> nat \<Rightarrow> byte list \<Rightarrow> swap_reader \<Rightarrow> 'w \<Rightarrow>
   int \<times> swap_reader \<times> 'w" where
  "load_loop k cfg K L verify_only dev n buf h w =
     (let (cnt, h, w) = (if buf = [] then load_buffer k cfg K L h w else (length buf, h, w))
      in if cnt = 0 then (- EIO, h, w)
         else let buf = (if buf = [] then r_data h else buf);
                  (ret, w) = (if verify_only then (psz k, w) else k_write K dev (take (page_bytes k) buf) w)
              in if ret < psz k then (- EIO, h, w)
                 else case n of
                        0 \<Rightarrow> (0, h, w)
                      | Suc n \<Rightarrow> (if n = 0 then (0, h, w)
                                  else load_loop k cfg K L verify_only dev n (drop (page_bytes k) buf) h w))"

declare load_loop.simps [simp del]

definition load_image ::
  "nat \<Rightarrow> load_opts \<Rightarrow> 'w kernel \<Rightarrow> 'w libs \<Rightarrow> swap_reader \<Rightarrow> fd \<Rightarrow> nat \<Rightarrow> bool \<Rightarrow> 'w \<Rightarrow>
   int \<times> swap_reader \<times> 'w" where
  "load_image k cfg K L h dev nr_pages verify_only w =
     load_loop k cfg K L verify_only dev nr_pages [] h w"

end
