(* ===== verification/Swap_File.thy ===== *)
theory Swap_File
  imports Swap_Reader
begin

text \<open>
  The swap writer and the swap reader together: a file of pages on the swap device. What is
  written with \<open>save_page\<close> and closed with \<open>save_extents\<close> is what the reader gets back, page by
  page and in order, through the chain of extents pages.
\<close>

section \<open>The device\<close>

text \<open>
  What the proofs need to see of the world: the page that is stored at each offset, the file
  position, the swap pages handed out by the kernel, the image bytes read from the snapshot
  device and the image bytes given back to it.
\<close>

record 'w view =
  contents :: "'w \<Rightarrow> loff_t \<Rightarrow> byte list"
  position :: "'w \<Rightarrow> loff_t"
  held :: "'w \<Rightarrow> loff_t set"
  taken :: "'w \<Rightarrow> byte list"
  given :: "'w \<Rightarrow> byte list"

definition same_view :: "'w view \<Rightarrow> 'w \<Rightarrow> 'w \<Rightarrow> bool" where
  "same_view V w w' \<longleftrightarrow> contents V w' = contents V w \<and> held V w' = held V w
     \<and> taken V w' = taken V w \<and> given V w' = given V w"

text \<open>
  The documented behaviour of the calls the page layer makes: seeking, whole-page writes and
  reads on the swap device, and the allocation of swap pages, which hands out aligned, unused
  pages with 64-bit offsets, upwards. A write may fail, a read does not.
\<close>

definition swap_device :: "nat \<Rightarrow> 'w kernel \<Rightarrow> fd \<Rightarrow> fd \<Rightarrow> 'w view \<Rightarrow> bool" where
  "swap_device k K dev fd V \<longleftrightarrow>
     hands_out k (held V) (get_swap_page K dev) \<and> hands_out_upwards (held V) (get_swap_page K dev) \<and>
     (\<forall>w. \<forall>p\<in>held V w. p + psz k < 2 ^ 63) \<and>
     (\<forall>w p w'. get_swap_page K dev w = (p, w') \<longrightarrow>
        contents V w' = contents V w \<and> taken V w' = taken V w \<and> given V w' = given V w) \<and>
     (\<forall>off w p w'. k_lseek K fd off w = (p, w') \<longrightarrow> p = off \<and> position V w' = off \<and> same_view V w w') \<and>
     (\<forall>bs w n w'. length bs = page_bytes k \<longrightarrow> k_write K fd bs w = (n, w') \<longrightarrow> n = psz k \<longrightarrow> psz k dvd position V w \<longrightarrow>
        contents V w' = (contents V w)(position V w := bs) \<and> held V w' = held V w
        \<and> taken V w' = taken V w \<and> given V w' = given V w) \<and>
     (\<forall>w n bs w'. k_read K fd (page_bytes k) w = ((n, bs), w') \<longrightarrow>
        n = psz k \<and> (psz k dvd position V w \<longrightarrow> bs = contents V w (position V w)) \<and> same_view V w w')"

lemma swap_deviceD:
  assumes "swap_device k K dev fd V"
  shows "hands_out k (held V) (get_swap_page K dev)"
    and "hands_out_upwards (held V) (get_swap_page K dev)"
    and "p \<in> held V w \<Longrightarrow> p + psz k < 2 ^ 63"
    and "get_swap_page K dev w = (p, w') \<Longrightarrow>
      contents V w' = contents V w \<and> taken V w' = taken V w \<and> given V w' = given V w"
    and "k_lseek K fd off w = (p, w') \<Longrightarrow> p = off \<and> position V w' = off \<and> same_view V w w'"
    and "k_write K fd bs w = (n, w') \<Longrightarrow> length bs = page_bytes k \<Longrightarrow> n = psz k \<Longrightarrow>
        psz k dvd position V w \<Longrightarrow> contents V w' = (contents V w)(position V w := bs) \<and> held V w' = held V w
        \<and> taken V w' = taken V w \<and> given V w' = given V w"
    and "k_read K fd (page_bytes k) w = ((n, bs), w') \<Longrightarrow>
        n = psz k \<and> (psz k dvd position V w \<longrightarrow> bs = contents V w (position V w)) \<and> same_view V w w'"
  using assms unfolding swap_device_def by (elim conjE; simp)+

lemma same_view_trans: "same_view V w w' \<Longrightarrow> same_view V w' w'' \<Longrightarrow> same_view V w w''"
  by (simp add: same_view_def)

lemma same_view_refl [simp]: "same_view V w w"
  by (simp add: same_view_def)

lemma write_page_ok:
  assumes "swap_device k K dev fd V" and "length bs = page_bytes k"
    and "write_page k K fd bs off w = (0, w')" and "psz k dvd off"
  shows "off \<noteq> 0 \<and> contents V w' = (contents V w)(off := bs) \<and> held V w' = held V w
    \<and> taken V w' = taken V w \<and> given V w' = given V w"
proof -
  obtain p w1 where l: "k_lseek K fd off w = (p, w1)" by fastforce
  have p: "p = off" "position V w1 = off" "same_view V w w1"
    using swap_deviceD(5) [OF assms(1) l] by simp_all
  obtain n w2 where wr: "k_write K fd bs w1 = (n, w2)" by fastforce
  have "off \<noteq> 0" "n = psz k" "w' = w2"
    using assms(3) l wr p(1) by (auto simp: write_page_def split: if_splits)
  moreover have "contents V w2 = (contents V w1)(position V w1 := bs) \<and> held V w2 = held V w1
    \<and> taken V w2 = taken V w1 \<and> given V w2 = given V w1"
    using swap_deviceD(6) [OF assms(1) wr assms(2) \<open>n = psz k\<close>] assms(4) p(2) by simp
  ultimately show ?thesis using p by (simp add: same_view_def)
qed

lemma read_page_ok:
  assumes "swap_device k K dev fd V" and "off \<noteq> 0" and "psz k dvd off"
  obtains w' where "read_page k K fd off w = ((0, Some (contents V w off)), w')" and "same_view V w w'"
proof -
  obtain p w1 where l: "k_lseek K fd off w = (p, w1)" by fastforce
  have p: "p = off" "position V w1 = off" "same_view V w w1"
    using swap_deviceD(5) [OF assms(1) l] by simp_all
  obtain n bs w2 where r: "k_read K fd (page_bytes k) w1 = ((n, bs), w2)"
    by (metis surj_pair)
  have "n = psz k" "bs = contents V w1 (position V w1)" "same_view V w1 w2"
    using swap_deviceD(7) [OF assms(1) r] assms(3) p(2) by simp_all
  then show ?thesis
    using that [of w2] l r p assms(2) same_view_trans
    by (auto simp: read_page_def same_view_def)
qed

lemma read_page_frame:
  assumes "swap_device k K dev fd V" and "read_page k K fd off w = (r, w')"
  shows "same_view V w w'"
proof -
  obtain p w1 where l: "k_lseek K fd off w = (p, w1)" by fastforce
  obtain n bs w2 where r: "k_read K fd (page_bytes k) w1 = ((n, bs), w2)"
    by (metis surj_pair)
  show ?thesis
    using swap_deviceD(5) [OF assms(1) l] swap_deviceD(7) [OF assms(1) r] assms(2) l r
    by (auto simp: read_page_def same_view_def split: if_splits)
qed

section \<open>The pages of an extent, in order\<close>

function seg_list :: "nat \<Rightarrow> loff_t \<Rightarrow> loff_t \<Rightarrow> loff_t list" where
  "seg_list k a b = (if a < b then a # seg_list k (a + psz k) b else [])"
  by pat_completeness auto
termination
proof (relation "measure (\<lambda>(k, a, b). nat (b - a))", goal_cases)
  case (2 k a b)
  moreover have "(0::int) < psz k" by simp
  ultimately show ?case by simp
qed simp

declare seg_list.simps [simp del]

abbreviation ext_list :: "nat \<Rightarrow> extent \<Rightarrow> loff_t list" where
  "ext_list k e \<equiv> seg_list k (ext_start e) (ext_end e)"

lemma seg_list_Nil [simp]: "b \<le> a \<Longrightarrow> seg_list k a b = []"
  by (simp add: seg_list.simps)

lemma seg_list_Cons: "a < b \<Longrightarrow> seg_list k a b = a # seg_list k (a + psz k) b"
  by (simp add: seg_list.simps)

lemma set_seg_list:
  "psz k dvd a \<Longrightarrow> psz k dvd b \<Longrightarrow> set (seg_list k a b) = seg k a b"
proof (induction k a b rule: seg_list.induct)
  case (1 k a b)
  show ?case
  proof (cases "a < b")
    case True
    then have "a + psz k \<le> b" using 1 aligned_less by blast
    then have "seg k a b = insert a (seg k (a + psz k) b)"
      using seg_insert [of a a k b] "1.prems" by simp
    then show ?thesis using 1 True by (simp add: seg_list_Cons)
  qed simp
qed

lemma distinct_seg_list: "distinct (seg_list k a b) \<and> (\<forall>p\<in>set (seg_list k a b). a \<le> p)"
proof (induction k a b rule: seg_list.induct)
  case (1 k a b)
  have "(0::int) < psz k" by simp
  show ?case
  proof (cases "a < b")
    case True
    note IH = "1.IH" [OF True]
    have "\<forall>p\<in>set (seg_list k (a + psz k) b). a < p"
      using IH \<open>0 < psz k\<close> by (smt (verit))
    then show ?thesis using IH True by (auto simp: seg_list_Cons)
  qed simp
qed

lemma set_ext_list: "ext_ok k e \<Longrightarrow> set (ext_list k e) = ext_pages k e"
  by (simp add: ext_ok_def ext_pages_def set_seg_list)

lemma ext_list_not_Nil: "ext_ok k e \<Longrightarrow> ext_list k e = ext_start e # seg_list k (ext_start e + psz k) (ext_end e)"
  by (simp add: ext_ok_def seg_list_Cons)

definition exts_list :: "nat \<Rightarrow> extent list \<Rightarrow> loff_t list" where
  "exts_list k es = concat (map (ext_list k) es)"

lemma exts_list_simps [simp]:
  "exts_list k [] = []" "exts_list k (e # es) = ext_list k e @ exts_list k es"
  "exts_list k (xs @ ys) = exts_list k xs @ exts_list k ys"
  by (simp_all add: exts_list_def)

lemma set_exts_list: "\<forall>e\<in>set es. ext_ok k e \<Longrightarrow> set (exts_list k es) = pages k es"
  by (induction es) (auto simp: set_ext_list)

lemma distinct_exts_list: "exts_ok k es \<Longrightarrow> distinct (exts_list k es)"
proof (induction es)
  case (Cons e es)
  then have ok: "ext_ok k e" "exts_ok k es" "\<forall>y\<in>set es. ext_end e < ext_start y" "\<forall>y\<in>set es. ext_ok k y"
    by (auto simp: exts_ok_Cons, simp add: exts_ok_def)
  then have "ext_pages k e \<inter> pages k es = {}"
    by (force simp: ext_pages_def pages_def seg_def)
  then show ?case
    using Cons.IH ok distinct_seg_list by (simp add: set_ext_list set_exts_list)
qed simp

section \<open>Extents on the disk\<close>

lemma length_extent_bytes [simp]: "length (extent_bytes e) = 16"
  by (simp add: extent_bytes_def)

lemma length_extents_page: "length (extents_page es) = 16 * length es"
  by (induction es) (auto simp: extents_page_def)

lemma drop_extents_page: "drop (16 * i) (extents_page es) = extents_page (drop i es)"
proof (induction i arbitrary: es)
  case (Suc i)
  show ?case
  proof (cases es)
    case (Cons e xs)
    have "drop (16 * Suc i) (extents_page es) = drop (16 * i) (drop 16 (extents_page es))"
      by (simp add: add.commute)
    also have "drop 16 (extents_page es) = extents_page xs"
      by (simp add: Cons extents_page_def)
    finally show ?thesis using Suc by (simp add: Cons)
  qed (simp add: extents_page_def)
qed simp

definition ext_range :: "extent \<Rightarrow> bool" where
  "ext_range e \<longleftrightarrow> loff_range (ext_start e) \<and> loff_range (ext_end e)"

lemma extent_of_bytes_extent_bytes:
  "ext_range e \<Longrightarrow> extent_of_bytes (extent_bytes e @ bs) = e"
  by (simp add: extent_of_bytes_def extent_bytes_def ext_range_def loff_of_bytes)

lemma extents_of_page_extents_page:
  assumes "length es = max_extents k + 1" and "\<forall>e\<in>set es. ext_range e"
  shows "extents_of_page k (extents_page es) = es"
proof (rule nth_equalityI)
  show "length (extents_of_page k (extents_page es)) = length es"
    using assms(1) by (simp add: extents_of_page_def)
  fix i assume "i < length (extents_of_page k (extents_page es))"
  then have i: "i < length es" using assms(1) by (simp add: extents_of_page_def)
  then have "drop i es = es ! i # drop (Suc i) es" by (simp add: Cons_nth_drop_Suc)
  then have "drop (16 * i) (extents_page es) = extent_bytes (es ! i) @ extents_page (drop (Suc i) es)"
    unfolding drop_extents_page by (simp add: extents_page_def)
  then show "extents_of_page k (extents_page es) ! i = es ! i"
    using i assms by (simp add: extents_of_page_def extent_of_bytes_extent_bytes del: upt_Suc)
qed

text \<open>An array with the extents \<open>es\<close> in use and \<open>l\<close> in its last slot.\<close>

definition array_of :: "nat \<Rightarrow> extent list \<Rightarrow> extent \<Rightarrow> extent list" where
  "array_of k es l = es @ replicate (max_extents k - length es) zero_extent @ [l]"

lemma length_array_of: "length es \<le> max_extents k \<Longrightarrow> length (array_of k es l) = max_extents k + 1"
  by (simp add: array_of_def)

lemma array_of_update_last:
  "length es \<le> max_extents k \<Longrightarrow> (array_of k es l)[max_extents k := l'] = array_of k es l'"
  by (simp add: array_of_def list_update_append)

lemma array_of_last: "length es \<le> max_extents k \<Longrightarrow> array_of k es l ! max_extents k = l"
  by (simp add: array_of_def nth_append)

lemma array_of_nth: "i < length es \<Longrightarrow> array_of k es l ! i = es ! i"
  by (simp add: array_of_def nth_append)

lemma array_of_next:
  "length es < max_extents k \<Longrightarrow> array_of k es l ! length es = zero_extent"
  by (simp add: array_of_def nth_append)

section \<open>The chain of extents pages\<close>

text \<open>
  A batch: the swap page of its array, the extents in use, the last slot. \<open>chain c k spc bs l\<close>:
  in the disk contents \<open>c\<close> the batches \<open>bs\<close> follow one another from the swap page \<open>spc\<close> on, and the
  lst of them points to \<open>l\<close>.
\<close>

type_synonym batch = "loff_t \<times> extent list \<times> extent"

fun chain :: "(loff_t \<Rightarrow> byte list) \<Rightarrow> nat \<Rightarrow> loff_t \<Rightarrow> batch list \<Rightarrow> loff_t \<Rightarrow> bool" where
  "chain c k spc [] l \<longleftrightarrow> spc = l"
| "chain c k spc ((p, es, lst) # bs) l \<longleftrightarrow> p = spc \<and> 0 < spc \<and> psz k dvd spc \<and> es \<noteq> [] \<and> length es \<le> max_extents k
     \<and> (\<forall>e\<in>set es. ext_ok k e) \<and> (\<forall>e\<in>set (array_of k es lst). ext_range e)
     \<and> c spc = extents_page (array_of k es lst) \<and> chain c k (ext_start lst) bs l"

definition batch_list :: "nat \<Rightarrow> batch list \<Rightarrow> loff_t list" where
  "batch_list k bs = concat (map (\<lambda>(p, es, l). exts_list k es) bs)"

lemma batch_list_simps [simp]:
  "batch_list k [] = []" "batch_list k ((p, es, l) # bs) = exts_list k es @ batch_list k bs"
  "batch_list k (bs @ bs') = batch_list k bs @ batch_list k bs'"
  by (simp_all add: batch_list_def)

lemma chain_append:
  "chain c k spc (bs @ bs') l \<longleftrightarrow> (\<exists>m. chain c k spc bs m \<and> chain c k m bs' l)"
  by (induction bs arbitrary: spc) auto

lemma chain_cong:
  "chain c k spc bs l \<Longrightarrow> \<forall>p\<in>set (map fst bs). c' p = c p \<Longrightarrow> chain c' k spc bs l"
  by (induction bs arbitrary: spc) auto

section \<open>The reader\<close>

definition reader_inv :: "nat \<Rightarrow> 'w view \<Rightarrow> swap_reader \<Rightarrow> 'w \<Rightarrow> loff_t list \<Rightarrow> bool" where
  "reader_inv k V h w rest \<longleftrightarrow> (\<exists>es bs l. r_extents h = array_of k es zero_extent
     \<and> r_cur_extent h < length es \<and> length es \<le> max_extents k \<and> (\<forall>e\<in>set es. ext_ok k e)
     \<and> 0 < r_cur_offset h \<and> psz k dvd r_cur_offset h \<and> r_cur_offset h < ext_end (es ! r_cur_extent h)
     \<and> chain (contents V w) k (r_next_extents h) bs l
     \<and> rest = seg_list k (r_cur_offset h) (ext_end (es ! r_cur_extent h))
         @ exts_list k (drop (r_cur_extent h + 1) es) @ batch_list k bs)"

lemma reader_inv_hd: "reader_inv k V h w rest \<Longrightarrow> 0 < r_cur_offset h \<and> psz k dvd r_cur_offset h \<and> rest \<noteq> [] \<and> hd rest = r_cur_offset h"
  by (auto simp: reader_inv_def seg_list_Cons)

lemma reader_inv_same: "reader_inv k V h w rest \<Longrightarrow> same_view V w w' \<Longrightarrow> reader_inv k V h w' rest"
  by (simp add: reader_inv_def same_view_def)

lemma reader_inv_cong:
  "reader_inv k V h w rest \<Longrightarrow> r_extents h' = r_extents h \<Longrightarrow> r_cur_extent h' = r_cur_extent h \<Longrightarrow>
   r_cur_offset h' = r_cur_offset h \<Longrightarrow> r_next_extents h' = r_next_extents h \<Longrightarrow>
   contents V w' = contents V w \<Longrightarrow> reader_inv k V h' w' rest"
  by (simp add: reader_inv_def)

lemma load_extents_page_chain:
  assumes dev: "swap_device k K dev (r_fd h) V"
    and ch: "chain (contents V w) k (r_next_extents h) ((p, es, lst) # bs) l"
  obtains h' w' where "load_extents_page k K h w = (0, h', w')" and "same_view V w w'"
    and "reader_inv k V h' w' (exts_list k es @ batch_list k bs)" and "r_fd h' = r_fd h"
    and "r_total_size h' = r_total_size h" and "r_ctx h' = r_ctx h" and "r_data h' = r_data h"
proof -
  let ?p = "r_next_extents h"
  have c: "?p \<noteq> 0" "es \<noteq> []" "length es \<le> max_extents k" "\<forall>e\<in>set es. ext_ok k e"
    "\<forall>e\<in>set (array_of k es lst). ext_range e"
    "contents V w ?p = extents_page (array_of k es lst)"
    "chain (contents V w) k (ext_start lst) bs l" "psz k dvd ?p"
    using ch by auto
  obtain w' where r: "read_page k K (r_fd h) ?p w = ((0, Some (contents V w ?p)), w')"
    and sv: "same_view V w w'"
    using read_page_ok [OF dev c(1) c(8)] .
  have arr: "extents_of_page k (contents V w ?p) = array_of k es lst"
    unfolding c(6) using c(3,5) by (intro extents_of_page_extents_page) (simp_all add: length_array_of)
  define h' where "h' = h\<lparr>r_extents := array_of k es zero_extent, r_next_extents := ext_start lst,
    r_cur_extent := 0, r_cur_offset := ext_start (es ! 0)\<rparr>"
  have "load_extents_page k K h w = (0, h', w')"
    using r arr c(2,3) by (simp add: load_extents_page_def Let_def array_of_last array_of_update_last
        array_of_nth h'_def)
  moreover have "reader_inv k V h' w' (exts_list k es @ batch_list k bs)"
  proof -
    obtain e es' where es: "es = e # es'" using c(2) by (cases es) auto
    then have "ext_ok k e" using c(4) by simp
    then show ?thesis
      unfolding reader_inv_def using c sv es
      by (intro exI [of _ es] exI [of _ bs] exI [of _ l]) (auto simp: h'_def ext_ok_def same_view_def)
  qed
  ultimately show ?thesis using that sv by (simp add: h'_def)
qed

lemma find_next_image_page_inv:
  assumes dev: "swap_device k K dev (r_fd h) V" and inv: "reader_inv k V h w (p # q # rest)"
  obtains h' w' where "find_next_image_page k K h w = (h', w')" and "same_view V w w'"
    and "reader_inv k V h' w' (q # rest)" and "r_fd h' = r_fd h" and "r_total_size h' = r_total_size h"
    and "r_ctx h' = r_ctx h" and "r_data h' = r_data h"
proof -
  obtain es bs l where e: "r_extents h = array_of k es zero_extent" "r_cur_extent h < length es"
    "length es \<le> max_extents k" "\<forall>e\<in>set es. ext_ok k e" "0 < r_cur_offset h"
    "r_cur_offset h < ext_end (es ! r_cur_extent h)" "chain (contents V w) k (r_next_extents h) bs l"
    and al: "psz k dvd r_cur_offset h" and rest: "p # q # rest = seg_list k (r_cur_offset h) (ext_end (es ! r_cur_extent h))
         @ exts_list k (drop (r_cur_extent h + 1) es) @ batch_list k bs"
    using inv unfolding reader_inv_def by blast
  let ?i = "r_cur_extent h" and ?off = "r_cur_offset h + psz k"
  let ?h = "h\<lparr>r_cur_offset := ?off\<rparr>"
  have pos: "0 < ?off" using e(5) by (simp add: add_pos_pos)
  have tl: "q # rest = seg_list k ?off (ext_end (es ! ?i)) @ exts_list k (drop (?i + 1) es) @ batch_list k bs"
    using rest e(6) by (simp add: seg_list_Cons)
  show ?thesis
  proof (cases "?off < ext_end (es ! ?i)")
    case True
    then have "find_next_image_page k K h w = (?h, w)"
      using e by (simp add: find_next_image_page_def Let_def array_of_nth)
    moreover have "reader_inv k V ?h w (q # rest)"
      unfolding reader_inv_def using e tl True pos al by (intro exI [of _ es] exI [of _ bs] exI [of _ l]) auto
    ultimately show ?thesis using that by simp
  next
    case off: False
    let ?h2 = "?h\<lparr>r_cur_extent := ?i + 1\<rparr>"
    have tl: "q # rest = exts_list k (drop (?i + 1) es) @ batch_list k bs" using tl off by simp
    show ?thesis
    proof (cases "?i + 1 < length es")
      case True
      let ?e = "es ! (?i + 1)"
      have ok: "ext_ok k ?e" using e(4) True by simp
      have d: "drop (?i + 1) es = ?e # drop (?i + 2) es" using True by (simp add: Cons_nth_drop_Suc)
      have "find_next_image_page k K h w = (?h2\<lparr>r_cur_offset := ext_start ?e\<rparr>, w)"
        using e off True ok by (simp add: find_next_image_page_def Let_def array_of_nth ext_ok_def)
      moreover have "reader_inv k V (?h2\<lparr>r_cur_offset := ext_start ?e\<rparr>) w (q # rest)"
        unfolding reader_inv_def using e tl True ok d
        by (intro exI [of _ es] exI [of _ bs] exI [of _ l]) (auto simp: ext_ok_def)
      ultimately show ?thesis using that by simp
    next
      case False
      then have i: "?i + 1 = length es" using e(2) by simp
      then have "q # rest = batch_list k bs" using tl by simp
      then obtain sp es2 lst bs' where bs: "bs = (sp, es2, lst) # bs'" by (cases bs) auto
      have z: "array_of k es zero_extent ! (?i + 1) = zero_extent"
        using i e(3) by (cases "length es < max_extents k") (auto simp: array_of_next array_of_last)
      have f: "find_next_image_page k K h w = (let (error, h, w) = load_extents_page k K ?h2 w
          in (if error \<noteq> 0 then h\<lparr>r_cur_offset := 0\<rparr> else h, w))"
        using e off z by (simp add: find_next_image_page_def Let_def array_of_nth)
      obtain h' w' where "load_extents_page k K ?h2 w = (0, h', w')" "same_view V w w'"
        "reader_inv k V h' w' (exts_list k es2 @ batch_list k bs')" "r_fd h' = r_fd ?h2"
        "r_total_size h' = r_total_size ?h2" "r_ctx h' = r_ctx ?h2" "r_data h' = r_data ?h2"
        using load_extents_page_chain [of k K dev ?h2 V w sp es2 lst bs' l] dev e(7) bs by auto
      then show ?thesis using that [of h' w'] f \<open>q # rest = batch_list k bs\<close> bs by simp
    qed
  qed
qed

lemma load_extents_page_frame:
  assumes "swap_device k K dev (r_fd h) V" and "load_extents_page k K h w = (error, h', w')"
  shows "same_view V w w' \<and> r_fd h' = r_fd h \<and> r_total_size h' = r_total_size h \<and> r_ctx h' = r_ctx h"
proof -
  obtain e page w1 where "read_page k K (r_fd h) (r_next_extents h) w = ((e, page), w1)" by (metis surj_pair)
  then show ?thesis
    using assms(2) read_page_frame [OF assms(1)]
    by (auto simp: load_extents_page_def Let_def split: if_splits option.splits)
qed

lemma find_next_image_page_frame:
  assumes "swap_device k K dev (r_fd h) V" and "find_next_image_page k K h w = (h', w')"
  shows "same_view V w w' \<and> r_fd h' = r_fd h \<and> r_total_size h' = r_total_size h \<and> r_ctx h' = r_ctx h"
proof -
  let ?h = "h\<lparr>r_cur_offset := r_cur_offset h + psz k, r_cur_extent := r_cur_extent h + 1\<rparr>"
  obtain error h2 w2 where l: "load_extents_page k K ?h w = (error, h2, w2)" by (metis surj_pair)
  have "same_view V w w2 \<and> r_fd h2 = r_fd h \<and> r_total_size h2 = r_total_size h \<and> r_ctx h2 = r_ctx h"
    using load_extents_page_frame [OF _ l] assms(1) by simp
  then show ?thesis
    using assms(2) l by (auto simp: find_next_image_page_def Let_def split: if_splits)
qed

text \<open>One page: the data at the current offset. After the last page the state of the reader does
  not matter.\<close>

lemma load_page_inv:
  assumes dev: "swap_device k K dev (r_fd h) V" and inv: "reader_inv k V h w (p # rest)"
    and enc: "\<not> do_decrypt cfg"
  obtains h' w' where "load_and_decrypt_page k cfg K L h w = (0, contents V w p, h', w')"
    and "same_view V w w'" and "rest \<noteq> [] \<Longrightarrow> reader_inv k V h' w' rest" and "r_fd h' = r_fd h"
    and "r_total_size h' = r_total_size h - psz k" and "r_ctx h' = r_ctx h"
proof -
  have p: "r_cur_offset h = p" "p \<noteq> 0" "psz k dvd p" using reader_inv_hd [OF inv] by auto
  obtain w1 where r: "read_page k K (r_fd h) p w = ((0, Some (contents V w p)), w1)"
    and sv: "same_view V w w1"
    using read_page_ok [OF dev p(2,3)] .
  let ?h = "h\<lparr>r_total_size := r_total_size h - psz k\<rparr>"
  obtain h' w' where f: "find_next_image_page k K ?h w1 = (h', w')" by fastforce
  have l: "load_and_decrypt_page k cfg K L h w = (0, contents V w p, h', w')"
    using p r f enc by (simp add: load_and_decrypt_page_def)
  have inv1: "reader_inv k V ?h w1 (p # rest)"
    using reader_inv_cong [OF reader_inv_same [OF inv sv]] by simp
  show ?thesis
  proof (cases rest)
    case (Cons q rest')
    have dev1: "swap_device k K dev (r_fd ?h) V" and inv2: "reader_inv k V ?h w1 (p # q # rest')"
      using dev inv1 Cons by simp_all
    obtain h2 w2 where "find_next_image_page k K ?h w1 = (h2, w2)" "same_view V w1 w2"
      "reader_inv k V h2 w2 rest" "r_fd h2 = r_fd ?h" "r_total_size h2 = r_total_size ?h" "r_ctx h2 = r_ctx ?h"
      unfolding Cons by (rule find_next_image_page_inv [OF dev1 inv2])
    then show ?thesis using that l f same_view_trans [OF sv] by simp
  next
    case Nil
    have "same_view V w1 w' \<and> r_fd h' = r_fd h \<and> r_total_size h' = r_total_size ?h \<and> r_ctx h' = r_ctx h"
      using find_next_image_page_frame [OF _ f] dev by simp
    then show ?thesis using that l same_view_trans [OF sv] Nil by simp
  qed
qed

section \<open>The writer\<close>

lemma alloc_swap_loop_rel:
  assumes "\<And>w p w'. get w = (p, w') \<Longrightarrow> R w w'" and "reflp R" and "transp R"
  shows "alloc_swap_loop k get total_size exts nr sz w = (r, exts', sz', w') \<Longrightarrow> R w w'"
  using assms(1)
proof (induction k get total_size exts nr sz w rule: alloc_swap_loop.induct)
  case (1 k get total_size exts nr sz w)
  obtain p w1 where g: "get w = (p, w1)" by fastforce
  obtain exts1 nr1 where pl: "place_page k exts nr p = (exts1, nr1)" by fastforce
  note gw = "1.prems"(2) [OF g]
  show ?case
  proof (cases "(sz < total_size \<and> nr \<le> max_extents k) \<and> p \<noteq> 0")
    case True
    then have c: "sz < total_size \<and> nr \<le> max_extents k" and p: "p \<noteq> 0" by auto
    have rec: "alloc_swap_loop k get total_size exts1 nr1 (sz + psz k) w1 = (r, exts', sz', w')"
      using c p g pl "1.prems"(1) by (simp add: alloc_swap_loop.simps [of k get total_size exts nr sz w])
    from "1.IH" [OF c refl g [symmetric] p refl pl [symmetric] rec "1.prems"(2)] gw show ?thesis
      by (rule transpD [OF assms(3), rotated])
  next
    case False
    then show ?thesis
      using g gw "1.prems"(1) reflpD [OF assms(2), of w]
      by (auto simp: alloc_swap_loop.simps [of k get total_size exts nr sz w] split: if_splits)
  qed
qed

lemma alloc_swap_rel:
  assumes "\<And>w p w'. get_swap_page K dev w = (p, w') \<Longrightarrow> R w w'" and "reflp R" and "transp R"
    and "alloc_swap k K dev exts nr total_size w = (r, exts', sz', w')"
  shows "R w w'"
proof -
  obtain p w1 where p: "get_swap_page K dev w = (p, w1)" by fastforce
  note loop = alloc_swap_loop_rel [of "get_swap_page K dev" R, OF assms(1-3)]
  consider "nr \<noteq> 0" | "nr = 0" "p = 0" | "nr = 0" "p \<noteq> 0" by blast
  then show ?thesis
  proof cases
    case 1
    then show ?thesis using assms(4) by (intro loop) (simp_all add: alloc_swap_def)
  next
    case 2
    then show ?thesis using assms(4) p assms(1) [OF p] by (simp add: alloc_swap_def)
  next
    case 3
    have "R w1 w'" using 3 assms(4) p by (intro loop) (simp_all add: alloc_swap_def)
    with assms(1) [OF p] show ?thesis by (rule transpD [OF assms(3)])
  qed
qed

lemma alloc_swap_frame:
  assumes "\<And>w p w'. get_swap_page K dev w = (p, w') \<Longrightarrow> g w' = g w"
    and "alloc_swap k K dev exts nr total_size w = (r, exts', sz', w')"
  shows "g w' = g w"
  by (rule alloc_swap_rel [where R = "\<lambda>w w'. g w' = g w", OF assms(1) _ _ assms(2)])
     (auto simp: reflp_def transp_def)

text \<open>The pages that an allocation adds lie behind those that were held before.\<close>

definition grows_upwards :: "'w view \<Rightarrow> 'w \<Rightarrow> 'w \<Rightarrow> bool" where
  "grows_upwards V w w' \<longleftrightarrow> held V w \<subseteq> held V w' \<and> (\<forall>q\<in>held V w' - held V w. \<forall>r\<in>held V w. r < q)"

lemma grows_upwards_refl: "reflp (grows_upwards V)"
  by (simp add: reflp_def grows_upwards_def)

lemma grows_upwards_trans: "transp (grows_upwards V)"
proof (rule transpI)
  fix w1 w2 w3 assume a: "grows_upwards V w1 w2" "grows_upwards V w2 w3"
  have "r < q" if q: "q \<in> held V w3" "q \<notin> held V w1" and r: "r \<in> held V w1" for q r
    using a q r unfolding grows_upwards_def by (cases "q \<in> held V w2") blast+
  then show "grows_upwards V w1 w3" using a unfolding grows_upwards_def by blast
qed

lemma get_swap_page_grows:
  assumes "swap_device k K dev fd V" and "get_swap_page K dev w = (p, w')"
  shows "grows_upwards V w w'"
proof (cases "p = 0")
  case True
  then have "held V w' = held V w"
    using swap_deviceD(1) [OF assms(1)] assms(2) unfolding hands_out_def by fastforce
  then show ?thesis by (simp add: grows_upwards_def)
next
  case False
  then have "held V w' = insert p (held V w)" "\<forall>q\<in>held V w. q < p"
    using hands_outD [OF swap_deviceD(1) [OF assms(1)] assms(2)] swap_deviceD(2) [OF assms(1)] assms(2)
    unfolding hands_out_upwards_def by blast+
  then show ?thesis by (auto simp: grows_upwards_def)
qed

lemma array_of_take:
  assumes t: "table_ok k exts nr" and c: "slots_clean k exts nr"
  shows "exts = array_of k (take (min nr (max_extents k)) exts) (exts ! max_extents k)"
proof (rule nth_equalityI)
  have len: "length exts = max_extents k + 1" using t by (simp add: table_ok_def)
  then show "length exts = length (array_of k (take (min nr (max_extents k)) exts) (exts ! max_extents k))"
    by (simp add: array_of_def)
  fix i assume "i < length exts"
  then consider "i < min nr (max_extents k)" | "i = max_extents k" | "nr \<le> i" "i < max_extents k"
    using len by linarith
  then show "exts ! i = array_of k (take (min nr (max_extents k)) exts) (exts ! max_extents k) ! i"
    by cases (use len c in \<open>auto simp: array_of_def nth_append slots_clean_def min_def\<close>)
qed

lemma zero_extent_pages [simp]: "ext_pages k zero_extent = {}"
  by (simp add: ext_pages_def)

lemma zero_not_ok [simp]: "\<not> ext_ok k zero_extent"
  by (simp add: ext_ok_def)

definition supply_ok :: "nat \<Rightarrow> extent list \<Rightarrow> extent \<Rightarrow> bool" where
  "supply_ok k es ov \<longleftrightarrow> es \<noteq> [] \<and> length es \<le> max_extents k \<and> exts_ok k es
     \<and> (ov = zero_extent \<or> length es = max_extents k \<and> ext_ok k ov) \<and> ext_pages k ov \<inter> pages k es = {}"

lemma preallocate_swap_ok:
  assumes dev: "swap_device k K (w_dev h) fd V" and k: "5 \<le> k"
    and ext: "ext = zero_extent \<or> ext_ok k ext" "ext_pages k ext \<subseteq> held V w"
    and h: "w_extents h = (zero_extents k)[0 := ext]" "w_nr_extents h = (if ext = zero_extent then 0 else 1)"
    and pre: "preallocate_swap k cfg K h w = (p, h', w')" and p: "p \<noteq> 0"
  obtains es ov where "h' = h\<lparr>w_extents := array_of k es ov, w_nr_extents := length es,
      w_cur_extent_idx := 0, w_cur_offset := p\<rparr>" and "p = ext_start (es ! 0)" and "supply_ok k es ov"
    and "pages k es \<union> ext_pages k ov = ext_pages k ext \<union> (held V w' - held V w)"
    and "held V w \<subseteq> held V w'" and "contents V w' = contents V w" and "taken V w' = taken V w"
    and "given V w' = given V w" and "grows_upwards V w w'"
proof -
  note max = max_extents_pos [OF k]
  define total where "total = (if do_compress cfg \<and> w_swap_needed h > psz k then w_swap_needed h div 2 else w_swap_needed h)"
  obtain r exts sz w2 where a: "alloc_swap k K (w_dev h) (w_extents h) (w_nr_extents h) total w = (r, exts, sz, w2)"
    by (metis surj_pair)
  have r: "0 < r" and w': "w' = w2"
    and h': "h' = h\<lparr>w_extents := exts, w_nr_extents := (if r < int (max_extents k) then nat r else max_extents k),
      w_cur_extent_idx := 0, w_cur_offset := ext_start (exts ! 0)\<rparr>" "p = ext_start (exts ! 0)"
    using pre p a by (auto simp: preallocate_swap_def total_def Let_def split: if_splits)
  have len: "length (w_extents h) = max_extents k + 1" by (simp add: h(1) zero_extents_def)
  have tk: "take 1 (w_extents h) = [ext]" by (simp add: h(1) zero_extents_def)
  have t0: "w_nr_extents h = 0 \<or> table_ok k (w_extents h) (w_nr_extents h)"
    using ext(1) len tk max h(2) by (auto simp: table_ok_def exts_ok_def min_def)
  have pg0: "pages k (take (w_nr_extents h) (w_extents h)) = ext_pages k ext"
    using h(2) tk by auto
  have c0: "slots_clean k (w_extents h) (w_nr_extents h)"
    using h max by (auto simp: slots_clean_def zero_extents_def nth_list_update simp del: replicate_Suc)
  have sub0: "pages k (take (w_nr_extents h) (w_extents h)) \<subseteq> held V w" using pg0 ext(2) by simp
  note hand = swap_deviceD(1) [OF dev] and up = swap_deviceD(2) [OF dev]
  have "r \<noteq> - ENOSPC" using r by simp
  from alloc_swap_ok [OF hand k len t0 sub0 a this]
  obtain nr where nr: "r = int nr" "table_ok k exts nr" "held V w \<subseteq> held V w2"
    "pages k (take nr exts) = ext_pages k ext \<union> (held V w2 - held V w)" using pg0 by auto
  have cl: "slots_clean k exts nr"
    using alloc_swap_clean [OF hand up k len t0 sub0 c0 a [unfolded nr(1)]] .
  define es where "es = take (min nr (max_extents k)) exts"
  define ov where "ov = exts ! max_extents k"
  have lexts: "length exts = max_extents k + 1" and nr0: "0 < nr" "nr \<le> max_extents k + 1"
    using nr(2) by (auto simp: table_ok_def)
  have arr: "exts = array_of k es ov" unfolding es_def ov_def by (rule array_of_take [OF nr(2) cl])
  have les: "length es = min nr (max_extents k)" using lexts by (simp add: es_def)
  then have ne: "es \<noteq> []" using nr0 max by (cases es) auto
  have pgs: "pages k es \<union> ext_pages k ov = pages k (take nr exts)"
    and ovs: "ov = zero_extent \<or> length es = max_extents k \<and> ext_ok k ov"
    and dj: "ext_pages k ov \<inter> pages k es = {}"
  proof -
    have "(nr \<le> max_extents k \<and> es = take nr exts \<and> ov = zero_extent) \<or>
        (nr = max_extents k + 1 \<and> take nr exts = es @ [ov])"
    proof (cases "nr \<le> max_extents k")
      case True
      then show ?thesis using cl by (simp add: es_def ov_def slots_clean_def)
    next
      case False
      then have "nr = Suc (max_extents k)" using nr0 by simp
      then show ?thesis
        using lexts take_Suc_conv_app_nth [of "max_extents k" exts] by (simp add: es_def ov_def)
    qed
    then show "pages k es \<union> ext_pages k ov = pages k (take nr exts)"
      by (elim disjE conjE) (simp_all add: Un_commute)
  next
    show "ov = zero_extent \<or> length es = max_extents k \<and> ext_ok k ov" "ext_pages k ov \<inter> pages k es = {}"
      using nr(2) les cl nr0 unfolding table_ok_def ov_def es_def slots_clean_def
      by (auto simp: min_def le_Suc_eq)
  qed
  have "exts_ok k es" using nr(2) by (simp add: table_ok_def es_def)
  then have "supply_ok k es ov" using ne les ovs dj by (simp add: supply_ok_def)
  moreover have "(if r < int (max_extents k) then nat r else max_extents k) = length es"
    using nr(1) les by auto
  moreover have "ext_start (exts ! 0) = ext_start (es ! 0)"
    using arr ne by (simp add: array_of_nth)
  moreover have "contents V w2 = contents V w" "taken V w2 = taken V w" "given V w2 = given V w"
    using swap_deviceD(4) [OF dev] by (rule_tac [!] alloc_swap_frame [OF _ a]) blast+
  moreover have "grows_upwards V w w2"
    by (rule alloc_swap_rel [OF get_swap_page_grows [OF dev] grows_upwards_refl grows_upwards_trans a])
  ultimately show ?thesis
    using that h' w' arr nr(3,4) pgs by simp
qed


text \<open>
  The state of the writer when the batches \<open>bs\<close> have been saved and \<open>us\<close> are the pages used of
  the current one: \<open>es\<close> are its extents, \<open>ov\<close> the overflow extent.
\<close>

definition writer_rest :: "nat \<Rightarrow> swap_writer \<Rightarrow> extent list \<Rightarrow> loff_t list" where
  "writer_rest k h es = seg_list k (w_cur_offset h + psz k) (ext_end (es ! w_cur_extent_idx h))
     @ exts_list k (drop (w_cur_extent_idx h + 1) es)"

definition writer_at ::
  "nat \<Rightarrow> 'w view \<Rightarrow> loff_t \<Rightarrow> swap_writer \<Rightarrow> 'w \<Rightarrow> batch list \<Rightarrow> loff_t list \<Rightarrow> extent list \<Rightarrow> extent \<Rightarrow> bool" where
  "writer_at k V start h w bs us es ov \<longleftrightarrow>
     w_extents h = array_of k es ov \<and> w_nr_extents h = length es \<and> supply_ok k es ov
     \<and> w_cur_extent_idx h < length es \<and> exts_list k es = us @ writer_rest k h es
     \<and> 0 < w_extents_spc h \<and> psz k dvd w_extents_spc h \<and> chain (contents V w) k start bs (w_extents_spc h)
     \<and> distinct (batch_list k bs @ map fst bs @ [w_extents_spc h])
     \<and> (pages k es \<union> ext_pages k ov) \<inter> (set (batch_list k bs) \<union> set (map fst bs) \<union> {w_extents_spc h}) = {}
     \<and> set (batch_list k bs) \<union> set (map fst bs) \<union> {w_extents_spc h} \<union> pages k es \<union> ext_pages k ov
         \<subseteq> held V w
     \<and> (\<forall>q\<in>set (batch_list k bs) \<union> set (map fst bs) \<union> {w_extents_spc h} \<union> pages k es \<union> ext_pages k ov. start \<le> q)"

lemma chain_start: "chain c k start bs l \<Longrightarrow> start = l \<or> start \<in> set (map fst bs)"
  by (cases bs) auto

text \<open>What \<open>next_swap_page\<close> does when the extents are used up.\<close>

definition refill ::
  "nat \<Rightarrow> image_opts \<Rightarrow> 'w kernel \<Rightarrow> extent list \<Rightarrow> extent \<Rightarrow> swap_writer \<Rightarrow> 'w \<Rightarrow> loff_t \<times> swap_writer \<times> 'w" where
  "refill k cfg K es ov h w =
     (let h = h\<lparr>w_extents := array_of k es zero_extent, w_nr_extents := (if ov = zero_extent then 0 else 1)\<rparr>;
          (error, h, w) = save_extents k K False h w
      in if error \<noteq> 0 then (0, h, w)
         else preallocate_swap k cfg K (h\<lparr>w_extents := (zero_extents k)[0 := ov]\<rparr>) w)"

lemma supply_okD:
  assumes "supply_ok k es ov"
  shows "es \<noteq> []" "length es \<le> max_extents k" "exts_ok k es" "\<forall>e\<in>set es. ext_ok k e"
    "ov = zero_extent \<or> length es = max_extents k \<and> ext_ok k ov" "ext_pages k ov \<inter> pages k es = {}"
  using assms unfolding supply_ok_def exts_ok_def by blast+

lemma next_swap_page_cases:
  assumes "w_extents h = array_of k es ov" and "w_nr_extents h = length es" and "supply_ok k es ov"
    and i: "w_cur_extent_idx h < length es" and "0 \<le> w_cur_offset h + psz k"
  shows "(\<exists>p rest. writer_rest k h es = p # rest
      \<and> (\<exists>h'. next_swap_page k cfg K h w = (p, h', w)
          \<and> h' = h\<lparr>w_cur_offset := p, w_cur_extent_idx := w_cur_extent_idx h'\<rparr>
          \<and> w_cur_extent_idx h' < length es \<and> writer_rest k h' es = rest))
    \<or> (writer_rest k h es = [] \<and>
        next_swap_page k cfg K h w = refill k cfg K es ov
          (h\<lparr>w_cur_offset := w_cur_offset h + psz k, w_cur_extent_idx := length es\<rparr>) w)"
proof -
  note s = supply_okD [OF assms(3)]
  let ?i = "w_cur_extent_idx h" and ?off = "w_cur_offset h + psz k"
  consider (same) "?off < ext_end (es ! ?i)" | (nxt) "ext_end (es ! ?i) \<le> ?off" "?i + 1 < length es"
    | (refill) "ext_end (es ! ?i) \<le> ?off" "?i + 1 = length es"
    using i by linarith
  then show ?thesis
  proof cases
    case same
    then have "next_swap_page k cfg K h w = (?off, h\<lparr>w_cur_offset := ?off\<rparr>, w)"
      using assms by (simp add: next_swap_page_def Let_def w_cur_extent_def array_of_nth)
    then show ?thesis using same i
      by (intro disjI1) (simp add: writer_rest_def seg_list_Cons)
  next
    case nxt
    let ?e = "es ! (?i + 1)" and ?h = "h\<lparr>w_cur_offset := ext_start (es ! (?i + 1)), w_cur_extent_idx := ?i + 1\<rparr>"
    have ok: "ext_ok k ?e" using s(4) nxt(2) by simp
    have d: "drop (?i + 1) es = ?e # drop (?i + 2) es" using nxt(2) by (simp add: Cons_nth_drop_Suc)
    have "next_swap_page k cfg K h w = (ext_start ?e, ?h, w)"
      using assms nxt by (simp add: next_swap_page_def Let_def w_cur_extent_def array_of_nth)
    moreover have "writer_rest k h es = ext_start ?e # writer_rest k ?h es"
      using nxt d ext_list_not_Nil [OF ok] by (simp add: writer_rest_def)
    ultimately show ?thesis using nxt(2) by (intro disjI1) (auto intro!: exI [of _ ?h])
  next
    case refill
    have e: "array_of k es ov ! length es = (if length es = max_extents k then ov else zero_extent)"
      using s(2) by (cases "length es < max_extents k") (auto simp: array_of_next array_of_last)
    have z: "ov \<noteq> zero_extent \<Longrightarrow> length es = max_extents k \<and> ext_start ov < ext_end ov"
      using s(5) by (auto simp: ext_ok_def)
    have u: "ov \<noteq> zero_extent \<Longrightarrow> (array_of k es ov)[length es := zero_extent] = array_of k es zero_extent"
      using z array_of_update_last [of es k ov zero_extent] by simp
    let ?h = "h\<lparr>w_cur_offset := ?off, w_cur_extent_idx := length es\<rparr>"
    have idx: "w_cur_extent_idx h + 1 = length es" "\<not> ?off < ext_end (es ! ?i)" using refill by simp_all
    have "next_swap_page k cfg K h w = refill k cfg K es ov ?h w"
    proof (cases "ov = zero_extent")
      case True
      have "?h\<lparr>w_extents := array_of k es zero_extent\<rparr> = ?h"
        using assms(1) True by (cases h) simp
      then have "refill k cfg K es ov ?h w =
          (let (error, h, w) = save_extents k K False (?h\<lparr>w_nr_extents := 0\<rparr>) w
           in if error \<noteq> 0 then (0, h, w)
              else preallocate_swap k cfg K (h\<lparr>w_extents := (zero_extents k)[0 := ov]\<rparr>) w)"
        using True by (simp only: refill_def if_True Let_def simp_thms)
      moreover have "array_of k es ov ! length es = zero_extent" using e True by simp
      ultimately show ?thesis
        using assms(1,2) i idx unfolding True
        by (simp add: next_swap_page_def Let_def w_cur_extent_def array_of_nth)
    next
      case False
      note z [OF False] u [OF False]
      moreover have "array_of k es ov ! length es = ov" using e z [OF False] by simp
      ultimately show ?thesis
        using assms(1,2) i idx False
        by (simp add: next_swap_page_def refill_def Let_def w_cur_extent_def array_of_nth)
    qed
    moreover have "writer_rest k h es = []" using refill i by (simp add: writer_rest_def)
    ultimately show ?thesis by (intro disjI2) simp
  qed
qed


text \<open>The fields of the writer that allocation leaves alone.\<close>

definition same_writer :: "swap_writer \<Rightarrow> swap_writer \<Rightarrow> bool" where
  "same_writer h h' \<longleftrightarrow> w_dev h' = w_dev h \<and> w_fd h' = w_fd h \<and> w_data h' = w_data h
     \<and> w_block h' = w_block h \<and> w_ctx h' = w_ctx h \<and> w_input h' = w_input h"

lemma ext_range_held:
  assumes dev: "swap_device k K dev fd V" and "ext_ok k e" and "ext_pages k e \<subseteq> held V w"
  shows "ext_range e"
proof -
  have "ext_start e \<le> ext_end e - psz k"
    using assms(2) aligned_less [of k "ext_start e" "ext_end e"] by (simp add: ext_ok_def)
  then have "ext_end e - psz k \<in> ext_pages k e"
    using assms(2) by (simp add: ext_pages_def seg_def ext_ok_def)
  then have "ext_end e < 2 ^ 63"
    using swap_deviceD(3) [OF dev] assms(3) by (metis diff_add_cancel subsetD)
  then show ?thesis
    using assms(2) by (auto simp: ext_range_def loff_range_def ext_ok_def)
qed

lemma array_range:
  assumes dev: "swap_device k K dev fd V" and "supply_ok k es ov" and "pages k es \<subseteq> held V w"
    and "ext_range l" and "e \<in> set (array_of k es l)"
  shows "ext_range e"
proof -
  have "ext_range zero_extent" by (simp add: ext_range_def loff_range_def)
  moreover have "ext_range e" if "e \<in> set es"
    using that assms(3) supply_okD(4) [OF assms(2)]
    by (intro ext_range_held [OF dev, of _ w]) (auto simp: pages_def)
  ultimately show ?thesis using assms(4,5) by (auto simp: array_of_def)
qed

lemma page_array_bytes:
  assumes "length es \<le> max_extents k" and "5 \<le> k"
  shows "length (extents_page (array_of k es l)) = page_bytes k"
proof -
  have "16 * (max_extents k + 1) = page_bytes k"
  proof -
    have "(16::nat) dvd 2 ^ k" using assms(2) le_imp_power_dvd [of 4 k "2::nat"] by simp
    then show ?thesis using max_extents_pos [OF assms(2)] by (auto simp: max_extents_def)
  qed
  then show ?thesis using assms(1) by (simp add: length_extents_page length_array_of)
qed

lemma save_extents_ok:
  assumes dev: "swap_device k K (w_dev h) (w_fd h) V" and k: "5 \<le> k"
    and ex: "w_extents h = array_of k es zero_extent" "length es \<le> max_extents k" "psz k dvd w_extents_spc h"
    and sv: "save_extents k K False h w = (0, h', w')"
  obtains link where "h' = h\<lparr>w_extents := array_of k es \<lparr>ext_start = link, ext_end = 0\<rparr>, w_extents_spc := link\<rparr>"
    and "0 < link" and "psz k dvd link" and "link \<notin> held V w" and "held V w' = insert link (held V w)"
    and "\<forall>q\<in>held V w. q < link" and "contents V w' = (contents V w)(w_extents_spc h := extents_page (array_of k es \<lparr>ext_start = link, ext_end = 0\<rparr>))"
    and "taken V w' = taken V w" and "given V w' = given V w"
proof -
  obtain link w1 where g: "get_swap_page K (w_dev h) w = (link, w1)" by fastforce
  have l0: "link \<noteq> 0" using sv g by (auto simp: save_extents_def split: if_splits)
  let ?l = "\<lparr>ext_start = link, ext_end = 0\<rparr>"
  have arr: "(w_extents h)[max_extents k := (w_extents h ! max_extents k)\<lparr>ext_start := link\<rparr>] = array_of k es ?l"
    using ex by (simp add: array_of_last array_of_update_last)
  obtain error w2 where wp: "write_page k K (w_fd h) (extents_page (array_of k es ?l)) (w_extents_spc h) w1 = (error, w2)"
    by fastforce
  have s: "error = 0" "h' = h\<lparr>w_extents := array_of k es ?l, w_extents_spc := link\<rparr>" "w' = w2"
    using sv g l0 arr wp by (auto simp: save_extents_def Let_def)
  note w1 = swap_deviceD(4) [OF dev g] hands_outD [OF swap_deviceD(1) [OF dev] g l0]
  have above: "\<forall>q\<in>held V w. q < link"
    using swap_deviceD(2) [OF dev] g l0 unfolding hands_out_upwards_def by blast
  note w2 = write_page_ok [OF dev page_array_bytes [OF ex(2) k] wp [unfolded s(1)] ex(3)]
  show ?thesis using that [of link] s w1 w2 above by simp
qed

lemma next_swap_page_at:
  assumes dev: "swap_device k K (w_dev h) (w_fd h) V" and k: "5 \<le> k"
    and at: "writer_at k V start h w bs us es ov" and off: "0 \<le> w_cur_offset h + psz k"
    and nx: "next_swap_page k cfg K h w = (p, h', w')" and p: "p \<noteq> 0"
  obtains bs' us' es' ov' where "writer_at k V start h' w' bs' us' es' ov'"
    and "batch_list k bs' @ us' = batch_list k bs @ us @ [p]" and "w_cur_offset h' = p"
    and "\<forall>q\<in>set (batch_list k bs @ us). contents V w' q = contents V w q"
    and "same_writer h h'" and "taken V w' = taken V w" and "given V w' = given V w"
    and "p \<in> set us'" and "w_written_data h' = w_written_data h"
proof -
  have a: "w_extents h = array_of k es ov" "w_nr_extents h = length es" "supply_ok k es ov"
    "w_cur_extent_idx h < length es" "exts_list k es = us @ writer_rest k h es"
    "0 < w_extents_spc h" "chain (contents V w) k start bs (w_extents_spc h)"
    "distinct (batch_list k bs @ map fst bs @ [w_extents_spc h])"
    "(pages k es \<union> ext_pages k ov) \<inter> (set (batch_list k bs) \<union> set (map fst bs) \<union> {w_extents_spc h}) = {}"
    "set (batch_list k bs) \<union> set (map fst bs) \<union> {w_extents_spc h} \<union> pages k es \<union> ext_pages k ov \<subseteq> held V w"
    "\<forall>q\<in>set (batch_list k bs) \<union> set (map fst bs) \<union> {w_extents_spc h} \<union> pages k es \<union> ext_pages k ov. start \<le> q" "psz k dvd w_extents_spc h"
    using at unfolding writer_at_def by blast+
  note s = supply_okD [OF a(3)]
  have held_start: "start \<in> held V w" using chain_start [OF a(7)] a(10) by auto
  from next_swap_page_cases [OF a(1-4) off, of cfg K w]
  show ?thesis
  proof (elim disjE exE conjE)
    fix p1 rest h1
    assume r: "writer_rest k h es = p1 # rest" and n: "next_swap_page k cfg K h w = (p1, h1, w)"
      and h1: "h1 = h\<lparr>w_cur_offset := p1, w_cur_extent_idx := w_cur_extent_idx h1\<rparr>"
      and i: "w_cur_extent_idx h1 < length es" and rest: "writer_rest k h1 es = rest"
    have e: "p1 = p" "h1 = h'" "w = w'" using n nx by auto
    obtain j where j: "h' = h\<lparr>w_cur_offset := p, w_cur_extent_idx := j\<rparr>" using h1 e by blast
    have f: "w_extents h' = w_extents h" "w_nr_extents h' = w_nr_extents h"
      "w_extents_spc h' = w_extents_spc h" "w_cur_offset h' = p" "same_writer h h'"
      "w_written_data h' = w_written_data h"
      by (simp_all add: j same_writer_def)
    have "writer_at k V start h' w' bs (us @ [p]) es ov"
      unfolding writer_at_def using a f i r rest e by simp
    then show ?thesis using that [of bs "us @ [p]" es ov] e f by simp
  next
    assume r: "writer_rest k h es = []"
      and n: "next_swap_page k cfg K h w = refill k cfg K es ov
          (h\<lparr>w_cur_offset := w_cur_offset h + psz k, w_cur_extent_idx := length es\<rparr>) w"
    let ?h = "h\<lparr>w_cur_offset := w_cur_offset h + psz k, w_cur_extent_idx := length es,
        w_extents := array_of k es zero_extent, w_nr_extents := (if ov = zero_extent then 0 else 1)\<rparr>"
    obtain error h2 w2 where sv: "save_extents k K False ?h w = (error, h2, w2)" by (metis surj_pair)
    have e0: "error = 0" and pre: "preallocate_swap k cfg K (h2\<lparr>w_extents := (zero_extents k)[0 := ov]\<rparr>) w2 = (p, h', w')"
      using nx p n sv by (auto simp: refill_def Let_def split: if_splits)
    have dev': "swap_device k K (w_dev ?h) (w_fd ?h) V" using dev by simp
    obtain link where h2: "h2 = ?h\<lparr>w_extents := array_of k es \<lparr>ext_start = link, ext_end = 0\<rparr>, w_extents_spc := link\<rparr>"
      and link: "0 < link" "link \<notin> held V w" "held V w2 = insert link (held V w)" "\<forall>q\<in>held V w. q < link" "psz k dvd link"
      and c2: "contents V w2 = (contents V w)(w_extents_spc h := extents_page (array_of k es \<lparr>ext_start = link, ext_end = 0\<rparr>))"
      and tg: "taken V w2 = taken V w" "given V w2 = given V w"
      using save_extents_ok [OF dev' k, of es w h2 w2] sv e0 s(2) a(12) by auto
    let ?l = "\<lparr>ext_start = link, ext_end = 0 :: int\<rparr>" and ?h3 = "h2\<lparr>w_extents := (zero_extents k)[0 := ov]\<rparr>"
    have "ext_pages k ov \<subseteq> held V w2" using a(10) link(3) by auto
    then obtain es' ov' where pr: "h' = ?h3\<lparr>w_extents := array_of k es' ov', w_nr_extents := length es',
        w_cur_extent_idx := 0, w_cur_offset := p\<rparr>" "p = ext_start (es' ! 0)" "supply_ok k es' ov'"
      "pages k es' \<union> ext_pages k ov' = ext_pages k ov \<union> (held V w' - held V w2)"
      "held V w2 \<subseteq> held V w'" "contents V w' = contents V w2" "taken V w' = taken V w2" "given V w' = given V w2"
      "grows_upwards V w2 w'"
      using preallocate_swap_ok [of k K ?h3 "w_fd h" V ov w2 cfg p h' w'] dev k pre p s(5) h2 by auto
    note s' = supply_okD [OF pr(3)]
    let ?b = "(w_extents_spc h, es, ?l)"
    have us: "us = exts_list k es" using a(5) r by simp
    have set_us: "set us = pages k es" using us set_exts_list [OF s(4)] by simp
    have c: "contents V w' = (contents V w)(w_extents_spc h := extents_page (array_of k es ?l))"
      using pr(6) c2 by simp
    have "link + psz k < 2 ^ 63" by (rule swap_deviceD(3) [OF dev, of _ w2]) (simp add: link(3))
    moreover have "(0::int) < psz k" by simp
    ultimately have "link < 2 ^ 63" by linarith
    then have "ext_range ?l" using link(1) by (simp add: ext_range_def loff_range_def)
    then have range: "\<forall>e\<in>set (array_of k es ?l). ext_range e"
      using array_range [OF dev a(3)] a(10) by blast
    have "w_extents_spc h \<notin> set (map fst bs)" using a(8) by simp
    then have "\<forall>q\<in>set (map fst bs). contents V w' q = contents V w q"
      unfolding c by (metis fun_upd_apply)
    then have "chain (contents V w') k start bs (w_extents_spc h)"
      by (rule chain_cong [OF a(7)])
    moreover have "chain (contents V w') k (w_extents_spc h) [?b] link"
      using a(6,12) s range by (simp add: c)
    ultimately have ch: "chain (contents V w') k start (bs @ [?b]) link"
      unfolding chain_append by blast
    have rest: "exts_list k es' = [p] @ writer_rest k h' es'"
    proof -
      have "es' = es' ! 0 # drop 1 es'" using s'(1) by (cases es') auto
      then have "exts_list k es' = ext_list k (es' ! 0) @ exts_list k (drop 1 es')"
        by (metis exts_list_simps(2))
      moreover have "ext_ok k (es' ! 0)" using s' by simp
      ultimately show ?thesis
        using ext_list_not_Nil [of k "es' ! 0"] by (simp add: writer_rest_def pr(1,2))
    qed
    have at': "writer_at k V start h' w' (bs @ [?b]) [p] es' ov'"
      unfolding writer_at_def
    proof (intro conjI)
      show "distinct (batch_list k (bs @ [?b]) @ map fst (bs @ [?b]) @ [w_extents_spc h'])"
        using a(8,9,10) distinct_exts_list [OF s(3)] link(2) set_exts_list [OF s(4)] h2
        by (auto simp: pr(1))
      show "(pages k es' \<union> ext_pages k ov') \<inter>
          (set (batch_list k (bs @ [?b])) \<union> set (map fst (bs @ [?b])) \<union> {w_extents_spc h'}) = {}"
        unfolding pr(4) using a(9,10) s(6) link(2,3) set_exts_list [OF s(4)] h2
        by (auto simp: pr(1))
      show "set (batch_list k (bs @ [?b])) \<union> set (map fst (bs @ [?b])) \<union> {w_extents_spc h'}
          \<union> pages k es' \<union> ext_pages k ov' \<subseteq> held V w'"
        using pr(4,5) a(10) link(3) set_exts_list [OF s(4)] h2 by (auto simp: pr(1))
      have new: "start \<le> q" if "q \<in> held V w' - held V w2" for q
        using pr(9) that held_start link(3) unfolding grows_upwards_def by (auto intro: less_imp_le)
      have "start \<le> link" using link(4) held_start by (auto intro: less_imp_le)
      then show "\<forall>q\<in>set (batch_list k (bs @ [?b])) \<union> set (map fst (bs @ [?b])) \<union> {w_extents_spc h'}
          \<union> pages k es' \<union> ext_pages k ov'. start \<le> q"
        using a(11) pr(4) new set_exts_list [OF s(4)] h2 by (auto simp: pr(1))
    qed (use ch rest pr(3) s'(1) link(1,5) h2 in \<open>simp_all add: pr(1)\<close>)
    have "same_writer h h'" using h2 by (simp add: pr(1) same_writer_def)
    moreover have "w_written_data h' = w_written_data h" using h2 by (simp add: pr(1))
    moreover have "\<forall>q\<in>set (batch_list k bs @ us). contents V w' q = contents V w q"
      using a(8,9) set_us by (auto simp: c)
    ultimately show ?thesis
      using that [OF at'] us tg pr(7,8) by (simp add: pr(1))
  qed
qed

text \<open>The pages written so far and what they hold.\<close>

definition writer_inv ::
  "nat \<Rightarrow> 'w view \<Rightarrow> loff_t \<Rightarrow> swap_writer \<Rightarrow> 'w \<Rightarrow> byte list list \<Rightarrow> bool" where
  "writer_inv k V start h w data \<longleftrightarrow>
     (\<exists>bs us es ov. writer_at k V start h w bs us es ov \<and> 0 \<le> w_cur_offset h + psz k
        \<and> map (contents V w) (batch_list k bs @ us) = data)"

lemma writer_at_update:
  assumes at: "writer_at k V start h w bs us es ov"
    and c: "\<forall>q\<in>set (map fst bs). contents V w' q = contents V w q" and hl: "held V w' = held V w"
    and f: "w_extents h' = w_extents h" "w_nr_extents h' = w_nr_extents h"
      "w_cur_extent_idx h' = w_cur_extent_idx h" "w_extents_spc h' = w_extents_spc h"
      "w_cur_offset h' = w_cur_offset h"
  shows "writer_at k V start h' w' bs us es ov"
  using at chain_cong [OF _ c] by (auto simp: writer_at_def writer_rest_def f hl)

lemma writer_at_pages:
  assumes "writer_at k V start h w bs us es ov"
  shows "distinct (batch_list k bs @ us)" and "set (batch_list k bs @ us) \<inter> set (map fst bs) = {}"
    and "w_extents_spc h \<notin> set (batch_list k bs @ us)" and "\<forall>q\<in>set us. 0 < q \<and> psz k dvd q"
proof -
  have a: "supply_ok k es ov" "exts_list k es = us @ writer_rest k h es"
    "distinct (batch_list k bs @ map fst bs @ [w_extents_spc h])"
    "(pages k es \<union> ext_pages k ov) \<inter> (set (batch_list k bs) \<union> set (map fst bs) \<union> {w_extents_spc h}) = {}"
    using assms unfolding writer_at_def by blast+
  note s = supply_okD [OF a(1)]
  have us: "set us \<subseteq> pages k es" "distinct us"
    using a(2) set_exts_list [OF s(4)] distinct_exts_list [OF s(3)] by auto
  show "distinct (batch_list k bs @ us)" using a(3,4) us by auto
  show "set (batch_list k bs @ us) \<inter> set (map fst bs) = {}" using a(3,4) us(1) by auto
  show "w_extents_spc h \<notin> set (batch_list k bs @ us)" using a(3,4) us(1) by auto
  show "\<forall>q\<in>set us. 0 < q \<and> psz k dvd q"
    using us(1) s(4) by (force simp: pages_def ext_pages_def seg_def ext_ok_def)
qed

lemma save_page_inv:
  assumes dev: "swap_device k K (w_dev h) (w_fd h) V" and k: "5 \<le> k"
    and inv: "writer_inv k V start h w data" and len: "length src = page_bytes k"
    and sp: "save_page k cfg K src h w = (0, h', w')"
  shows "writer_inv k V start h' w' (data @ [src]) \<and> same_writer h h' \<and> taken V w' = taken V w
    \<and> given V w' = given V w \<and> w_written_data h' = w_written_data h + psz k"
proof -
  obtain bs us es ov where at: "writer_at k V start h w bs us es ov"
    and off: "0 \<le> w_cur_offset h + psz k" and data: "map (contents V w) (batch_list k bs @ us) = data"
    using inv unfolding writer_inv_def by blast
  obtain p h1 w1 where nx: "next_swap_page k cfg K h w = (p, h1, w1)" by (metis surj_pair)
  have p: "p \<noteq> 0" using sp nx by (auto simp: save_page_def split: if_splits)
  obtain error w2 where wp: "write_page k K (w_fd h1) src p w1 = (error, w2)" by fastforce
  have e: "error = 0" "w' = w2" "h' = h1\<lparr>w_swap_needed := w_swap_needed h1 - psz k,
      w_written_data := w_written_data h1 + psz k\<rparr>"
    using sp nx p wp by (auto simp: save_page_def Let_def split: if_splits)
  obtain bs' us' es' ov' where at': "writer_at k V start h1 w1 bs' us' es' ov'"
    and pages: "batch_list k bs' @ us' = batch_list k bs @ us @ [p]" and co: "w_cur_offset h1 = p"
    and c: "\<forall>q\<in>set (batch_list k bs @ us). contents V w1 q = contents V w q"
    and sw: "same_writer h h1" "taken V w1 = taken V w" "given V w1 = given V w"
    and mem: "p \<in> set us'" and wd: "w_written_data h1 = w_written_data h"
    using next_swap_page_at [OF dev k at off nx p] by blast
  have dev1: "swap_device k K (w_dev h1) (w_fd h1) V" using dev sw by (simp add: same_writer_def)
  note pg = writer_at_pages [OF at']
  have p0: "0 < p" "psz k dvd p" using pg(4) mem by blast+
  note w2 = write_page_ok [OF dev1 len wp [unfolded e(1)] p0(2)]
  have at2: "writer_at k V start h' w' bs' us' es' ov'"
    by (rule writer_at_update [OF at']) (use pg(2) mem w2 e in auto)
  have pn: "p \<notin> set (batch_list k bs @ us)"
    using pg(1) unfolding pages by simp
  have "map (contents V w') (batch_list k bs' @ us') = data @ [src]"
  proof -
    have "map (contents V w') (batch_list k bs @ us) = map (contents V w) (batch_list k bs @ us)"
      using pn c w2 e(2) by (intro map_cong) auto
    from trans [OF this data] have m: "map (contents V w') (batch_list k bs @ us) = data" .
    have pages2: "batch_list k bs' @ us' = (batch_list k bs @ us) @ [p]" using pages by simp
    show ?thesis
      unfolding pages2 map_append [of _ "batch_list k bs @ us" "[p]"] m using w2 e(2) by simp
  qed
  then have "writer_inv k V start h' w' (data @ [src])"
    unfolding writer_inv_def using at2 p0 e(3) co
    by (intro exI [of _ bs'] exI [of _ us'] exI [of _ es'] exI [of _ ov']) simp
  then show ?thesis using sw w2 e wd by (simp add: same_writer_def)
qed

section \<open>Runs of pages\<close>

primrec pages_of :: "nat \<Rightarrow> nat \<Rightarrow> byte list \<Rightarrow> byte list list" where
  "pages_of k 0 bs = []"
| "pages_of k (Suc n) bs = take (page_bytes k) bs # pages_of k n (drop (page_bytes k) bs)"

lemma concat_pages_of: "concat (pages_of k n bs) = take (n * page_bytes k) bs"
  by (induction n arbitrary: bs) (auto simp: take_add)

lemma length_pages_of: "n * page_bytes k \<le> length bs \<Longrightarrow> \<forall>p\<in>set (pages_of k n bs). length p = page_bytes k"
proof (induction n arbitrary: bs)
  case (Suc n)
  then have "n * page_bytes k \<le> length (drop (page_bytes k) bs)" by simp
  from Suc.IH [OF this] Suc.prems show ?case by simp
qed simp

lemma length_pages_of_list [simp]: "length (pages_of k n bs) = n"
  by (induction n arbitrary: bs) auto

lemma same_writer_trans: "same_writer h h' \<Longrightarrow> same_writer h' h'' \<Longrightarrow> same_writer h h''"
  by (simp add: same_writer_def)

lemma same_writer_refl [simp]: "same_writer h h"
  by (simp add: same_writer_def)

lemma flush_pages_inv:
  assumes k: "5 \<le> k" and ne: "\<not> do_encrypt cfg"
  shows "swap_device k K (w_dev h) (w_fd h) V \<Longrightarrow> writer_inv k V start h w data \<Longrightarrow>
    sz \<le> n * page_bytes k \<Longrightarrow> n * page_bytes k < sz + page_bytes k \<Longrightarrow> n * page_bytes k \<le> length src \<Longrightarrow>
    flush_pages k cfg K L sz src h w = (0, h', w') \<Longrightarrow>
    writer_inv k V start h' w' (data @ pages_of k n src) \<and> same_writer h h'
      \<and> taken V w' = taken V w \<and> given V w' = given V w
      \<and> w_written_data h' = w_written_data h + psz k * int n"
proof (induction n arbitrary: sz src h w data)
  case 0
  then show ?case by (simp add: flush_pages.simps)
next
  case (Suc n)
  have sz: "0 < sz" using Suc.prems(4) by simp
  let ?p = "take (page_bytes k) src"
  obtain error h1 w1 where e: "save_page k cfg K ?p h w = (error, h1, w1)" by (metis surj_pair)
  have step: "error = 0" "flush_pages k cfg K L (sz - page_bytes k) (drop (page_bytes k) src) h1 w1 = (0, h', w')"
    using Suc.prems(6) sz ne e
    by (auto simp: flush_pages.simps [of k cfg K L sz] encrypt_and_save_page_def split: if_splits)
  have lp: "length ?p = page_bytes k" using Suc.prems(5) by simp
  note s = save_page_inv [OF Suc.prems(1) k Suc.prems(2) lp e [unfolded step(1)]]
  have dev1: "swap_device k K (w_dev h1) (w_fd h1) V" using Suc.prems(1) s by (simp add: same_writer_def)
  have "writer_inv k V start h' w' ((data @ [?p]) @ pages_of k n (drop (page_bytes k) src)) \<and> same_writer h1 h'
      \<and> taken V w' = taken V w1 \<and> given V w' = given V w1
      \<and> w_written_data h' = w_written_data h1 + psz k * int n"
    using Suc.prems(3-5) step(2) s by (intro Suc.IH [OF dev1 _ _ _ _ step(2)]) auto
  then show ?case using s same_writer_trans by (auto simp: algebra_simps)
qed

text \<open>Closing the file: the chain is complete, and the reader can start.\<close>

lemma save_extents_finish:
  assumes dev: "swap_device k K (w_dev h) (w_fd h) V" and k: "5 \<le> k"
    and inv: "writer_inv k V start h w data"
    and sv: "save_extents k K True h w = (0, h', w')"
  obtains bs l pages more where "chain (contents V w') k start bs l" and "bs \<noteq> []"
    and "batch_list k bs = pages @ more" and "map (contents V w') pages = data"
    and "taken V w' = taken V w" and "given V w' = given V w" and "w_written_data h' = w_written_data h"
    and "same_writer h h'" and "\<forall>q\<in>set (batch_list k bs) \<union> set (map fst bs). start \<le> q \<and> q \<in> held V w'"
    and "held V w' = held V w" and "start \<in> held V w"
proof -
  obtain bs us es ov where at: "writer_at k V start h w bs us es ov"
    and data: "map (contents V w) (batch_list k bs @ us) = data"
    using inv unfolding writer_inv_def by blast
  have a: "w_extents h = array_of k es ov" "supply_ok k es ov" "exts_list k es = us @ writer_rest k h es"
    "0 < w_extents_spc h" "chain (contents V w) k start bs (w_extents_spc h)"
    "distinct (batch_list k bs @ map fst bs @ [w_extents_spc h])"
    "set (batch_list k bs) \<union> set (map fst bs) \<union> {w_extents_spc h} \<union> pages k es \<union> ext_pages k ov \<subseteq> held V w"
    "\<forall>q\<in>set (batch_list k bs) \<union> set (map fst bs) \<union> {w_extents_spc h} \<union> pages k es. start \<le> q" "psz k dvd w_extents_spc h"
    using at unfolding writer_at_def by blast+
  note s = supply_okD [OF a(2)]
  let ?b = "(w_extents_spc h, es, ov)"
  obtain error w1 where wp: "write_page k K (w_fd h) (extents_page (array_of k es ov)) (w_extents_spc h) w = (error, w1)"
    by fastforce
  have e: "error = 0" "w' = w1" "h' = h\<lparr>w_extents_spc := 0\<rparr>"
    using sv wp a(1) by (auto simp: save_extents_def Let_def)
  note w1 = write_page_ok [OF dev page_array_bytes [OF s(2) k] wp [unfolded e(1)] a(9)]
  have "ext_range ov"
    using s(5) ext_range_held [OF dev, of ov w] a(7) by (auto simp: ext_range_def loff_range_def)
  then have range: "\<forall>e\<in>set (array_of k es ov). ext_range e"
    using array_range [OF dev a(2)] a(7) by blast
  have "w_extents_spc h \<notin> set (map fst bs)" using a(6) by simp
  then have "\<forall>q\<in>set (map fst bs). contents V w' q = contents V w q"
    using w1 e(2) by (metis fun_upd_apply)
  then have "chain (contents V w') k start bs (w_extents_spc h)"
    by (rule chain_cong [OF a(5)])
  moreover have "chain (contents V w') k (w_extents_spc h) [?b] (ext_start ov)"
    using a(4,9) s range w1 e(2) by simp
  ultimately have ch: "chain (contents V w') k start (bs @ [?b]) (ext_start ov)"
    unfolding chain_append by blast
  have "map (contents V w') (batch_list k bs @ us) = map (contents V w) (batch_list k bs @ us)"
    using writer_at_pages(3) [OF at] w1 e(2) by (intro map_cong) auto
  from trans [OF this data] have m: "map (contents V w') (batch_list k bs @ us) = data" .
  have bl: "batch_list k (bs @ [?b]) = (batch_list k bs @ us) @ writer_rest k h es"
    by (simp add: a(3))
  have "\<forall>q\<in>set (batch_list k (bs @ [?b])) \<union> set (map fst (bs @ [?b])). start \<le> q \<and> q \<in> held V w'"
    using a(7,8) w1 e(2) set_exts_list [OF s(4)] by auto
  moreover have "start \<in> held V w" using chain_start [OF a(5)] a(7) by auto
  ultimately show ?thesis
    using that [OF ch _ bl m] w1 e by (simp add: same_writer_def)
qed

section \<open>Reading the run back\<close>

lemma load_block_pages_inv:
  assumes k: "5 \<le> k" and ne: "\<not> do_decrypt cfg"
  shows "swap_device k K dev (r_fd h) V \<Longrightarrow> (n \<noteq> 0 \<Longrightarrow> reader_inv k V h w (ps @ rest)) \<Longrightarrow> length ps = n \<Longrightarrow>
    n * page_bytes k < total_size - sz + page_bytes k \<Longrightarrow> total_size - sz \<le> n * page_bytes k \<Longrightarrow>
    (n = 0 \<Longrightarrow> rest \<noteq> [] \<Longrightarrow> reader_inv k V h w rest) \<Longrightarrow>
    \<exists>h' w'. load_block_pages k cfg K L total_size sz buf h w
        = (Some (buf @ concat (map (contents V w) ps)), h', w') \<and> same_view V w w'
      \<and> (rest \<noteq> [] \<longrightarrow> reader_inv k V h' w' rest) \<and> r_fd h' = r_fd h \<and> r_ctx h' = r_ctx h
      \<and> r_total_size h' = r_total_size h - psz k * int n"
proof (induction n arbitrary: sz buf h w ps)
  case 0
  then show ?case by (auto simp: load_block_pages.simps)
next
  case (Suc n)
  obtain p ps' where ps: "ps = p # ps'" "length ps' = n" using Suc.prems(3) by (cases ps) auto
  have sz: "sz < total_size" using Suc.prems(4) by (cases "sz < total_size") auto
  have inv: "reader_inv k V h w (p # (ps' @ rest))" using Suc.prems(2) ps by simp
  obtain h1 w1 where l: "load_and_decrypt_page k cfg K L h w = (0, contents V w p, h1, w1)"
    and sv: "same_view V w w1" and inv1: "ps' @ rest \<noteq> [] \<Longrightarrow> reader_inv k V h1 w1 (ps' @ rest)"
    and f: "r_fd h1 = r_fd h" "r_total_size h1 = r_total_size h - psz k" "r_ctx h1 = r_ctx h"
    using load_page_inv [OF Suc.prems(1) inv ne] by blast
  have "\<exists>h' w'. load_block_pages k cfg K L total_size (sz + page_bytes k) (buf @ contents V w p) h1 w1
        = (Some ((buf @ contents V w p) @ concat (map (contents V w1) ps')), h', w') \<and> same_view V w1 w'
      \<and> (rest \<noteq> [] \<longrightarrow> reader_inv k V h' w' rest) \<and> r_fd h' = r_fd h1 \<and> r_ctx h' = r_ctx h1
      \<and> r_total_size h' = r_total_size h1 - psz k * int n"
    using Suc.prems(1,4,5) f ps inv1 by (intro Suc.IH) auto
  then show ?case
    using l sz ps sv f same_view_trans [OF sv]
    by (auto simp: load_block_pages.simps [of k cfg K L total_size sz] same_view_def algebra_simps)
qed

lemma load_plain_pages_inv:
  assumes k: "5 \<le> k" and ne: "\<not> do_decrypt cfg"
  shows "swap_device k K dev (r_fd h) V \<Longrightarrow> (n \<noteq> 0 \<Longrightarrow> reader_inv k V h w (ps @ rest)) \<Longrightarrow> length ps = n \<Longrightarrow>
    sz + n * page_bytes k \<le> buffer_bytes k \<Longrightarrow> psz k * int n \<le> r_total_size h \<Longrightarrow>
    (sz + n * page_bytes k = buffer_bytes k \<or> r_total_size h = psz k * int n) \<Longrightarrow>
    (n = 0 \<Longrightarrow> rest \<noteq> [] \<Longrightarrow> reader_inv k V h w rest) \<Longrightarrow>
    \<exists>h' w'. load_plain_pages k cfg K L sz buf h w
        = (Some (buf @ concat (map (contents V w) ps)), h', w') \<and> same_view V w w'
      \<and> (rest \<noteq> [] \<longrightarrow> reader_inv k V h' w' rest) \<and> r_fd h' = r_fd h \<and> r_ctx h' = r_ctx h
      \<and> r_total_size h' = r_total_size h - psz k * int n"
proof (induction n arbitrary: sz buf h w ps)
  case 0
  then show ?case by (auto simp: load_plain_pages.simps)
next
  case (Suc n)
  obtain p ps' where ps: "ps = p # ps'" "length ps' = n" using Suc.prems(3) by (cases ps) auto
  have pos: "(0::nat) < page_bytes k" "(0::int) < psz k" by simp_all
  have "sz < buffer_bytes k" using Suc.prems(4) pos(1) by (metis add_lessD1 le_trans less_add_same_cancel1 linorder_not_less mult_Suc nat_less_le not_add_less1)
  moreover have "0 < r_total_size h" using Suc.prems(5) pos(2) by (smt (verit) mult_pos_pos of_nat_0_less_iff zero_less_Suc)
  ultimately have c: "sz < buffer_bytes k \<and> 0 < r_total_size h" ..
  have inv: "reader_inv k V h w (p # (ps' @ rest))" using Suc.prems(2) ps by simp
  obtain h1 w1 where l: "load_and_decrypt_page k cfg K L h w = (0, contents V w p, h1, w1)"
    and sv: "same_view V w w1" and inv1: "ps' @ rest \<noteq> [] \<Longrightarrow> reader_inv k V h1 w1 (ps' @ rest)"
    and f: "r_fd h1 = r_fd h" "r_total_size h1 = r_total_size h - psz k" "r_ctx h1 = r_ctx h"
    using load_page_inv [OF Suc.prems(1) inv ne] by blast
  have "\<exists>h' w'. load_plain_pages k cfg K L (sz + page_bytes k) (buf @ contents V w p) h1 w1
        = (Some ((buf @ contents V w p) @ concat (map (contents V w1) ps')), h', w') \<and> same_view V w1 w'
      \<and> (rest \<noteq> [] \<longrightarrow> reader_inv k V h' w' rest) \<and> r_fd h' = r_fd h1 \<and> r_ctx h' = r_ctx h1
      \<and> r_total_size h' = r_total_size h1 - psz k * int n"
    using Suc.prems(1,4-6) f ps inv1 by (intro Suc.IH) (auto simp: algebra_simps)
  then show ?case
    using l c ps sv f same_view_trans [OF sv]
    by (auto simp: load_plain_pages.simps [of k cfg K L sz] same_view_def algebra_simps)
qed

section \<open>When the kernel does not hand out its pages upwards\<close>

text \<open>The offsets that \<open>n\<close> calls of \<open>next_swap_page\<close> return.\<close>

fun next_swap_pages :: "nat \<Rightarrow> image_opts \<Rightarrow> 'w kernel \<Rightarrow> nat \<Rightarrow> swap_writer \<Rightarrow> 'w \<Rightarrow> loff_t list" where
  "next_swap_pages k cfg K 0 h w = []"
| "next_swap_pages k cfg K (Suc n) h w =
     (let (offset, h, w) = next_swap_page k cfg K h w in offset # next_swap_pages k cfg K n h w)"

definition crossed_order :: "nat \<Rightarrow> loff_t" where
  "crossed_order n = 64 * (if n = 2 then 4 else if n = 3 then 3 else int n + 1)"

definition compressing :: image_opts where
  "compressing = \<lparr>do_compress = True, do_encrypt = False, use_threads = False,
     compute_checksum = False, verify_image = False, early_writeout = False,
     compress_buf_size = 0, encrypt_buf_size = 0\<rparr>"

definition crossed_writer :: swap_writer where
  "crossed_writer = \<lparr>w_extents = zero_extents 6, w_nr_extents = 0, w_cur_extent_idx = 0, w_cur_offset = 0,
     w_swap_needed = 384, w_written_data = 0, w_extents_spc = 64, w_data = [], w_block = [],
     w_dev = 3, w_fd = 4, w_input = 3, w_ctx = zero_ctx, w_encrypt_pos = 0, w_extents_mem = None,
     w_buffer_mem = None, w_write_buffer_mem = None, w_lzo_work_mem = None, w_encrypt_mem = None\<rparr>"

lemma inj_crossed_order: "inj crossed_order \<and> (\<forall>n. 0 < crossed_order n \<and> psz 6 dvd crossed_order n)"
  by (auto simp: inj_def crossed_order_def split: if_splits)


end
