(* ===== verification/Image_File.thy ===== *)
theory Image_File
  imports Swap_File
begin

text \<open>
  The whole image through the swap file: \<open>save_image\<close> reads the image from the snapshot device
  and leaves it on the swap device, \<open>load_image\<close> reads it from there and gives it back. With or
  without compression, what is given back is what was taken, and the MD5 digests that the two
  sides compute are the digest of the image. Encryption is off here.
\<close>

section \<open>The calls around the swap device\<close>

text \<open>
  Reading a page from the snapshot device (or the test image) delivers the next page of the image
  or nothing; giving a page back does not fail; the keyboard, the terminal and the early writeout
  change nothing that matters here.
\<close>

definition image_device :: "nat \<Rightarrow> 'w kernel \<Rightarrow> 'w libs \<Rightarrow> fd \<Rightarrow> fd \<Rightarrow> fd \<Rightarrow> 'w view \<Rightarrow> bool" where
  "image_device k K L inp fd dev V \<longleftrightarrow>
     (\<forall>w ret bs w'. k_read K inp (page_bytes k) w = ((ret, bs), w') \<longrightarrow>
        contents V w' = contents V w \<and> held V w' = held V w \<and> given V w' = given V w \<and>
        (if psz k \<le> ret then length bs = page_bytes k \<and> taken V w' = taken V w @ bs
         else taken V w' = taken V w)) \<and>
     (\<forall>bs w n w'. k_write K dev bs w = (n, w') \<longrightarrow> length bs = page_bytes k \<longrightarrow> n = psz k
        \<and> contents V w' = contents V w \<and> held V w' = held V w \<and> taken V w' = taken V w
        \<and> given V w' = given V w @ bs) \<and>
     (\<forall>w. same_view V w (k_sync_file_range K fd w)) \<and>
     (\<forall>w key w'. key_pressed L w = (key, w') \<longrightarrow> same_view V w w') \<and>
     (\<forall>w r w'. prepare_abort L w = (r, w') \<longrightarrow> same_view V w w') \<and>
     (\<forall>w. same_view V w (restore_abort L w))"

lemma image_deviceD:
  assumes "image_device k K L inp fd dev V"
  shows "k_read K inp (page_bytes k) w = ((m, bs), w') \<Longrightarrow>
        contents V w' = contents V w \<and> held V w' = held V w \<and> given V w' = given V w \<and>
        (if psz k \<le> m then length bs = page_bytes k \<and> taken V w' = taken V w @ bs
         else taken V w' = taken V w)"
    and "k_write K dev bs w = (n, w') \<Longrightarrow> length bs = page_bytes k \<Longrightarrow> n = psz k
        \<and> contents V w' = contents V w \<and> held V w' = held V w \<and> taken V w' = taken V w
        \<and> given V w' = given V w @ bs"
    and "same_view V w (k_sync_file_range K fd w)"
    and "key_pressed L w = (key, w') \<Longrightarrow> same_view V w w'"
    and "prepare_abort L w = (r, w') \<Longrightarrow> same_view V w w'"
    and "same_view V w (restore_abort L w)"
  using assms unfolding image_device_def by (elim conjE; blast)+

text \<open>The compression library, with the worst-case expansion that the sources budget for.\<close>

definition lzo_ok :: "'w libs \<Rightarrow> bool" where
  "lzo_ok L \<longleftrightarrow> (\<forall>d. lzo_decompress L (lzo_compress L d) = Some d
     \<and> length (lzo_compress L d) \<le> length d + length d div 16 + 67)"

text \<open>\<open>compress_buf_size\<close> as \<open>main\<close> computes it.\<close>

definition compress_buf_bytes :: "nat \<Rightarrow> nat" where
  "compress_buf_bytes k = buffer_bytes k + roundup (page_bytes k) (buffer_bytes k div 16 + 67 + 8)"

section \<open>The pages of a buffer\<close>

text \<open>The pages \<open>qs\<close> are those a flushed buffer \<open>d\<close> leaves on the disk.\<close>

definition buffer_pages :: "nat \<Rightarrow> bool \<Rightarrow> 'w libs \<Rightarrow> byte list \<Rightarrow> byte list list \<Rightarrow> bool" where
  "buffer_pages k compress L d qs \<longleftrightarrow> d \<noteq> [] \<and> page_bytes k dvd length d \<and> length d \<le> buffer_bytes k
     \<and> (\<forall>q\<in>set qs. length q = page_bytes k) \<and>
     (if compress
      then (\<exists>junk. concat qs = compressed_block L d @ junk \<and> length junk < page_bytes k)
      else concat qs = d)"

lemma length_concat_pages: "\<forall>q\<in>set qs. length q = n \<Longrightarrow> length (concat qs) = length qs * n"
  by (induction qs) auto

lemma length_compressed_block [simp]: "length (compressed_block L d) = 8 + length (lzo_compress L d)"
  by (simp add: compressed_block_def)

lemma compressed_block_fits:
  assumes "lzo_ok L" and "length d \<le> buffer_bytes k"
  shows "roundup (page_bytes k) (length (compressed_block L d)) \<le> compress_buf_bytes k"
proof (rule roundup_least)
  show "page_bytes k dvd compress_buf_bytes k"
    by (simp add: compress_buf_bytes_def buffer_bytes_def)
  have "length (lzo_compress L d) \<le> length d + length d div 16 + 67"
    using assms(1) by (simp add: lzo_ok_def)
  moreover have "length d div 16 \<le> buffer_bytes k div 16" using assms(2) by (rule div_le_mono)
  moreover have "buffer_bytes k div 16 + 67 + 8 \<le> roundup (page_bytes k) (buffer_bytes k div 16 + 67 + 8)"
    by (rule roundup_ge) simp
  ultimately show "length (compressed_block L d) \<le> compress_buf_bytes k"
    using assms(2) by (simp add: compress_buf_bytes_def)
qed simp

text \<open>The number of pages of a block, and that the loop of \<open>flush_buffer\<close> stops there.\<close>

lemma page_count:
  fixes n :: nat
  obtains c where "n \<le> c * page_bytes k" and "c * page_bytes k < n + page_bytes k"
    and "c * page_bytes k = roundup (page_bytes k) n"
proof -
  have "page_bytes k dvd roundup (page_bytes k) n" by simp
  then obtain c where c: "roundup (page_bytes k) n = c * page_bytes k" by (metis dvdE mult.commute)
  show ?thesis
  proof (rule that [of c])
    show "n \<le> c * page_bytes k" unfolding c [symmetric] by (rule roundup_ge) simp
    show "c * page_bytes k < n + page_bytes k" unfolding c [symmetric] by (rule roundup_less) simp
  qed (rule c [symmetric])
qed

lemma flush_buffer_inv:
  assumes k: "5 \<le> k" and ne: "\<not> do_encrypt cfg" and lzo: "lzo_ok L"
    and dev: "swap_device k K (w_dev h) (w_fd h) V" and inv: "writer_inv k V start h w data"
    and d: "w_data h \<noteq> []" "page_bytes k dvd length (w_data h)" "length (w_data h) \<le> buffer_bytes k"
    and blk: "do_compress cfg \<Longrightarrow> length (w_block h) = compress_buf_bytes k"
    and fl: "flush_buffer k cfg K L h w = (0, h', w')"
  obtains qs where "buffer_pages k (do_compress cfg) L (w_data h) qs"
    and "writer_inv k V start h' w' (data @ qs)"
    and "w_dev h' = w_dev h" and "w_fd h' = w_fd h" and "w_data h' = w_data h" and "w_input h' = w_input h"
    and "w_ctx h' = (if compute_checksum cfg \<or> verify_image cfg
           then md5_process_block (w_data h) (w_ctx h) else w_ctx h)"
    and "do_compress cfg \<longrightarrow> length (w_block h') = compress_buf_bytes k"
    and "taken V w' = taken V w" and "given V w' = given V w"
    and "w_written_data h' = w_written_data h + psz k * int (length qs)"
proof -
  let ?h = "if compute_checksum cfg \<or> verify_image cfg
     then h\<lparr>w_ctx := md5_process_block (w_data h) (w_ctx h)\<rparr> else h"
  have upd: "writer_inv k V start h2 w data"
    if "w_extents h2 = w_extents h" "w_nr_extents h2 = w_nr_extents h"
      "w_cur_extent_idx h2 = w_cur_extent_idx h" "w_extents_spc h2 = w_extents_spc h"
      "w_cur_offset h2 = w_cur_offset h" for h2
    using inv writer_at_update [OF _ _ refl that, of k V start w] that(5) unfolding writer_inv_def by metis
  show ?thesis
  proof (cases "do_compress cfg")
    case False
    obtain c where c: "length (w_data h) = c * page_bytes k" using d(2) by (metis dvdE mult.commute)
    have fl': "flush_pages k cfg K L (length (w_data h)) (w_data h) ?h w = (0, h', w')"
      using fl d(1) False
      by (cases "compute_checksum cfg \<or> verify_image cfg") (simp_all add: flush_buffer_def Let_def)
    have inv': "writer_inv k V start ?h w data" by (rule upd) simp_all
    have dev': "swap_device k K (w_dev ?h) (w_fd ?h) V" using dev by simp
    have r: "writer_inv k V start h' w' (data @ pages_of k c (w_data h)) \<and> same_writer ?h h'
      \<and> taken V w' = taken V w \<and> given V w' = given V w
      \<and> w_written_data h' = w_written_data ?h + psz k * int c"
      by (rule flush_pages_inv [OF k ne dev' inv' _ _ _ fl']) (simp_all add: c)
    have "buffer_pages k False L (w_data h) (pages_of k c (w_data h))"
      using d c length_pages_of [of c k "w_data h"] by (simp add: buffer_pages_def concat_pages_of)
    then show ?thesis using that r False by (simp add: same_writer_def)
  next
    case True
    define block where "block = compressed_block L (w_data h)"
    define src where "src = block @ drop (length block) (w_block h)"
    obtain c where c: "length block \<le> c * page_bytes k" "c * page_bytes k < length block + page_bytes k"
      "c * page_bytes k = roundup (page_bytes k) (length block)" using page_count [of "length block" k] .
    have fit: "c * page_bytes k \<le> compress_buf_bytes k"
      using compressed_block_fits [OF lzo d(3)] c(3) by (simp only: block_def)
    then have len: "length src = compress_buf_bytes k"
      using blk [OF True] c(1) by (simp add: src_def)
    let ?h2 = "?h\<lparr>w_block := src\<rparr>"
    have fl': "flush_pages k cfg K L (length block) src ?h2 w = (0, h', w')"
      using fl d(1) True
      by (cases "compute_checksum cfg \<or> verify_image cfg")
        (simp_all add: flush_buffer_def Let_def src_def block_def)
    have inv': "writer_inv k V start ?h2 w data" by (rule upd) simp_all
    have dev': "swap_device k K (w_dev ?h2) (w_fd ?h2) V" using dev by simp
    have r: "writer_inv k V start h' w' (data @ pages_of k c src) \<and> same_writer ?h2 h'
      \<and> taken V w' = taken V w \<and> given V w' = given V w
      \<and> w_written_data h' = w_written_data ?h2 + psz k * int c"
      by (rule flush_pages_inv [OF k ne dev' inv' _ _ _ fl']) (use c fit len in simp_all)
    define junk where "junk = take (c * page_bytes k - length block) (drop (length block) (w_block h))"
    have "concat (pages_of k c src) = block @ junk"
      using c(1) by (simp add: concat_pages_of src_def junk_def)
    moreover have "c * page_bytes k - length block < page_bytes k" using c(1,2) by linarith
    then have "length junk < page_bytes k" by (simp add: junk_def)
    moreover have "\<forall>p\<in>set (pages_of k c src). length p = page_bytes k"
      by (rule length_pages_of) (simp add: len fit)
    ultimately have "buffer_pages k True L (w_data h) (pages_of k c src)"
      using d unfolding buffer_pages_def block_def if_True by blast
    then show ?thesis using that r True len by (simp add: same_writer_def)
  qed
qed

section \<open>Saving\<close>

definition sum_on :: "image_opts \<Rightarrow> bool" where
  "sum_on cfg \<longleftrightarrow> compute_checksum cfg \<or> verify_image cfg"

definition saver_inv ::
  "nat \<Rightarrow> image_opts \<Rightarrow> 'w libs \<Rightarrow> 'w view \<Rightarrow> loff_t \<Rightarrow> swap_writer \<Rightarrow> 'w \<Rightarrow>
   swap_writer \<Rightarrow> 'w \<Rightarrow> byte list list \<Rightarrow> bool" where
  "saver_inv k cfg L V start h0 w0 h w Bs \<longleftrightarrow> (\<exists>qss.
     writer_inv k V start h w (concat qss)
     \<and> list_all2 (buffer_pages k (do_compress cfg) L) Bs qss
     \<and> taken V w = taken V w0 @ concat Bs @ w_data h
     \<and> (do_compress cfg \<longrightarrow> length (w_block h) = compress_buf_bytes k)
     \<and> w_written_data h = psz k * int (length (concat qss))
     \<and> w_ctx h = (if sum_on cfg then fold md5_process_block Bs (w_ctx h0) else w_ctx h0)
     \<and> w_dev h = w_dev h0 \<and> w_fd h = w_fd h0 \<and> w_input h = w_input h0 \<and> given V w = given V w0)"

definition full_buffers :: "nat \<Rightarrow> byte list list \<Rightarrow> bool" where
  "full_buffers k Bs \<longleftrightarrow> (\<forall>B\<in>set Bs. length B = buffer_bytes k)"

lemma writer_inv_same:
  assumes "writer_inv k V start h w data" and "contents V w' = contents V w" and "held V w' = held V w"
    and "w_extents h' = w_extents h" "w_nr_extents h' = w_nr_extents h"
      "w_cur_extent_idx h' = w_cur_extent_idx h" "w_extents_spc h' = w_extents_spc h"
      "w_cur_offset h' = w_cur_offset h"
  shows "writer_inv k V start h' w' data"
proof -
  obtain bs us es ov where "writer_at k V start h w bs us es ov" "0 \<le> w_cur_offset h + psz k"
    "map (contents V w) (batch_list k bs @ us) = data"
    using assms(1) unfolding writer_inv_def by blast
  moreover from this(1) have "writer_at k V start h' w' bs us es ov"
    by (rule writer_at_update) (use assms in simp_all)
  ultimately show ?thesis unfolding writer_inv_def using assms(2,8) by metis
qed

lemma saver_inv_same:
  assumes "saver_inv k cfg L V start h0 w0 h w Bs" and "same_view V w w'"
  shows "saver_inv k cfg L V start h0 w0 h w' Bs"
  using assms writer_inv_same [of k V start h w _ w' h]
  unfolding saver_inv_def same_view_def by fastforce

lemma handle_keys_same:
  assumes dev: "image_device k K L inp fd dev V" and hk: "handle_keys L ab meth w = Some (a, meth', w')"
  shows "same_view V w w'"
proof -
  have "L = L \<longrightarrow> same_view V w (snd (snd (a, meth', w')))"
  proof (rule handle_keys.raw_induct [OF _ hk, of "\<lambda>L' ab m w y. L' = L \<longrightarrow> same_view V w (snd (snd y))"])
    fix handle_keys L' ab m w y
    assume IH: "\<And>L' ab m w y. handle_keys L' ab m w = Some y \<Longrightarrow> L' = L \<longrightarrow> same_view V w (snd (snd y))"
      and eq: "(let (key, w) = key_pressed L' w
         in if 0 < key
            then if key = ABORT_KEY_CODE \<and> ab then Some (True, m, w)
                 else if key = REBOOT_KEY_CODE then handle_keys L' ab SHUTDOWN_METHOD_REBOOT w
                      else handle_keys L' ab m w
            else Some (False, m, w)) = Some y"
    show "L' = L \<longrightarrow> same_view V w (snd (snd y))"
    proof
      assume L: "L' = L"
      obtain key w1 where p: "key_pressed L w = (key, w1)" by fastforce
      have "same_view V w1 (snd (snd y))"
        using eq p L IH by (auto split: if_splits)
      with image_deviceD(4) [OF dev p] show "same_view V w (snd (snd y))" by (rule same_view_trans)
    qed
  qed
  then show ?thesis by simp
qed

lemma saver_inv_flush:
  assumes k: "5 \<le> k" and ne: "\<not> do_encrypt cfg" and lzo: "lzo_ok L"
    and dev: "swap_device k K (w_dev h0) (w_fd h0) V"
    and inv: "saver_inv k cfg L V start h0 w0 h w Bs"
    and d: "w_data h \<noteq> []" "page_bytes k dvd length (w_data h)" "length (w_data h) \<le> buffer_bytes k"
    and fl: "flush_buffer k cfg K L h w = (0, h', w')"
  shows "saver_inv k cfg L V start h0 w0 (h'\<lparr>w_data := []\<rparr>) w' (Bs @ [w_data h])"
proof -
  obtain qss where i: "writer_inv k V start h w (concat qss)"
     "list_all2 (buffer_pages k (do_compress cfg) L) Bs qss"
     "taken V w = taken V w0 @ concat Bs @ w_data h"
     "do_compress cfg \<longrightarrow> length (w_block h) = compress_buf_bytes k"
     "w_written_data h = psz k * int (length (concat qss))"
     "w_ctx h = (if sum_on cfg then fold md5_process_block Bs (w_ctx h0) else w_ctx h0)"
     "w_dev h = w_dev h0" "w_fd h = w_fd h0" "w_input h = w_input h0" "given V w = given V w0"
    using inv unfolding saver_inv_def by blast
  have dev': "swap_device k K (w_dev h) (w_fd h) V" using dev i by simp
  obtain qs where q: "buffer_pages k (do_compress cfg) L (w_data h) qs"
    "writer_inv k V start h' w' (concat qss @ qs)"
    "w_dev h' = w_dev h" "w_fd h' = w_fd h" "w_data h' = w_data h" "w_input h' = w_input h"
    "w_ctx h' = (if compute_checksum cfg \<or> verify_image cfg
           then md5_process_block (w_data h) (w_ctx h) else w_ctx h)"
    "do_compress cfg \<longrightarrow> length (w_block h') = compress_buf_bytes k"
    "taken V w' = taken V w" "given V w' = given V w"
    "w_written_data h' = w_written_data h + psz k * int (length qs)"
    using flush_buffer_inv [OF k ne lzo dev' i(1) d _ fl] i(4) by blast
  show ?thesis
    unfolding saver_inv_def
  proof (intro exI conjI)
    show "writer_inv k V start (h'\<lparr>w_data := []\<rparr>) w' (concat (qss @ [qs]))"
      using writer_inv_same [OF q(2) refl refl, of "h'\<lparr>w_data := []\<rparr>"] by simp
    show "list_all2 (buffer_pages k (do_compress cfg) L) (Bs @ [w_data h]) (qss @ [qs])"
      using i(2) q(1) by (simp add: list_all2_appendI)
  qed (use i q in \<open>simp_all add: sum_on_def algebra_simps\<close>)
qed


definition saver_at ::
  "nat \<Rightarrow> image_opts \<Rightarrow> 'w libs \<Rightarrow> 'w view \<Rightarrow> loff_t \<Rightarrow> swap_writer \<Rightarrow> 'w \<Rightarrow> swap_writer \<Rightarrow> 'w \<Rightarrow> bool" where
  "saver_at k cfg L V start h0 w0 h w \<longleftrightarrow> (\<exists>Bs. saver_inv k cfg L V start h0 w0 h w Bs \<and> full_buffers k Bs
     \<and> page_bytes k dvd length (w_data h) \<and> length (w_data h) < buffer_bytes k)"

lemma aligned_step:
  assumes "page_bytes k dvd n" and "n < buffer_bytes k"
  shows "n + page_bytes k \<le> buffer_bytes k"
proof -
  obtain c where c: "n = c * page_bytes k" using assms(1) by (metis dvdE mult.commute)
  then have "c * page_bytes k < 32 * page_bytes k" using assms(2) by (simp add: buffer_bytes_def)
  then have "c + 1 \<le> 32" by simp
  then have "(c + 1) * page_bytes k \<le> 32 * page_bytes k" by (rule mult_le_mono1)
  then show ?thesis by (simp add: c buffer_bytes_def)
qed

lemma saver_inv_read:
  assumes inv: "saver_inv k cfg L V start h0 w0 h w Bs"
    and w1: "contents V w1 = contents V w" "held V w1 = held V w" "given V w1 = given V w"
      "taken V w1 = taken V w @ bs"
  shows "saver_inv k cfg L V start h0 w0 (h\<lparr>w_data := w_data h @ bs\<rparr>) w1 Bs"
proof -
  obtain qss where q: "writer_inv k V start h w (concat qss)"
     "list_all2 (buffer_pages k (do_compress cfg) L) Bs qss"
     "taken V w = taken V w0 @ concat Bs @ w_data h"
     "do_compress cfg \<longrightarrow> length (w_block h) = compress_buf_bytes k"
     "w_written_data h = psz k * int (length (concat qss))"
     "w_ctx h = (if sum_on cfg then fold md5_process_block Bs (w_ctx h0) else w_ctx h0)"
     "w_dev h = w_dev h0" "w_fd h = w_fd h0" "w_input h = w_input h0" "given V w = given V w0"
    using inv unfolding saver_inv_def by blast
  show ?thesis
    unfolding saver_inv_def
    by (intro exI [of _ qss] conjI)
      (use q w1 writer_inv_same [OF q(1) w1(1,2), of "h\<lparr>w_data := w_data h @ bs\<rparr>"] in simp_all)
qed

lemma saver_inv_fields:
  assumes "saver_inv k cfg L V start h0 w0 h w Bs"
  shows "w_dev h = w_dev h0" "w_fd h = w_fd h0" "w_input h = w_input h0"
  using assms unfolding saver_inv_def by blast+

lemma save_loop_inv:
  assumes k: "5 \<le> k" and ne: "\<not> do_encrypt cfg" and lzo: "lzo_ok L"
    and dev: "swap_device k K (w_dev h0) (w_fd h0) V"
    and img: "image_device k K L (w_input h0) (w_fd h0) target V"
    and at: "saver_at k cfg L V start h0 w0 h w"
    and sl: "save_loop k cfg K L ap step rate n h meth w = Some (0, n', h', meth', w')"
  shows "saver_at k cfg L V start h0 w0 h' w'"
proof -
  let ?P = "\<lambda>k' cfg' K' L' (ap::bool) (step::nat) (rate::nat) (n::nat) h (meth::shutdown) w
     (e::int, n'::nat, h', meth'::shutdown, w').
     k' = k \<longrightarrow> cfg' = cfg \<longrightarrow> K' = K \<longrightarrow> L' = L \<longrightarrow> e = 0 \<longrightarrow>
     saver_at k cfg L V start h0 w0 h w \<longrightarrow> saver_at k cfg L V start h0 w0 h' w'"
  have "?P k cfg K L ap step rate n h meth w (0, n', h', meth', w')"
  proof (rule save_loop.raw_induct [OF _ sl, of ?P])
    fix save_loop k' cfg' K' L' ap step rate n h meth w y
    assume IH: "\<And>k cfg K L ap step rate n h meth w y.
        save_loop k cfg K L ap step rate n h meth w = Some y \<Longrightarrow> ?P k cfg K L ap step rate n h meth w y"
      and eq: "(let ((ret, data), w) = k_read K' (w_input h) (page_bytes k') w
      in if ret < psz k' then
           Some (if ret < 0 then - EIO else if 0 < ret then - EFAULT else 0, n, h, meth, w)
         else do {
           let h = h\<lparr>w_data := w_data h @ data\<rparr>;
           (abort, meth, w) \<leftarrow> (if n mod step = 0 then handle_keys L' ap meth w
                                  else Some (False, meth, w));
           if abort then Some (- EINTR, n, h, meth, w)
           else do {
             let w = (if (n + 1) mod rate = 0 then start_writeout K' (w_fd h) w else w);
             if buffer_bytes k' \<le> length (w_data h) then do {
               let (error, h, w) = flush_buffer k' cfg' K' L' h w;
               if error \<noteq> 0 then Some (error, n, h, meth, w)
               else save_loop k' cfg' K' L' ap step rate (n + 1) (h\<lparr>w_data := []\<rparr>) meth w
             } else save_loop k' cfg' K' L' ap step rate (n + 1) h meth w
           }
         }) = Some y"
    obtain e n' h' meth' w' where y: "y = (e, n', h', meth', w')" by (metis surj_pair)
    show "?P k' cfg' K' L' ap step rate n h meth w y"
      unfolding y split_conv
    proof (intro impI)
      assume same: "k' = k" "cfg' = cfg" "K' = K" "L' = L" and e0: "e = 0"
        and at: "saver_at k cfg L V start h0 w0 h w"
      note eq = eq [unfolded same]
      obtain Bs where inv: "saver_inv k cfg L V start h0 w0 h w Bs" and fb: "full_buffers k Bs"
        and al: "page_bytes k dvd length (w_data h)" "length (w_data h) < buffer_bytes k"
        using at unfolding saver_at_def by blast
      note fl = saver_inv_fields [OF inv]
      obtain r bs w1 where rd: "k_read K (w_input h) (page_bytes k) w = ((r, bs), w1)" by (metis surj_pair)
      note w1 = image_deviceD(1) [OF img rd [unfolded fl(3)]]
      show "saver_at k cfg L V start h0 w0 h' w'"
      proof (cases "r < psz k")
        case True
        then have "h' = h" "w' = w1" using eq rd y by (auto split: if_splits)
        moreover have "same_view V w w1" using w1 True by (simp add: same_view_def)
        ultimately show ?thesis
          using saver_inv_same [OF inv] fb al unfolding saver_at_def by blast
      next
        case False
        let ?h = "h\<lparr>w_data := w_data h @ bs\<rparr>"
        have inv1: "saver_inv k cfg L V start h0 w0 ?h w1 Bs"
          using w1 False by (intro saver_inv_read [OF inv]) auto
        have lb: "length bs = page_bytes k" using w1 False by auto
        have al1: "page_bytes k dvd length (w_data ?h)" "length (w_data ?h) \<le> buffer_bytes k"
          "w_data ?h \<noteq> []"
          using al aligned_step [OF al] lb by auto
        obtain a m2 w2 where hk: "(if n mod step = 0 then handle_keys L ap meth w1
            else Some (False, meth, w1)) = Some (a, m2, w2)"
          using eq rd False by (auto simp: bind_eq_Some_conv Let_def split: if_splits)
        have sv2: "same_view V w1 w2"
          using hk handle_keys_same [OF img, of ap meth w1 a m2 w2] by (auto split: if_splits)
        define w3 where "w3 = (if (n + 1) mod rate = 0 then start_writeout K (w_fd ?h) w2 else w2)"
        have sv3: "same_view V w1 w3"
          using sv2 same_view_trans [OF sv2] image_deviceD(3) [OF img] fl(2)
          by (simp add: w3_def start_writeout_def)
        note inv3 = saver_inv_same [OF inv1 sv3]
        have rest: "\<not> a" "(if buffer_bytes k \<le> length (w_data ?h) then
               (case flush_buffer k cfg K L ?h w3 of (error, h, w) \<Rightarrow>
               if error \<noteq> 0 then Some (error, n, h, m2, w)
               else save_loop k cfg K L ap step rate (n + 1) (h\<lparr>w_data := []\<rparr>) m2 w)
             else save_loop k cfg K L ap step rate (n + 1) ?h m2 w3) = Some (0, n', h', meth', w')"
          using eq rd False hk y e0 by (auto simp: Let_def w3_def split: if_splits)
        show ?thesis
        proof (cases "buffer_bytes k \<le> length (w_data ?h)")
          case True
          obtain e4 h4 w4 where fl4: "flush_buffer k cfg K L ?h w3 = (e4, h4, w4)" by (metis surj_pair)
          then have e4: "e4 = 0" and rec: "save_loop k cfg K L ap step rate (n + 1) (h4\<lparr>w_data := []\<rparr>) m2 w4
              = Some (0, n', h', meth', w')"
            using rest(2) True by (auto split: if_splits)
          have "saver_inv k cfg L V start h0 w0 (h4\<lparr>w_data := []\<rparr>) w4 (Bs @ [w_data ?h])"
            using saver_inv_flush [OF k ne lzo dev inv3 al1(3,1,2) fl4 [unfolded e4]] .
          moreover have "full_buffers k (Bs @ [w_data ?h])"
            using fb al1(2) True by (simp add: full_buffers_def)
          ultimately have "saver_at k cfg L V start h0 w0 (h4\<lparr>w_data := []\<rparr>) w4"
            unfolding saver_at_def by (intro exI [of _ "Bs @ [w_data ?h]"]) (simp add: buffer_bytes_def)
          then show ?thesis using IH [OF rec] by simp
        next
          case False
          then have rec: "save_loop k cfg K L ap step rate (n + 1) ?h m2 w3 = Some (0, n', h', meth', w')"
            using rest(2) by simp
          have "saver_at k cfg L V start h0 w0 ?h w3"
            using inv3 fb al1(1) False unfolding saver_at_def by (metis not_le)
          then show ?thesis using IH [OF rec] by simp
        qed
      qed
    qed
  qed
  then show ?thesis using at by simp
qed


lemma save_image_inv:
  assumes k: "5 \<le> k" and ne: "\<not> do_encrypt cfg" and lzo: "lzo_ok L"
    and dev: "swap_device k K (w_dev h0) (w_fd h0) V"
    and img: "image_device k K L (w_input h0) (w_fd h0) target V"
    and inv0: "writer_inv k V start h0 w0 []" "w_data h0 = []" "w_written_data h0 = 0"
      "do_compress cfg \<longrightarrow> length (w_block h0) = compress_buf_bytes k"
    and si: "save_image k cfg K L h0 nr meth w0 = Some (0, h', meth', w')"
  obtains Bs qss bs l pages beyond where "chain (contents V w') k start bs l" and "bs \<noteq> []"
    and "batch_list k bs = pages @ beyond" and "map (contents V w') pages = concat qss"
    and "list_all2 (buffer_pages k (do_compress cfg) L) Bs qss" and "full_buffers k (butlast Bs)"
    and "taken V w' = taken V w0 @ concat Bs" and "given V w' = given V w0"
    and "w_written_data h' = psz k * int (length (concat qss))"
    and "w_ctx h' = (if sum_on cfg then fold md5_process_block Bs (w_ctx h0) else w_ctx h0)"
    and "\<forall>q\<in>set (batch_list k bs) \<union> set (map fst bs). start \<le> q \<and> q \<in> held V w'" and "start \<in> held V w'"
proof -
  obtain r w1 where pa: "prepare_abort L w0 = (r, w1)" by fastforce
  define step where "step = (if nr div 100 = 0 then 1 else nr div 100)"
  define rate where "rate = (if early_writeout cfg then step else nr + 1)"
  obtain e2 n2 h2 m2 w2 where sl: "save_loop k cfg K L (r = 0) step rate 0 h0 meth w1 = Some (e2, n2, h2, m2, w2)"
    using si pa unfolding rate_def step_def by (auto simp: save_image_def Let_def bind_eq_Some_conv)
  have rest: "(let (error, h, w) = (if e2 = 0 then
          (let (error, h, w) = flush_buffer k cfg K L h2 w2
           in if error = 0 then save_extents k K True h w else (error, h, w))
        else (e2, h2, w2)) in Some (error, h, m2, if r = 0 then restore_abort L w else w)) = Some (0, h', meth', w')"
    using si pa sl unfolding rate_def step_def by (simp add: save_image_def Let_def)
  have e2: "e2 = 0" using rest by (auto split: if_splits prod.splits)
  have "saver_inv k cfg L V start h0 w0 h0 w0 []"
    unfolding saver_inv_def using inv0 by (intro exI [of _ "[]"]) simp
  then have "saver_inv k cfg L V start h0 w0 h0 w1 []"
    by (rule saver_inv_same) (rule image_deviceD(5) [OF img pa])
  then have "saver_at k cfg L V start h0 w0 h0 w1"
    unfolding saver_at_def using inv0(2) by (intro exI [of _ "[]"]) (simp add: full_buffers_def buffer_bytes_def)
  then have "saver_at k cfg L V start h0 w0 h2 w2"
    by (rule save_loop_inv [OF k ne lzo dev img _ sl [unfolded e2]])
  then obtain Bs where inv2: "saver_inv k cfg L V start h0 w0 h2 w2 Bs" and fb: "full_buffers k Bs"
    and al: "page_bytes k dvd length (w_data h2)" "length (w_data h2) < buffer_bytes k"
    unfolding saver_at_def by blast
  obtain e3 h3 w3 where fl: "flush_buffer k cfg K L h2 w2 = (e3, h3, w3)" by (metis surj_pair)
  have e3: "e3 = 0" using rest e2 fl by (auto split: if_splits prod.splits)
  obtain e4 h4 w4 where se: "save_extents k K True h3 w3 = (e4, h4, w4)" by (metis surj_pair)
  have e4: "e4 = 0" "h' = h4" "w' = (if r = 0 then restore_abort L w4 else w4)"
    using rest e2 fl e3 se by (auto split: if_splits)
  define Bs' where "Bs' = (if w_data h2 = [] then Bs else Bs @ [w_data h2])"
  have inv3: "saver_inv k cfg L V start h0 w0 (h3\<lparr>w_data := []\<rparr>) w3 Bs'"
  proof (cases "w_data h2 = []")
    case True
    then have "h3 = h2" "w3 = w2" using fl by (auto simp: flush_buffer_def)
    have e: "h2\<lparr>w_data := []\<rparr> = h2" using True by (cases h2) simp
    have "saver_inv k cfg L V start h0 w0 (h2\<lparr>w_data := []\<rparr>) w2 Bs" unfolding e by (rule inv2)
    then show ?thesis using True \<open>h3 = h2\<close> \<open>w3 = w2\<close> by (simp add: Bs'_def)
  next
    case False
    then show ?thesis
      using saver_inv_flush [OF k ne lzo dev inv2 _ al(1) _ fl [unfolded e3]] al(2) by (simp add: Bs'_def)
  qed
  then obtain qss where i: "writer_inv k V start (h3\<lparr>w_data := []\<rparr>) w3 (concat qss)"
     "list_all2 (buffer_pages k (do_compress cfg) L) Bs' qss"
     "taken V w3 = taken V w0 @ concat Bs'" "w_written_data h3 = psz k * int (length (concat qss))"
     "w_ctx h3 = (if sum_on cfg then fold md5_process_block Bs' (w_ctx h0) else w_ctx h0)"
     "w_dev h3 = w_dev h0" "w_fd h3 = w_fd h0" "given V w3 = given V w0"
    unfolding saver_inv_def by auto
  have inv4: "writer_inv k V start h3 w3 (concat qss)"
    using writer_inv_same [OF i(1) refl refl, of h3] by simp
  have dev3: "swap_device k K (w_dev h3) (w_fd h3) V" using dev i by simp
  obtain bs l pages beyond where fin: "chain (contents V w4) k start bs l" "bs \<noteq> []"
    "batch_list k bs = pages @ beyond" "map (contents V w4) pages = concat qss"
    "taken V w4 = taken V w3" "given V w4 = given V w3" "w_written_data h4 = w_written_data h3"
    "same_writer h3 h4" "\<forall>q\<in>set (batch_list k bs) \<union> set (map fst bs). start \<le> q \<and> q \<in> held V w4"
    "held V w4 = held V w3" "start \<in> held V w3"
    by (rule save_extents_finish [OF dev3 k inv4 se [unfolded e4(1)]])
  have sv: "same_view V w4 w'" using e4(3) image_deviceD(6) [OF img] by simp
  have "full_buffers k (butlast Bs')"
    using fb by (auto simp: Bs'_def full_buffers_def dest: in_set_butlastD)
  then show ?thesis
    using that [of bs l pages beyond qss Bs'] fin i sv e4(2) by (simp add: same_view_def same_writer_def)
qed

section \<open>Loading\<close>

lemma reader_inv_update [simp]:
  "reader_inv k V (h\<lparr>r_data := x\<rparr>) w rest = reader_inv k V h w rest"
  "reader_inv k V (h\<lparr>r_ctx := y\<rparr>) w rest = reader_inv k V h w rest"
  by (simp_all add: reader_inv_def)

lemma load_buffer_inv:
  assumes k: "6 \<le> k" "k \<le> 20" and ne: "\<not> do_decrypt cfg" and lzo: "lzo_ok L"
    and dev: "swap_device k K dev (r_fd h) V" and inv: "reader_inv k V h w (ps @ rest)"
    and ps: "map (contents V w) ps = qs" and bp: "buffer_pages k (do_decompress cfg) L d qs"
    and tot: "psz k * int (length qs) \<le> r_total_size h"
      "length d = buffer_bytes k \<or> r_total_size h = psz k * int (length qs)"
  shows "\<exists>h' w'. load_buffer k cfg K L h w = (length d, h', w') \<and> r_data h' = d \<and> same_view V w w'
    \<and> (rest \<noteq> [] \<longrightarrow> reader_inv k V h' w' rest) \<and> r_fd h' = r_fd h
    \<and> r_ctx h' = (if verify_checksum cfg then md5_process_block d (r_ctx h) else r_ctx h)
    \<and> r_total_size h' = r_total_size h - psz k * int (length qs)"
proof -
  have k5: "5 \<le> k" using k by simp
  have b: "d \<noteq> []" "page_bytes k dvd length d" "length d \<le> buffer_bytes k"
    "\<forall>q\<in>set qs. length q = page_bytes k" using bp by (simp_all add: buffer_pages_def)
  have lq: "length ps = length qs" using ps by (metis length_map)
  show ?thesis
  proof (cases "do_decompress cfg")
    case False
    then have cq: "concat qs = d" using bp by (simp add: buffer_pages_def)
    then have ld: "length d = length qs * page_bytes k" using length_concat_pages [OF b(4)] by simp
    have "qs \<noteq> []" using cq b(1) by auto
    have "\<exists>h' w'. load_plain_pages k cfg K L 0 [] h w
        = (Some ([] @ concat (map (contents V w) ps)), h', w') \<and> same_view V w w'
      \<and> (rest \<noteq> [] \<longrightarrow> reader_inv k V h' w' rest) \<and> r_fd h' = r_fd h \<and> r_ctx h' = r_ctx h
      \<and> r_total_size h' = r_total_size h - psz k * int (length qs)"
      by (rule load_plain_pages_inv [OF k5 ne dev])
        (use inv lq tot b(3) ld \<open>qs \<noteq> []\<close> in auto)
    then show ?thesis using False ps cq by (auto simp: load_buffer_def Let_def)
  next
    case True
    define c where "c = lzo_compress L d"
    obtain junk where junk: "concat qs = compressed_block L d @ junk" "length junk < page_bytes k"
      using bp True by (auto simp: buffer_pages_def)
    have len: "length qs * page_bytes k = 8 + length c + length junk"
      using length_concat_pages [OF b(4)] junk(1) by (simp add: c_def)
    have "length c \<le> length d + length d div 16 + 67" using lzo by (simp add: lzo_ok_def c_def)
    moreover have "length d \<le> 2 ^ 25"
    proof -
      have "page_bytes k \<le> 2 ^ 20" using k(2) by (intro power_increasing) simp_all
      then show ?thesis using b(3) by (simp add: buffer_bytes_def)
    qed
    ultimately have small: "length c + 8 < 2 ^ 64" by simp
    have "qs \<noteq> []" using len by auto
    then obtain q qs' p ps' where q: "qs = q # qs'" and p: "ps = p # ps'"
      using lq by (cases qs; cases ps) auto
    have cp: "contents V w p = q" "map (contents V w) ps' = qs'" using ps q p by auto
    have psz64: "(64::nat) \<le> page_bytes k"
    proof -
      have "(2::nat) ^ 6 \<le> page_bytes k" using k(1) by (intro power_increasing) simp_all
      then show ?thesis by simp
    qed
    have "take 8 q = take 8 (concat qs)" using q b(4) psz64 by simp
    then have "block_size q = of_nat (length c)"
      by (simp add: block_size_def junk(1) compressed_block_def c_def le_word_le_bytes_full)
    then have bs: "unat (block_size q + 8) = length c + 8" "unat (block_size q) = length c"
      using small by (simp_all add: unat_word_ariths unsigned_of_nat take_bit_nat_eq_self)
    obtain h1 w1 where l1: "load_and_decrypt_page k cfg K L h w = (0, q, h1, w1)"
      and sv1: "same_view V w w1" and inv1: "ps' @ rest \<noteq> [] \<Longrightarrow> reader_inv k V h1 w1 (ps' @ rest)"
      and f1: "r_fd h1 = r_fd h" "r_total_size h1 = r_total_size h - psz k" "r_ctx h1 = r_ctx h"
      using load_page_inv [OF dev, of w p "ps' @ rest" cfg L] inv ne cp p by auto
    have dev1: "swap_device k K dev (r_fd h1) V" using dev f1 by simp
    have cnt: "length qs' * page_bytes k + page_bytes k = 8 + length c + length junk"
      using len q by simp
    have few: "length qs' = 0" if "8 + length c < page_bytes k"
    proof -
      have "length qs' * page_bytes k < page_bytes k" using that cnt junk(2) by linarith
      then show ?thesis by simp
    qed
    have "\<exists>h' w'. load_block_pages k cfg K L (length c + 8) (page_bytes k) q h1 w1
        = (Some (q @ concat (map (contents V w1) ps')), h', w') \<and> same_view V w1 w'
      \<and> (rest \<noteq> [] \<longrightarrow> reader_inv k V h' w' rest) \<and> r_fd h' = r_fd h1 \<and> r_ctx h' = r_ctx h1
      \<and> r_total_size h' = r_total_size h1 - psz k * int (length qs')"
    proof (rule load_block_pages_inv [OF k5 ne dev1])
      show "length ps' = length qs'" using lq q p by simp
      show "length qs' * page_bytes k < length c + 8 - page_bytes k + page_bytes k"
        using few cnt junk(2) by (cases "8 + length c < page_bytes k") auto
      show "length c + 8 - page_bytes k \<le> length qs' * page_bytes k" using cnt by linarith
      show "reader_inv k V h1 w1 (ps' @ rest)" if "length qs' \<noteq> 0"
        using that lq q p by (intro inv1) auto
      show "reader_inv k V h1 w1 rest" if "length qs' = 0" "rest \<noteq> []"
        using that inv1 lq q p by auto
    qed
    then obtain h' w' where l2: "load_block_pages k cfg K L (length c + 8) (page_bytes k) q h1 w1
        = (Some (concat qs), h', w')" and r: "same_view V w1 w'"
      "rest \<noteq> [] \<longrightarrow> reader_inv k V h' w' rest" "r_fd h' = r_fd h1" "r_ctx h' = r_ctx h1"
      "r_total_size h' = r_total_size h1 - psz k * int (length qs')"
      using sv1 cp q by (auto simp: same_view_def)
    have "block_size (concat qs) = block_size q" using \<open>take 8 q = take 8 (concat qs)\<close>
      by (simp add: block_size_def)
    moreover have "take (length c) (drop 8 (concat qs)) = c"
      by (simp add: junk(1) compressed_block_def c_def)
    moreover have "lzo_decompress L c = Some d" using lzo by (simp add: lzo_ok_def c_def)
    ultimately have "load_buffer k cfg K L h w = (length d,
       h'\<lparr>r_data := d, r_ctx := (if verify_checksum cfg then md5_process_block d (r_ctx h') else r_ctx h')\<rparr>, w')"
      using True l1 l2 bs by (simp add: load_buffer_def Let_def)
    moreover have "reader_inv k V (h'\<lparr>r_data := d, r_ctx := x\<rparr>) w' rest" if "rest \<noteq> []" for x
      using r(2) that reader_inv_cong [of k V h' w' rest] by simp
    ultimately show ?thesis
      using r f1 same_view_trans [OF sv1 r(1)] q by (auto simp: algebra_simps)
  qed
qed


lemma load_loop_inv:
  assumes k: "6 \<le> k" "k \<le> 20" and ne: "\<not> do_decrypt cfg" and lzo: "lzo_ok L"
    and img: "image_device k K L inp fd' target V"
  shows "swap_device k K dev (r_fd h) V \<Longrightarrow> (Bs \<noteq> [] \<Longrightarrow> reader_inv k V h w (ps @ beyond)) \<Longrightarrow>
    map (contents V w) ps = concat qss \<Longrightarrow> list_all2 (buffer_pages k (do_decompress cfg) L) Bs qss \<Longrightarrow>
    full_buffers k (butlast Bs) \<Longrightarrow> r_total_size h = psz k * int (length (concat qss)) \<Longrightarrow>
    page_bytes k dvd length buf \<Longrightarrow> length (buf @ concat Bs) = n * page_bytes k \<Longrightarrow> 0 < n \<Longrightarrow>
    \<exists>h' w'. load_loop k cfg K L False target n buf h w = (0, h', w')
      \<and> given V w' = given V w @ buf @ concat Bs \<and> taken V w' = taken V w \<and> contents V w' = contents V w
      \<and> r_ctx h' = (if verify_checksum cfg then fold md5_process_block Bs (r_ctx h) else r_ctx h)"
proof (induction n arbitrary: buf h w Bs ps qss)
  case (Suc n)
  have pos: "0 < page_bytes k" by simp
  obtain buf1 h1 w1 Bs1 ps1 qss1 where
    st: "(if buf = [] then load_buffer k cfg K L h w else (length buf, h, w)) = (length buf1, h1, w1)"
      "(if buf = [] then r_data h1 else buf) = buf1" "buf1 \<noteq> []"
    and sv: "same_view V w w1" and fd: "r_fd h1 = r_fd h"
    and s1: "Bs1 \<noteq> [] \<Longrightarrow> reader_inv k V h1 w1 (ps1 @ beyond)" "map (contents V w) ps1 = concat qss1"
      "list_all2 (buffer_pages k (do_decompress cfg) L) Bs1 qss1" "full_buffers k (butlast Bs1)"
      "r_total_size h1 = psz k * int (length (concat qss1))" "page_bytes k dvd length buf1"
      "buf1 @ concat Bs1 = buf @ concat Bs"
    and cx: "(if verify_checksum cfg then fold md5_process_block Bs1 (r_ctx h1) else r_ctx h1)
      = (if verify_checksum cfg then fold md5_process_block Bs (r_ctx h) else r_ctx h)"
  proof (cases "buf = []")
    case False
    then show ?thesis using that [of buf h w Bs ps qss] Suc.prems by simp
  next
    case True
    then have "Bs \<noteq> []" using Suc.prems(8) pos by auto
    then obtain d Bs' qs qss' where B: "Bs = d # Bs'" "qss = qs # qss'"
      using Suc.prems(4) by (cases Bs; cases qss) auto
    have bp: "buffer_pages k (do_decompress cfg) L d qs"
      and rest: "list_all2 (buffer_pages k (do_decompress cfg) L) Bs' qss'"
      using Suc.prems(4) B by auto
    define ps1 where "ps1 = take (length qs) ps"
    define ps2 where "ps2 = drop (length qs) ps"
    have ps: "ps = ps1 @ ps2" by (simp add: ps1_def ps2_def)
    have lq: "length qs \<le> length ps" using Suc.prems(3) B by (metis concat.simps(2) length_append length_map le_add1)
    have m1: "map (contents V w) ps1 = qs" and m2: "map (contents V w) ps2 = concat qss'"
      using Suc.prems(3) B by (auto simp: ps1_def ps2_def take_map [symmetric] drop_map [symmetric])
    have inv: "reader_inv k V h w (ps1 @ (ps2 @ beyond))" using Suc.prems(2) \<open>Bs \<noteq> []\<close> ps by simp
    have "length d = buffer_bytes k \<or> r_total_size h = psz k * int (length qs)"
    proof (cases "Bs' = []")
      case True
      then have "qss' = []" using rest by simp
      then show ?thesis using Suc.prems(6) B by simp
    next
      case False
      then have "d \<in> set (butlast Bs)" using B by simp
      then show ?thesis using Suc.prems(5) by (simp add: full_buffers_def)
    qed
    moreover have "psz k * int (length qs) \<le> r_total_size h"
      using Suc.prems(6) B by (simp add: algebra_simps)
    ultimately obtain h' w' where l: "load_buffer k cfg K L h w = (length d, h', w')" "r_data h' = d"
      "same_view V w w'" "ps2 @ beyond \<noteq> [] \<longrightarrow> reader_inv k V h' w' (ps2 @ beyond)" "r_fd h' = r_fd h"
      "r_ctx h' = (if verify_checksum cfg then md5_process_block d (r_ctx h) else r_ctx h)"
      "r_total_size h' = r_total_size h - psz k * int (length qs)"
      using load_buffer_inv [OF k ne lzo Suc.prems(1) inv m1 bp] by metis
    have "d \<noteq> []" "page_bytes k dvd length d" using bp by (auto simp: buffer_pages_def)
    moreover have "ps2 @ beyond \<noteq> []" if nonempty: "Bs' \<noteq> []"
    proof -
      obtain d2 B2 q2 qq2 where x: "Bs' = d2 # B2" "qss' = q2 # qq2"
        using nonempty rest by (cases Bs'; cases qss') auto
      have "buffer_pages k (do_decompress cfg) L d2 q2" using rest x by simp
      moreover have "compressed_block L d2 \<noteq> []"
        by (metis add_is_0 length_compressed_block list.size(3) zero_neq_numeral)
      ultimately have "q2 \<noteq> []" by (auto simp: buffer_pages_def split: if_splits)
      then show ?thesis using m2 x by auto
    qed
    moreover have "full_buffers k (butlast Bs')"
      using Suc.prems(5) B by (cases "Bs' = []") (auto simp: full_buffers_def)
    ultimately show ?thesis
      using that [of d h' w' Bs' ps2 qss'] l True rest B m2 Suc.prems(6)
      by (auto simp: algebra_simps)
  qed
  have len1: "length (buf1 @ concat Bs1) = Suc n * page_bytes k" using Suc.prems(8) s1(7) by simp
  have "page_bytes k \<le> length buf1" using s1(6) st(3) by (auto dest: dvd_imp_le)
  then have lp: "length (take (page_bytes k) buf1) = page_bytes k" by simp
  obtain r w2 where wr: "k_write K target (take (page_bytes k) buf1) w1 = (r, w2)" by fastforce
  note w2 = image_deviceD(2) [OF img wr lp]
  have step: "load_loop k cfg K L False target (Suc n) buf h w =
     (if n = 0 then (0, h1, w2) else load_loop k cfg K L False target n (drop (page_bytes k) buf1) h1 w2)"
    using st wr w2
    by (auto simp: load_loop.simps [of k cfg K L False target "Suc n"] Let_def split: if_splits)
  show ?case
  proof (cases "n = 0")
    case True
    then have "length buf1 + length (concat Bs1) = page_bytes k" using len1 by simp
    then have "length (concat Bs1) = 0" "length buf1 = page_bytes k"
      using \<open>page_bytes k \<le> length buf1\<close> by linarith+
    then have z: "concat Bs1 = []" "drop (page_bytes k) buf1 = []"
      by (simp_all only: length_0_conv drop_all order_refl)
    have "Bs1 = []"
    proof (rule ccontr)
      assume "Bs1 \<noteq> []"
      then obtain d B2 q2 qq2 where x: "Bs1 = d # B2" "qss1 = q2 # qq2"
        using s1(3) by (cases Bs1; cases qss1) auto
      then have "d \<noteq> []" using s1(3) by (auto simp: buffer_pages_def)
      then show False using z x by auto
    qed
    moreover have "take (page_bytes k) buf1 = buf1" using z(2) by simp
    ultimately show ?thesis
      using step True w2 sv s1(7) cx by (auto simp: same_view_def)
  next
    case False
    have dev1: "swap_device k K dev (r_fd h1) V" using Suc.prems(1) fd by simp
    have "reader_inv k V h1 w2 (ps1 @ beyond)" if "Bs1 \<noteq> []"
      using reader_inv_cong [OF s1(1) [OF that], of h1 w2] w2 by simp
    moreover have "map (contents V w2) ps1 = concat qss1" using s1(2) w2 sv by (simp add: same_view_def)
    moreover have "length (drop (page_bytes k) buf1 @ concat Bs1) = n * page_bytes k"
      using len1 \<open>page_bytes k \<le> length buf1\<close> by simp
    moreover have "page_bytes k dvd length (drop (page_bytes k) buf1)" using s1(6) by (simp add: dvd_diff_nat)
    ultimately have "\<exists>h' w'. load_loop k cfg K L False target n (drop (page_bytes k) buf1) h1 w2 = (0, h', w')
      \<and> given V w' = given V w2 @ drop (page_bytes k) buf1 @ concat Bs1 \<and> taken V w' = taken V w2
      \<and> contents V w' = contents V w2
      \<and> r_ctx h' = (if verify_checksum cfg then fold md5_process_block Bs1 (r_ctx h1) else r_ctx h1)"
      using False by (intro Suc.IH [OF dev1 _ _ s1(3,4,5)]) auto
    moreover have "given V w2 @ drop (page_bytes k) buf1 @ concat Bs1 = given V w @ buf @ concat Bs"
      using w2 sv s1(7) by (simp add: same_view_def flip: append_assoc) (simp add: append_assoc)
    ultimately show ?thesis
      using step False w2 sv cx by (auto simp: same_view_def)
  qed
qed simp


section \<open>From one end to the other\<close>

lemma md5_fold_blocks:
  assumes "md5_rel ctx m" and "buflen ctx = 0"
    and "\<forall>B\<in>set Bs. 64 dvd length B \<and> length B < 2 ^ 32"
  shows "md5_rel (fold md5_process_block Bs ctx) (m @ concat Bs)"
  using assms
proof (induction Bs arbitrary: ctx m)
  case (Cons B Bs)
  have "md5_rel (md5_process_block B ctx) (m @ B)"
    using Cons.prems by (intro md5_process_blocks_rel) auto
  moreover have "buflen (md5_process_block B ctx) = 0" using Cons.prems(2) by simp
  ultimately have "md5_rel (fold md5_process_block Bs (md5_process_block B ctx)) ((m @ B) @ concat Bs)"
    using Cons.prems(3) by (intro Cons.IH) auto
  then show ?case by simp
qed simp

lemma md5_image_digest:
  assumes "length (md5_buf ctx) = 128" and "6 \<le> k" and "k \<le> 20"
    and "list_all2 (buffer_pages k compress L) Bs qss"
  shows "fst (md5_finish_ctx (fold md5_process_block Bs (md5_init_ctx ctx))) = rfc_md5 (concat Bs)"
proof -
  have "\<forall>B\<in>set Bs. 64 dvd length B \<and> length B < 2 ^ 32"
  proof
    fix B assume "B \<in> set Bs"
    then obtain qs where "buffer_pages k compress L B qs"
      using assms(4) by (auto simp: list_all2_conv_all_nth in_set_conv_nth)
    then have B: "page_bytes k dvd length B" "length B \<le> buffer_bytes k" by (auto simp: buffer_pages_def)
    have "(64::nat) dvd page_bytes k" using assms(2) le_imp_power_dvd [of 6 k "2::nat"] by simp
    then have "64 dvd length B" using B(1) dvd_trans by blast
    moreover have "page_bytes k \<le> 2 ^ 20" using assms(3) by (intro power_increasing) simp_all
    then have "length B < 2 ^ 32" using B(2) by (simp add: buffer_bytes_def)
    ultimately show "64 dvd length B \<and> length B < 2 ^ 32" ..
  qed
  then have "md5_rel (fold md5_process_block Bs (md5_init_ctx ctx)) ([] @ concat Bs)"
    using md5_init_rel [OF assms(1)] by (intro md5_fold_blocks) (auto simp: md5_init_ctx_def)
  then show ?thesis using md5_finish_ctx_rfc by simp
qed

lemma alloc_swap_writer_fields:
  assumes "alloc_swap_writer k cfg L h m = Some (h1, m1)"
  shows "w_data h1 = [] \<and> length (w_block h1) = write_buf_size cfg \<and> w_ctx h1 = w_ctx h"
  using assms by (auto simp: alloc_swap_writer_def bind_eq_Some_conv)

lemma init_swap_writer_fields:
  assumes "init_swap_writer k cfg K L h dev fd inp m w = Some (0, h1, m1, w1)"
  shows "get_swap_page K dev w = (w_extents_spc h1, w1)" and "w_extents_spc h1 \<noteq> 0"
    and "w_extents h1 = zero_extents k" and "w_nr_extents h1 = 0" and "w_data h1 = []"
    and "w_written_data h1 = 0" and "length (w_block h1) = write_buf_size cfg"
    and "w_dev h1 = dev" and "w_fd h1 = fd" and "w_input h1 = (if 0 \<le> inp then inp else dev)"
    and "sum_on cfg \<Longrightarrow> w_ctx h1 = md5_init_ctx (w_ctx h)"
proof -
  obtain ha ma where al: "alloc_swap_writer k cfg L h m = Some (ha, ma)"
    using assms by (auto simp: init_swap_writer_def bind_eq_Some_conv)
  note f = alloc_swap_writer_fields [OF al]
  obtain off wx where g: "get_swap_page K dev w = (off, wx)" by fastforce
  have ne: "w_extents_mem ha \<noteq> None" "off \<noteq> 0"
    using assms al g by (auto simp: init_swap_writer_def Let_def split: if_splits)
  define h0 where "h0 = ha\<lparr>w_dev := dev, w_fd := fd, w_input := (if 0 \<le> inp then inp else dev),
                 w_written_data := 0, w_extents := zero_extents k, w_nr_extents := 0, w_extents_spc := off\<rparr>"
  have h1: "h1 = (if compute_checksum cfg \<or> verify_image cfg
      then h0\<lparr>w_ctx := md5_init_ctx (w_ctx h0)\<rparr> else h0)" "w1 = wx"
    using assms al g ne by (auto simp: init_swap_writer_def Let_def h0_def)
  have h0: "w_extents_spc h1 = off" "w_extents h1 = zero_extents k" "w_nr_extents h1 = 0" "w_data h1 = []"
    "w_written_data h1 = 0" "length (w_block h1) = write_buf_size cfg" "w_dev h1 = dev" "w_fd h1 = fd"
    "w_input h1 = (if 0 \<le> inp then inp else dev)" "sum_on cfg \<Longrightarrow> w_ctx h1 = md5_init_ctx (w_ctx h)"
    using f by (auto simp: h1 h0_def sum_on_def)
  show "get_swap_page K dev w = (w_extents_spc h1, w1)" "w_extents_spc h1 \<noteq> 0"
    using g ne h0(1) h1(2) by simp_all
  show "w_extents h1 = zero_extents k" "w_nr_extents h1 = 0" "w_data h1 = []" "w_written_data h1 = 0"
    "length (w_block h1) = write_buf_size cfg" "w_dev h1 = dev" "w_fd h1 = fd"
    "w_input h1 = (if 0 \<le> inp then inp else dev)"
    by (rule h0)+
  show "w_ctx h1 = md5_init_ctx (w_ctx h)" if "sum_on cfg" using that by (rule h0(10))
qed

lemma alloc_swap_reader_fields:
  assumes "alloc_swap_reader k cfg L h m = Some (h1, m1)"
  shows "r_fd h1 = r_fd h \<and> r_total_size h1 = r_total_size h \<and> r_ctx h1 = r_ctx h"
  using assms by (auto simp: alloc_swap_reader_def bind_eq_Some_conv)

lemma init_swap_reader_cases:
  assumes "init_swap_reader k cfg K L h fd start sz m w = Some (e, h1, m1, w1)" and "start \<noteq> 0"
  obtains h0 e' h' w' where "r_fd h0 = fd" and "r_total_size h0 = sz" and "r_next_extents h0 = start"
    and "r_ctx h0 = r_ctx h" and "load_extents_page k K h0 w = (e', h', w')"
    and "e' = 0 \<longrightarrow> e = 0 \<and> w1 = w'
      \<and> h1 = (if verify_checksum cfg then h'\<lparr>r_ctx := md5_init_ctx (r_ctx h')\<rparr> else h')"
proof -
  obtain ha ma where al: "alloc_swap_reader k cfg L (h\<lparr>r_fd := fd, r_total_size := sz\<rparr>) m = Some (ha, ma)"
    using assms by (auto simp: init_swap_reader_def bind_eq_Some_conv)
  note f = alloc_swap_reader_fields [OF al]
  obtain e' h' w' where l: "load_extents_page k K (ha\<lparr>r_next_extents := start\<rparr>) w = (e', h', w')"
    by (metis surj_pair)
  show ?thesis
    by (rule that [OF _ _ _ _ l])
      (use f assms al l in \<open>auto simp: init_swap_reader_def Let_def\<close>)
qed

lemma init_swap_writer_inv:
  assumes k: "5 \<le> k" and dev: "swap_device k K dev fd V"
    and init: "init_swap_writer k cfg K L h dev fd inp m w = Some (0, h1, m1, w1)"
    and pre: "preallocate_swap k cfg K h1' w1' = (p, h2, w2)" and p: "p \<noteq> 0"
    and needed: "h1' = h1\<lparr>w_swap_needed := needed\<rparr>" and quiet: "same_view V w1 w1'"
  shows "writer_inv k V (w_extents_spc h1) (h2\<lparr>w_cur_offset := w_cur_offset h2 - psz k\<rparr>) w2 []
    \<and> taken V w2 = taken V w \<and> given V w2 = given V w
    \<and> h2 = h1'\<lparr>w_extents := w_extents h2, w_nr_extents := w_nr_extents h2, w_cur_extent_idx := 0, w_cur_offset := p\<rparr>"
proof -
  note i = init_swap_writer_fields [OF init]
  note g = hands_outD [OF swap_deviceD(1) [OF dev] i(1) i(2)] swap_deviceD(4) [OF dev i(1)]
  have q: "held V w1' = held V w1" "contents V w1' = contents V w1" "taken V w1' = taken V w1" "given V w1' = given V w1"
    using quiet by (simp_all add: same_view_def)
  have dev1: "swap_device k K (w_dev h1') fd V" using dev i(8) needed by simp
  have spc: "w_extents_spc h1' = w_extents_spc h1" using needed by simp
  have ext: "zero_extent = zero_extent \<or> ext_ok k zero_extent" "ext_pages k zero_extent \<subseteq> held V w1'" by simp_all
  have arr: "w_extents h1' = (zero_extents k)[0 := zero_extent]"
    using i(3) needed by (simp add: zero_extents_def list_update_same_conv)
  have nr: "w_nr_extents h1' = (if zero_extent = zero_extent then 0 else 1)" using i(4) needed by simp
  obtain es ov where pr: "h2 = h1'\<lparr>w_extents := array_of k es ov, w_nr_extents := length es,
      w_cur_extent_idx := 0, w_cur_offset := p\<rparr>" "p = ext_start (es ! 0)" "supply_ok k es ov"
    "pages k es \<union> ext_pages k ov = ext_pages k zero_extent \<union> (held V w2 - held V w1)"
    "held V w1 \<subseteq> held V w2" "contents V w2 = contents V w1" "taken V w2 = taken V w1" "given V w2 = given V w1"
    "grows_upwards V w1 w2"
    by (rule preallocate_swap_ok [OF dev1 k ext arr nr pre p]) (simp add: grows_upwards_def flip: q)
  note s = supply_okD [OF pr(3)]
  let ?h = "h2\<lparr>w_cur_offset := w_cur_offset h2 - psz k\<rparr>"
  have e0: "ext_ok k (es ! 0)" using s by simp
  have "es = es ! 0 # drop 1 es" using s(1) by (cases es) auto
  then have "exts_list k es = ext_list k (es ! 0) @ exts_list k (drop 1 es)"
    by (metis exts_list_simps(2))
  then have rest: "exts_list k es = [] @ writer_rest k ?h es"
    by (simp add: writer_rest_def pr(1,2))
  have "writer_at k V (w_extents_spc h1) ?h w2 [] [] es ov"
    unfolding writer_at_def
  proof (intro conjI)
    show "(pages k es \<union> ext_pages k ov) \<inter> (set (batch_list k []) \<union> set (map fst ([]::batch list)) \<union> {w_extents_spc ?h}) = {}"
      unfolding pr(4) using g(4) by (simp add: pr(1) needed)
    show "set (batch_list k []) \<union> set (map fst ([]::batch list)) \<union> {w_extents_spc ?h} \<union> pages k es \<union> ext_pages k ov
        \<subseteq> held V w2"
      using pr(4,5) g(4) by (auto simp: pr(1) needed)
    show "\<forall>q\<in>set (batch_list k []) \<union> set (map fst ([]::batch list)) \<union> {w_extents_spc ?h} \<union> pages k es \<union> ext_pages k ov.
        w_extents_spc h1 \<le> q"
      using pr(4,9) g(4) by (auto simp: pr(1) needed grows_upwards_def intro: less_imp_le)
  qed (use pr(3) s(1) rest g(1,2) in \<open>simp_all add: pr(1) spc\<close>)
  moreover have "0 < p" using e0 pr(2) by (simp add: ext_ok_def)
  ultimately have "writer_inv k V (w_extents_spc h1) ?h w2 []"
    unfolding writer_inv_def by (intro exI [of _ "[]"] exI [of _ es] exI [of _ ov]) (simp add: pr(1) needed)
  then show ?thesis using pr g by simp
qed

text \<open>
  The image \<open>concat Bs\<close> is on the swap device: behind the extents page at \<open>start\<close> is a chain of
  batches whose first pages hold the buffers \<open>Bs\<close>, in \<open>tot\<close> bytes; all of it lies in \<open>P\<close>.
\<close>

definition image_at ::
  "nat \<Rightarrow> bool \<Rightarrow> 'w libs \<Rightarrow> loff_t set \<Rightarrow> (loff_t \<Rightarrow> byte list) \<Rightarrow> loff_t \<Rightarrow> loff_t \<Rightarrow> byte list list \<Rightarrow> bool" where
  "image_at k compress L P c start tot Bs \<longleftrightarrow>
     (\<exists>bs l pages beyond qss. chain c k start bs l \<and> bs \<noteq> [] \<and> batch_list k bs = pages @ beyond
        \<and> map c pages = concat qss \<and> list_all2 (buffer_pages k compress L) Bs qss
        \<and> full_buffers k (butlast Bs) \<and> tot = psz k * int (length (concat qss))
        \<and> (\<forall>q\<in>set (batch_list k bs) \<union> set (map fst bs). start \<le> q \<and> q \<in> P))"

lemma image_at_cong:
  assumes "image_at k compress L P c start tot Bs" and "\<And>q. start \<le> q \<Longrightarrow> q \<in> P \<Longrightarrow> c' q = c q"
  shows "image_at k compress L P c' start tot Bs"
proof -
  obtain bs l pages beyond qss where a: "chain c k start bs l" "bs \<noteq> []" "batch_list k bs = pages @ beyond"
    "map c pages = concat qss" "list_all2 (buffer_pages k compress L) Bs qss"
    "full_buffers k (butlast Bs)" "tot = psz k * int (length (concat qss))"
    "\<forall>q\<in>set (batch_list k bs) \<union> set (map fst bs). start \<le> q \<and> q \<in> P"
    using assms(1) unfolding image_at_def by blast
  have "chain c' k start bs l" using a(8) assms(2) by (intro chain_cong [OF a(1)]) auto
  moreover have "map c' pages = map c pages" using a(3,8) assms(2) by (intro map_cong) auto
  ultimately show ?thesis using a unfolding image_at_def by metis
qed

text \<open>Saving leaves the image on the device, and its digest in the context.\<close>

lemma save_image_leaves_image:
  assumes k: "6 \<le> k" "k \<le> 20" and opts: "\<not> do_encrypt cfg" "\<not> use_threads cfg" "compress_buf_size cfg = compress_buf_bytes k"
    and lzo: "lzo_ok L" and dev: "swap_device k K dev fd V"
    and img: "image_device k K L (if 0 \<le> inp then inp else dev) fd target V"
    and init: "init_swap_writer k cfg K L h dev fd inp m w = Some (0, h1, m1, w1)"
    and pre: "preallocate_swap k cfg K h1' w1' = (p, h2, w2)" "p \<noteq> 0"
    and needed: "h1' = h1\<lparr>w_swap_needed := needed\<rparr>" and quiet: "same_view V w1 w1'"
    and save: "save_image k cfg K L (h2\<lparr>w_cur_offset := w_cur_offset h2 - psz k\<rparr>) nr meth w2
      = Some (0, h3, meth', w3)"
    and ctx: "length (md5_buf (w_ctx h)) = 128"
  obtains Bs where "image_at k (do_compress cfg) L (held V w3) (contents V w3) (w_extents_spc h1) (w_written_data h3) Bs"
    and "taken V w3 = taken V w @ concat Bs" and "given V w3 = given V w"
    and "w_extents_spc h1 \<in> held V w3" and "w_extents_spc h2 = w_extents_spc h1"
    and "sum_on cfg \<longrightarrow> fst (md5_finish_ctx (w_ctx h3)) = rfc_md5 (concat Bs)"
proof -
  have k5: "5 \<le> k" using k by simp
  note i = init_swap_writer_fields [OF init]
  note wi = init_swap_writer_inv [OF k5 dev init pre needed quiet]
  let ?h = "h2\<lparr>w_cur_offset := w_cur_offset h2 - psz k\<rparr>"
  obtain xs x where h2: "h2 = h1'\<lparr>w_extents := xs, w_nr_extents := x, w_cur_extent_idx := 0, w_cur_offset := p\<rparr>"
    using wi by blast
  have fields: "w_dev ?h = dev" "w_fd ?h = fd" "w_input ?h = (if 0 \<le> inp then inp else dev)"
    "w_data ?h = []" "w_written_data ?h = 0" "length (w_block ?h) = write_buf_size cfg"
    "w_ctx ?h = w_ctx h1" "w_extents_spc h2 = w_extents_spc h1"
    using h2 needed i by simp_all
  have dev2: "swap_device k K (w_dev ?h) (w_fd ?h) V" using dev fields by simp
  have img2: "image_device k K L (w_input ?h) (w_fd ?h) target V" using img fields by simp
  have blk: "do_compress cfg \<longrightarrow> length (w_block ?h) = compress_buf_bytes k"
    using fields(6) opts by (simp add: write_buf_size_def)
  obtain Bs qss bs l pages beyond where sv: "chain (contents V w3) k (w_extents_spc h1) bs l" "bs \<noteq> []"
    "batch_list k bs = pages @ beyond" "map (contents V w3) pages = concat qss"
    "list_all2 (buffer_pages k (do_compress cfg) L) Bs qss" "full_buffers k (butlast Bs)"
    "taken V w3 = taken V w2 @ concat Bs" "given V w3 = given V w2"
    "w_written_data h3 = psz k * int (length (concat qss))"
    "w_ctx h3 = (if sum_on cfg then fold md5_process_block Bs (w_ctx ?h) else w_ctx ?h)"
    "\<forall>q\<in>set (batch_list k bs) \<union> set (map fst bs). w_extents_spc h1 \<le> q \<and> q \<in> held V w3" "w_extents_spc h1 \<in> held V w3"
    by (rule save_image_inv [OF k5 opts(1) lzo dev2 img2 conjunct1 [OF wi] fields(4,5) blk save])
  have "image_at k (do_compress cfg) L (held V w3) (contents V w3) (w_extents_spc h1) (w_written_data h3) Bs"
    unfolding image_at_def using sv by blast
  moreover have "sum_on cfg \<longrightarrow> fst (md5_finish_ctx (w_ctx h3)) = rfc_md5 (concat Bs)"
    using md5_image_digest [OF ctx k sv(5)] sv(10) fields(7) i(11) by simp
  ultimately show ?thesis using that sv(7,8,12) wi fields(8) by simp
qed

text \<open>Loading gives back an image that is on the device.\<close>

lemma load_image_gives_image:
  assumes k: "6 \<le> k" "k \<le> 20" and opts: "\<not> do_decrypt lcfg" and lzo: "lzo_ok L"
    and dev: "swap_device k K dev fd V" and img: "image_device k K L inp fd' target V"
    and at: "image_at k (do_decompress lcfg) L P (contents V w4) start tot Bs" and "start \<noteq> 0"
    and image: "length (concat Bs) = n * page_bytes k" "0 < n"
    and rinit: "init_swap_reader k lcfg K L hr fd start tot m2 w4 = Some (e, hr1, m3, w5)"
    and ctx: "length (md5_buf (r_ctx hr)) = 128"
  shows "e = 0 \<and> (\<exists>hr2 w6. load_image k lcfg K L hr1 target n False w5 = (0, hr2, w6)
      \<and> given V w6 = given V w4 @ concat Bs \<and> taken V w6 = taken V w4 \<and> contents V w6 = contents V w4
      \<and> (verify_checksum lcfg \<longrightarrow> fst (md5_finish_ctx (r_ctx hr2)) = rfc_md5 (concat Bs)))"
proof -
  obtain bs l pages beyond qss where a: "chain (contents V w4) k start bs l" "bs \<noteq> []"
    "batch_list k bs = pages @ beyond" "map (contents V w4) pages = concat qss"
    "list_all2 (buffer_pages k (do_decompress lcfg) L) Bs qss" "full_buffers k (butlast Bs)"
    "tot = psz k * int (length (concat qss))"
    using at unfolding image_at_def by blast
  obtain sp es lst bs' where bs: "bs = (sp, es, lst) # bs'" using a(2) by (cases bs) auto
  obtain hr0 e' h' w' where hr0: "r_fd hr0 = fd" "r_total_size hr0 = tot"
      "r_next_extents hr0 = start" "r_ctx hr0 = r_ctx hr"
    and le0: "load_extents_page k K hr0 w4 = (e', h', w')"
    and ri: "e' = 0 \<longrightarrow> e = 0 \<and> w5 = w'
      \<and> hr1 = (if verify_checksum lcfg then h'\<lparr>r_ctx := md5_init_ctx (r_ctx h')\<rparr> else h')"
    by (rule init_swap_reader_cases [OF rinit \<open>start \<noteq> 0\<close>])
  have dev4: "swap_device k K dev (r_fd hr0) V" using dev hr0 by simp
  have ch: "chain (contents V w4) k (r_next_extents hr0) ((sp, es, lst) # bs') l"
    using a(1) bs hr0 by simp
  have le: "e' = 0 \<and> same_view V w4 w' \<and> reader_inv k V h' w' (exts_list k es @ batch_list k bs')
    \<and> r_fd h' = r_fd hr0 \<and> r_total_size h' = r_total_size hr0 \<and> r_ctx h' = r_ctx hr0"
    by (rule load_extents_page_chain [OF dev4 ch]) (use le0 in simp)
  have e: "e = 0" "w5 = w'" "hr1 = (if verify_checksum lcfg then h'\<lparr>r_ctx := md5_init_ctx (r_ctx h')\<rparr> else h')"
    using ri le by auto
  have rinv: "reader_inv k V hr1 w5 (pages @ beyond)"
    using le a(3) bs e by simp
  have dev5: "swap_device k K dev (r_fd hr1) V" using dev4 le e(3) by simp
  have m5: "map (contents V w5) pages = concat qss" using a(4) le e(2) by (simp add: same_view_def)
  have tot5: "r_total_size hr1 = psz k * int (length (concat qss))"
    using le hr0 e(3) a(7) by simp
  have dv: "page_bytes k dvd length ([]::byte list)" by simp
  have len5: "length ([] @ concat Bs) = n * page_bytes k" using image(1) by simp
  obtain hr2 w6 where ll: "load_loop k lcfg K L False target n [] hr1 w5 = (0, hr2, w6)"
    "given V w6 = given V w5 @ [] @ concat Bs" "taken V w6 = taken V w5" "contents V w6 = contents V w5"
    "r_ctx hr2 = (if verify_checksum lcfg then fold md5_process_block Bs (r_ctx hr1) else r_ctx hr1)"
    using load_loop_inv [OF k opts lzo img dev5 rinv m5 a(5,6) tot5 dv len5 image(2)] by blast
  have "verify_checksum lcfg \<longrightarrow> fst (md5_finish_ctx (r_ctx hr2)) = rfc_md5 (concat Bs)"
    using md5_image_digest [OF ctx k a(5)] ll(5) e(3) le hr0(4) by simp
  then show ?thesis
    using e(1,2) ll(1-4) le by (simp add: load_image_def same_view_def)
qed


section \<open>A small machine\<close>

text \<open>
  Pages of 64 bytes, a hundred swap pages handed out upwards, a disk that stores what is
  written, a snapshot device (file descriptor 3) that delivers a list of pages and collects what
  is given back. Compression is the identity.
\<close>

record small_world =
  sm_disk :: "loff_t \<Rightarrow> byte list"
  sm_pos :: loff_t
  sm_count :: nat
  sm_in :: "byte list list"
  sm_taken :: "byte list"
  sm_given :: "byte list"

definition whole_page :: "byte list \<Rightarrow> byte list" where
  "whole_page p = take 64 (p @ replicate 64 0)"

lemma length_whole_page [simp]: "length (whole_page p) = 64"
  by (simp add: whole_page_def)

definition small_kernel :: "small_world kernel" where
  "small_kernel =
     \<lparr>k_ioctl = (\<lambda>dev req w. if req = SNAPSHOT_ALLOC_SWAP_PAGE \<and> sm_count w < 100
          then (\<lparr>ret = 0, errno = 0, out = 64 * (int (sm_count w) + 1)\<rparr>, w\<lparr>sm_count := sm_count w + 1\<rparr>)
          else (\<lparr>ret = - 1, errno = EINVAL, out = 0\<rparr>, w)),
      k_lseek = (\<lambda>fd p w. (p, w\<lparr>sm_pos := p\<rparr>)),
      k_read = (\<lambda>fd c w. if fd = 3
          then (case sm_in w of [] \<Rightarrow> ((0, []), w)
                | p # ps \<Rightarrow> ((64, whole_page p), w\<lparr>sm_in := ps, sm_taken := sm_taken w @ whole_page p\<rparr>))
          else ((64, sm_disk w (sm_pos w)), w)),
      k_write = (\<lambda>fd bs w. (64, if fd = 3 then w\<lparr>sm_given := sm_given w @ bs\<rparr>
          else w\<lparr>sm_disk := (sm_disk w)(sm_pos w := bs)\<rparr>)),
      k_fsync = (\<lambda>fd w. w), k_close = (\<lambda>fd w. w), k_sync_file_range = (\<lambda>fd w. w),
      k_reboot = (\<lambda>cmd w. w)\<rparr>"

definition small_libs :: "small_world libs" where
  "small_libs =
     \<lparr>lzo_work_size = 64, lzo_compress = (\<lambda>d. d), lzo_decompress = Some,
      gcry_encrypt = (\<lambda>p w. ((0, p), w)), gcry_decrypt = (\<lambda>p w. ((0, p), w)),
      key_pressed = (\<lambda>w. (0, w)), prepare_abort = (\<lambda>w. (1, w)), restore_abort = (\<lambda>w. w),
      mem_byte = (\<lambda>a. 0)\<rparr>"

definition small_view :: "small_world view" where
  "small_view = \<lparr>contents = sm_disk, position = sm_pos,
     held = (\<lambda>w. (\<lambda>n. 64 * (int n + 1)) ` {..<min (sm_count w) 100}), taken = sm_taken, given = sm_given\<rparr>"

lemma small_get_swap_page: "get_swap_page small_kernel dev w =
    (if sm_count w < 100 then (64 * (int (sm_count w) + 1), w\<lparr>sm_count := sm_count w + 1\<rparr>) else (0, w))"
  by (simp add: get_swap_page_def ioctl_fallback_def small_kernel_def)

lemma small_swap_device: "swap_device 6 small_kernel 3 4 small_view"
  unfolding swap_device_def
proof (intro conjI)
  show "hands_out 6 (held small_view) (get_swap_page small_kernel 3)"
    by (auto simp: hands_out_def small_get_swap_page small_view_def min_def lessThan_Suc)
  show "hands_out_upwards (held small_view) (get_swap_page small_kernel 3)"
    by (auto simp: hands_out_upwards_def small_get_swap_page small_view_def)
  show "\<forall>w p w'. get_swap_page small_kernel 3 w = (p, w') \<longrightarrow>
        contents small_view w' = contents small_view w \<and> taken small_view w' = taken small_view w
        \<and> given small_view w' = given small_view w"
    by (simp add: small_get_swap_page small_view_def)
  show "\<forall>w. \<forall>p\<in>held small_view w. p + psz 6 < 2 ^ 63" by (auto simp: small_view_def)
qed (simp_all add: small_kernel_def small_view_def same_view_def)

lemma small_image_device: "image_device 6 small_kernel small_libs 3 4 3 small_view"
  unfolding image_device_def
proof (intro conjI)
  show "\<forall>w ret bs w'. k_read small_kernel 3 (page_bytes 6) w = ((ret, bs), w') \<longrightarrow>
        contents small_view w' = contents small_view w \<and> held small_view w' = held small_view w
        \<and> given small_view w' = given small_view w \<and>
        (if psz 6 \<le> ret then length bs = page_bytes 6 \<and> taken small_view w' = taken small_view w @ bs
         else taken small_view w' = taken small_view w)"
    by (auto simp: small_kernel_def small_view_def split: list.splits)
qed (simp_all add: small_kernel_def small_libs_def small_view_def same_view_def)

lemma small_lzo_ok: "lzo_ok small_libs"
  by (simp add: lzo_ok_def small_libs_def)

definition small_pool :: memalloc where
  "small_pool = \<lparr>page_size = 64, buffer_size = 2048, page_mask = NOT 63,
     mem_pool = 0x10000, pool_size = 0x8000, slots = replicate 8 \<lparr>slot_addr = 0, slot_size = 0\<rparr>,
     nr_slots = 8, cur_slot = 0\<rparr>"

definition small_writer :: swap_writer where
  "small_writer = \<lparr>w_extents = [], w_nr_extents = 0, w_cur_extent_idx = 0, w_cur_offset = 0,
     w_swap_needed = 128, w_written_data = 0, w_extents_spc = 0, w_data = [], w_block = [],
     w_dev = 0, w_fd = 0, w_input = 0, w_ctx = zero_ctx, w_encrypt_pos = 0, w_extents_mem = None,
     w_buffer_mem = None, w_write_buffer_mem = None, w_lzo_work_mem = None, w_encrypt_mem = None\<rparr>"

definition small_reader :: swap_reader where
  "small_reader = \<lparr>r_extents = [], r_cur_extent = 0, r_cur_offset = 0, r_next_extents = 0,
     r_total_size = 0, r_data = [], r_fd = 0, r_ctx = zero_ctx, r_extents_mem = None,
     r_buffer_mem = None, r_read_buffer_mem = None, r_lzo_work_mem = None, r_decrypt_mem = None\<rparr>"

definition small_cfg :: image_opts where
  "small_cfg = \<lparr>do_compress = False, do_encrypt = False, use_threads = False,
     compute_checksum = False, verify_image = False, early_writeout = False,
     compress_buf_size = compress_buf_bytes 6, encrypt_buf_size = 0\<rparr>"

definition small_lcfg :: load_opts where
  "small_lcfg = \<lparr>verify_checksum = True, do_decompress = False, do_decrypt = False,
     load_compress_buf_size = compress_buf_bytes 6\<rparr>"

definition small_world :: small_world where
  "small_world = \<lparr>sm_disk = (\<lambda>off. []), sm_pos = 0, sm_count = 0,
     sm_in = [replicate 64 0x61, replicate 64 0x62], sm_taken = [], sm_given = []\<rparr>"

definition small_save ::
  "(int \<times> swap_writer \<times> memalloc \<times> small_world \<times> loff_t \<times> swap_writer \<times> small_world
    \<times> int \<times> swap_writer \<times> shutdown \<times> small_world) option" where
  "small_save = do {
     (e, h1, m1, w1) \<leftarrow> init_swap_writer 6 small_cfg small_kernel small_libs small_writer 3 4 (- 1)
                          small_pool small_world;
     let (p, h2, w2) = preallocate_swap 6 small_cfg small_kernel h1 w1;
     (e3, h3, meth, w3) \<leftarrow> save_image 6 small_cfg small_kernel small_libs
        (h2\<lparr>w_cur_offset := w_cur_offset h2 - 64\<rparr>) 2 SHUTDOWN_METHOD_SHUTDOWN w2;
     Some (e, h1, m1, w1, p, h2, w2, e3, h3, meth, w3)
   }"

declare save_loop.simps [code] handle_keys.simps [code]

lemma small_save_run:
  "case small_save of None \<Rightarrow> False
   | Some (e, h1, m1, w1, p, h2, w2, e3, h3, meth, w3) \<Rightarrow> e = 0 \<and> p \<noteq> 0 \<and> e3 = 0
       \<and> sm_taken w3 = replicate 64 0x61 @ replicate 64 0x62"
  by code_simp

lemma small_reader_starts:
  "\<exists>e h m w'. start \<noteq> 0 \<longrightarrow> init_swap_reader 6 small_lcfg small_kernel small_libs small_reader 4 start sz small_pool w
     = Some (e, h, m, w')"
  by (simp add: init_swap_reader_def alloc_swap_reader_def small_lcfg_def small_pool_def
      getmem_def getmem_addr_def getmem_align_def buffer_bytes_def Let_def split: prod.splits if_splits)

abbreviation small_image :: "byte list" where
  "small_image \<equiv> replicate 64 0x61 @ replicate 64 0x62"


end
