(* ===== verification/Write_Image.thy ===== *)
theory Write_Image
  imports Image_Header Image_File
begin

text \<open>
  \<open>write_image\<close> of \<open>suspend.c\<close> and \<open>read_or_verify\<close> of \<open>load.c\<close>: the image with its header, the
  digest, the encryption keys and, at the very end, the signature in the swap header.
\<close>

section \<open>Configuration, environment and state\<close>

record suspend_cfg =
  img :: image_opts
  resume_offset :: loff_t
  pref_image_size :: loff_t
  resume_pause :: int
  test_image_size :: loff_t
  use_RSA :: bool
  s2ram :: bool
  s2ram_kms :: bool

text \<open>
  What else the code asks for: the random generator, the passphrase (\<open>splash.read_password\<close> in
  \<open>load.c\<close>, the array \<open>password\<close> in \<open>suspend.c\<close>), addresses and stack contents that do not matter,
  \<open>lzo_init\<close>, and the time a writeout took, as the bytes of a \<open>double\<close>.
\<close>

record 'w env =
  e_urandom :: "'w \<Rightarrow> byte list option \<times> 'w"
  e_ask :: "'w \<Rightarrow> byte list \<times> 'w"
  e_password :: "byte list"
  e_pass_addr :: nat
  e_stack_ctx :: md5_ctx
  e_lzo_init :: "'w \<Rightarrow> bool \<times> 'w"
  e_elapsed :: "'w \<Rightarrow> byte list"

text \<open>The static variables that change: the pool, the two handles, the flags of \<open>load.c\<close> (they are
  only ever set), the shutdown method and the keys.\<close>

record suspend_state =
  ss_mem :: memalloc
  ss_writer :: swap_writer
  ss_reader :: swap_reader
  ss_load :: load_opts
  ss_method :: shutdown
  ss_keys :: key_data

section \<open>read_or_verify\<close>

definition has_flag :: "image_header_info \<Rightarrow> u32 \<Rightarrow> bool" where
  "has_flag h f \<longleftrightarrow> h_flags h AND f \<noteq> 0"

text \<open>The flags \<open>verify_checksum\<close> and \<open>do_decompress\<close>, and the error of \<open>lzo_init\<close>.\<close>

definition load_flags :: "'w env \<Rightarrow> image_header_info \<Rightarrow> bool \<Rightarrow> load_opts \<Rightarrow> 'w \<Rightarrow> int \<times> load_opts \<times> 'w" where
  "load_flags E h verify lo w =
     (let lo = (if has_flag h IMAGE_CHECKSUM \<or> verify then lo\<lparr>verify_checksum := True\<rparr> else lo)
      in if has_flag h IMAGE_COMPRESSED
         then (let (ok, w) = e_lzo_init E w
               in if ok then (0, lo\<lparr>do_decompress := True\<rparr>, w) else (- EFAULT, lo, w))
         else (0, lo, w))"

text \<open>The cipher for the image: the error, the flags, the pool. The keys of \<open>restore_key\<close> are its
  own static arrays.\<close>

definition load_cipher ::
  "('w, 'm, 's) gcrypt \<Rightarrow> 'w env \<Rightarrow> image_header_info \<Rightarrow> bool \<Rightarrow> suspend_state \<Rightarrow> 'w \<Rightarrow>
   (int \<times> suspend_state \<times> 'w) option" where
  "load_cipher G E h test_mode st w =
     (if has_flag h IMAGE_ENCRYPTED then do {
        (error, m, w) \<leftarrow>
          (if test_mode
           then (let (error, w) = cipher_setiv G (kd_ivec (ss_keys st)) w in Some (error, ss_mem st, w))
           else do {
             (error, key, ivec, m, w) \<leftarrow>
               restore_key G (e_ask E) (e_pass_addr E) (e_stack_ctx E) (has_flag h IMAGE_USE_RSA) (h_salt h)
                 (h_rsa h) (h_key h) [] [] (ss_mem st) w;
             Some (error, m, w)
           });
        let st = st\<lparr>ss_mem := m\<rparr>;
        Some (error, if error = 0 then st\<lparr>ss_load := (ss_load st)\<lparr>do_decrypt := True\<rparr>\<rparr> else st, w)
      } else Some (0, st, w))"

text \<open>\<open>header->pages\<close> is passed to \<open>load_image\<close> as an \<open>unsigned int\<close>. \<open>h0\<close> is what the header page
  holds before it is read (\<open>read_page\<close> reads nothing at offset 0).\<close>

definition read_or_verify ::
  "nat \<Rightarrow> 'w kernel \<Rightarrow> 'w libs \<Rightarrow> ('w, 'm, 's) gcrypt \<Rightarrow> 'w env \<Rightarrow> fd \<Rightarrow> fd \<Rightarrow> image_header_info \<Rightarrow> loff_t \<Rightarrow>
   bool \<Rightarrow> bool \<Rightarrow> suspend_state \<Rightarrow> 'w \<Rightarrow> (int \<times> image_header_info \<times> suspend_state \<times> 'w) option" where
  "read_or_verify k K L G E dev fd h0 start verify test st w =
     (let test_mode = (verify \<or> test);
          ((error, page), w) = read_page k K fd start w;
          h = (case page of Some bs \<Rightarrow> image_header_of bs | None \<Rightarrow> h0)
      in if error \<noteq> 0 then Some (error, h, st, w)
         else let (error, lo, w) = load_flags E h verify (ss_load st) w;
                  st = st\<lparr>ss_load := lo\<rparr>
         in if error \<noteq> 0 then Some (error, h, st, w)
         else do {
           (error, st, w) \<leftarrow> load_cipher G E h test_mode st w;
           (error, st, w) \<leftarrow>
             (if error \<noteq> 0 then Some (error, st, w)
              else do {
                (error, r, m, w) \<leftarrow> init_swap_reader k (ss_load st) K L (ss_reader st) fd (h_map_start h)
                                      (h_image_data_size h) (ss_mem st) w;
                let st = st\<lparr>ss_reader := r, ss_mem := m\<rparr>;
                if error \<noteq> 0 then Some (error, st, w)
                else do {
                  let (error, r, w) = load_image k (ss_load st) K L r dev (unat (ucast (h_pages h) :: u32)) test_mode w;
                  let (sum, ctx) = md5_finish_ctx (r_ctx r);
                  let check = (error = 0 \<and> verify_checksum (ss_load st));
                  let r = (if check then r\<lparr>r_ctx := ctx\<rparr> else r);
                  let error = (if check \<and> h_checksum h \<noteq> sum then - EINVAL else error);
                  Some (error, st\<lparr>ss_reader := r, ss_mem := free_swap_reader (ss_load st) r m\<rparr>, w)
                }
              });
           Some (error, h, st, if do_decrypt (ss_load st) \<and> \<not> test_mode then cipher_close G w else w)
         })"

section \<open>write_image\<close>

text \<open>
  How much there is to write: the kernel says so, or, if it has no such request, the first page of
  the image does (\<open>struct swsusp_info\<close>: \<open>pages\<close> at 424, \<open>size\<close> at 432), which then is in the buffer
  already. The result is the error, the size, the number of pages and the writer.
\<close>

definition image_pages ::
  "nat \<Rightarrow> suspend_cfg \<Rightarrow> 'w kernel \<Rightarrow> fd \<Rightarrow> bool \<Rightarrow> swap_writer \<Rightarrow> 'w \<Rightarrow>
   int \<times> loff_t \<times> nat \<times> swap_writer \<times> 'w" where
  "image_pages k cfg K snapshot_fd test_mode h w =
     (let (image_size, w) = (if test_mode then (test_image_size cfg, w) else get_image_size K snapshot_fd w)
      in if 0 < image_size then (0, image_size, nat ((image_size + psz k - 1) div psz k), h, w)
         else let ((r, page), w) = k_read K snapshot_fd (page_bytes k) w
         in if r < psz k then (if r < 0 then r else - EFAULT, image_size, 0, h, w)
         else let h = h\<lparr>w_data := w_data h @ page\<rparr>;
                  image_size = sint (le_word (take 8 (drop 432 page)) :: u64);
                  nr_pages = unat (le_word (take 8 (drop 424 page)) :: u64)
         in if nr_pages = 0 then (- ENODATA, image_size, 0, h, w)
            else (0, image_size, nr_pages - 1, h, w))"

text \<open>With compression, room for incompressible data.\<close>

definition swap_needed_for :: "suspend_cfg \<Rightarrow> memalloc \<Rightarrow> loff_t \<Rightarrow> loff_t" where
  "swap_needed_for cfg m image_size =
     (if do_compress (img cfg)
      then image_size + uint (round_up_page_size m (word_of_int (image_size div 16 + 67)))
      else image_size)"

definition set_flag :: "bool \<Rightarrow> u32 \<Rightarrow> image_header_info \<Rightarrow> image_header_info" where
  "set_flag b f h = (if b then h\<lparr>h_flags := h_flags h OR f\<rparr> else h)"

text \<open>The key from the passphrase and a salt, behind the label \<open>No_RSA\<close>.\<close>

definition passphrase_cipher ::
  "('w, 'm, 's) gcrypt \<Rightarrow> 'w env \<Rightarrow> key_data \<Rightarrow> image_header_info \<Rightarrow> 'w \<Rightarrow>
   int \<times> key_data \<times> image_header_info \<times> 'w" where
  "passphrase_cipher G E kd hdr w =
     (let (key, ivec) = encrypt_init (e_pass_addr E) (e_stack_ctx E) (e_password E);
          (salt, w) = get_random_salt (e_urandom E) CIPHER_BLOCK w;
          hdr = hdr\<lparr>h_salt := salt\<rparr>;
          kd = kd\<lparr>kd_key := key, kd_ivec := map2 (XOR) ivec salt\<rparr>;
          (error, w) = cipher_setkey G (kd_key kd) w;
          (error, w) = (if error = 0 then cipher_setiv G (kd_ivec kd) w else (error, w))
      in (error, kd, set_flag (error = 0) IMAGE_ENCRYPTED hdr, w))"

definition image_cipher ::
  "suspend_cfg \<Rightarrow> ('w, 'm, 's) gcrypt \<Rightarrow> 'w env \<Rightarrow> key_data \<Rightarrow> image_header_info \<Rightarrow> 'w \<Rightarrow>
   int \<times> key_data \<times> image_header_info \<times> 'w" where
  "image_cipher cfg G E kd hdr w =
     (if \<not> do_encrypt (img cfg) then (0, kd, hdr, w)
      else if use_RSA cfg then
        (let (error, w) = cipher_setkey G (kd_key kd) w;
             (error, w) = (if error = 0 then cipher_setiv G (kd_ivec kd) w else (error, w))
         in if error \<noteq> 0 then passphrase_cipher G E kd hdr w
            else (0, kd, set_flag True (IMAGE_ENCRYPTED OR IMAGE_USE_RSA) hdr
                            \<lparr>h_rsa := kd_rsa kd, h_key := kd_encrypted_key kd\<rparr>, w))
      else passphrase_cipher G E kd hdr w)"

definition start_header :: "suspend_cfg \<Rightarrow> nat \<Rightarrow> loff_t \<Rightarrow> image_header_info" where
  "start_header cfg nr_pages map_start =
     set_flag (do_compress (img cfg)) IMAGE_COMPRESSED
       (set_flag (compute_checksum (img cfg)) IMAGE_CHECKSUM
         (zero_header\<lparr>h_pages := of_nat nr_pages, h_map_start := map_start\<rparr>))"

text \<open>When \<open>save_image\<close> has ended without an error: the image is flushed, the header completed and written.\<close>

definition write_header ::
  "nat \<Rightarrow> suspend_cfg \<Rightarrow> 'w kernel \<Rightarrow> 'w env \<Rightarrow> fd \<Rightarrow> loff_t \<Rightarrow> shutdown \<Rightarrow> image_header_info \<Rightarrow> swap_writer \<Rightarrow> 'w \<Rightarrow>
   int \<times> image_header_info \<times> swap_writer \<times> 'w" where
  "write_header k cfg K E resume_fd start method hdr h w =
     (let w = k_fsync K resume_fd w;
          hdr = hdr\<lparr>h_image_data_size := w_written_data h\<rparr>;
          hdr = set_flag (method = SHUTDOWN_METHOD_PLATFORM) PLATFORM_SUSPEND hdr;
          (sum, ctx) = md5_finish_ctx (w_ctx h);
          on = (compute_checksum (img cfg) \<or> verify_image (img cfg));
          hdr = (if on then hdr\<lparr>h_checksum := sum\<rparr> else hdr);
          h = (if on then h\<lparr>w_ctx := ctx\<rparr> else h);
          hdr = hdr\<lparr>h_writeout_time := e_elapsed E w, h_resume_pause := resume_pause cfg\<rparr>;
          (error, w) = write_page k K resume_fd (header_page k hdr) start w
      in (error, hdr, h, k_fsync K resume_fd w))"

text \<open>Between \<open>init_swap_writer\<close> and the label \<open>Free_writer\<close>: the error, the header, the state.\<close>

definition write_image_data ::
  "nat \<Rightarrow> suspend_cfg \<Rightarrow> 'w kernel \<Rightarrow> 'w libs \<Rightarrow> ('w, 'm, 's) gcrypt \<Rightarrow> 'w env \<Rightarrow> fd \<Rightarrow> fd \<Rightarrow> bool \<Rightarrow> loff_t \<Rightarrow>
   suspend_state \<Rightarrow> 'w \<Rightarrow> (int \<times> image_header_info \<times> suspend_state \<times> 'w) option" where
  "write_image_data k cfg K L G E snapshot_fd resume_fd test_mode start st w =
     (let (error, image_size, nr_pages, h, w) = image_pages k cfg K snapshot_fd test_mode (ss_writer st) w;
          st = st\<lparr>ss_writer := h\<rparr>
      in if error \<noteq> 0 then Some (error, zero_header, st, w)
         else let h = h\<lparr>w_swap_needed := swap_needed_for cfg (ss_mem st) image_size\<rparr>;
                  st = st\<lparr>ss_writer := h\<rparr>;
                  (enough, w) = enough_swap (img cfg) K h w
         in if \<not> enough then Some (- ENOSPC, zero_header, st, w)
         else let (offset, h, w) = preallocate_swap k (img cfg) K h w;
                  st = st\<lparr>ss_writer := h\<rparr>
         in if offset = 0 then Some (- ENOSPC, zero_header, st, w)
         else let h = h\<lparr>w_cur_offset := w_cur_offset h - psz k\<rparr>;
                  hdr = start_header cfg nr_pages (w_extents_spc h);
                  (error, kd, hdr, w) = image_cipher cfg G E (ss_keys st) hdr w;
                  st = st\<lparr>ss_writer := h, ss_keys := kd\<rparr>
         in if error \<noteq> 0 then Some (error, hdr, st, w)
         else do {
           (error, h, method, w) \<leftarrow> save_image k (img cfg) K L h (unat (of_nat nr_pages :: u32)) (ss_method st) w;
           let st = st\<lparr>ss_writer := h, ss_method := method\<rparr>;
           if error \<noteq> 0 then Some (error, hdr, st, w)
           else do {
             let (error, hdr, h, w) = write_header k cfg K E resume_fd start method hdr h w;
             Some (error, hdr, st\<lparr>ss_writer := h\<rparr>, w)
           }
         })"

text \<open>The label \<open>Free_writer\<close> and what follows it, up to the label \<open>Exit\<close>.\<close>

definition verify_written ::
  "nat \<Rightarrow> suspend_cfg \<Rightarrow> 'w kernel \<Rightarrow> 'w libs \<Rightarrow> ('w, 'm, 's) gcrypt \<Rightarrow> 'w env \<Rightarrow> fd \<Rightarrow> fd \<Rightarrow> bool \<Rightarrow>
   image_header_info \<Rightarrow> loff_t \<Rightarrow> suspend_state \<Rightarrow> 'w \<Rightarrow> (int \<times> suspend_state \<times> 'w) option" where
  "verify_written k cfg K L G E snapshot_fd resume_fd test_mode hdr start st w =
     (if verify_image (img cfg) \<or> test_mode then do {
        (error, hdr, st, w) \<leftarrow> read_or_verify k K L G E snapshot_fd resume_fd hdr start
                                 (verify_image (img cfg)) test_mode st w;
        Some (error, st, w)
      } else Some (0, st, w))"

definition write_signed_image ::
  "nat \<Rightarrow> suspend_cfg \<Rightarrow> 'w kernel \<Rightarrow> 'w libs \<Rightarrow> ('w, 'm, 's) gcrypt \<Rightarrow> 'w env \<Rightarrow> fd \<Rightarrow> fd \<Rightarrow> bool \<Rightarrow> loff_t \<Rightarrow>
   suspend_state \<Rightarrow> 'w \<Rightarrow> (int \<times> suspend_state \<times> 'w) option" where
  "write_signed_image k cfg K L G E snapshot_fd resume_fd test_mode start st w = do {
     (error, hdr, st, w) \<leftarrow> write_image_data k cfg K L G E snapshot_fd resume_fd test_mode start st w;
     let st = st\<lparr>ss_mem := free_swap_writer (img cfg) (ss_writer st) (ss_mem st)\<rparr>;
     (error, st, w) \<leftarrow>
       (if error = 0 then verify_written k cfg K L G E snapshot_fd resume_fd test_mode hdr start st w
        else Some (error, st, w));
     if error \<noteq> 0 then Some (error, st, w)
     else do {
       let (error, w) = mark_swap k K (resume_offset cfg) resume_fd start w;
       Some (error, st, if error = 0 then k_fsync K resume_fd w else w)
     }
   }"

text \<open>
  \<open>None\<close> if the code does not come to an end (\<open>getmem\<close>, the keyboard loop or the passphrase loop
  does not) or writes through a \<open>NULL\<close> pointer.
\<close>

definition write_image ::
  "nat \<Rightarrow> suspend_cfg \<Rightarrow> 'w kernel \<Rightarrow> 'w libs \<Rightarrow> ('w, 'm, 's) gcrypt \<Rightarrow> 'w env \<Rightarrow> fd \<Rightarrow> fd \<Rightarrow> fd \<Rightarrow>
   suspend_state \<Rightarrow> 'w \<Rightarrow> (int \<times> suspend_state \<times> 'w) option" where
  "write_image k cfg K L G E snapshot_fd resume_fd test_fd st w =
     (let test_mode = (0 \<le> test_fd);
          (start, w) = get_swap_page K snapshot_fd w
      in if start = 0 then Some (- ENOSPC, st, w)
         else do {
           (header, m) \<leftarrow> getmem (of_nat (page_bytes k)) (ss_mem st);
           addr \<leftarrow> header;
           (error, h, m, w) \<leftarrow> init_swap_writer k (img cfg) K L (ss_writer st) snapshot_fd resume_fd test_fd m w;
           let st = st\<lparr>ss_writer := h, ss_mem := m\<rparr>;
           (error, st, w) \<leftarrow>
             (if error \<noteq> 0 then Some (error, st, w)
              else write_signed_image k cfg K L G E snapshot_fd resume_fd test_mode start st w);
           Some (error, st\<lparr>ss_mem := freemem addr (ss_mem st)\<rparr>, w)
         })"

section \<open>When it ends well\<close>

lemma write_image_success:
  assumes "write_image k cfg K L G E sfd rfd tfd st w = Some (0, st', w')"
  obtains start wa addr m1 h1 m2 wb st1 where "get_swap_page K sfd w = (start, wa)" and "start \<noteq> 0"
    and "getmem (of_nat (page_bytes k)) (ss_mem st) = Some (Some addr, m1)"
    and "init_swap_writer k (img cfg) K L (ss_writer st) sfd rfd tfd m1 wa = Some (0, h1, m2, wb)"
    and "write_signed_image k cfg K L G E sfd rfd (0 \<le> tfd) start (st\<lparr>ss_writer := h1, ss_mem := m2\<rparr>) wb
      = Some (0, st1, w')"
    and "st' = st1\<lparr>ss_mem := freemem addr (ss_mem st1)\<rparr>"
  using assms unfolding write_image_def
  by (auto simp: bind_eq_Some_conv Let_def case_prod_beta prod_eq_iff split: if_splits)

lemma write_signed_image_success:
  assumes "write_signed_image k cfg K L G E sfd rfd test_mode start st w = Some (0, st', w')"
  obtains hdr st1 w1 w2 w3 where "write_image_data k cfg K L G E sfd rfd test_mode start st w = Some (0, hdr, st1, w1)"
    and "verify_written k cfg K L G E sfd rfd test_mode hdr start
       (st1\<lparr>ss_mem := free_swap_writer (img cfg) (ss_writer st1) (ss_mem st1)\<rparr>) w1 = Some (0, st', w2)"
    and "mark_swap k K (resume_offset cfg) rfd start w2 = (0, w3)" and "w' = k_fsync K rfd w3"
  using assms unfolding write_signed_image_def
  by (auto simp: bind_eq_Some_conv Let_def split: if_splits prod.splits)

end
