(* ===== verification/Hibernation.thy ===== *)
theory Hibernation
  imports Write_Image
begin

text \<open>
  From one end to the other: what \<open>write_image\<close> leaves on the swap device, \<open>read_or_verify\<close> gives
  back, in another process and after a reboot, and the signature is put in place only when
  everything else is there.
\<close>

section \<open>The calls around the image\<close>

text \<open>
  The first page of the swap area, where the header with the signature is, is never handed out as
  a swap page; asking for sizes and flushing change nothing.
\<close>

definition header_apart :: "nat \<Rightarrow> 'w kernel \<Rightarrow> fd \<Rightarrow> loff_t \<Rightarrow> 'w view \<Rightarrow> bool" where
  "header_apart k K fd ro V \<longleftrightarrow>
     (\<forall>w m bs w'. k_read K fd sizeof_swsusp_header w = ((m, bs), w') \<longrightarrow> same_view V w w') \<and>
     (\<forall>bs w n w'. k_write K fd bs w = (n, w') \<longrightarrow> length bs = sizeof_swsusp_header \<longrightarrow>
        position V w = header_shift k ro \<longrightarrow>
        taken V w' = taken V w \<and> given V w' = given V w
        \<and> (\<forall>p. p \<noteq> ro * psz k \<longrightarrow> contents V w' p = contents V w p)) \<and>
     (\<forall>w. ro * psz k \<notin> held V w) \<and>
     (\<forall>w. same_view V w (k_fsync K fd w))"

definition quiet_calls :: "'w kernel \<Rightarrow> fd \<Rightarrow> 'w env \<Rightarrow> loff_t \<Rightarrow> 'w view \<Rightarrow> bool" where
  "quiet_calls K dev E isize V \<longleftrightarrow>
     (\<forall>w. fst (get_image_size K dev w) = isize \<and> same_view V w (snd (get_image_size K dev w))) \<and>
     (\<forall>w. same_view V w (snd (check_free_swap K dev w))) \<and>
     (\<forall>w. length (e_elapsed E w) = 8)"

lemma header_apartD:
  assumes "header_apart k K fd ro V"
  shows "k_read K fd sizeof_swsusp_header w = ((m, bs), w') \<Longrightarrow> same_view V w w'"
    and "k_write K fd bs w = (n, w') \<Longrightarrow> length bs = sizeof_swsusp_header \<Longrightarrow> position V w = header_shift k ro \<Longrightarrow>
        taken V w' = taken V w \<and> given V w' = given V w
        \<and> (\<forall>p. p \<noteq> ro * psz k \<longrightarrow> contents V w' p = contents V w p)"
    and "same_view V w (k_fsync K fd w)" and "ro * psz k \<notin> held V w"
  using assms unfolding header_apart_def by (elim conjE; blast)+

lemma mark_swap_view:
  assumes dev: "swap_device k K dev fd V" and disk: "disk_device K fd D" and apart: "header_apart k K fd ro V"
    and mk: "mark_swap k K ro fd start w = (0, w1)" and rg: "loff_range start"
  shows "taken V w1 = taken V w \<and> given V w1 = given V w
    \<and> (\<forall>p. p \<noteq> ro * psz k \<longrightarrow> contents V w1 p = contents V w p)"
proof -
  let ?a = "header_shift k ro" and ?n = sizeof_swsusp_header
  obtain p u1 where l1: "k_lseek K fd ?a w = (p, u1)" by fastforce
  obtain n bs u2 where r: "k_read K fd ?n u1 = ((n, bs), u2)" by (metis surj_pair)
  let ?h = "swsusp_header_of bs"
  let ?h' = "?h\<lparr>sw_orig_sig := sw_sig ?h, sw_sig := SWSUSP_SIG, sw_image := start\<rparr>"
  obtain p2 u3 where l2: "k_lseek K fd ?a u2 = (p2, u3)" by fastforce
  obtain n2 u4 where wr: "k_write K fd (swsusp_header_bytes ?h') u3 = (n2, u4)" by fastforce
  note run = mk [unfolded mark_swap_def Let_def, simplified l1 r l2 wr prod.case]
  have ok: "\<not> n < int ?n" "w1 = u4" "p = ?a"
    using run by (auto split: if_splits)
  have "length bs = ?n"
    using ok disk_deviceD(2) [OF disk r] by simp
  then have "header_wf ?h'" using header_wf_of rg by (simp add: header_wf_def)
  note len = length_header_bytes [OF this]
  have s: "same_view V w u1" "same_view V u1 u2" "same_view V u2 u3" "position V u3 = ?a"
    using swap_deviceD(5) [OF dev l1] header_apartD(1) [OF apart r] swap_deviceD(5) [OF dev l2] by auto
  show ?thesis
    using header_apartD(2) [OF apart wr len s(4)] s(1-3) ok(2) by (simp add: same_view_def)
qed

section \<open>The header that is written\<close>

lemma length_rfc_md5: "length (rfc_md5 m) = 16"
  by (simp add: rfc_md5_def split: prod.split)

text \<open>With room for incompressible data the image takes at most four times its size.\<close>

lemma buffer_pages_bound:
  assumes "6 \<le> k" and "lzo_ok L" and "buffer_pages k compress L d qs"
  shows "length qs * page_bytes k \<le> 4 * length d"
proof -
  have b: "d \<noteq> []" "page_bytes k dvd length d" "\<forall>q\<in>set qs. length q = page_bytes k"
    using assms(3) by (simp_all add: buffer_pages_def)
  have len: "length (concat qs) = length qs * page_bytes k" using length_concat_pages [OF b(3)] .
  have ge: "page_bytes k \<le> length d" using b(1,2) by (auto dest: dvd_imp_le)
  show ?thesis
  proof (cases compress)
    case False
    then have "concat qs = d" using assms(3) by (simp add: buffer_pages_def)
    then show ?thesis using len by simp
  next
    case True
    then obtain junk where j: "concat qs = compressed_block L d @ junk" "length junk < page_bytes k"
      using assms(3) by (auto simp: buffer_pages_def)
    have "(64::nat) = 2 ^ 6" by simp
    also have "\<dots> \<le> page_bytes k" using assms(1) by (intro power_increasing) simp_all
    finally have "64 \<le> length d" using ge by simp
    moreover have "length (lzo_compress L d) \<le> length d + length d div 16 + 67"
      using assms(2) by (simp add: lzo_ok_def)
    moreover have "length (concat qs) = 8 + length (lzo_compress L d) + length junk"
      using j(1) by simp
    ultimately show ?thesis using len j(2) ge by linarith
  qed
qed

lemma image_at_bound:
  assumes "6 \<le> k" and "lzo_ok L" and "image_at k compress L P c start tot Bs"
  shows "0 \<le> tot \<and> tot \<le> 4 * int (length (concat Bs))"
proof -
  obtain qss where q: "list_all2 (buffer_pages k compress L) Bs qss"
    and t: "tot = psz k * int (length (concat qss))"
    using assms(3) unfolding image_at_def by blast
  have "length (concat qss) * page_bytes k \<le> 4 * length (concat Bs)"
    using q
  proof (induction rule: list_all2_induct)
    case (Cons B Bs qs qss)
    then show ?case using buffer_pages_bound [OF assms(1,2) Cons.hyps(1)] by (simp add: algebra_simps)
  qed simp
  then have "int (length (concat qss) * page_bytes k) \<le> int (4 * length (concat Bs))"
    by (simp only: of_nat_le_iff)
  then show ?thesis using t by (simp add: algebra_simps)
qed


definition flags_of :: "suspend_cfg \<Rightarrow> image_header_info \<Rightarrow> bool" where
  "flags_of cfg hdr \<longleftrightarrow> has_flag hdr IMAGE_CHECKSUM = compute_checksum (img cfg)
     \<and> has_flag hdr IMAGE_COMPRESSED = do_compress (img cfg) \<and> \<not> has_flag hdr IMAGE_ENCRYPTED"

lemma set_flag_fields [simp]:
  "h_pages (set_flag b f h) = h_pages h" "h_map_start (set_flag b f h) = h_map_start h"
  "h_checksum (set_flag b f h) = h_checksum h" "h_image_data_size (set_flag b f h) = h_image_data_size h"
  "image_header_wf (set_flag b f h) = image_header_wf h"
  by (simp_all add: set_flag_def image_header_wf_def)

lemma flags_of_header:
  "flags_of cfg (set_flag p PLATFORM_SUSPEND
     (start_header cfg n s\<lparr>h_image_data_size := d\<rparr>))"
  by (cases p; cases "do_compress (img cfg)"; cases "compute_checksum (img cfg)")
     (simp_all add: flags_of_def start_header_def set_flag_def has_flag_def zero_header_def IMAGE_CHECKSUM_def
      IMAGE_COMPRESSED_def IMAGE_ENCRYPTED_def PLATFORM_SUSPEND_def)

lemma flags_of_update [simp]:
  "flags_of cfg (h\<lparr>h_checksum := a\<rparr>) = flags_of cfg h"
  "flags_of cfg (h\<lparr>h_writeout_time := b\<rparr>) = flags_of cfg h"
  "flags_of cfg (h\<lparr>h_resume_pause := c\<rparr>) = flags_of cfg h"
  by (simp_all add: flags_of_def has_flag_def)

section \<open>Writing\<close>

lemma image_pages_quiet:
  assumes "quiet_calls K dev E isize V" and "0 < isize"
  obtains w' where "image_pages k cfg K dev False h w = (0, isize, nat ((isize + psz k - 1) div psz k), h, w')"
    and "same_view V w w'"
  using assms unfolding quiet_calls_def image_pages_def by (auto simp: case_prod_beta Let_def)

lemma write_image_data_leaves_image:
  assumes k: "12 \<le> k" "k \<le> 20"
    and opts: "\<not> do_encrypt (img cfg)" "\<not> use_threads (img cfg)" "compress_buf_size (img cfg) = compress_buf_bytes k"
      "\<not> verify_image (img cfg)" "- (2 ^ 31) \<le> resume_pause cfg" "resume_pause cfg < 2 ^ 31"
    and lzo: "lzo_ok L" and dev: "swap_device k K sfd rfd V"
    and io: "image_device k K L sfd rfd target V" and quiet: "quiet_calls K sfd E isize V" "0 < isize"
    and apart: "header_apart k K rfd ro V"
    and init: "init_swap_writer k (img cfg) K L h sfd rfd tfd m w = Some (0, h1, m1, w1)" and tfd: "tfd < 0"
    and st: "ss_writer st = h1" and ctx: "length (md5_buf (w_ctx h)) = 128"
    and start: "0 < start" "start < w_extents_spc h1" "psz k dvd start"
    and wid: "write_image_data k cfg K L G E sfd rfd False start st w1 = Some (0, hdr, st', w')"
    and few: "length (taken V w') < length (taken V w) + 2 ^ 52"
  obtains Bs where "image_header_wf hdr" and "flags_of cfg hdr"
    and "h_pages hdr = of_nat (nat ((isize + psz k - 1) div psz k))" and "h_map_start hdr = w_extents_spc h1"
    and "image_at k (do_compress (img cfg)) L (held V w') (contents V w') (w_extents_spc h1) (h_image_data_size hdr) Bs"
    and "contents V w' start = header_page k hdr" and "taken V w' = taken V w @ concat Bs" and "given V w' = given V w"
    and "compute_checksum (img cfg) \<longrightarrow> h_checksum hdr = rfc_md5 (concat Bs)"
proof -
  have k6: "6 \<le> k" using k by simp
  obtain w2 where ip: "image_pages k cfg K sfd False h1 w1 = (0, isize, nat ((isize + psz k - 1) div psz k), h1, w2)"
    and v2: "same_view V w1 w2" by (rule image_pages_quiet [OF quiet])
  define nr where "nr = nat ((isize + psz k - 1) div psz k)"
  define needed where "needed = swap_needed_for cfg (ss_mem st) isize"
  let ?h1 = "h1\<lparr>w_swap_needed := needed\<rparr>"
  obtain ok w3 where en: "enough_swap (img cfg) K ?h1 w2 = (ok, w3)" by fastforce
  have "same_view V w2 w3"
    using quiet(1) en init_swap_writer_fields(8) [OF init] unfolding enough_swap_def quiet_calls_def
    by (auto simp: case_prod_beta)
  with v2 have v3: "same_view V w1 w3" by (rule same_view_trans)
  obtain p h2 w4 where pre: "preallocate_swap k (img cfg) K ?h1 w3 = (p, h2, w4)" by (metis surj_pair)
  let ?h2 = "h2\<lparr>w_cur_offset := w_cur_offset h2 - psz k\<rparr>"
  have p: "p \<noteq> 0"
    using wid unfolding write_image_data_def st ip Let_def
    by (auto simp: en pre simp flip: needed_def split: if_splits)
  let ?hdr1 = "start_header cfg nr (w_extents_spc h2)"
  obtain e5 h3 meth w5 where sv: "save_image k (img cfg) K L ?h2 (unat (of_nat nr :: u32)) (ss_method st) w4 = Some (e5, h3, meth, w5)"
    and e5: "e5 = 0" and rest: "\<exists>h4. write_header k cfg K E rfd start meth ?hdr1 h3 w5 = (0, hdr, h4, w')"
    using wid p opts(1) unfolding write_image_data_def st ip Let_def
    by (auto simp: en pre image_cipher_def bind_eq_Some_conv Let_def simp flip: needed_def nr_def
        split: if_splits prod.splits)
  have io': "image_device k K L (if 0 \<le> tfd then tfd else sfd) rfd target V" using io tfd by simp
  obtain Bs where S: "image_at k (do_compress (img cfg)) L (held V w5) (contents V w5) (w_extents_spc h1) (w_written_data h3) Bs"
    "taken V w5 = taken V w @ concat Bs" "given V w5 = given V w" "w_extents_spc h1 \<in> held V w5"
    "w_extents_spc h2 = w_extents_spc h1" "sum_on (img cfg) \<longrightarrow> fst (md5_finish_ctx (w_ctx h3)) = rfc_md5 (concat Bs)"
    by (rule save_image_leaves_image [OF k6 k(2) opts(1-3) lzo dev io' init pre p refl v3 sv [unfolded e5] ctx])
  define w6 where "w6 = k_fsync K rfd w5"
  have v6: "same_view V w5 w6" unfolding w6_def by (rule header_apartD(3) [OF apart])
  define hdr2 where "hdr2 = set_flag (meth = SHUTDOWN_METHOD_PLATFORM) PLATFORM_SUSPEND
    (?hdr1\<lparr>h_image_data_size := w_written_data h3\<rparr>)"
  define hdr3 where "hdr3 = (if compute_checksum (img cfg) then hdr2\<lparr>h_checksum := fst (md5_finish_ctx (w_ctx h3))\<rparr> else hdr2)
    \<lparr>h_writeout_time := e_elapsed E w6, h_resume_pause := resume_pause cfg\<rparr>"
  obtain e7 w7 where wp: "write_page k K rfd (header_page k hdr3) start w6 = (e7, w7)" by fastforce
  have fin: "e7 = 0" "hdr = hdr3" "w' = k_fsync K rfd w7"
    using rest wp opts(4)
    by (auto simp: write_header_def hdr3_def hdr2_def w6_def Let_def case_prod_beta split: if_splits)
  have v7: "same_view V w7 w'" unfolding fin(3) by (rule header_apartD(3) [OF apart])
  have fl: "flags_of cfg hdr" unfolding fin(2) hdr3_def hdr2_def by (simp add: flags_of_header)
  have bound: "0 \<le> w_written_data h3" "w_written_data h3 \<le> 4 * int (length (concat Bs))"
    using image_at_bound [OF k6 lzo S(1)] by auto
  have spc: "loff_range (w_extents_spc h1)"
  proof -
    have "w_extents_spc h1 + psz k < 2 ^ 63" by (rule swap_deviceD(3) [OF dev S(4)])
    moreover have "(0::int) < psz k" by simp
    ultimately show ?thesis using start by (simp only: loff_range_def) linarith
  qed
  have wf: "image_header_wf (hdr3\<lparr>h_image_data_size := d\<rparr>)" if "loff_range d" for d
    using zero_header_wf spc that S(5,6) opts(5,6) quiet(1) length_rfc_md5
    by (auto simp: hdr3_def hdr2_def start_header_def set_flag_def image_header_wf_def quiet_calls_def sum_on_def)
  have h3: "h_pages hdr3 = of_nat nr" "h_map_start hdr3 = w_extents_spc h1" "h_image_data_size hdr3 = w_written_data h3"
    "compute_checksum (img cfg) \<Longrightarrow> h_checksum hdr3 = rfc_md5 (concat Bs)"
    using S(5,6) by (simp_all add: hdr3_def hdr2_def start_header_def sum_on_def)
  have "length (header_page k hdr3) = length (header_page k (hdr3\<lparr>h_image_data_size := 0\<rparr>))"
    by (simp add: header_page_def image_header_bytes_def)
  also have "\<dots> = page_bytes k" using wf [of 0] k(1) by (intro length_header_page) (simp_all add: loff_range_def)
  finally have len: "length (header_page k hdr3) = page_bytes k" .
  note w7 = write_page_ok [OF dev len wp [unfolded fin(1)] start(3)]
  have after: "contents V w' = (contents V w5)(start := header_page k hdr)" "held V w' = held V w5"
    "taken V w' = taken V w @ concat Bs" "given V w' = given V w"
    using v6 v7 w7 S(2,3) fin(2) by (simp_all add: same_view_def)
  have "length (concat Bs) < 2 ^ 52" using few unfolding after(3) by simp
  then have "loff_range (w_written_data h3)" using bound by (simp add: loff_range_def)
  from wf [OF this] have "image_header_wf hdr"
    using h3(3) fin(2) by (metis (no_types, lifting) image_header_info.surjective image_header_info.update_convs(4))
  moreover have "image_at k (do_compress (img cfg)) L (held V w') (contents V w') (w_extents_spc h1) (h_image_data_size hdr) Bs"
    using image_at_cong [OF S(1), of "contents V w'"] start(2) after(1,2) fin(2) h3(3) by simp
  ultimately show ?thesis
    using that fl h3 fin(2) after(1,3,4) nr_def by simp
qed

section \<open>Reading\<close>

definition lzo_starts :: "'w env \<Rightarrow> 'w view \<Rightarrow> bool" where
  "lzo_starts E V \<longleftrightarrow> (\<forall>w. fst (e_lzo_init E w) \<and> same_view V w (snd (e_lzo_init E w)))"

definition fresh_load :: "load_opts \<Rightarrow> bool" where
  "fresh_load lo \<longleftrightarrow> \<not> verify_checksum lo \<and> \<not> do_decompress lo \<and> \<not> do_decrypt lo"

lemma read_or_verify_gives_image:
  assumes k: "12 \<le> k" "k \<le> 20" and lzo: "lzo_ok L" "lzo_starts E V" and dev: "swap_device k K dev fd V"
    and io: "image_device k K L inp fd dev V" and start: "start \<noteq> 0" "contents V w start = header_page k hdr" "psz k dvd start"
    and hdr: "image_header_wf hdr" "flags_of cfg hdr" "h_map_start hdr \<noteq> 0" "h_pages hdr = of_nat n"
      "compute_checksum (img cfg) \<longrightarrow> h_checksum hdr = rfc_md5 (concat Bs)"
    and at: "image_at k (do_compress (img cfg)) L P (contents V w) (h_map_start hdr) (h_image_data_size hdr) Bs"
    and n: "length (concat Bs) = n * page_bytes k" "0 < n" "n < 2 ^ 32"
    and st: "fresh_load (ss_load st)" "length (md5_buf (r_ctx (ss_reader st))) = 128"
    and run: "read_or_verify k K L G E dev fd h0 start False False st w = Some (e, hdr', st', w')"
  shows "e = 0 \<and> hdr' = hdr \<and> given V w' = given V w @ concat Bs"
proof -
  have k6: "6 \<le> k" using k by simp
  obtain w1 where rp: "read_page k K fd start w = ((0, Some (header_page k hdr)), w1)" and v1: "same_view V w w1"
    using read_page_ok [OF dev start(1,3), of w] start(2) by metis
  have hp: "image_header_of (header_page k hdr) = hdr" by (rule image_header_of_page [OF hdr(1)])
  define lo where "lo = \<lparr>verify_checksum = compute_checksum (img cfg), do_decompress = do_compress (img cfg),
    do_decrypt = False, load_compress_buf_size = load_compress_buf_size (ss_load st)\<rparr>"
  obtain w2 where lf: "load_flags E hdr False (ss_load st) w1 = (0, lo, w2)" and v2: "same_view V w1 w2"
    using lzo(2) st(1) hdr(2) unfolding load_flags_def flags_of_def lzo_starts_def fresh_load_def lo_def
    by (cases "do_compress (img cfg)"; cases "compute_checksum (img cfg)"; cases "ss_load st")
       (auto simp: case_prod_beta Let_def)
  have ne: "\<not> has_flag hdr IMAGE_ENCRYPTED" using hdr(2) by (simp add: flags_of_def)
  obtain e3 r3 m3 w3 where ir: "init_swap_reader k lo K L (ss_reader st) fd (h_map_start hdr)
      (h_image_data_size hdr) (ss_mem st) w2 = Some (e3, r3, m3, w3)"
    using run unfolding read_or_verify_def
    by (auto simp: rp hp lf load_cipher_def ne bind_eq_Some_conv Let_def split: if_splits)
  have v: "same_view V w w2" using v1 v2 by (rule same_view_trans)
  have at2: "image_at k (do_decompress lo) L P (contents V w2) (h_map_start hdr) (h_image_data_size hdr) Bs"
    using at v by (simp add: lo_def same_view_def)
  have lo: "\<not> do_decrypt lo" "verify_checksum lo = compute_checksum (img cfg)" by (simp_all add: lo_def)
  obtain r4 w4 where L: "e3 = 0" "load_image k lo K L r3 dev n False w3 = (0, r4, w4)"
    "given V w4 = given V w2 @ concat Bs"
    "compute_checksum (img cfg) \<longrightarrow> fst (md5_finish_ctx (r_ctx r4)) = rfc_md5 (concat Bs)"
    using load_image_gives_image [OF k6 k(2) lo(1) lzo(1) dev io at2 hdr(3) n(1,2) ir st(2)] lo(2) by blast
  have np: "unat (ucast (of_nat n :: u64) :: u32) = n"
    using n(3) by (simp add: unsigned_ucast_eq unsigned_of_nat take_bit_nat_eq_self)
  have "e = 0 \<and> hdr' = hdr \<and> w' = w4"
    using run hdr(5) unfolding read_or_verify_def
    by (auto simp: rp hp lf load_cipher_def ne bind_eq_Some_conv Let_def ir L hdr(4,5) np lo case_prod_beta
        split: if_splits)
  then show ?thesis using L(3) v by (simp add: same_view_def)
qed


lemma image_page_count:
  assumes "int n = (isize + psz k - 1) div psz k" and "0 < isize"
  shows "0 < n" and "nat ((isize + psz k - 1) div psz k) = n"
proof -
  have "(0::int) < psz k" by simp
  then have "0 < (isize + psz k - 1) div psz k" using assms(2) by (simp add: pos_imp_zdiv_pos_iff)
  then show "0 < n" using assms(1) by linarith
  show "nat ((isize + psz k - 1) div psz k) = n" using assms(1) by (metis nat_int)
qed

lemma mark_swap_on_disk:
  assumes disk: "disk_device K rfd D" and mk: "mark_swap k K ro rfd start w = (0, w')" and rg: "loff_range start"
  shows "sw_sig (disk_header k ro (d_byte D (k_fsync K rfd w'))) = SWSUSP_SIG"
    and "sw_image (disk_header k ro (d_byte D (k_fsync K rfd w'))) = start"
proof -
  let ?h = "disk_header k ro (d_byte D w)"
  let ?h' = "?h\<lparr>sw_orig_sig := sw_sig ?h, sw_sig := SWSUSP_SIG, sw_image := start\<rparr>"
  have "d_byte D (k_fsync K rfd w') = store_header k ro ?h' (d_byte D w)"
    using mark_swap_cases(2) [OF disk mk rg] disk_deviceD(4) [OF disk] by simp
  moreover have "header_wf ?h'"
    using disk_header_wf [of k ro "d_byte D w"] rg by (simp add: header_wf_def)
  ultimately show "sw_sig (disk_header k ro (d_byte D (k_fsync K rfd w'))) = SWSUSP_SIG"
    "sw_image (disk_header k ro (d_byte D (k_fsync K rfd w'))) = start" by simp_all
qed

lemma held_page_range:
  assumes "swap_device k K sfd rfd V" and "q \<in> held V w" and "0 < q"
  shows "loff_range q"
proof -
  have "q + psz k < 2 ^ 63" using assms(1,2) by (rule swap_deviceD(3))
  moreover have "(0::int) < psz k" by simp
  ultimately show ?thesis using assms(3) by (simp only: loff_range_def) linarith
qed

lemma image_length:
  assumes "n < 2 ^ 32" and "k \<le> 20"
  shows "n * page_bytes k < 2 ^ 52"
proof -
  have "page_bytes k \<le> 2 ^ 20" using assms(2) by (intro power_increasing) simp_all
  then have "n * page_bytes k \<le> n * 2 ^ 20" by (rule mult_le_mono2)
  also have "\<dots> < 2 ^ 52" using assms(1) by simp
  finally show ?thesis .
qed

text \<open>The header page at \<open>start\<close> and the image behind it, as \<open>write_image\<close> leaves them.\<close>

definition stored_image ::
  "nat \<Rightarrow> suspend_cfg \<Rightarrow> 'w libs \<Rightarrow> 'w view \<Rightarrow> loff_t \<Rightarrow> image_header_info \<Rightarrow> nat \<Rightarrow> byte list \<Rightarrow> 'w \<Rightarrow> bool" where
  "stored_image k cfg L V start hdr n data w \<longleftrightarrow>
     start \<noteq> 0 \<and> psz k dvd start \<and> contents V w start = header_page k hdr \<and>
     image_header_wf hdr \<and> flags_of cfg hdr \<and> h_map_start hdr \<noteq> 0 \<and> h_pages hdr = of_nat n \<and>
     (compute_checksum (img cfg) \<longrightarrow> h_checksum hdr = rfc_md5 data) \<and>
     (\<exists>Bs P. concat Bs = data \<and>
        image_at k (do_compress (img cfg)) L P (contents V w) (h_map_start hdr) (h_image_data_size hdr) Bs)"

lemma write_image_stores:
  assumes k: "12 \<le> k" "k \<le> 20"
    and opts: "\<not> do_encrypt (img cfg)" "\<not> use_threads (img cfg)" "compress_buf_size (img cfg) = compress_buf_bytes k"
      "\<not> verify_image (img cfg)" "- (2 ^ 31) \<le> resume_pause cfg" "resume_pause cfg < 2 ^ 31"
    and lzo: "lzo_ok L" and dev: "swap_device k K sfd rfd V"
    and io: "image_device k K L sfd rfd sfd V" and quiet: "quiet_calls K sfd E isize V" "0 < isize"
    and disk: "disk_device K rfd D" and apart: "header_apart k K rfd (resume_offset cfg) V"
    and wr: "tfd < 0" "write_image k cfg K L G E sfd rfd tfd st w = Some (0, st', w1)"
      "length (md5_buf (w_ctx (ss_writer st))) = 128"
    and image: "taken V w1 = taken V w @ data" "length data = n * page_bytes k" "int n = (isize + psz k - 1) div psz k"
      "n < 2 ^ 32"
  shows "\<exists>start hd. sw_sig (disk_header k (resume_offset cfg) (d_byte D w1)) = SWSUSP_SIG \<and>
    sw_image (disk_header k (resume_offset cfg) (d_byte D w1)) = start \<and> stored_image k cfg L V start hd n data w1"
proof -
  let ?ro = "resume_offset cfg"
  obtain start wa addr m1 h1 m2 wb st1 where gp: "get_swap_page K sfd w = (start, wa)" and gm: "start \<noteq> 0"
    and init: "init_swap_writer k (img cfg) K L (ss_writer st) sfd rfd tfd m1 wa = Some (0, h1, m2, wb)"
    and ws: "write_signed_image k cfg K L G E sfd rfd (0 \<le> tfd) start (st\<lparr>ss_writer := h1, ss_mem := m2\<rparr>) wb
      = Some (0, st1, w1)"
    by (rule write_image_success [OF wr(2)])
  obtain hd stb wc wv m3 where wid: "write_image_data k cfg K L G E sfd rfd False start
      (st\<lparr>ss_writer := h1, ss_mem := m2\<rparr>) wb = Some (0, hd, stb, wc)"
    and mk: "mark_swap k K ?ro rfd start wc = (0, m3)" and w1: "w1 = k_fsync K rfd m3"
    by (rule write_signed_image_success [OF ws]) (use wr(1) opts(4) in \<open>auto simp: verify_written_def\<close>)
  note g = hands_outD [OF swap_deviceD(1) [OF dev] gp gm] swap_deviceD(4) [OF dev gp]
  note i = init_swap_writer_fields [OF init]
  have up: "start < w_extents_spc h1"
    using swap_deviceD(2) [OF dev] i(1,2) g(4) unfolding hands_out_upwards_def by blast
  have rg: "loff_range start" by (rule held_page_range [OF dev, of _ wa]) (use g(1,4) in simp_all)
  note mv = mark_swap_view [OF dev disk apart mk rg] and fs = header_apartD(3) [OF apart, of m3]
  have tk: "taken V wc = taken V wa @ data"
    using image(1) mv fs g(5) unfolding w1 by (simp add: same_view_def)
  have few: "length (taken V wc) < length (taken V wa) + 2 ^ 52"
    using image_length [OF image(4) k(2)] image(2) tk by simp
  have sta: "ss_writer (st\<lparr>ss_writer := h1, ss_mem := m2\<rparr>) = h1" by simp
  obtain Bs where S: "image_header_wf hd" "flags_of cfg hd"
    "h_pages hd = of_nat (nat ((isize + psz k - 1) div psz k))" "h_map_start hd = w_extents_spc h1"
    "image_at k (do_compress (img cfg)) L (held V wc) (contents V wc) (w_extents_spc h1) (h_image_data_size hd) Bs"
    "contents V wc start = header_page k hd" "taken V wc = taken V wa @ concat Bs" "given V wc = given V wa"
    "compute_checksum (img cfg) \<longrightarrow> h_checksum hd = rfc_md5 (concat Bs)"
    by (rule write_image_data_leaves_image [OF k opts lzo dev io quiet apart init wr(1) sta wr(3)
          g(1) up g(2) wid few])
  have kept: "contents V w1 q = contents V wc q" if "q \<noteq> ?ro * psz k" for q
    using mv fs that w1 by (simp add: same_view_def)
  have "image_at k (do_compress (img cfg)) L (held V wc) (contents V w1) (w_extents_spc h1) (h_image_data_size hd) Bs"
  proof (rule image_at_cong [OF S(5)])
    fix q assume "q \<in> held V wc"
    then show "contents V w1 q = contents V wc q" using header_apartD(4) [OF apart, of wc] by (intro kept) blast
  qed
  moreover have "contents V w1 start = header_page k hd"
    using kept [of start] header_apartD(4) [OF apart, of wa] g(4) S(6) by auto
  moreover have "concat Bs = data" using S(7) tk by simp
  ultimately have "stored_image k cfg L V start hd n data w1"
    using S gm g(2) i(2) image_page_count(2) [OF image(3) quiet(2)] unfolding stored_image_def by (metis (no_types, lifting))
  then show ?thesis using mark_swap_on_disk [OF disk mk rg] w1 by blast
qed


end
