(* ===== verification/Disk_Machine.thy ===== *)
theory Disk_Machine
  imports Hibernation
begin

section \<open>A machine with a disk of bytes\<close>

text \<open>
  Pages of 4096 bytes; one disk, byte by byte, with the swap pages from its second page on and the
  signature at the end of the first one; file descriptor 3 is the snapshot device, 4 the disk. The
  image has one page.
\<close>

record disk_world =
  dw_bytes :: "loff_t \<Rightarrow> byte"
  dw_pos :: loff_t
  dw_count :: nat
  dw_in :: "byte list list"
  dw_taken :: "byte list"
  dw_given :: "byte list"

definition full_page :: "byte list \<Rightarrow> byte list" where
  "full_page p = take 4096 (p @ replicate 4096 0)"

lemma length_full_page [simp]: "length (full_page p) = 4096"
  by (simp add: full_page_def)

definition disk_kernel :: "disk_world kernel" where
  "disk_kernel =
     \<lparr>k_ioctl = (\<lambda>dev req w.
          if req = SNAPSHOT_ALLOC_SWAP_PAGE \<and> dw_count w < 100
          then (\<lparr>ret = 0, errno = 0, out = 4096 * (int (dw_count w) + 1)\<rparr>, w\<lparr>dw_count := dw_count w + 1\<rparr>)
          else if req = SNAPSHOT_GET_IMAGE_SIZE then (\<lparr>ret = 0, errno = 0, out = 4096\<rparr>, w)
          else if req = SNAPSHOT_AVAIL_SWAP_SIZE then (\<lparr>ret = 0, errno = 0, out = 409600\<rparr>, w)
          else (\<lparr>ret = - 1, errno = EINVAL, out = 0\<rparr>, w)),
      k_lseek = (\<lambda>fd p w. (p, w\<lparr>dw_pos := p\<rparr>)),
      k_read = (\<lambda>fd c w. if fd = 3
          then (case dw_in w of [] \<Rightarrow> ((0, []), w)
                | p # ps \<Rightarrow> ((4096, full_page p), w\<lparr>dw_in := ps, dw_taken := dw_taken w @ full_page p\<rparr>))
          else ((int c, bytes_at (dw_bytes w) (dw_pos w) c), w)),
      k_write = (\<lambda>fd bs w. (int (length bs), if fd = 3 then w\<lparr>dw_given := dw_given w @ bs\<rparr>
          else w\<lparr>dw_bytes := overwrite (dw_bytes w) (dw_pos w) bs\<rparr>)),
      k_fsync = (\<lambda>fd w. w), k_close = (\<lambda>fd w. w), k_sync_file_range = (\<lambda>fd w. w),
      k_reboot = (\<lambda>cmd w. w)\<rparr>"

definition disk_libs :: "disk_world libs" where
  "disk_libs =
     \<lparr>lzo_work_size = 64, lzo_compress = (\<lambda>d. d), lzo_decompress = Some,
      gcry_encrypt = (\<lambda>p w. ((0, p), w)), gcry_decrypt = (\<lambda>p w. ((0, p), w)),
      key_pressed = (\<lambda>w. (0, w)), prepare_abort = (\<lambda>w. (1, w)), restore_abort = (\<lambda>w. w),
      mem_byte = (\<lambda>a. 0)\<rparr>"

definition page_at :: "(loff_t \<Rightarrow> byte) \<Rightarrow> loff_t \<Rightarrow> byte list" where
  "page_at f off = (if 4096 dvd off then bytes_at f off 4096 else [])"

definition disk_view :: "disk_world view" where
  "disk_view = \<lparr>contents = (\<lambda>w. page_at (dw_bytes w)),
     position = dw_pos, held = (\<lambda>w. (\<lambda>n. 4096 * (int n + 1)) ` {..<min (dw_count w) 100}),
     taken = dw_taken, given = dw_given\<rparr>"

definition disk_bytes :: "disk_world disk" where
  "disk_bytes = \<lparr>d_byte = dw_bytes, d_pos = dw_pos\<rparr>"

lemma disk_get_swap_page: "get_swap_page disk_kernel dev w =
    (if dw_count w < 100 then (4096 * (int (dw_count w) + 1), w\<lparr>dw_count := dw_count w + 1\<rparr>) else (0, w))"
  by (simp add: get_swap_page_def ioctl_fallback_def disk_kernel_def)

lemma bytes_at_overwrite_apart:
  "b + int n \<le> a \<or> a + int (length bs) \<le> b \<Longrightarrow> bytes_at (overwrite f a bs) b n = bytes_at f b n"
  by (intro bytes_at_cong overwrite_outside) auto

lemma pages_apart:
  assumes "(4096::int) dvd a" and "4096 dvd b" and "a \<noteq> b"
  shows "b + 4096 \<le> a \<or> a + 4096 \<le> b"
  using assms by (auto elim!: dvdE)

lemma page_at_overwrite:
  assumes "length bs = 4096" and "4096 dvd a"
  shows "page_at (overwrite f a bs) = (page_at f)(a := bs)"
proof
  fix q
  consider "4096 dvd q" "q \<noteq> a" | "\<not> 4096 dvd q" | "q = a" by blast
  then show "page_at (overwrite f a bs) q = ((page_at f)(a := bs)) q"
  proof cases
    case 1
    then have "q + int 4096 \<le> a \<or> a + int (length bs) \<le> q"
      using pages_apart [OF assms(2), of q] assms(1) by simp
    from bytes_at_overwrite_apart [OF this] show ?thesis using 1 by (simp add: page_at_def)
  next
    case 2
    then show ?thesis using assms(2) by (auto simp: page_at_def)
  next
    case 3
    then show ?thesis using assms bytes_at_overwrite [of f a bs] by (simp add: page_at_def)
  qed
qed

lemma page_at_header:
  assumes "length bs = sizeof_swsusp_header" and "p \<noteq> 0"
  shows "page_at (overwrite f (header_shift 12 0) bs) p = page_at f p"
  using pages_apart [of 0 p] assms
  by (auto simp: page_at_def header_shift_def sizeof_swsusp_header_def intro!: bytes_at_overwrite_apart)

lemma disk_swap_device: "swap_device 12 disk_kernel 3 4 disk_view"
  unfolding swap_device_def
proof (intro conjI)
  show "hands_out 12 (held disk_view) (get_swap_page disk_kernel 3)"
    by (auto simp: hands_out_def disk_get_swap_page disk_view_def min_def lessThan_Suc)
  show "hands_out_upwards (held disk_view) (get_swap_page disk_kernel 3)"
    by (auto simp: hands_out_upwards_def disk_get_swap_page disk_view_def)
  show "\<forall>w p w'. get_swap_page disk_kernel 3 w = (p, w') \<longrightarrow>
        contents disk_view w' = contents disk_view w \<and> taken disk_view w' = taken disk_view w
        \<and> given disk_view w' = given disk_view w"
    by (simp add: disk_get_swap_page disk_view_def)
  show "\<forall>w. \<forall>p\<in>held disk_view w. p + psz 12 < 2 ^ 63" by (auto simp: disk_view_def)
  show "\<forall>bs w n w'. length bs = page_bytes 12 \<longrightarrow> k_write disk_kernel 4 bs w = (n, w') \<longrightarrow> n = psz 12 \<longrightarrow>
        psz 12 dvd position disk_view w \<longrightarrow>
        contents disk_view w' = (contents disk_view w)(position disk_view w := bs) \<and> held disk_view w' = held disk_view w
        \<and> taken disk_view w' = taken disk_view w \<and> given disk_view w' = given disk_view w"
    by (auto simp: disk_kernel_def disk_view_def page_at_overwrite)
qed (simp_all add: disk_kernel_def disk_view_def same_view_def page_at_def)

lemma disk_image_device: "image_device 12 disk_kernel disk_libs 3 4 3 disk_view"
  unfolding image_device_def
proof (intro conjI)
  show "\<forall>w ret bs w'. k_read disk_kernel 3 (page_bytes 12) w = ((ret, bs), w') \<longrightarrow>
        contents disk_view w' = contents disk_view w \<and> held disk_view w' = held disk_view w
        \<and> given disk_view w' = given disk_view w \<and>
        (if psz 12 \<le> ret then length bs = page_bytes 12 \<and> taken disk_view w' = taken disk_view w @ bs
         else taken disk_view w' = taken disk_view w)"
    by (auto simp: disk_kernel_def disk_view_def split: list.splits)
qed (simp_all add: disk_kernel_def disk_libs_def disk_view_def same_view_def)

lemma disk_bytes_device: "disk_device disk_kernel 4 disk_bytes"
  by (auto simp: disk_device_def disk_kernel_def disk_bytes_def)

lemma disk_header_apart: "header_apart 12 disk_kernel 4 0 disk_view"
  unfolding header_apart_def
proof (intro conjI)
  show "\<forall>bs w n w'. k_write disk_kernel 4 bs w = (n, w') \<longrightarrow> length bs = sizeof_swsusp_header \<longrightarrow>
        position disk_view w = header_shift 12 0 \<longrightarrow>
        taken disk_view w' = taken disk_view w \<and> given disk_view w' = given disk_view w \<and>
        (\<forall>p. p \<noteq> 0 * psz 12 \<longrightarrow> contents disk_view w' p = contents disk_view w p)"
    using page_at_header by (auto simp: disk_kernel_def disk_view_def)
qed (simp_all add: disk_kernel_def disk_view_def same_view_def sizeof_swsusp_header_def image_iff)

section \<open>A run\<close>

definition plain_cfg :: suspend_cfg where
  "plain_cfg = \<lparr>img = \<lparr>do_compress = False, do_encrypt = False, use_threads = False,
     compute_checksum = False, verify_image = False, early_writeout = False,
     compress_buf_size = compress_buf_bytes 12, encrypt_buf_size = 0\<rparr>,
     resume_offset = 0, pref_image_size = 500, resume_pause = 0, test_image_size = 0, use_RSA = False,
     s2ram = False, s2ram_kms = False\<rparr>"

lemma plain_cfg_fields [simp]:
  "do_compress (img plain_cfg) = False" "do_encrypt (img plain_cfg) = False" "use_threads (img plain_cfg) = False"
  "compute_checksum (img plain_cfg) = False" "verify_image (img plain_cfg) = False"
  "early_writeout (img plain_cfg) = False" "compress_buf_size (img plain_cfg) = compress_buf_bytes 12"
  "resume_offset plain_cfg = 0" "resume_pause plain_cfg = 0"
  by (simp_all add: plain_cfg_def)

lemma disk_libs_fields [simp]:
  "key_pressed disk_libs w = (0, w)" "prepare_abort disk_libs w = (1, w)" "restore_abort disk_libs w = w"
  by (simp_all add: disk_libs_def)

definition disk_pool :: memalloc where
  "disk_pool = \<lparr>page_size = 4096, buffer_size = 131072, page_mask = NOT 4095,
     mem_pool = 0x100000, pool_size = 0x100000, slots = replicate 8 \<lparr>slot_addr = 0, slot_size = 0\<rparr>,
     nr_slots = 8, cur_slot = 0\<rparr>"

definition disk_env :: "disk_world env" where
  "disk_env = \<lparr>e_urandom = (\<lambda>w. (None, w)), e_ask = (\<lambda>w. ([], w)), e_password = [], e_pass_addr = 0,
     e_stack_ctx = zero_ctx, e_lzo_init = (\<lambda>w. (True, w)), e_elapsed = (\<lambda>w. replicate 8 0)\<rparr>"

definition disk_state :: suspend_state where
  "disk_state = \<lparr>ss_mem = disk_pool, ss_writer = small_writer, ss_reader = small_reader,
     ss_load = \<lparr>verify_checksum = False, do_decompress = False, do_decrypt = False,
                 load_compress_buf_size = compress_buf_bytes 12\<rparr>,
     ss_method = SHUTDOWN_METHOD_SHUTDOWN,
     ss_keys = \<lparr>kd_key = [], kd_ivec = [], kd_rsa = zero_rsa, kd_encrypted_key = []\<rparr>\<rparr>"

definition disk_start :: disk_world where
  "disk_start = \<lparr>dw_bytes = (\<lambda>x. if 4086 \<le> x \<and> x < 4096 then SWAPSPACE2 ! nat (x - 4086) else 0), dw_pos = 0,
     dw_count = 0, dw_in = [[0x61]], dw_taken = [], dw_given = []\<rparr>"

lemma disk_page_size [simp]: "length (zero_extents 12) = 256"
  by (simp add: zero_extents_def max_extents_def)

lemma disk_getmem:
  "case (do { (a, m) \<leftarrow> getmem 4096 disk_pool; (b, m) \<leftarrow> getmem 4096 m; (c, m) \<leftarrow> getmem 131072 m; Some (a, b) }) of
     None \<Rightarrow> False | Some (a, b) \<Rightarrow> a \<noteq> None \<and> b \<noteq> None"
  by code_simp

lemma disk_alloc:
  obtains a m1 h m2 where "getmem (of_nat (page_bytes 12)) disk_pool = Some (Some a, m1)"
    and "alloc_swap_writer 12 (img plain_cfg) disk_libs small_writer m1 = Some (h, m2)" and "w_extents_mem h \<noteq> None"
proof -
  obtain a m1 b m2 c m3 where "getmem 4096 disk_pool = Some (Some a, m1)" "getmem 4096 m1 = Some (Some b, m2)"
    "getmem 131072 m2 = Some (c, m3)"
    using disk_getmem by (auto simp: bind_eq_Some_conv split: option.split_asm)
  then show ?thesis
    by (intro that [of a m1 "small_writer\<lparr>w_extents_mem := Some b, w_buffer_mem := c, w_encrypt_mem := None,
        w_write_buffer_mem := c, w_data := [], w_encrypt_pos := 0, w_block := []\<rparr>" m3])
      (simp_all add: alloc_swap_writer_def write_buf_size_def buffer_bytes_def)
qed

lemma disk_init:
  obtains a m1 h1 m2 where "getmem (of_nat (page_bytes 12)) disk_pool = Some (Some a, m1)"
    and "\<forall>w. dw_count w < 100 \<longrightarrow> init_swap_writer 12 (img plain_cfg) disk_kernel disk_libs small_writer 3 4 (- 1) m1 w
      = Some (0, h1\<lparr>w_extents_spc := 4096 * (int (dw_count w) + 1)\<rparr>, m2, w\<lparr>dw_count := dw_count w + 1\<rparr>)"
    and "w_extents h1 = zero_extents 12" and "w_nr_extents h1 = 0" and "w_data h1 = []"
    and "w_dev h1 = 3" and "w_fd h1 = 4" and "w_input h1 = 3" and "w_written_data h1 = 0"
proof -
  obtain a m1 h m2 where g: "getmem (of_nat (page_bytes 12)) disk_pool = Some (Some a, m1)"
    and al: "alloc_swap_writer 12 (img plain_cfg) disk_libs small_writer m1 = Some (h, m2)"
    and ne: "w_extents_mem h \<noteq> None"
    by (rule disk_alloc)
  note f = alloc_swap_writer_fields [OF al]
  show ?thesis
    by (rule that [OF g, of "h\<lparr>w_dev := 3, w_fd := 4, w_input := 3, w_written_data := 0,
        w_extents := zero_extents 12, w_nr_extents := 0\<rparr>" m2])
      (use f in \<open>simp_all add: init_swap_writer_def al ne disk_get_swap_page\<close>)
qed

lemma disk_preallocate:
  assumes "w_extents h = zero_extents 12" and "w_nr_extents h = 0" and "w_swap_needed h = 4096"
    and "dw_count w < 100" and "p = 4096 * (int (dw_count w) + 1)"
  shows "preallocate_swap 12 (img plain_cfg) disk_kernel h w =
    (p, h\<lparr>w_extents := (zero_extents 12)[0 := \<lparr>ext_start = p, ext_end = p + 4096\<rparr>], w_nr_extents := 1,
         w_cur_extent_idx := 0, w_cur_offset := p\<rparr>, w\<lparr>dw_count := dw_count w + 1\<rparr>)"
  using assms
  by (simp add: preallocate_swap_def alloc_swap_def alloc_swap_loop.simps disk_get_swap_page max_extents_def)

lemma disk_write_page:
  "off \<noteq> 0 \<Longrightarrow> length bs = 4096 \<Longrightarrow> write_page 12 disk_kernel 4 bs off w =
    (0, w\<lparr>dw_pos := off, dw_bytes := overwrite (dw_bytes w) off bs\<rparr>)"
  by (simp add: write_page_def disk_kernel_def)

lemma disk_save:
  assumes "w_extents h = (zero_extents 12)[0 := \<lparr>ext_start = p, ext_end = p + 4096\<rparr>]" and "w_nr_extents h = 1"
    and "w_cur_extent_idx h = 0" and "w_cur_offset h = p - 4096" and "w_data h = []" and "w_input h = 3"
    and "w_fd h = 4" and "4096 \<le> p" and "4096 \<le> w_extents_spc h" and "dw_in w = [pg]"
  shows "\<exists>h' f. save_image 12 (img plain_cfg) disk_kernel disk_libs h 1 meth w
      = Some (0, h', meth, w\<lparr>dw_in := [], dw_taken := dw_taken w @ full_page pg, dw_pos := w_extents_spc h, dw_bytes := f\<rparr>)
    \<and> w_written_data h' = w_written_data h + 4096 \<and> (\<forall>x<4096. f x = dw_bytes w x)"
proof -
  have z: "full_page pg \<noteq> []" by (metis length_full_page list.size(3) zero_neq_numeral)
  have t: "take 4096 (full_page pg) = full_page pg" by simp
  let ?w1 = "w\<lparr>dw_in := [], dw_taken := dw_taken w @ full_page pg\<rparr>"
  let ?h1 = "h\<lparr>w_data := full_page pg\<rparr>"
  have l: "save_loop 12 (img plain_cfg) disk_kernel disk_libs False (Suc 0) (Suc (Suc 0)) 0 h meth w = Some (0, Suc 0, ?h1, meth, ?w1)"
    using assms
    by (subst save_loop.simps, subst save_loop.simps)
      (simp add: disk_kernel_def handle_keys.simps buffer_bytes_def)
  let ?h2 = "?h1\<lparr>w_cur_offset := p, w_swap_needed := w_swap_needed h - 4096, w_written_data := w_written_data h + 4096\<rparr>"
  let ?f = "overwrite (dw_bytes w) p (full_page pg)"
  have n: "next_swap_page 12 (img plain_cfg) disk_kernel ?h1 ?w1 = (p, ?h1\<lparr>w_cur_offset := p\<rparr>, ?w1)"
    using assms by (simp add: next_swap_page_def w_cur_extent_def)
  have s: "save_page 12 (img plain_cfg) disk_kernel (full_page pg) ?h1 ?w1 = (0, ?h2, ?w1\<lparr>dw_pos := p, dw_bytes := ?f\<rparr>)"
    using assms by (simp add: save_page_def n disk_write_page)
  have fl: "flush_buffer 12 (img plain_cfg) disk_kernel disk_libs ?h1 ?w1 = (0, ?h2, ?w1\<lparr>dw_pos := p, dw_bytes := ?f\<rparr>)"
    using z by (simp add: flush_buffer_def flush_pages.simps encrypt_and_save_page_def s)
  have len: "length (extents_page (w_extents h)) = 4096"
    using assms(1) by (simp add: length_extents_page)
  let ?g = "overwrite ?f (w_extents_spc h) (extents_page (w_extents h))"
  have se: "save_extents 12 disk_kernel True ?h2 (?w1\<lparr>dw_pos := p, dw_bytes := ?f\<rparr>) =
      (0, ?h2\<lparr>w_extents_spc := 0\<rparr>, ?w1\<lparr>dw_pos := w_extents_spc h, dw_bytes := ?g\<rparr>)"
    using assms len by (simp add: save_extents_def disk_write_page)
  have g: "\<forall>x<4096. ?g x = dw_bytes w x"
    using assms(8,9) by (simp add: overwrite_outside)
  show ?thesis
    by (intro exI [of _ "?h2\<lparr>w_extents_spc := 0\<rparr>"] exI [of _ ?g])
      (simp add: save_image_def l fl se g)
qed

lemma disk_save_loop_args: "unat (of_nat (nat ((4096 + psz 12 - 1) div psz 12)) :: u32) = 1"
  by simp

lemma disk_write_header:
  assumes "image_header_wf hdr" and "loff_range (w_written_data h)" and "4096 \<le> start" and "4096 dvd start" and "meth = SHUTDOWN_METHOD_SHUTDOWN"
  shows "\<exists>hdr' f. write_header 12 plain_cfg disk_kernel disk_env 4 start meth hdr h w
    = (0, hdr', h, w\<lparr>dw_pos := start, dw_bytes := f\<rparr>) \<and> (\<forall>x<4096. f x = dw_bytes w x)
    \<and> page_at f start = header_page 12 hdr' \<and> image_header_wf hdr' \<and> h_flags hdr' = h_flags hdr"
proof -
  let ?hdr = "(set_flag (meth = SHUTDOWN_METHOD_PLATFORM) PLATFORM_SUSPEND
     (hdr\<lparr>h_image_data_size := w_written_data h\<rparr>))\<lparr>h_writeout_time := replicate 8 0, h_resume_pause := 0\<rparr>"
  have wf: "image_header_wf ?hdr" using assms(1,2) by (simp add: image_header_wf_def set_flag_def)
  from wf have l: "length (header_page 12 ?hdr) = 4096" by (simp add: length_header_page)
  have "k_fsync disk_kernel 4 w = w" for w by (simp add: disk_kernel_def)
  then have "write_header 12 plain_cfg disk_kernel disk_env 4 start meth hdr h w
    = (0, ?hdr, h, w\<lparr>dw_pos := start, dw_bytes := overwrite (dw_bytes w) start (header_page 12 ?hdr)\<rparr>)"
    using l assms(3) by (simp add: write_header_def disk_write_page disk_env_def case_prod_beta Let_def)
  moreover have "h_flags ?hdr = h_flags hdr" using assms(5) by (simp add: set_flag_def)
  moreover have "page_at (overwrite (dw_bytes w) start (header_page 12 ?hdr)) start = header_page 12 ?hdr"
    using page_at_overwrite [OF l assms(4)] by simp
  moreover have "\<forall>x<4096. overwrite (dw_bytes w) start (header_page 12 ?hdr) x = dw_bytes w x"
    using assms(3) by (simp add: overwrite_outside)
  ultimately show ?thesis using wf by blast
qed

lemma disk_mark:
  assumes "\<forall>x<4096. dw_bytes w x = dw_bytes disk_start x" and "loff_range start"
  shows "fst (mark_swap 12 disk_kernel 0 4 start w) = 0"
proof -
  have "bytes_at (dw_bytes w) 4068 28 = bytes_at (dw_bytes disk_start) 4068 28"
    using assms(1) by (intro bytes_at_cong) simp
  moreover have "sw_sig (swsusp_header_of (bytes_at (dw_bytes disk_start) 4068 28)) = SWAPSPACE2"
    by (simp add: swsusp_header_of_def drop_bytes_at disk_start_def) code_simp
  ultimately have s: "sw_sig (swsusp_header_of (bytes_at (dw_bytes w) 4068 28)) = SWAPSPACE2" by simp
  have "header_wf (swsusp_header_of (bytes_at (dw_bytes w) 4068 28))"
    by (rule header_wf_of) (simp add: sizeof_swsusp_header_def)
  then have "header_wf ((swsusp_header_of (bytes_at (dw_bytes w) 4068 28))
      \<lparr>sw_orig_sig := SWAPSPACE2, sw_sig := SWSUSP_SIG, sw_image := start\<rparr>)"
    using assms(2) by (simp add: header_wf_def)
  from length_header_bytes [OF this] show ?thesis
    using s by (simp add: mark_swap_def header_shift_def sizeof_swsusp_header_def disk_kernel_def Let_def)
qed

lemma disk_hibernates:
  obtains st' w' hdr where "write_image 12 plain_cfg disk_kernel disk_libs toy_gcrypt disk_env 3 4 (- 1) disk_state disk_start
      = Some (0, st', w')" and "dw_taken w' = full_page [0x61]" and "dw_given w' = []"
    and "sw_image (disk_header 12 0 (dw_bytes w')) = 4096" and "image_header_wf hdr" and "h_flags hdr = 0"
    and "page_at (dw_bytes w') 4096 = header_page 12 hdr"
proof -
  obtain a m1 h1 m2 where gm: "getmem (of_nat (page_bytes 12)) disk_pool = Some (Some a, m1)"
    and init: "\<forall>w. dw_count w < 100 \<longrightarrow> init_swap_writer 12 (img plain_cfg) disk_kernel disk_libs small_writer 3 4 (- 1) m1 w
      = Some (0, h1\<lparr>w_extents_spc := 4096 * (int (dw_count w) + 1)\<rparr>, m2, w\<lparr>dw_count := dw_count w + 1\<rparr>)"
    and h1: "w_extents h1 = zero_extents 12" "w_nr_extents h1 = 0" "w_data h1 = []" "w_dev h1 = 3" "w_fd h1 = 4"
      "w_input h1 = 3" "w_written_data h1 = 0" by (rule disk_init) 
  let ?w1 = "disk_start\<lparr>dw_count := 1\<rparr>" and ?w2 = "disk_start\<lparr>dw_count := 2\<rparr>" and ?w3 = "disk_start\<lparr>dw_count := 3\<rparr>"
  let ?h = "h1\<lparr>w_extents_spc := 8192\<rparr>"
  let ?ext = "\<lparr>ext_start = 12288, ext_end = 16384 :: int\<rparr>"
  let ?h2 = "?h\<lparr>w_swap_needed := 4096, w_extents := (zero_extents 12)[0 := ?ext], w_nr_extents := 1,
         w_cur_extent_idx := 0, w_cur_offset := 8192\<rparr>"
  let ?st = "disk_state\<lparr>ss_writer := ?h, ss_mem := m2\<rparr>"
  have cnt: "dw_count disk_start = 0" "dw_in disk_start = [[0x61]]" "dw_taken disk_start = []" "dw_given disk_start = []"
    by (simp_all add: disk_start_def)
  have gp: "get_swap_page disk_kernel 3 disk_start = (4096, ?w1)" using cnt by (simp add: disk_get_swap_page)
  have i1: "init_swap_writer 12 (img plain_cfg) disk_kernel disk_libs small_writer 3 4 (- 1) m1 ?w1 = Some (0, ?h, m2, ?w2)"
    using spec [OF init, of ?w1] by simp
  have pre: "preallocate_swap 12 (img plain_cfg) disk_kernel (?h\<lparr>w_swap_needed := 4096\<rparr>) ?w2 =
    (12288, ?h\<lparr>w_swap_needed := 4096, w_extents := (zero_extents 12)[0 := ?ext], w_nr_extents := 1,
         w_cur_extent_idx := 0, w_cur_offset := 12288\<rparr>, ?w3)"
    using disk_preallocate [of "?h\<lparr>w_swap_needed := 4096\<rparr>" ?w2 12288] h1 by simp
  obtain h3 f where sv: "save_image 12 (img plain_cfg) disk_kernel disk_libs ?h2 1 SHUTDOWN_METHOD_SHUTDOWN ?w3
      = Some (0, h3, SHUTDOWN_METHOD_SHUTDOWN, ?w3\<lparr>dw_in := [], dw_taken := full_page [0x61], dw_pos := 8192, dw_bytes := f\<rparr>)"
    and h3: "w_written_data h3 = w_written_data h1 + 4096" "\<forall>x<4096. f x = dw_bytes disk_start x"
    using disk_save [of ?h2 12288 ?w3 "[0x61]" SHUTDOWN_METHOD_SHUTDOWN] h1 cnt by auto
  have ip: "image_pages 12 plain_cfg disk_kernel 3 False ?h ?w2 = (0, 4096, 1, ?h, ?w2)"
    by (simp add: image_pages_def get_image_size_def disk_kernel_def)
  have en: "enough_swap (img plain_cfg) disk_kernel (?h\<lparr>w_swap_needed := 4096\<rparr>) ?w2 = (True, ?w2)"
    using h1 by (simp add: enough_swap_def check_free_swap_def ioctl_fallback_def disk_kernel_def)
  have wf: "image_header_wf (start_header plain_cfg 1 8192)"
    using zero_header_wf by (simp add: start_header_def image_header_wf_def loff_range_def set_flag_def)
  obtain hdr g where wh: "write_header 12 plain_cfg disk_kernel disk_env 4 4096 SHUTDOWN_METHOD_SHUTDOWN
      (start_header plain_cfg 1 8192) h3 (?w3\<lparr>dw_in := [], dw_taken := full_page [0x61], dw_pos := 8192, dw_bytes := f\<rparr>)
      = (0, hdr, h3, ?w3\<lparr>dw_in := [], dw_taken := full_page [0x61], dw_pos := 4096, dw_bytes := g\<rparr>)"
    and g: "\<forall>x<4096. g x = dw_bytes disk_start x" "page_at g 4096 = header_page 12 hdr" "image_header_wf hdr" "h_flags hdr = 0"
    using disk_write_header [OF wf, of h3 4096 SHUTDOWN_METHOD_SHUTDOWN
       "?w3\<lparr>dw_in := [], dw_taken := full_page [0x61], dw_pos := 8192, dw_bytes := f\<rparr>"] h3 h1(7)
    by (auto simp: loff_range_def start_header_def zero_header_def set_flag_def)
  let ?w6 = "?w3\<lparr>dw_in := [], dw_taken := full_page [0x61], dw_pos := 4096, dw_bytes := g\<rparr>"
  obtain st2 where wid: "write_image_data 12 plain_cfg disk_kernel disk_libs toy_gcrypt disk_env 3 4 False 4096 ?st ?w2
      = Some (0, hdr, st2, ?w6)"
    using h1 sv wh by (simp add: write_image_data_def ip swap_needed_for_def en pre image_cipher_def disk_state_def)
  obtain w7 where mk: "mark_swap 12 disk_kernel 0 4 4096 ?w6 = (0, w7)"
    using disk_mark [of ?w6 4096] g by (cases "mark_swap 12 disk_kernel 0 4 4096 ?w6") (auto simp: loff_range_def)
  note mv = mark_swap_view [OF disk_swap_device disk_bytes_device disk_header_apart mk]
  obtain st3 where ws: "write_signed_image 12 plain_cfg disk_kernel disk_libs toy_gcrypt disk_env 3 4 False 4096 ?st ?w2
      = Some (0, st3, k_fsync disk_kernel 4 w7)"
    by (simp add: write_signed_image_def wid verify_written_def mk)
  have fs: "k_fsync disk_kernel 4 w7 = w7" by (simp add: disk_kernel_def)
  have "write_image 12 plain_cfg disk_kernel disk_libs toy_gcrypt disk_env 3 4 (- 1) disk_state disk_start
      = Some (0, st3\<lparr>ss_mem := freemem a (ss_mem st3)\<rparr>, w7)"
    using gm i1 ws fs by (simp add: write_image_def gp disk_state_def)
  moreover have "dw_taken w7 = full_page [0x61]" "dw_given w7 = []"
    using mv cnt by (simp_all add: disk_view_def loff_range_def)
  moreover have "sw_image (disk_header 12 0 (dw_bytes w7)) = 4096"
  proof -
    have rg: "loff_range 4096" by (simp add: loff_range_def)
    let ?d = "disk_header 12 0 (dw_bytes ?w6)"
    have "dw_bytes w7 = store_header 12 0 (?d\<lparr>sw_orig_sig := sw_sig ?d, sw_sig := SWSUSP_SIG, sw_image := 4096\<rparr>) (dw_bytes ?w6)"
      using mark_swap_cases(2) [OF disk_bytes_device mk rg] by (simp add: disk_bytes_def)
    moreover have "header_wf (?d\<lparr>sw_orig_sig := sw_sig ?d, sw_sig := SWSUSP_SIG, sw_image := 4096\<rparr>)"
      using disk_header_wf [of 12 0 "dw_bytes ?w6"] rg by (simp add: header_wf_def)
    ultimately show ?thesis by simp
  qed
  moreover have "page_at (dw_bytes w7) 4096 = header_page 12 hdr"
    using mv g(2) by (simp add: disk_view_def loff_range_def)
  ultimately show ?thesis by (rule that [OF _ _ _ _ g(3,4)])
qed

lemma disk_reader_mem:
  "(do { (a, m) \<leftarrow> getmem 4096 disk_pool; (b, m) \<leftarrow> getmem 131072 m; Some (a, b) }) \<noteq> None"
  by code_simp

lemma disk_reads:
  assumes "image_header_wf hdr" and "h_flags hdr = 0" and "page_at (dw_bytes w) 4096 = header_page 12 hdr"
  obtains e hdr' st' w' where "read_or_verify 12 disk_kernel disk_libs toy_gcrypt disk_env 3 4 zero_header 4096 False False
      disk_state w = Some (e, hdr', st', w')"
proof -
  let ?lo = "\<lparr>verify_checksum = False, do_decompress = False, do_decrypt = False,
                 load_compress_buf_size = compress_buf_bytes 12\<rparr>"
  have rp: "read_page 12 disk_kernel 4 4096 w = ((0, Some (header_page 12 hdr)), w\<lparr>dw_pos := 4096\<rparr>)"
    using assms(3) by (simp add: read_page_def disk_kernel_def page_at_def)
  have nf: "\<not> has_flag hdr f" for f using assms(2) by (simp add: has_flag_def)
  have "\<exists>r m. alloc_swap_reader 12 ?lo disk_libs h disk_pool = Some (r, m)" for h
    using disk_reader_mem by (auto simp: alloc_swap_reader_def buffer_bytes_def bind_eq_Some_conv)
  then have "\<exists>r. init_swap_reader 12 ?lo disk_kernel disk_libs h 4 s n disk_pool u = Some r" for h s n u
  proof -
    obtain r m where "alloc_swap_reader 12 ?lo disk_libs (h\<lparr>r_fd := 4, r_total_size := n\<rparr>) disk_pool = Some (r, m)"
      using \<open>\<And>h. \<exists>r m. alloc_swap_reader 12 ?lo disk_libs h disk_pool = Some (r, m)\<close> by blast
    then show ?thesis by (simp add: init_swap_reader_def case_prod_beta Let_def)
  qed
  then obtain e3 r3 m3 w3 where ir: "init_swap_reader 12 ?lo disk_kernel disk_libs small_reader 4 (h_map_start hdr)
      (h_image_data_size hdr) disk_pool (w\<lparr>dw_pos := 4096\<rparr>) = Some (e3, r3, m3, w3)"
    by (metis surj_pair)
  have "read_or_verify 12 disk_kernel disk_libs toy_gcrypt disk_env 3 4 zero_header 4096 False False
      disk_state w \<noteq> None"
    using rp image_header_of_page [OF assms(1), of 12] ir
    by (simp add: read_or_verify_def load_flags_def load_cipher_def nf disk_state_def Let_def split: prod.split)
  then show ?thesis using that by auto
qed


end
