(* ===== verification/Suspend_System.thy ===== *)
theory Suspend_System
  imports Disk_Machine
begin

text \<open>
  \<open>suspend_shutdown\<close> and \<open>suspend_system\<close> of \<open>suspend.c\<close>: freezing, the at most two attempts to take
  and write a snapshot, the test mode, suspending to RAM with the image on the disk, and thawing.
  Messages and the progress bar are left out.
\<close>

section \<open>suspend_shutdown\<close>

text \<open>It does not return: if the machine is still on, the process sleeps in the world given here.\<close>

definition suspend_shutdown :: "'w kernel \<Rightarrow> shutdown \<Rightarrow> fd \<Rightarrow> 'w \<Rightarrow> 'w" where
  "suspend_shutdown K method snapshot_fd w =
     (let w = (case method of
                 SHUTDOWN_METHOD_REBOOT \<Rightarrow> reboot K w
               | SHUTDOWN_METHOD_PLATFORM \<Rightarrow> snd (platform_enter K snapshot_fd w)
               | SHUTDOWN_METHOD_SHUTDOWN \<Rightarrow> w)
      in power_off K w)"

section \<open>suspend_system\<close>

text \<open>
  The inner result: \<open>Inl\<close> for the error, the state and the world with which it goes on at the label
  \<open>Unfreeze\<close>, \<open>Inr\<close> when \<open>suspend_shutdown\<close> is called. The outer one is \<open>None\<close> when something does
  not come to an end before that. \<open>s2ram_resume\<close> is the function of \<open>s2ram-x86.c\<close>.
\<close>

type_synonym 'w suspend_result = "((int \<times> suspend_state \<times> 'w) + 'w) option"

text \<open>The image is on the disk.\<close>

definition image_written ::
  "nat \<Rightarrow> suspend_cfg \<Rightarrow> 'w kernel \<Rightarrow> ('w \<Rightarrow> 'w) \<Rightarrow> fd \<Rightarrow> fd \<Rightarrow> suspend_state \<Rightarrow> 'w \<Rightarrow> 'w suspend_result" where
  "image_written k cfg K s2ram_resume snapshot_fd resume_fd st w =
     (let (error, w) = (if s2ram_kms cfg \<or> s2ram cfg then suspend_to_ram K snapshot_fd w else (1, w))
      in if error = 0 then do {
           (r, w) \<leftarrow> reset_signature k K (resume_offset cfg) resume_fd w;
           let (r, w) = free_swap_pages K snapshot_fd w;
           let (r, w) = free_snapshot K snapshot_fd w;
           Some (Inl (0, st, if s2ram_kms cfg then w else s2ram_resume w))
         }
         else Some (Inr (suspend_shutdown K (ss_method st) snapshot_fd (k_close K resume_fd w))))"

text \<open>The \<open>do ... while (--attempts)\<close> loop.\<close>

fun suspend_attempts ::
  "nat \<Rightarrow> suspend_cfg \<Rightarrow> 'w kernel \<Rightarrow> 'w libs \<Rightarrow> ('w, 'm, 's) gcrypt \<Rightarrow> 'w env \<Rightarrow> ('w \<Rightarrow> 'w) \<Rightarrow> fd \<Rightarrow> fd \<Rightarrow> nat \<Rightarrow>
   loff_t \<Rightarrow> int \<Rightarrow> suspend_state \<Rightarrow> 'w \<Rightarrow> 'w suspend_result" where
  "suspend_attempts k cfg K L G E s2ram_resume snapshot_fd resume_fd 0 image_size error st w =
     Some (Inl (error, st, w))"
| "suspend_attempts k cfg K L G E s2ram_resume snapshot_fd resume_fd (Suc attempts) image_size error st w =
     (let ((r, errno), w) = set_image_size K snapshot_fd image_size w
      in if r \<noteq> 0 then Some (Inl (errno, st, w))
         else let ((r, errno, in_suspend), w) = atomic_snapshot K snapshot_fd w
         in if r \<noteq> 0 then Some (Inl (errno, st, w))
         else if in_suspend = 0 then Some (Inl (error, st, snd (free_snapshot K snapshot_fd w)))
         else do {
           (error, st, w) \<leftarrow> write_image k cfg K L G E snapshot_fd resume_fd (- 1) st w;
           if error \<noteq> 0 then
             (let (r, w) = free_swap_pages K snapshot_fd w;
                  (r, w) = free_snapshot K snapshot_fd w;
                  error = - error
              in if error \<noteq> ENOSPC then Some (Inl (error, st, w))
                 else suspend_attempts k cfg K L G E s2ram_resume snapshot_fd resume_fd attempts 0 error st w)
           else image_written k cfg K s2ram_resume snapshot_fd resume_fd st w
         })"

text \<open>In test mode the image comes from a file and the signature is removed again.\<close>

definition suspend_test ::
  "nat \<Rightarrow> suspend_cfg \<Rightarrow> 'w kernel \<Rightarrow> 'w libs \<Rightarrow> ('w, 'm, 's) gcrypt \<Rightarrow> 'w env \<Rightarrow> fd \<Rightarrow> fd \<Rightarrow> fd \<Rightarrow>
   suspend_state \<Rightarrow> 'w \<Rightarrow> 'w suspend_result" where
  "suspend_test k cfg K L G E snapshot_fd resume_fd test_fd st w = do {
     (error, st, w) \<leftarrow> write_image k cfg K L G E snapshot_fd resume_fd test_fd st w;
     (r, w) \<leftarrow> reset_signature k K (resume_offset cfg) resume_fd w;
     let (r, w) = free_swap_pages K snapshot_fd w;
     Some (Inl (- error, st, w))
   }"

definition suspend_frozen ::
  "nat \<Rightarrow> suspend_cfg \<Rightarrow> 'w kernel \<Rightarrow> 'w libs \<Rightarrow> ('w, 'm, 's) gcrypt \<Rightarrow> 'w env \<Rightarrow> ('w \<Rightarrow> 'w) \<Rightarrow> fd \<Rightarrow> fd \<Rightarrow> fd \<Rightarrow>
   loff_t \<Rightarrow> suspend_state \<Rightarrow> 'w \<Rightarrow> 'w suspend_result" where
  "suspend_frozen k cfg K L G E s2ram_resume snapshot_fd resume_fd test_fd image_size st w =
     (if 0 \<le> test_fd then suspend_test k cfg K L G E snapshot_fd resume_fd test_fd st w
      else let (r, w) = (if ss_method st = SHUTDOWN_METHOD_PLATFORM then platform_prepare K snapshot_fd w else (0, w));
               st = (if r \<noteq> 0 then st\<lparr>ss_method := SHUTDOWN_METHOD_SHUTDOWN\<rparr> else st)
           in suspend_attempts k cfg K L G E s2ram_resume snapshot_fd resume_fd 2 image_size 0 st w)"

text \<open>What is left of a result after the label \<open>Unfreeze\<close>.\<close>

definition thaw :: "'w kernel \<Rightarrow> fd \<Rightarrow> 'w suspend_result \<Rightarrow> 'w suspend_result" where
  "thaw K snapshot_fd = map_option (map_sum (\<lambda>(error, st, w). (error, st, snd (unfreeze K snapshot_fd w))) id)"

definition suspend_system ::
  "nat \<Rightarrow> suspend_cfg \<Rightarrow> 'w kernel \<Rightarrow> 'w libs \<Rightarrow> ('w, 'm, 's) gcrypt \<Rightarrow> 'w env \<Rightarrow> ('w \<Rightarrow> 'w) \<Rightarrow> fd \<Rightarrow> fd \<Rightarrow> fd \<Rightarrow>
   suspend_state \<Rightarrow> 'w \<Rightarrow> 'w suspend_result" where
  "suspend_system k cfg K L G E s2ram_resume snapshot_fd resume_fd test_fd st w =
     (let (avail_swap, w) = check_free_swap K snapshot_fd w;
          image_size = (if pref_image_size cfg < avail_swap then pref_image_size cfg else avail_swap)
      in if avail_swap = 0 then Some (Inl (ENOSPC, st, w))
         else let ((error, errno), w) = freeze K snapshot_fd w
         in thaw K snapshot_fd
              (if error \<noteq> 0 then Some (Inl (error, st, w))
               else suspend_frozen k cfg K L G E s2ram_resume snapshot_fd resume_fd test_fd image_size st w))"

section \<open>Properties\<close>

lemma thaw_Inl:
  assumes "thaw K fd r = Some (Inl (e, st, w))"
  obtains w1 where "r = Some (Inl (e, st, w1))" and "w = snd (unfreeze K fd w1)"
  using assms by (cases r; cases "the r") (auto simp: thaw_def split: prod.splits)

text \<open>
  C26: Processes never stay frozen. Whenever \<open>suspend_system\<close> returns (with whatever error, after a
  resume, in test mode), thawing them is the last thing it has done, unless it gave up for lack of
  swap before it froze anything.
\<close>

theorem suspend_system_thaws:
  assumes "suspend_system k cfg K L G E s2 snapshot_fd resume_fd test_fd st w = Some (Inl (e, st', w'))"
  shows "(e = ENOSPC \<and> check_free_swap K snapshot_fd w = (0, w')) \<or> (\<exists>w1. w' = snd (unfreeze K snapshot_fd w1))"
proof -
  obtain a w1 where a: "check_free_swap K snapshot_fd w = (a, w1)" by fastforce
  show ?thesis
  proof (cases "a = 0")
    case True
    then show ?thesis using assms a by (simp add: suspend_system_def)
  next
    case False
    obtain r where "thaw K snapshot_fd r = Some (Inl (e, st', w'))"
      using assms a False by (auto simp: suspend_system_def Let_def split: prod.splits if_splits)
    then show ?thesis by (rule thaw_Inl) blast
  qed
qed

lemma suspend_attempts_zero:
  assumes ram: "\<not> s2ram cfg" "\<not> s2ram_kms cfg"
    and errs: "\<forall>sz w r x w'. set_image_size K fd sz w = ((r, x), w') \<longrightarrow> r \<noteq> 0 \<longrightarrow> x \<noteq> 0"
      "\<forall>w r x i w'. atomic_snapshot K fd w = ((r, x, i), w') \<longrightarrow> r \<noteq> 0 \<longrightarrow> x \<noteq> 0"
  shows "suspend_attempts k cfg K L G E s2 fd rfd n sz error st w = Some (Inl (0, st', w')) \<Longrightarrow> n = 0 \<longrightarrow> error \<noteq> 0 \<Longrightarrow>
    \<exists>w1 x w2. atomic_snapshot K fd w1 = ((0, x, 0), w2) \<and> w' = snd (free_snapshot K fd w2)"
proof (induction n arbitrary: sz error st w)
  case (Suc n)
  obtain r1 x1 w1 where 1: "set_image_size K fd sz w = ((r1, x1), w1)" by (metis surj_pair)
  obtain r2 x2 i w2 where 2: "atomic_snapshot K fd w1 = ((r2, x2, i), w2)" by (metis surj_pair)
  have ok: "r1 = 0" "r2 = 0" using Suc.prems(1) errs 1 2 by (fastforce split: if_splits)+
  show ?case
  proof (cases "i = 0")
    case True
    then show ?thesis using Suc.prems(1) 1 2 ok by auto
  next
    case False
    obtain e st1 w3 where 3: "write_image k cfg K L G E fd rfd (- 1) st w2 = Some (e, st1, w3)"
      using Suc.prems(1) 1 2 ok False by (auto simp: bind_eq_Some_conv)
    have "e \<noteq> 0"
      using Suc.prems(1) 1 2 3 ok False ram by (auto simp: image_written_def)
    obtain r4 w4 where 4: "free_swap_pages K fd w3 = (r4, w4)" by fastforce
    obtain r5 w5 where 5: "free_snapshot K fd w4 = (r5, w5)" by fastforce
    have "suspend_attempts k cfg K L G E s2 fd rfd n 0 (- e) st1 w5 = Some (Inl (0, st', w'))"
      using Suc.prems(1) 1 2 3 4 5 ok False \<open>e \<noteq> 0\<close> by (auto simp: Let_def split: if_splits)
    then show ?thesis by (rule Suc.IH) (use \<open>e \<noteq> 0\<close> in simp)
  qed
qed simp


text \<open>
  C28: A resume from the image of the second attempt is reported as a failure. When the first attempt
  to write an image fails for lack of swap, the error stays in the variable that the second snapshot
  captures; the resumed system then returns \<open>ENOSPC\<close> from \<open>suspend_system\<close>, though it has
  hibernated and resumed.
\<close>

theorem second_attempt_resume_reports_failure:
  assumes swap: "check_free_swap K fd w = (avail, w1)" "avail \<noteq> 0"
    and frozen: "freeze K fd w1 = ((0, x1), w2)" and meth: "ss_method st \<noteq> SHUTDOWN_METHOD_PLATFORM" "test_fd < 0"
    and first: "set_image_size K fd (min (pref_image_size cfg) avail) w2 = ((0, x2), w3)"
      "atomic_snapshot K fd w3 = ((0, x3, in_suspend), w4)" "in_suspend \<noteq> 0"
      "write_image k cfg K L G E fd rfd (- 1) st w4 = Some (- ENOSPC, st', w5)"
    and freed: "free_swap_pages K fd w5 = (r6, w6)" "free_snapshot K fd w6 = (r7, w7)"
    and second: "set_image_size K fd 0 w7 = ((0, x8), w8)" "atomic_snapshot K fd w8 = ((0, x9, 0), w9)"
  shows "suspend_system k cfg K L G E s2 fd rfd test_fd st w
    = Some (Inl (ENOSPC, st', snd (unfreeze K fd (snd (free_snapshot K fd w9)))))"
proof -
  have "suspend_attempts k cfg K L G E s2 fd rfd 2 (min (pref_image_size cfg) avail) 0 st w2
      = Some (Inl (ENOSPC, st', snd (free_snapshot K fd w9)))"
    using first freed second by (simp add: numeral_2_eq_2)
  moreover have "(if pref_image_size cfg < avail then pref_image_size cfg else avail) = min (pref_image_size cfg) avail"
    by (simp add: min_def)
  ultimately show ?thesis
    using swap frozen meth by (simp add: suspend_system_def suspend_frozen_def thaw_def)
qed

text \<open>
  C29: In test mode a failing \<open>write_image\<close> freezes the system for good: there is no signature to take
  back, \<open>reset_signature\<close> sleeps forever, and the processes are not thawed.
\<close>

theorem failed_test_never_returns:
  assumes swap: "check_free_swap K fd w = (avail, w1)" "avail \<noteq> 0"
    and frozen: "freeze K fd w1 = ((0, x1), w2)" and test: "0 \<le> test_fd"
      "write_image k cfg K L G E fd rfd test_fd st w2 = Some (e, st', w3)"
    and disk: "disk_device K rfd D" "sw_sig (disk_header k (resume_offset cfg) (d_byte D w3)) \<noteq> SWSUSP_SIG"
      "fst (k_lseek K rfd (header_shift k (resume_offset cfg)) w3) = header_shift k (resume_offset cfg)"
  shows "suspend_system k cfg K L G E s2 fd rfd test_fd st w = None"
proof -
  have "reset_signature k K (resume_offset cfg) rfd w3 = None"
  proof (cases "reset_signature k K (resume_offset cfg) rfd w3")
    case (Some r)
    then show ?thesis
      using reset_signature_cases [OF disk(1), of k "resume_offset cfg" w3] disk(2,3) by (cases r) auto
  qed
  then show ?thesis
    using swap frozen test by (simp add: suspend_system_def suspend_frozen_def suspend_test_def thaw_def)
qed

section \<open>A machine without free swap pages\<close>

text \<open>
  The kernel reports free swap but hands out no page; the first \<open>CREATE_IMAGE\<close> returns in the system
  that asks for it, the later ones in the resumed system; the disk is one of bytes.
\<close>

record full_world =
  fw_bytes :: "loff_t \<Rightarrow> byte"
  fw_pos :: loff_t
  fw_snapshots :: nat
  fw_frozen :: bool

definition full_kernel :: "full_world kernel" where
  "full_kernel =
     \<lparr>k_ioctl = (\<lambda>dev req w.
          if req = SNAPSHOT_AVAIL_SWAP_SIZE then (\<lparr>ret = 0, errno = 0, out = 100\<rparr>, w)
          else if req = SNAPSHOT_CREATE_IMAGE then
            (\<lparr>ret = 0, errno = 0, out = (if fw_snapshots w = 0 then 1 else 0)\<rparr>, w\<lparr>fw_snapshots := fw_snapshots w + 1\<rparr>)
          else if req = SNAPSHOT_ALLOC_SWAP_PAGE then (\<lparr>ret = - 1, errno = ENOSPC, out = 0\<rparr>, w)
          else if req = SNAPSHOT_FREEZE then (\<lparr>ret = 0, errno = 0, out = 0\<rparr>, w\<lparr>fw_frozen := True\<rparr>)
          else if req = SNAPSHOT_UNFREEZE then (\<lparr>ret = 0, errno = 0, out = 0\<rparr>, w\<lparr>fw_frozen := False\<rparr>)
          else (\<lparr>ret = 0, errno = 0, out = 0\<rparr>, w)),
      k_lseek = (\<lambda>fd off w. (off, w\<lparr>fw_pos := off\<rparr>)),
      k_read = (\<lambda>fd n w. ((int n, bytes_at (fw_bytes w) (fw_pos w) n), w)),
      k_write = (\<lambda>fd bs w. (int (length bs), w\<lparr>fw_bytes := overwrite (fw_bytes w) (fw_pos w) bs\<rparr>)),
      k_fsync = (\<lambda>fd w. w), k_close = (\<lambda>fd w. w), k_sync_file_range = (\<lambda>fd w. w),
      k_reboot = (\<lambda>cmd w. w)\<rparr>"

definition idle_libs :: "'w libs" where
  "idle_libs =
     \<lparr>lzo_work_size = 64, lzo_compress = (\<lambda>d. d), lzo_decompress = Some,
      gcry_encrypt = (\<lambda>p w. ((0, p), w)), gcry_decrypt = (\<lambda>p w. ((0, p), w)),
      key_pressed = (\<lambda>w. (0, w)), prepare_abort = (\<lambda>w. (1, w)), restore_abort = (\<lambda>w. w),
      mem_byte = (\<lambda>a. 0)\<rparr>"

definition idle_env :: "'w env" where
  "idle_env = \<lparr>e_urandom = (\<lambda>w. (None, w)), e_ask = (\<lambda>w. ([], w)), e_password = [], e_pass_addr = 0,
     e_stack_ctx = zero_ctx, e_lzo_init = (\<lambda>w. (True, w)), e_elapsed = (\<lambda>w. replicate 8 0)\<rparr>"

definition full_start :: "nat \<Rightarrow> full_world" where
  "full_start n = \<lparr>fw_bytes = (\<lambda>x. 0), fw_pos = 0, fw_snapshots = n, fw_frozen = False\<rparr>"

lemmas full_simps = check_free_swap_def ioctl_fallback_def freeze_def unfreeze_def set_image_size_def atomic_snapshot_def
  free_swap_pages_def free_snapshot_def get_swap_page_def full_kernel_def full_start_def

lemma full_write_image:
  "write_image k cfg full_kernel L G E fd rfd tfd st w = Some (- ENOSPC, st, w)"
  by (simp add: write_image_def get_swap_page_def ioctl_fallback_def full_kernel_def)

abbreviation full_suspend :: "fd \<Rightarrow> nat \<Rightarrow> full_world suspend_result" where
  "full_suspend test_fd n \<equiv> suspend_system 12 plain_cfg full_kernel idle_libs toy_gcrypt idle_env id 3 4 test_fd disk_state (full_start n)"

lemma second_attempt_resume_reports_failure_witness:
  "full_suspend (- 1) 0 = Some (Inl (ENOSPC, disk_state, (full_start 0)\<lparr>fw_snapshots := 2\<rparr>))"
proof -
  let ?w = "(full_start 0)\<lparr>fw_frozen := True\<rparr>"
  have "full_suspend (- 1) 0
    = Some (Inl (ENOSPC, disk_state, snd (unfreeze full_kernel 3 (snd (free_snapshot full_kernel 3 (?w\<lparr>fw_snapshots := 2\<rparr>))))))"
    by (rule second_attempt_resume_reports_failure [where avail = 100 and ?w1.0 = "full_start 0" and ?w2.0 = ?w
          and ?w3.0 = ?w and ?w4.0 = "?w\<lparr>fw_snapshots := 1\<rparr>" and ?w5.0 = "?w\<lparr>fw_snapshots := 1\<rparr>"
          and ?w6.0 = "?w\<lparr>fw_snapshots := 1\<rparr>" and ?w7.0 = "?w\<lparr>fw_snapshots := 1\<rparr>"
          and ?w8.0 = "?w\<lparr>fw_snapshots := 1\<rparr>" and in_suspend = 1 and ?r6.0 = 0 and ?r7.0 = 0
          and ?x1.0 = 0 and ?x2.0 = 0 and ?x3.0 = 0 and ?x8.0 = 0 and ?x9.0 = 0])
      (simp_all add: full_simps full_write_image [unfolded full_kernel_def] disk_state_def)
  then show ?thesis by (simp add: full_simps)
qed

lemma suspend_system_thaws_witness:
  "\<exists>st' w'. full_suspend (- 1) 1 = Some (Inl (0, st', w'))
    \<and> ((0 = ENOSPC \<and> check_free_swap full_kernel 3 (full_start 1) = (0, w')) \<or> (\<exists>w1. w' = snd (unfreeze full_kernel 3 w1)))"
proof -
  obtain st' w' where r: "full_suspend (- 1) 1 = Some (Inl (0, st', w'))"
    by (simp add: suspend_system_def suspend_frozen_def thaw_def full_simps disk_state_def numeral_2_eq_2)
  from suspend_system_thaws [OF this] r show ?thesis by blast
qed


lemma failed_test_never_returns_witness: "full_suspend 5 0 = None"
proof (rule failed_test_never_returns [where D = "\<lparr>d_byte = fw_bytes, d_pos = fw_pos\<rparr>" and avail = 100
      and ?w1.0 = "full_start 0" and ?w2.0 = "(full_start 0)\<lparr>fw_frozen := True\<rparr>" and e = "- ENOSPC"
      and ?w3.0 = "(full_start 0)\<lparr>fw_frozen := True\<rparr>" and st' = disk_state and ?x1.0 = 0])
  show "disk_device full_kernel 4 \<lparr>d_byte = fw_bytes, d_pos = fw_pos\<rparr>"
    by (auto simp: disk_device_def full_kernel_def)
  show "sw_sig (disk_header 12 (resume_offset plain_cfg)
      (d_byte \<lparr>d_byte = fw_bytes, d_pos = fw_pos\<rparr> ((full_start 0)\<lparr>fw_frozen := True\<rparr>))) \<noteq> SWSUSP_SIG"
    by (simp add: sig_bytes full_start_def bytes_at_def SWSUSP_SIG_def upt_conv_Cons)
qed (simp_all add: full_simps full_write_image [unfolded full_kernel_def])

end
