(* ===== verification/Pool_Room.thy ===== *)
theory Pool_Room
  imports Swap_Writer
begin

text \<open>
  Enough memory: how much of the pool of \<open>memalloc.c\<close> a sequence of \<open>getmem\<close> calls takes, and what the
  buffers of \<open>init_swap_writer\<close> need.
\<close>

section \<open>Room in the pool\<close>

text \<open>So many slots and, from the next page boundary on, so many bytes are left.\<close>

definition has_room :: "nat \<Rightarrow> memalloc \<Rightarrow> nat \<Rightarrow> nat \<Rightarrow> bool" where
  "has_room k m ns bytes \<longleftrightarrow>
     mem_wf k m \<and> cur_slot m + ns \<le> unat (nr_slots m) \<and> roundup (2 ^ k) (top m) + bytes \<le> unat (pool_size m)"

lemma roundup_add:
  assumes "x \<le> roundup b y + z" and "0 < b"
  shows "roundup b x \<le> roundup b y + roundup b z"
  using assms roundup_ge [of b z] by (intro roundup_least) auto

lemma getmem_has_room:
  assumes room: "has_room k m (Suc ns) (roundup (2 ^ k) (unat n) + bytes)" and n: "n \<noteq> 0"
  obtains a m' where "getmem n m = Some (Some a, m')" and "has_room k m' ns bytes"
proof -
  have wf: "mem_wf k m" and s: "cur_slot m < unat (nr_slots m)" using room by (auto simp: has_room_def)
  obtain d off where d: "d \<le> k" and off: "off = roundup (2 ^ d) (top m)"
    and succ: "\<not> (unat (nr_slots m) \<le> cur_slot m \<or> unat (pool_size m) < off + unat n) \<longrightarrow>
     (\<exists>addr. unat addr = unat (mem_pool m) + off \<and>
       getmem n m = Some (Some addr,
         m\<lparr>slots := (slots m)[cur_slot m := \<lparr>slot_addr = addr, slot_size = n\<rparr>],
           cur_slot := Suc (cur_slot m)\<rparr>))"
    by (rule getmem_cases [OF wf, of n])
  have o1: "off \<le> roundup (2 ^ k) (top m)" unfolding off by (rule roundup_pow_mono [OF d])
  have n1: "unat n \<le> roundup (2 ^ k) (unat n)" by (rule roundup_ge) simp
  obtain a where a: "unat a = unat (mem_pool m) + off"
    and g: "getmem n m = Some (Some a, m\<lparr>slots := (slots m)[cur_slot m := \<lparr>slot_addr = a, slot_size = n\<rparr>],
           cur_slot := Suc (cur_slot m)\<rparr>)" (is "_ = Some (Some a, ?m)")
    using succ room s o1 n1 by (auto simp: has_room_def)
  have "mem_wf k ?m" using getmem_spec [OF wf n] g by auto
  moreover have "top ?m = off + unat n"
    using live_push [OF mem_wf_pool_wf [OF wf] s] a by (simp add: top_def slot_end_def)
  then have "roundup (2 ^ k) (top ?m) \<le> roundup (2 ^ k) (top m) + roundup (2 ^ k) (unat n)"
    using o1 by (intro roundup_add) auto
  ultimately have "has_room k ?m ns bytes" using room by (simp add: has_room_def)
  with g show thesis by (rule that)
qed

lemma has_room_mono: "has_room k m ns' b' \<Longrightarrow> ns \<le> ns' \<Longrightarrow> b \<le> b' \<Longrightarrow> has_room k m ns b"
  by (auto simp: has_room_def)

lemma init_memalloc_has_room:
  assumes "page_geometry k m" and "unat aux \<le> 2 ^ 20" and "unat pool \<le> 2 ^ 30"
    and "malloc (round_up_page_size m aux + round_up_page_size m pool + ucast (page_size m)) = Some (mem, blk)"
    and "unat mem + 2 ^ 32 < 2 ^ 64" and "roundup (2 ^ k) (unat aux) div 16 \<le> length blk"
  obtains m' where "init_memalloc malloc aux pool m = (0, m')"
    and "has_room k m' (roundup (2 ^ k) (unat aux) div 16) (roundup (2 ^ k) (unat pool))"
proof -
  obtain m' where m': "init_memalloc malloc aux pool m = (0, m')" "mem_wf k m'" "cur_slot m' = 0"
    "unat (nr_slots m') = roundup (2 ^ k) (unat aux) div 16" "unat (pool_size m') = roundup (2 ^ k) (unat pool)"
    by (rule init_memalloc_wf [where malloc = malloc, OF assms])
  have "top m' = 0" using m'(3) by (simp add: top_def live_def)
  then have "has_room k m' (roundup (2 ^ k) (unat aux) div 16) (roundup (2 ^ k) (unat pool))"
    using m' by (simp add: has_room_def roundup_def)
  with m'(1) show thesis by (rule that)
qed

text \<open>The space the buffers of \<open>init_swap_writer\<close> need, each on pages of its own.\<close>

definition writer_room :: "nat \<Rightarrow> image_opts \<Rightarrow> nat \<Rightarrow> nat" where
  "writer_room k cfg lzo =
     page_bytes k + buffer_bytes k + (if do_encrypt cfg then roundup (2 ^ k) (encrypt_buf_size cfg) else 0)
     + (if do_compress cfg then roundup (2 ^ k) lzo else 0)
     + (if 0 < write_buf_size cfg then roundup (2 ^ k) (write_buf_size cfg)
        else if use_threads cfg then buffer_bytes k * WRITE_BUFFERS else 0)"

lemma of_nat_size: "0 < n \<Longrightarrow> n < 2 ^ 64 \<Longrightarrow> unat (of_nat n :: u64) = n \<and> (of_nat n :: u64) \<noteq> 0"
  by (simp add: unsigned_of_nat take_bit_nat_eq_self flip: unat_eq_0)

lemma getmem_size:
  assumes "has_room k m (Suc ns) (roundup (2 ^ k) n + bytes)" and "0 < n" and "n < 2 ^ 64"
  obtains a m' where "getmem (of_nat n) m = Some (Some a, m')" and "has_room k m' ns bytes"
  using getmem_has_room [of k m ns "of_nat n" bytes] assms of_nat_size [OF assms(2,3)] by auto

lemma alloc_swap_writer_fits:
  assumes room: "has_room k m (Suc (Suc (Suc (Suc (Suc 0))))) (writer_room k cfg (lzo_work_size L))" and k: "k \<le> 20"
    and small: "encrypt_buf_size cfg < 2 ^ 64" "write_buf_size cfg < 2 ^ 64" "lzo_work_size L < 2 ^ 64"
    and pos: "do_encrypt cfg \<Longrightarrow> 0 < encrypt_buf_size cfg" "do_compress cfg \<Longrightarrow> 0 < lzo_work_size L"
  shows "\<exists>h' m'. alloc_swap_writer k cfg L h m = Some (h', m') \<and> w_extents_mem h' \<noteq> None \<and> w_buffer_mem h' \<noteq> None \<and>
    (do_encrypt cfg \<longrightarrow> w_encrypt_mem h' \<noteq> None) \<and> (do_compress cfg \<longrightarrow> w_lzo_work_mem h' \<noteq> None) \<and>
    w_write_buffer_mem h' \<noteq> None"
proof -
  have p: "page_bytes k < 2 ^ 64" "buffer_bytes k < 2 ^ 64" "buffer_bytes k * WRITE_BUFFERS < 2 ^ 64"
    "0 < buffer_bytes k" "0 < buffer_bytes k * WRITE_BUFFERS"
  proof -
    have "page_bytes k \<le> 2 ^ 20" using k by (intro power_increasing) auto
    then show "page_bytes k < 2 ^ 64" "buffer_bytes k < 2 ^ 64" "buffer_bytes k * WRITE_BUFFERS < 2 ^ 64"
      "0 < buffer_bytes k" "0 < buffer_bytes k * WRITE_BUFFERS"
      by (simp_all add: buffer_bytes_def WRITE_BUFFERS_def)
  qed
  have r: "roundup (2 ^ k) (page_bytes k) = page_bytes k" "roundup (2 ^ k) (buffer_bytes k) = buffer_bytes k"
    "roundup (2 ^ k) (buffer_bytes k * WRITE_BUFFERS) = buffer_bytes k * WRITE_BUFFERS"
    by (simp_all add: roundup_dvd buffer_bytes_def)
  let ?w = "if 0 < write_buf_size cfg then roundup (2 ^ k) (write_buf_size cfg)
    else if use_threads cfg then buffer_bytes k * WRITE_BUFFERS else 0"
  let ?l = "if do_compress cfg then roundup (2 ^ k) (lzo_work_size L) else 0"
  let ?e = "if do_encrypt cfg then roundup (2 ^ k) (encrypt_buf_size cfg) else 0"
  obtain a1 m1 where 1: "getmem (of_nat (page_bytes k)) m = Some (Some a1, m1)" "has_room k m1 (Suc (Suc (Suc (Suc 0)))) (buffer_bytes k + (?e + (?l + ?w)))"
    by (rule getmem_size [of k m "Suc (Suc (Suc (Suc 0)))" "page_bytes k" "buffer_bytes k + (?e + (?l + ?w))"])
       (use room p in \<open>simp_all add: writer_room_def r add.assoc\<close>)
  obtain a2 m2 where 2: "getmem (of_nat (buffer_bytes k)) m1 = Some (Some a2, m2)" "has_room k m2 (Suc (Suc (Suc 0))) (?e + (?l + ?w))"
    by (rule getmem_size [of k m1 "Suc (Suc (Suc 0))" "buffer_bytes k" "?e + (?l + ?w)"]) (use 1 p in \<open>simp_all add: r\<close>)
  obtain a3 m3 where 3: "(if do_encrypt cfg then getmem (of_nat (encrypt_buf_size cfg)) m2 else Some (None, m2)) = Some (a3, m3)"
    "do_encrypt cfg \<longrightarrow> a3 \<noteq> None" "has_room k m3 (Suc (Suc 0)) (?l + ?w)"
  proof (cases "do_encrypt cfg")
    case True
    obtain a m' where "getmem (of_nat (encrypt_buf_size cfg)) m2 = Some (Some a, m')" "has_room k m' (Suc (Suc 0)) (?l + ?w)"
      by (rule getmem_size [of k m2 "Suc (Suc 0)" "encrypt_buf_size cfg" "?l + ?w"]) (use 2 True small pos in simp_all)
    then show thesis using that True by auto
  qed (use that 2 has_room_mono in auto)
  obtain a4 m4 where 4: "(if do_compress cfg then getmem (of_nat (lzo_work_size L)) m3 else Some (w_lzo_work_mem h, m3)) = Some (a4, m4)"
    "do_compress cfg \<longrightarrow> a4 \<noteq> None" "has_room k m4 (Suc 0) ?w"
  proof (cases "do_compress cfg")
    case True
    obtain a m' where "getmem (of_nat (lzo_work_size L)) m3 = Some (Some a, m')" "has_room k m' (Suc 0) ?w"
      by (rule getmem_size [of k m3 "Suc 0" "lzo_work_size L" ?w]) (use 3 True small pos in simp_all)
    then show thesis using that True by auto
  qed (use that 3 has_room_mono in auto)
  have "\<exists>a5 m5. (if 0 < write_buf_size cfg then getmem (of_nat (write_buf_size cfg)) m4
                  else if use_threads cfg then getmem (of_nat (buffer_bytes k * WRITE_BUFFERS)) m4
                  else Some (Some a2, m4)) = Some (Some a5, m5)"
  proof -
    consider "0 < write_buf_size cfg" | "write_buf_size cfg = 0" "use_threads cfg" | "write_buf_size cfg = 0" "\<not> use_threads cfg" by blast
    then show ?thesis
    proof cases
      case 1
      obtain a m' where "getmem (of_nat (write_buf_size cfg)) m4 = Some (Some a, m')"
        by (rule getmem_size [of k m4 0 "write_buf_size cfg" 0]) (use 1 4(3) small in simp_all)
      then show ?thesis using 1 by simp
    next
      case 2
      obtain a m' where "getmem (of_nat (buffer_bytes k * WRITE_BUFFERS)) m4 = Some (Some a, m')"
        by (rule getmem_size [of k m4 0 "buffer_bytes k * WRITE_BUFFERS" 0]) (use 2 4(3) p r in simp_all)
      then show ?thesis using 2 by (simp del: of_nat_mult)
    qed simp
  qed
  then obtain a5 m5 where 5: "(if 0 < write_buf_size cfg then getmem (of_nat (write_buf_size cfg)) m4
                  else if use_threads cfg then getmem (of_nat (buffer_bytes k * WRITE_BUFFERS)) m4
                  else Some (Some a2, m4)) = Some (Some a5, m5)" by blast
  show ?thesis using 1(1) 2(1) 3(1,2) 4(1,2) 5 by (simp add: alloc_swap_writer_def del: of_nat_mult)
qed

end
