(* ===== verification/Suspend_Main.thy ===== *)
theory Suspend_Main
  imports S2ram Console Suspend_System Pool_Room
begin

text \<open>
  \<open>get_config\<close> and \<open>main\<close> of \<open>suspend.c\<close>: options and configuration file, the settings derived from
  them, the size of the memory pool, the devices, the console, and everything that is put back when
  \<open>suspend_system\<close> returns. Messages and the progress bar are left out.
\<close>

section \<open>Options\<close>

definition yes :: "byte \<Rightarrow> bool" where "yes c \<longleftrightarrow> c = 121 \<or> c = 89"

definition cfg_chr :: "config \<Rightarrow> cvar \<Rightarrow> byte" where
  "cfg_chr env v = (case env v of Some (Chr c) \<Rightarrow> c | _ \<Rightarrow> 0)"

definition cfg_num :: "config \<Rightarrow> cvar \<Rightarrow> int" where
  "cfg_num env v = (case env v of Some (Num n) \<Rightarrow> n | _ \<Rightarrow> 0)"

definition cfg_str :: "config \<Rightarrow> cvar \<Rightarrow> byte list" where
  "cfg_str env v = (case env v of Some (Str s) \<Rightarrow> s | _ \<Rightarrow> [])"

text \<open>The values the variables start with; those not listed are zero or empty.\<close>

definition suspend_defaults :: "byte list \<Rightarrow> config" where
  "suspend_defaults key_file =
     [Snapshot_dev_name \<mapsto> Str (bytes_of ''/dev/snapshot''), Pref_image_size \<mapsto> Num (500 * 1024 * 1024),
      Suspend_loglevel \<mapsto> Num 1, Key_name \<mapsto> Str key_file]"

definition atoll :: "byte list \<Rightarrow> int" where
  "atoll s = (case scan_number s of None \<Rightarrow> 0 | Some x \<Rightarrow> int_of_64 x)"

text \<open>
  The options as \<open>getopt_long\<close> returns them, with their arguments. The first pass looks for \<open>-h\<close>,
  \<open>-V\<close> (\<open>Inl\<close> is the exit status) and the name of the configuration file.
\<close>

fun config_name :: "(int \<times> byte list) list \<Rightarrow> byte list \<times> bool \<Rightarrow> int + byte list \<times> bool" where
  "config_name [] c = Inr c"
| "config_name ((opt, optarg) # opts) c =
     (if opt = 104 \<or> opt = 86 then Inl 0
      else config_name opts (if opt = 102 then (optarg, True) else c))"

fun suspend_options ::
  "(int \<times> byte list) list \<Rightarrow> config \<Rightarrow> s2ram_state \<Rightarrow> int \<times> config \<times> s2ram_state" where
  "suspend_options [] env q = (0, env, q)"
| "suspend_options ((opt, optarg) # opts) env q =
     (if opt = 102 then suspend_options opts env q
      else if opt = 115 then suspend_options opts (env(Pref_image_size \<mapsto> Num (atoll optarg))) q
      else if opt = 111 then suspend_options opts (env(Resume_offset \<mapsto> Num (atoll optarg))) q
      else if opt = 114 then suspend_options opts (env(Resume_dev_name \<mapsto> Str (take (MAX_STR_LEN - 1) optarg))) q
      else if opt = 80 then
        (let (error, env) = parse_line suspend_parameters optarg env
         in if error \<noteq> 0 then (error, env, q) else suspend_options opts env q)
      else suspend_options opts env (s2ram_add_flag opt optarg q))"

text \<open>What the file system has under a name: nothing, or what \<open>fopen\<close> gives.\<close>

type_synonym files = "byte list \<Rightarrow> (int + byte list) option"

definition read_config ::
  "config_par list \<Rightarrow> files \<Rightarrow> byte list \<Rightarrow> bool \<Rightarrow> config \<Rightarrow> int \<times> config" where
  "read_config parv files name required env =
     (case files name of
        None \<Rightarrow> (if required then - ENOENT else 0, env)
      | Some f \<Rightarrow> parse f parv env)"

text \<open>
  The result of \<open>get_config\<close>: \<open>Inl\<close> an exit status, \<open>Inr\<close> its return value; the configuration, \<open>s2ram\<close>,
  \<open>s2ram_kms\<close> and the quirks. \<open>argv\<close> is the first argument that is no option.
\<close>

definition get_config ::
  "'w posix \<Rightarrow> 'w machine \<Rightarrow> machine_entry list \<Rightarrow> files \<Rightarrow> byte list \<Rightarrow> (int \<times> byte list) list \<Rightarrow> byte list option \<Rightarrow>
   config \<Rightarrow> s2ram_state \<Rightarrow> 'w \<Rightarrow> ((int + int) \<times> config \<times> bool \<times> bool \<times> s2ram_state \<times> 'w) option" where
  "get_config P M W files CONFIG_FILE opts argv env q w =
     (case config_name opts (CONFIG_FILE, False) of
        Inl status \<Rightarrow> Some (Inl status, env, False, False, q, w)
      | Inr (name, required) \<Rightarrow>
          (let (error, env) = read_config suspend_parameters files name required env
           in if error \<noteq> 0 then Some (Inr error, env, False, False, q, w)
           else let (error, env, q) = suspend_options opts env q
           in if error \<noteq> 0 then Some (Inr error, env, False, False, q, w)
           else let env = (case argv of None \<Rightarrow> env | Some a \<Rightarrow> env(Resume_dev_name \<mapsto> Str (take (MAX_STR_LEN - 1) a)));
                    (kms, w) = s2ram_check_kms M w
           in if kms = 0 then Some (Inr 0, env, False, True, q, w)
           else do {
             (r, q, w) \<leftarrow> s2ram_is_supported P M W q w;
             if r = EINVAL then Some (Inr (- EINVAL), env, False, False, q, w)
             else Some (Inr 0, env, r = 0, False, q, w)
           }))"

section \<open>Settings\<close>

text \<open>\<open>if (early_writeout != 'n' && early_writeout != 'N') early_writeout = 1;\<close>\<close>

definition early_writeout_value :: "byte \<Rightarrow> byte" where
  "early_writeout_value c = (if c \<noteq> 110 \<and> c \<noteq> 78 then 1 else c)"

definition method_of :: "byte list \<Rightarrow> shutdown" where
  "method_of s =
     (if s = bytes_of ''shutdown'' then SHUTDOWN_METHOD_SHUTDOWN
      else if s = bytes_of ''reboot'' then SHUTDOWN_METHOD_REBOOT
      else SHUTDOWN_METHOD_PLATFORM)"

text \<open>\<open>compress_buf_size\<close> is an \<open>unsigned int\<close>, \<open>round_up_page_size\<close> works on \<open>size_t\<close>.\<close>

definition compress_size :: "memalloc \<Rightarrow> u32" where
  "compress_size m =
     ucast (ucast (buffer_size m) + round_up_page_size m (ucast (drop_bit 4 (buffer_size m) + 67) + 8) :: u64)"

definition ENCRYPT_BUF_PAGES :: u32 where "ENCRYPT_BUF_PAGES = 256"

text \<open>\<open>main\<close> up to the allocation of memory: what LZO and libgcrypt say decides whether they are used.\<close>

definition suspend_settings ::
  "'w env \<Rightarrow> ('w, 'm, 's) gcrypt \<Rightarrow> memalloc \<Rightarrow> config \<Rightarrow> 'w \<Rightarrow> image_opts \<times> 'w" where
  "suspend_settings E G m env w =
     (let (compress, w) = (if yes (cfg_chr env Do_compress) then e_lzo_init E w else (False, w));
          (r, w) = (if yes (cfg_chr env Do_encrypt) then cipher_open G w else (1, w));
          encrypt = (r = 0)
      in (\<lparr>do_compress = compress, do_encrypt = encrypt, use_threads = yes (cfg_chr env Use_threads),
           compute_checksum = yes (cfg_chr env Compute_checksum), verify_image = yes (cfg_chr env Verify_image),
           early_writeout = (early_writeout_value (cfg_chr env Early_writeout) \<noteq> 0),
           compress_buf_size = (if compress then unat (compress_size m) else 0),
           encrypt_buf_size = (if encrypt then unat (ENCRYPT_BUF_PAGES * page_size m) else 0)\<rparr>, w))"

text \<open>The size of the pool, an \<open>unsigned int\<close>.\<close>

definition pool_bytes :: "memalloc \<Rightarrow> image_opts \<Rightarrow> nat \<Rightarrow> u32" where
  "pool_bytes m io lzo =
     (let ms = 2 * page_size m + buffer_size m;
          ms = (if do_compress io
                then ms + ucast (ucast (compress_size m) + round_up_page_size m (of_nat lzo) :: u64) else ms);
          ms = (if do_encrypt io then ms + of_nat (encrypt_buf_size io) else ms)
      in if use_threads io then
           (let ms = ms + (if 0 < compress_buf_size io then (of_nat WRITE_BUFFERS - 1) * of_nat (compress_buf_size io)
                           else of_nat WRITE_BUFFERS * buffer_size m)
            in if \<not> do_encrypt io then ms + of_nat WRITE_BUFFERS * buffer_size m else ms)
         else ms)"

section \<open>The suspended part\<close>

text \<open>
  What else \<open>main\<close> uses: files, \<open>malloc\<close>, the page size, the key file and \<open>/dev/urandom\<close> for
  \<open>generate_key\<close>, the passphrase prompt (\<open>splash.read_password(password, 1)\<close>) and \<open>errno\<close>.
\<close>

record 'w main_env =
  mn_files :: files
  mn_config_file :: "byte list"
  mn_malloc :: "u64 \<Rightarrow> (u64 \<times> mem_slot list) option"
  mn_key_file :: "byte list \<Rightarrow> RSA_data option"
  mn_urandom :: "('w \<Rightarrow> byte list \<times> 'w) option"
  mn_ask :: "'w \<Rightarrow> byte list \<times> 'w"
  mn_errno :: "'w \<Rightarrow> int"

text \<open>Log level and swappiness around \<open>suspend_system\<close>.\<close>

definition quiet_suspend ::
  "'w posix \<Rightarrow> config \<Rightarrow> ('w \<Rightarrow> 'w suspend_result) \<Rightarrow> 'w \<Rightarrow> 'w suspend_result" where
  "quiet_suspend P env suspend w =
     (let ((printk, mounted), w) = open_printk P w;
          (orig_loglevel, w) = get_kernel_console_loglevel P printk w;
          w = set_kernel_console_loglevel P printk (cfg_num env Suspend_loglevel) w;
          (swappy, w) = open_swappiness P w;
          (orig_swappiness, w) = get_swappiness P swappy w;
          w = set_swappiness P swappy 0 w;
          w = sys_setrlimits P (sys_sync P w)
      in case suspend w of
           None \<Rightarrow> None
         | Some (Inr w) \<Rightarrow> Some (Inr w)
         | Some (Inl (rv, st, w)) \<Rightarrow>
             (let w = (if 0 \<le> orig_loglevel then set_kernel_console_loglevel P printk orig_loglevel w else w);
                  w = close_printk P printk mounted w;
                  w = (if 0 \<le> orig_swappiness then set_swappiness P swappy orig_swappiness w else w)
              in Some (Inl (rv, st, close_swappiness P swappy w))))"

text \<open>The quirks before suspending to RAM, the passphrase, \<open>suspend_system\<close>.\<close>

definition prepared_suspend ::
  "nat \<Rightarrow> suspend_cfg \<Rightarrow> 'w posix \<Rightarrow> 'w machine \<Rightarrow> 'w kernel \<Rightarrow> 'w libs \<Rightarrow> ('w, 'm, 's) gcrypt \<Rightarrow> 'w env \<Rightarrow> 'w main_env \<Rightarrow>
   config \<Rightarrow> fd \<Rightarrow> fd \<Rightarrow> fd \<Rightarrow> s2ram_state \<Rightarrow> suspend_state \<Rightarrow> 'w \<Rightarrow> 'w suspend_result" where
  "prepared_suspend k cfg P M K L G E N env snapshot_fd resume_fd test_fd q st w =
     (let (ram, q, w) = (if s2ram cfg then (let (r, q, w) = s2ram_hacks P M q w in (r = 0, q, w)) else (False, q, w));
          (pw, w) = (if do_encrypt (img cfg) \<and> \<not> use_RSA cfg then mn_ask N w else (e_password E, w))
      in quiet_suspend P env
           (suspend_system k (cfg\<lparr>s2ram := ram\<rparr>) K L G (E\<lparr>e_password := pw\<rparr>) (s2ram_resume M q)
              snapshot_fd resume_fd test_fd st) w)"

text \<open>With the console, from \<open>prepare_console\<close> to the label \<open>Close_snapshot_fd\<close>.\<close>

definition suspend_session ::
  "nat \<Rightarrow> suspend_cfg \<Rightarrow> 'w posix \<Rightarrow> 'w machine \<Rightarrow> 'w kernel \<Rightarrow> 'w libs \<Rightarrow> ('w, 'm, 's) gcrypt \<Rightarrow> 'w env \<Rightarrow> 'w main_env \<Rightarrow>
   config \<Rightarrow> fd \<Rightarrow> fd \<Rightarrow> fd \<Rightarrow> s2ram_state \<Rightarrow> suspend_state \<Rightarrow> vt_lock \<Rightarrow> 'w \<Rightarrow> 'w suspend_result" where
  "suspend_session k cfg P M K L G E N env snapshot_fd resume_fd test_fd q st l w =
     (let ((vt_fd, c), w) = prepare_console P \<lparr>orig_vc = - 1, new_vc = - 1, set_kmsg_redirect = False\<rparr> w
      in if vt_fd < 0 \<and> vt_fd \<noteq> - ENOTTY then Some (Inl (mn_errno N w, st, w))
         else let ((locked, l), w) = (if 0 \<le> vt_fd then lock_vt P l w else ((0, l), w));
                  restore = (\<lambda>w. if 0 \<le> vt_fd then restore_console P vt_fd c w else w)
         in if locked < 0 then Some (Inl (mn_errno N w, st, restore w))
         else case prepared_suspend k cfg P M K L G E N env snapshot_fd resume_fd test_fd q st w of
                None \<Rightarrow> None
              | Some (Inr w) \<Rightarrow> Some (Inr w)
              | Some (Inl (rv, st, w)) \<Rightarrow>
                  Some (Inl (rv, st, restore (if 0 \<le> vt_fd then unlock_vt P l w else w))))"

section \<open>The devices\<close>

definition name_of :: "byte list \<Rightarrow> string" where
  "name_of s = map (\<lambda>b. char_of (unat b)) (c_string s)"

definition chroot_path :: string where "chroot_path = ''/dev/shm/root''"

text \<open>From the \<open>stat\<close> of the snapshot device to the label \<open>Close_resume_fd\<close>.\<close>

definition with_snapshot ::
  "nat \<Rightarrow> suspend_cfg \<Rightarrow> 'w posix \<Rightarrow> 'w machine \<Rightarrow> 'w kernel \<Rightarrow> 'w libs \<Rightarrow> ('w, 'm, 's) gcrypt \<Rightarrow> 'w env \<Rightarrow> 'w main_env \<Rightarrow>
   config \<Rightarrow> int \<Rightarrow> fd \<Rightarrow> fd \<Rightarrow> s2ram_state \<Rightarrow> suspend_state \<Rightarrow> vt_lock \<Rightarrow> 'w \<Rightarrow> 'w suspend_result" where
  "with_snapshot k cfg P M K L G E N env resume_dev resume_fd test_fd q st l w =
     (let (s, w) = sys_stat P (name_of (cfg_str env Snapshot_dev_name)) w
      in if st_ret s \<noteq> 0 then Some (Inl (ENODEV, st, w))
         else if st_type s \<noteq> Char_dev then Some (Inl (EINVAL, st, w))
         else let ((snapshot_fd, e), w) = sys_open P (name_of (cfg_str env Snapshot_dev_name)) O_RDONLY w
         in if snapshot_fd < 0 then Some (Inl (e, st, w))
         else let (r, w) = set_swap_file K snapshot_fd resume_dev (resume_offset cfg) w
         in map_option (map_sum (\<lambda>(rv, st, w). (rv, st, sys_close P snapshot_fd w)) id)
              (if r \<noteq> 0 then Some (Inl (mn_errno N w, st, w))
               else suspend_session k cfg P M K L G E N env snapshot_fd resume_fd test_fd q st l w))"

text \<open>From the \<open>stat\<close> of the resume device to the label \<open>Umount\<close>. The device is opened through a
  node of its own, so that nothing on another file system is needed later.\<close>

definition with_devices ::
  "nat \<Rightarrow> suspend_cfg \<Rightarrow> 'w posix \<Rightarrow> 'w machine \<Rightarrow> 'w kernel \<Rightarrow> 'w libs \<Rightarrow> ('w, 'm, 's) gcrypt \<Rightarrow> 'w env \<Rightarrow> 'w main_env \<Rightarrow>
   config \<Rightarrow> fd \<Rightarrow> s2ram_state \<Rightarrow> suspend_state \<Rightarrow> vt_lock \<Rightarrow> 'w \<Rightarrow> 'w suspend_result" where
  "with_devices k cfg P M K L G E N env test_fd q st l w =
     (let (s, w) = sys_stat P (name_of (cfg_str env Resume_dev_name)) w
      in if st_ret s \<noteq> 0 then Some (Inl (ENODEV, st, w))
         else if st_type s \<noteq> Block_dev then Some (Inl (EINVAL, st, w))
         else let ((r, e), w) = sys_chdir P chroot_path w
         in if r \<noteq> 0 then Some (Inl (e, st, w))
         else let ((r, e), w) = sys_mknod P ''resume'' (st_rdev s) w
         in if r \<noteq> 0 then Some (Inl (e, st, w))
         else let ((resume_fd, e), w) = sys_open P ''resume'' O_RDWR w
         in if resume_fd < 0 then Some (Inl (e, st, w))
         else map_option (map_sum (\<lambda>(rv, st, w). (rv, st, sys_close P resume_fd w)) id)
                (with_snapshot k cfg P M K L G E N env (st_rdev s) resume_fd test_fd q st l w))"

text \<open>The label \<open>Umount\<close>.\<close>

definition leave_chroot :: "'w posix \<Rightarrow> int \<Rightarrow> 'w \<Rightarrow> int \<times> 'w" where
  "leave_chroot P rv w =
     (let ((r, e), w) = sys_chdir P ''/'' w in if r \<noteq> 0 then (e, w) else (rv, snd (sys_umount P chroot_path w)))"

text \<open>The directory for the mount is created if it is not there; \<open>lstat\<close> is tried at most twice.\<close>

definition check_chroot :: "'w posix \<Rightarrow> 'w \<Rightarrow> int \<times> 'w" where
  "check_chroot P w =
     (let dir = (\<lambda>s. if st_type s = Directory then 0 else EINVAL);
          (s, w) = sys_stat P chroot_path w
      in if st_ret s \<noteq> - 1 then (dir s, w)
         else let ((r, e), w) = sys_mkdir P chroot_path w
         in if r = - 1 then (e, w)
         else let (s, w) = sys_stat P chroot_path w
         in (if st_ret s = - 1 then st_errno s else dir s, w))"

definition MIN_TEST_IMAGE_PAGES :: int where "MIN_TEST_IMAGE_PAGES = 1024"

text \<open>The test image: the error, the descriptor, the size.\<close>

definition open_test_file :: "'w posix \<Rightarrow> memalloc \<Rightarrow> config \<Rightarrow> 'w \<Rightarrow> (int \<times> fd \<times> loff_t) \<times> 'w" where
  "open_test_file P m env w =
     (let name = cfg_str env Test_file_name
      in if name = [] then ((0, - 1, 0), w)
         else let (s, w) = sys_stat P (name_of name) w
         in if st_ret s \<noteq> 0 then ((st_errno s, - 1, 0), w)
         else let sz = sint (round_down_page_size m (word_of_int (st_size s)))
         in if sz < MIN_TEST_IMAGE_PAGES * uint (page_size m) then ((ENODATA, - 1, sz), w)
         else let ((fd, e), w) = sys_open P (name_of name) O_RDONLY w
         in ((if fd < 0 then e else 0, fd, sz), w))"

section \<open>main\<close>

text \<open>Descriptors 0, 1 and 2 must be open before the devices are opened.\<close>

partial_function (option) open_streams :: "'w posix \<Rightarrow> 'w \<Rightarrow> (int \<times> 'w) option" where
  "open_streams P w =
     (let ((fd, e), w) = sys_open P ''/dev/null'' O_RDWR w
      in if fd < 0 then Some (fd, w)
         else if fd < 3 then open_streams P w
         else Some (0, sys_close P fd w))"

definition RESUME_PAUSE_MAX :: int where "RESUME_PAUSE_MAX = 60"

definition cfg_of :: "config \<Rightarrow> image_opts \<Rightarrow> bool \<Rightarrow> bool \<Rightarrow> bool \<Rightarrow> loff_t \<Rightarrow> suspend_cfg" where
  "cfg_of env io rsa ram kms sz =
     \<lparr>img = io, resume_offset = cfg_num env Resume_offset, pref_image_size = cfg_num env Pref_image_size,
      resume_pause = min (cfg_num env Resume_pause) RESUME_PAUSE_MAX, test_image_size = sz, use_RSA = rsa,
      s2ram = ram, s2ram_kms = kms\<rparr>"

text \<open>After the pool: from \<open>generate_key\<close> on. \<open>free_memalloc\<close> at the end gives the slots back to \<open>free\<close>.\<close>

definition main_with_pool ::
  "nat \<Rightarrow> image_opts \<Rightarrow> bool \<Rightarrow> bool \<Rightarrow> 'w posix \<Rightarrow> 'w machine \<Rightarrow> 'w kernel \<Rightarrow> 'w libs \<Rightarrow> ('w, 'm, 's) gcrypt \<Rightarrow> 'w env \<Rightarrow>
   'w main_env \<Rightarrow> config \<Rightarrow> s2ram_state \<Rightarrow> suspend_state \<Rightarrow> vt_lock \<Rightarrow> 'w \<Rightarrow> 'w suspend_result" where
  "main_with_pool k io ram kms P M K L G E N env q st l w =
     do {
       (rsa, keys, w) \<leftarrow> (if do_encrypt io
                          then generate_key G (mn_key_file N (cfg_str env Key_name)) (mn_urandom N) False (ss_keys st) w
                          else Some (False, ss_keys st, w));
       let st = st\<lparr>ss_keys := keys, ss_method := method_of (cfg_str env Shutdown_method_value)\<rparr>;
       let ((r, e), w) = sys_mlockall P w;
       if r \<noteq> 0 then Some (Inl (e, st, w))
       else do {
         let ((error, test_fd, sz), w) = open_test_file P (ss_mem st) env w;
         if error \<noteq> 0 then Some (Inl (error, st, w))
         else do {
           let (error, w) = check_chroot P w;
           if error \<noteq> 0 then Some (Inl (error, st, w))
           else do {
             let ((r, e), w) = sys_mount P chroot_path ''tmpfs'' w;
             if r \<noteq> 0 then Some (Inl (e, st, w))
             else map_option (map_sum (\<lambda>(rv, st, w).
                      let (rv, w) = leave_chroot P rv w;
                          w = (if 0 \<le> test_fd then sys_close P test_fd w else w)
                      in (rv, st, if do_encrypt io then cipher_close G w else w)) id)
                    (with_devices k (cfg_of env io rsa ram kms sz) P M K L G E N env test_fd q st l w)
           }
         }
       }
     }"

definition suspend_main ::
  "nat \<Rightarrow> 'w posix \<Rightarrow> 'w machine \<Rightarrow> machine_entry list \<Rightarrow> 'w kernel \<Rightarrow> 'w libs \<Rightarrow> ('w, 'm, 's) gcrypt \<Rightarrow> 'w env \<Rightarrow> 'w main_env \<Rightarrow>
   (int \<times> byte list) list \<Rightarrow> byte list option \<Rightarrow> config \<Rightarrow> s2ram_state \<Rightarrow> suspend_state \<Rightarrow> vt_lock \<Rightarrow> 'w \<Rightarrow> 'w suspend_result" where
  "suspend_main k P M W K L G E N opts argv env q st l w =
     do {
       (fd, w) \<leftarrow> open_streams P w;
       if fd < 0 then Some (Inl (fd, st, w))
       else do {
         (r, env, ram, kms, q, w) \<leftarrow> get_config P M W (mn_files N) (mn_config_file N) opts argv env q w;
         case r of
           Inl status \<Rightarrow> Some (Inl (status, st, w))
         | Inr error \<Rightarrow>
             if error \<noteq> 0 then Some (Inl (- error, st, w))
             else do {
               let m = get_page_and_buffer_sizes (2 ^ k) (ss_mem st);
               let (io, w) = suspend_settings E G m env w;
               let (error, m) = init_memalloc (mn_malloc N) (ucast (page_size m)) (ucast (pool_bytes m io (lzo_work_size L))) m;
               let st = st\<lparr>ss_mem := m\<rparr>;
               if error \<noteq> 0 then Some (Inl (error, st, w))
               else main_with_pool k io ram kms P M K L G E N env q st l w
             }
       }
     }"

section \<open>Properties\<close>

text \<open>
  Early writeout cannot be switched off. \<open>main\<close> leaves the letter of \<open>early writeout = n\<close> in the
  variable that \<open>save_image\<close> tests for zero, and sets it to 1 for every other value.
\<close>

lemma early_writeout_always_on:
  "early_writeout (fst (suspend_settings E G m env w))"
  by (simp add: suspend_settings_def early_writeout_value_def case_prod_beta Let_def)

subsection \<open>The pool\<close>

lemma of_nat_ucast: "(ucast (w :: 'a::len word) :: 'b::len word) = of_nat (unat w)"
  by simp

lemma ucast_of_nat_32: "n < 2 ^ 32 \<Longrightarrow> (ucast (of_nat n :: u32) :: u64) = of_nat n"
  by (subst of_nat_ucast) (simp add: unsigned_of_nat take_bit_nat_eq_self del: of_nat_unat)

lemma pool_sizes:
  fixes m0 k
  defines "m \<equiv> get_page_and_buffer_sizes (2 ^ k) m0"
  assumes k: "12 \<le> k" "k \<le> 16"
  shows "page_geometry k m" and "page_size m = of_nat (page_bytes k)" and "buffer_size m = of_nat (buffer_bytes k)"
    and "unat (buffer_size m) = buffer_bytes k" and "compress_size m = of_nat (compress_buf_bytes k)"
    and "n \<le> 2 ^ 20 \<Longrightarrow> round_up_page_size m (of_nat n) = of_nat (roundup (page_bytes k) n)"
proof -
  show geo: "page_geometry k m" unfolding m_def by (rule get_page_and_buffer_sizes_geometry) (use k in auto)
  show ps: "page_size m = of_nat (page_bytes k)" by (simp add: m_def get_page_and_buffer_sizes_def)
  show bs: "buffer_size m = of_nat (buffer_bytes k)"
    by (simp add: m_def get_page_and_buffer_sizes_def BUFFER_PAGES_def buffer_bytes_def)
  have p: "page_bytes k \<le> 2 ^ 16" using k by (intro power_increasing) auto
  then have b: "buffer_bytes k \<le> 2 ^ 21" by (simp add: buffer_bytes_def)
  then show ub: "unat (buffer_size m) = buffer_bytes k"
    by (simp add: bs unsigned_of_nat take_bit_nat_eq_self)
  have up: "round_up_page_size m x = of_nat (roundup (page_bytes k) (unat x))" if "unat x \<le> 2 ^ 22" for x
  proof -
    have "roundup (page_bytes k) (unat x) = unat (round_up_page_size m x)"
      by (rule unat_round_up_page_size [OF geo, symmetric]) (use that p in simp)
    then show ?thesis by simp
  qed
  show "round_up_page_size m (of_nat n) = of_nat (roundup (page_bytes k) n)" if "n \<le> 2 ^ 20"
    using up [of "of_nat n"] that by (simp add: unsigned_of_nat take_bit_nat_eq_self)
  have eq: "drop_bit 4 (buffer_size m) + 67 = of_nat (buffer_bytes k div 16 + 67)"
  proof -
    have "drop_bit 4 (buffer_size m) = of_nat (unat (drop_bit 4 (buffer_size m)))" by simp
    also have "\<dots> = of_nat (buffer_bytes k div 16)" by (simp only: unat_drop_bit_div ub) simp
    finally show ?thesis by simp
  qed
  have d: "buffer_bytes k div 16 \<le> buffer_bytes k" by simp
  have "buffer_bytes k div 16 + 67 < 2 ^ 32" using b d by simp
  then have "ucast (drop_bit 4 (buffer_size m) + 67) + 8 = (of_nat (buffer_bytes k div 16 + 67 + 8) :: u64)"
    by (simp only: eq ucast_of_nat_32) simp
  moreover have "buffer_bytes k div 16 + 67 + 8 \<le> 2 ^ 22" using b d by simp
  ultimately have "round_up_page_size m (ucast (drop_bit 4 (buffer_size m) + 67) + 8)
      = of_nat (roundup (page_bytes k) (buffer_bytes k div 16 + 67 + 8))"
    using up [of "of_nat (buffer_bytes k div 16 + 67 + 8)"] by (simp add: unsigned_of_nat take_bit_nat_eq_self del: of_nat_add)
  moreover have "(ucast (buffer_size m) :: u64) = of_nat (buffer_bytes k)" by (simp add: of_nat_ucast ub del: of_nat_unat)
  ultimately have "compress_size m = ucast (of_nat (compress_buf_bytes k) :: u64)"
    by (simp add: compress_size_def compress_buf_bytes_def)
  moreover have "compress_buf_bytes k < 2 ^ 64"
    using b p roundup_less [of "page_bytes k" "buffer_bytes k div 16 + 67 + 8"] unfolding compress_buf_bytes_def by simp
  ultimately show "compress_size m = of_nat (compress_buf_bytes k)"
    by (simp add: of_nat_ucast unsigned_of_nat take_bit_nat_eq_self del: of_nat_unat)
qed

text \<open>The pool in bytes, as a number.\<close>

definition pool_need :: "nat \<Rightarrow> image_opts \<Rightarrow> nat \<Rightarrow> nat" where
  "pool_need k io lzo =
     2 * page_bytes k + buffer_bytes k
     + (if do_compress io then compress_buf_bytes k + roundup (page_bytes k) lzo else 0)
     + (if do_encrypt io then 256 * page_bytes k else 0)
     + (if use_threads io
        then (if do_compress io then 3 * compress_buf_bytes k else 4 * buffer_bytes k)
             + (if do_encrypt io then 0 else 4 * buffer_bytes k)
        else 0)"

definition settings_of :: "nat \<Rightarrow> image_opts \<Rightarrow> bool" where
  "settings_of k io \<longleftrightarrow>
     compress_buf_size io = (if do_compress io then compress_buf_bytes k else 0) \<and>
     encrypt_buf_size io = (if do_encrypt io then 256 * page_bytes k else 0)"

lemma page_bounds:
  assumes "12 \<le> k" "k \<le> 16"
  shows "4096 \<le> page_bytes k" "page_bytes k \<le> 65536" "buffer_bytes k = 32 * page_bytes k"
    "compress_buf_bytes k \<le> 36 * page_bytes k" "0 < compress_buf_bytes k"
proof -
  show p: "4096 \<le> page_bytes k" "page_bytes k \<le> 65536"
    using power_increasing [of 12 k "2::nat"] power_increasing [of k 16 "2::nat"] assms by simp_all
  show b: "buffer_bytes k = 32 * page_bytes k" by (simp add: buffer_bytes_def)
  have "roundup (page_bytes k) (buffer_bytes k div 16 + 67 + 8) < buffer_bytes k div 16 + 67 + 8 + page_bytes k"
    by (rule roundup_less) simp
  moreover have "buffer_bytes k div 16 = 2 * page_bytes k" by (simp add: b)
  ultimately show "compress_buf_bytes k \<le> 36 * page_bytes k" "0 < compress_buf_bytes k"
    using p by (simp_all add: compress_buf_bytes_def b)
qed

lemma suspend_settings_of:
  assumes "12 \<le> k" "k \<le> 16"
  shows "settings_of k (fst (suspend_settings E G (get_page_and_buffer_sizes (2 ^ k) m0) env w))"
proof -
  note ps = pool_sizes [where ?m0.0 = m0, OF assms] and pb = page_bounds [OF assms]
  have "ENCRYPT_BUF_PAGES * page_size (get_page_and_buffer_sizes (2 ^ k) m0) = of_nat (256 * page_bytes k)"
    by (simp add: ps(2) ENCRYPT_BUF_PAGES_def)
  moreover have "unat (of_nat (256 * page_bytes k) :: u32) = 256 * page_bytes k"
    "unat (of_nat (compress_buf_bytes k) :: u32) = compress_buf_bytes k"
    using pb by (simp_all add: unsigned_of_nat take_bit_nat_eq_self del: of_nat_mult of_nat_power)
  ultimately show ?thesis
    by (simp add: suspend_settings_def settings_of_def case_prod_beta Let_def ps(5))
qed

lemma pool_need_bound:
  assumes "12 \<le> k" "k \<le> 16" "lzo \<le> 2 ^ 20"
  shows "pool_need k io lzo \<le> 2 ^ 26"
proof -
  note pb = page_bounds [OF assms(1,2)]
  have "roundup (page_bytes k) lzo < lzo + page_bytes k" by (rule roundup_less) simp
  then show ?thesis using pb assms(3) by (simp add: pool_need_def)
qed

lemma pool_bytes_need:
  assumes k: "12 \<le> k" "k \<le> 16" and lzo: "lzo \<le> 2 ^ 20" and io: "settings_of k io"
  shows "unat (pool_bytes (get_page_and_buffer_sizes (2 ^ k) m0) io lzo) = pool_need k io lzo"
proof -
  let ?m = "get_page_and_buffer_sizes (2 ^ k) m0"
  note ps = pool_sizes [where ?m0.0 = m0, OF k] and pb = page_bounds [OF k]
  have r: "roundup (page_bytes k) lzo < lzo + page_bytes k" by (rule roundup_less) simp
  have "(ucast (compress_size ?m) :: u64) + round_up_page_size ?m (of_nat lzo)
      = of_nat (compress_buf_bytes k + roundup (page_bytes k) lzo)"
    using pb by (simp add: ps(5) ps(6) [OF lzo] ucast_of_nat_32)
  moreover have "(ucast (of_nat (compress_buf_bytes k + roundup (page_bytes k) lzo) :: u64) :: u32)
      = of_nat (compress_buf_bytes k + roundup (page_bytes k) lzo)"
    using pb r lzo by (subst of_nat_ucast) (simp add: unsigned_of_nat take_bit_nat_eq_self del: of_nat_unat of_nat_add)
  ultimately have c: "(ucast ((ucast (compress_size ?m) :: u64) + round_up_page_size ?m (of_nat lzo)) :: u32)
      = of_nat (compress_buf_bytes k + roundup (page_bytes k) lzo)" by simp
  have "pool_bytes ?m io lzo = of_nat (pool_need k io lzo)"
    using io pb(5) by (simp add: pool_bytes_def pool_need_def Let_def c ps(2,3) settings_of_def WRITE_BUFFERS_def algebra_simps)
  moreover have "pool_need k io lzo < 2 ^ 32" using pool_need_bound [OF k lzo, of io] by simp
  ultimately show ?thesis by (simp add: unsigned_of_nat take_bit_nat_eq_self)
qed

lemma writer_room_need:
  assumes "12 \<le> k" "k \<le> 16" and io: "settings_of k io"
  shows "page_bytes k + writer_room k io lzo \<le> pool_need k io lzo"
proof -
  have "page_bytes k dvd compress_buf_bytes k" by (simp add: compress_buf_bytes_def buffer_bytes_def)
  then have "roundup (page_bytes k) (compress_buf_bytes k) = compress_buf_bytes k"
    "roundup (page_bytes k) (4 * compress_buf_bytes k) = 4 * compress_buf_bytes k"
    "roundup (page_bytes k) (256 * page_bytes k) = 256 * page_bytes k"
    by (simp_all add: roundup_dvd)
  then show ?thesis
    using io page_bounds [OF assms(1,2)]
    by (auto simp: writer_room_def pool_need_def settings_of_def write_buf_size_def WRITE_BUFFERS_def)
qed

text \<open>
  C31: The pool is large enough. With the size \<open>main\<close> computes for its settings, and pages of 4 to 64
  kilobytes, \<open>init_memalloc\<close> succeeds whenever \<open>malloc\<close> does, and neither the header page of
  \<open>write_image\<close> nor any of the buffers of \<open>init_swap_writer\<close> is \<open>NULL\<close>, with any combination of
  compression, encryption and threads. (The code does not look whether they are.)
\<close>

theorem write_buffers_fit:
  assumes k: "12 \<le> k" "k \<le> 16" and lzo: "0 < lzo_work_size L" "lzo_work_size L \<le> 2 ^ 20"
    and malloc: "\<forall>n. \<exists>mem bs. malloc n = Some (mem, bs) \<and> unat mem + 2 ^ 32 < 2 ^ 64 \<and> page_bytes k div 16 \<le> length bs"
    and m: "m = get_page_and_buffer_sizes (2 ^ k) m0" and io: "suspend_settings E G m env w = (io, w')"
  shows "\<exists>m1 a m2 h' m3.
    init_memalloc malloc (ucast (page_size m)) (ucast (pool_bytes m io (lzo_work_size L))) m = (0, m1) \<and>
    getmem (of_nat (page_bytes k)) m1 = Some (Some a, m2) \<and> alloc_swap_writer k io L h m2 = Some (h', m3) \<and>
    w_extents_mem h' \<noteq> None \<and> w_buffer_mem h' \<noteq> None \<and> (do_encrypt io \<longrightarrow> w_encrypt_mem h' \<noteq> None) \<and>
    (do_compress io \<longrightarrow> w_lzo_work_mem h' \<noteq> None) \<and> w_write_buffer_mem h' \<noteq> None"
proof -
  note ps = pool_sizes [where ?m0.0 = m0, OF k, folded m] and pb = page_bounds [OF k]
  have set: "settings_of k io" using suspend_settings_of [OF k, of E G m0 env w] io m by simp
  let ?aux = "ucast (page_size m) :: u64" and ?pool = "ucast (pool_bytes m io (lzo_work_size L)) :: u64"
  have pool: "unat ?pool = pool_need k io (lzo_work_size L)"
    using pool_bytes_need [OF k lzo(2) set, of m0] pool_need_bound [OF k lzo(2), of io]
    by (simp add: m unsigned_ucast_eq take_bit_nat_eq_self)
  have "?aux = of_nat (page_bytes k)" using pb by (simp add: ps(2) ucast_of_nat_32 del: of_nat_power)
  then have aux: "unat ?aux = page_bytes k"
    using pb k by (simp add: unsigned_of_nat take_bit_nat_eq_self del: of_nat_power)
  obtain mem bs where mal: "malloc (round_up_page_size m ?aux + round_up_page_size m ?pool + ucast (page_size m)) = Some (mem, bs)"
    "unat mem + 2 ^ 32 < 2 ^ 64" "page_bytes k div 16 \<le> length bs" using malloc by blast
  have "unat ?aux \<le> 2 ^ 20" "unat ?pool \<le> 2 ^ 30" "roundup (2 ^ k) (unat ?aux) div 16 \<le> length bs"
    using pb pool_need_bound [OF k lzo(2), of io] mal(3) by (simp_all add: aux pool roundup_dvd)
  then obtain m1 where 1: "init_memalloc malloc ?aux ?pool m = (0, m1)"
    and room: "has_room k m1 (roundup (2 ^ k) (unat ?aux) div 16) (roundup (2 ^ k) (unat ?pool))"
    by (rule init_memalloc_has_room [where malloc = malloc, OF ps(1) _ _ mal(1,2)])
  have "Suc (Suc (Suc (Suc (Suc (Suc 0))))) \<le> roundup (2 ^ k) (unat ?aux) div 16"
    using pb by (simp add: aux roundup_dvd)
  moreover have "roundup (2 ^ k) (page_bytes k) + writer_room k io (lzo_work_size L) \<le> roundup (2 ^ k) (unat ?pool)"
    using writer_room_need [OF k set, of "lzo_work_size L"] roundup_ge [of "2 ^ k" "unat ?pool"] by (simp add: pool roundup_dvd)
  ultimately have "has_room k m1 (Suc (Suc (Suc (Suc (Suc (Suc 0)))))) (roundup (2 ^ k) (page_bytes k) + writer_room k io (lzo_work_size L))"
    by (rule has_room_mono [OF room])
  then obtain a m2 where 2: "getmem (of_nat (page_bytes k)) m1 = Some (Some a, m2)"
    and r2: "has_room k m2 (Suc (Suc (Suc (Suc (Suc 0))))) (writer_room k io (lzo_work_size L))"
    by (rule getmem_size) (use pb in simp_all)
  have "\<exists>h' m3. alloc_swap_writer k io L h m2 = Some (h', m3) \<and> w_extents_mem h' \<noteq> None \<and> w_buffer_mem h' \<noteq> None \<and>
    (do_encrypt io \<longrightarrow> w_encrypt_mem h' \<noteq> None) \<and> (do_compress io \<longrightarrow> w_lzo_work_mem h' \<noteq> None) \<and> w_write_buffer_mem h' \<noteq> None"
    by (rule alloc_swap_writer_fits [OF r2])
       (use k lzo set pb in \<open>auto simp: settings_of_def write_buf_size_def WRITE_BUFFERS_def\<close>)
  then show ?thesis using 1 2 by blast
qed

subsection \<open>What is put back\<close>

text \<open>The two files of \<open>/proc\<close> hold a number; opening, closing and mounting do not change it.\<close>

definition number_files :: "'w posix \<Rightarrow> ('w \<Rightarrow> string \<Rightarrow> int) \<Rightarrow> bool" where
  "number_files P v \<longleftrightarrow>
     (\<forall>n w. v (snd (sys_stat P n w)) = v w) \<and> (\<forall>d t w. v (snd (sys_mount P d t w)) = v w) \<and>
     (\<forall>d w. v (snd (sys_umount P d w)) = v w) \<and> (\<forall>n w. v (snd (file_open P n w)) = v w) \<and>
     (\<forall>n w. v (file_close P n w) = v w) \<and>
     (\<forall>n w. fst (file_read_int P n w) = Some (v w n) \<and> v (snd (file_read_int P n w)) = v w) \<and>
     (\<forall>n x w. v (file_write_int P n x w) = (v w)(n := x))"

lemma number_filesD:
  assumes "number_files P v"
  shows "v (snd (sys_stat P n w)) = v w" "v (snd (sys_mount P d t w)) = v w" "v (snd (sys_umount P d w)) = v w"
    "v (snd (file_open P n w)) = v w" "v (file_close P n w) = v w" "fst (file_read_int P n w) = Some (v w n)"
    "v (snd (file_read_int P n w)) = v w" "v (file_write_int P n x w) = (v w)(n := x)"
  using assms by (simp_all add: number_files_def)

text \<open>
  C32: Log level and swappiness are put back. Whatever \<open>suspend_system\<close> does and returns, and even if it
  changes the two settings itself, they end with the values they had before, provided their files could
  be opened and held numbers that are not negative.
\<close>

theorem settings_put_back:
  assumes files: "number_files P v" and opens: "fst (fst (open_printk P w))" "\<forall>n w. fst (file_open P n w)"
    and run: "quiet_suspend P env suspend w = Some (Inl (e, st, w'))"
    and pos: "0 \<le> v w printk_name" "0 \<le> v w swappiness_name"
  shows "v w' printk_name = v w printk_name \<and> v w' swappiness_name = v w swappiness_name"
proof -
  note d = number_filesD [OF files]
  have names: "swappiness_name \<noteq> printk_name" by (simp add: swappiness_name_def printk_name_def)
  have pk: "v (snd (open_printk P x)) = v x" for x
    by (simp add: open_printk_def let_pair d)
  obtain mounted wa where a: "open_printk P w = ((True, mounted), wa)"
    using opens(1) by (cases "open_printk P w") (auto simp: prod_eq_iff)
  have va: "v wa = v w" using pk [of w] a by simp
  show ?thesis
    using run pos names opens(2)
    by (auto simp: quiet_suspend_def a let_pair get_kernel_console_loglevel_def set_kernel_console_loglevel_def
        open_swappiness_def get_swappiness_def set_swappiness_def close_swappiness_def close_printk_def d va
        split: option.splits sum.splits prod.splits if_splits)
qed

text \<open>
  Opening the standard streams comes to an end: if every \<open>open\<close> that succeeds gives a descriptor that
  was not open before, the loop at the start of \<open>main\<close> returns, with an error or with the descriptors
  0, 1 and 2 in use.
\<close>

lemma open_streams_returns:
  assumes fresh: "\<forall>n m w fd e w'. sys_open P n m w = ((fd, e), w') \<longrightarrow>
      (if 0 \<le> fd then fd \<notin> used w \<and> used w' = insert fd (used w) else used w' = used w)"
    and close: "\<forall>n m w fd e w'. sys_open P n m w = ((fd, e), w') \<longrightarrow> 0 \<le> fd \<longrightarrow> used (sys_close P fd w') = used w' - {fd}"
    and lowest: "\<forall>n m w fd e w'. sys_open P n m w = ((fd, e), w') \<longrightarrow> 0 \<le> fd \<longrightarrow> {0..<fd} \<subseteq> used w"
  shows "\<exists>r w'. open_streams P w = Some (r, w') \<and> (r < 0 \<or> {0, 1, 2} \<subseteq> used w')"
proof (induction "card ({0, 1, 2} - used w)" arbitrary: w rule: less_induct)
  case less
  obtain fd e w1 where 1: "sys_open P ''/dev/null'' O_RDWR w = ((fd, e), w1)" by (metis surj_pair)
  consider "fd < 0" | "0 \<le> fd" "fd < 3" | "3 \<le> fd" by linarith
  then show ?case
  proof cases
    case 2
    then have "fd \<in> {0, 1, 2}" by auto
    moreover have u: "fd \<notin> used w" "used w1 = insert fd (used w)" using fresh 1 2 by metis+
    ultimately have "{0, 1, 2} - used w1 \<subset> {0, 1, 2} - used w" by blast
    then have "card ({0, 1, 2} - used w1) < card ({0, 1, 2} - used w)" by (intro psubset_card_mono) auto
    from less [OF this] show ?thesis using 1 2 by (subst open_streams.simps) simp
  next
    case 3
    then have "0 \<le> fd" by simp
    then have "{0..<fd} \<subseteq> used w" "used w1 = insert fd (used w)" "used (sys_close P fd w1) = used w1 - {fd}"
      using lowest [rule_format, OF 1] fresh [rule_format, OF 1] close [rule_format, OF 1] by simp_all
    then have "{0, 1, 2} \<subseteq> used (sys_close P fd w1)" using 3 by auto
    then show ?thesis using 1 3 by (subst open_streams.simps) simp
  qed (subst open_streams.simps, simp add: 1)
qed

section \<open>Examples\<close>

definition zero_pool :: memalloc where
  "zero_pool = \<lparr>page_size = 0, buffer_size = 0, page_mask = 0, mem_pool = 0, pool_size = 0, slots = [], nr_slots = 0, cur_slot = 0\<rparr>"

definition small_malloc :: "u64 \<Rightarrow> (u64 \<times> mem_slot list) option" where
  "small_malloc n = Some (0x100000000, replicate 256 \<lparr>slot_addr = 0, slot_size = 0\<rparr>)"

definition all_on :: config where
  "all_on = [Do_compress \<mapsto> Chr 121, Do_encrypt \<mapsto> Chr 121, Use_threads \<mapsto> Chr 121]"

lemma write_buffers_fit_witness:
  "\<exists>io m1 a m2 h' m3. io = fst (suspend_settings idle_env toy_gcrypt (get_page_and_buffer_sizes (2 ^ 12) zero_pool) all_on ()) \<and>
    init_memalloc small_malloc (ucast (page_size (get_page_and_buffer_sizes (2 ^ 12) zero_pool)))
      (ucast (pool_bytes (get_page_and_buffer_sizes (2 ^ 12) zero_pool) io (lzo_work_size (idle_libs :: unit libs))))
      (get_page_and_buffer_sizes (2 ^ 12) zero_pool) = (0, m1) \<and>
    getmem (of_nat (page_bytes 12)) m1 = Some (Some a, m2) \<and>
    alloc_swap_writer 12 io (idle_libs :: unit libs) small_writer m2 = Some (h', m3)"
proof -
  obtain io w' where io: "suspend_settings idle_env toy_gcrypt (get_page_and_buffer_sizes (2 ^ 12) zero_pool) all_on () = (io, w')"
    by (rule prod.exhaust)
  have "\<forall>n. \<exists>mem bs. small_malloc n = Some (mem, bs) \<and> unat mem + 2 ^ 32 < 2 ^ 64 \<and> page_bytes 12 div 16 \<le> length bs"
    by (simp add: small_malloc_def)
  moreover have "0 < lzo_work_size (idle_libs :: unit libs)" "lzo_work_size (idle_libs :: unit libs) \<le> 2 ^ 20"
    by (simp_all add: idle_libs_def)
  moreover have "(12::nat) \<le> 12" "(12::nat) \<le> 16" by simp_all
  ultimately show ?thesis
    using write_buffers_fit [OF _ _ _ _ _ refl io, of idle_libs small_malloc small_writer] io by (metis fst_conv)
qed

definition number_posix :: "(string \<Rightarrow> int) posix" where
  "number_posix = idle_posix\<lparr>file_read_int := (\<lambda>n w. (Some (w n), w)), file_write_int := (\<lambda>n x w. w(n := x))\<rparr>"

lemma settings_put_back_witness:
  "quiet_suspend number_posix all_on (\<lambda>w. Some (Inl (28, disk_state, w))) (\<lambda>n. 7) = Some (Inl (28, disk_state, \<lambda>n. 7)) \<and>
   id (\<lambda>n. 7 :: int) printk_name = id (\<lambda>n. 7) printk_name \<and> id (\<lambda>n. 7 :: int) swappiness_name = id (\<lambda>n. 7) swappiness_name"
proof -
  have run: "quiet_suspend number_posix all_on (\<lambda>w. Some (Inl (28, disk_state, w))) (\<lambda>n. 7) = Some (Inl (28, disk_state, \<lambda>n. 7))"
    by (simp add: quiet_suspend_def number_posix_def idle_posix_def open_printk_def get_kernel_console_loglevel_def
        set_kernel_console_loglevel_def open_swappiness_def get_swappiness_def set_swappiness_def close_swappiness_def
        close_printk_def fun_eq_iff swappiness_name_def printk_name_def cfg_num_def all_on_def Let_def)
  moreover have "id (\<lambda>n. 7 :: int) printk_name = id (\<lambda>n. 7) printk_name \<and> id (\<lambda>n. 7 :: int) swappiness_name = id (\<lambda>n. 7) swappiness_name"
    by (rule settings_put_back [OF _ _ _ run])
       (auto simp: number_files_def number_posix_def idle_posix_def open_printk_def)
  ultimately show ?thesis by blast
qed

definition stream_posix :: "nat posix" where
  "stream_posix = idle_posix\<lparr>sys_open := (\<lambda>n m w. ((int w, 0), w + 1)),
     sys_close := (\<lambda>fd w. if 0 < w \<and> fd = int (w - 1) then w - 1 else w)\<rparr>"

lemma open_streams_returns_witness:
  "\<exists>r w'. open_streams stream_posix 1 = Some (r, w') \<and> (r < 0 \<or> {0, 1, 2} \<subseteq> {0..<int w'})"
  by (rule open_streams_returns [where used = "\<lambda>w. {0..<int w}"]) (auto simp: stream_posix_def idle_posix_def)

end
