(* ===== verification/Resume_Main.thy ===== *)
theory Resume_Main
  imports Suspend_Main
begin

text \<open>
  The rest of \<open>resume.c\<close>: \<open>get_config\<close>, \<open>pause_resume\<close>, \<open>reboot_question\<close>, \<open>read_image\<close> and \<open>main\<close>.
  (\<open>open_resume_dev\<close> and \<open>reset_signature\<close> are in \<open>Signature\<close>, \<open>read_or_verify\<close> in \<open>Write_Image\<close>.)
  Messages and the progress bar are left out.
\<close>

section \<open>Options\<close>

definition resume_defaults :: config where
  "resume_defaults =
     [Snapshot_dev_name \<mapsto> Str (bytes_of ''/dev/snapshot''), Suspend_loglevel \<mapsto> Num 1, Max_loglevel \<mapsto> Num 8]"

fun resume_options :: "(int \<times> byte list) list \<Rightarrow> config \<Rightarrow> int \<times> config" where
  "resume_options [] env = (0, env)"
| "resume_options ((opt, optarg) # opts) env =
     (if opt = 102 then resume_options opts env
      else if opt = 111 then resume_options opts (env(Resume_offset \<mapsto> Num (atoll optarg)))
      else if opt = 114 then resume_options opts (env(Resume_dev_name \<mapsto> Str (take (MAX_STR_LEN - 1) optarg)))
      else if opt = 80 then
        (let (error, env) = parse_line resume_parameters optarg env
         in if error \<noteq> 0 then (error, env) else resume_options opts env)
      else (- EINVAL, env))"

definition resume_config ::
  "files \<Rightarrow> byte list \<Rightarrow> (int \<times> byte list) list \<Rightarrow> byte list option \<Rightarrow> config \<Rightarrow> (int + int) \<times> config" where
  "resume_config files CONFIG_FILE opts argv env =
     (case config_name opts (CONFIG_FILE, False) of
        Inl status \<Rightarrow> (Inl status, env)
      | Inr (name, required) \<Rightarrow>
          (let (error, env) = read_config resume_parameters files name required env
           in if error \<noteq> 0 then (Inr error, env)
           else let (error, env) = resume_options opts env
           in if error \<noteq> 0 then (Inr error, env)
           else (Inr 0, case argv of None \<Rightarrow> env | Some a \<Rightarrow> env(Resume_dev_name \<mapsto> Str (take (MAX_STR_LEN - 1) a)))))"

section \<open>Talking to the user\<close>

text \<open>\<open>splash.dialog\<close>, \<open>sleep\<close>, \<open>fgets\<close> on the standard input (with the array it reads into) and \<open>errno\<close>.\<close>

record 'w resume_env =
  rm_files :: files
  rm_config_file :: "byte list"
  rm_malloc :: "u64 \<Rightarrow> (u64 \<times> mem_slot list) option"
  rm_dialog :: "'w \<Rightarrow> byte \<times> 'w"
  rm_sleep :: "'w \<Rightarrow> 'w"
  rm_usleep :: "'w \<Rightarrow> 'w"
  rm_fgets :: "nat \<Rightarrow> byte list \<Rightarrow> 'w \<Rightarrow> byte list \<times> 'w"
  rm_errno :: "'w \<Rightarrow> int"

definition ENTER_KEY_CODE :: int where "ENTER_KEY_CODE = 28"

text \<open>\<open>while (pause)\<close>: a negative \<open>pause\<close> waits for the key alone.\<close>

partial_function (option) pause_loop :: "'w libs \<Rightarrow> 'w resume_env \<Rightarrow> int \<Rightarrow> 'w \<Rightarrow> 'w option" where
  "pause_loop L N pause w =
     (if pause = 0 then Some w
      else let (key, w) = key_pressed L w
      in if key = ENTER_KEY_CODE then Some w
      else pause_loop L N (if 0 < pause then pause - 1 else pause) (rm_sleep N w))"

definition pause_resume :: "'w libs \<Rightarrow> 'w resume_env \<Rightarrow> int \<Rightarrow> 'w \<Rightarrow> 'w option" where
  "pause_resume L N pause w =
     (let (r, w) = prepare_abort L w;
          wait_possible = (r = 0)
      in do {
        w \<leftarrow> pause_loop L N (if wait_possible then pause else - 1) w;
        Some (if wait_possible then restore_abort L w else w)
      })"

text \<open>\<open>Inr\<close>: the user wants to reboot; if the machine is still on, the process sleeps from there on.\<close>

definition reboot_question :: "'w kernel \<Rightarrow> 'w resume_env \<Rightarrow> 'w \<Rightarrow> 'w + 'w" where
  "reboot_question K N w =
     (let (c, w) = rm_dialog N w in if c = 110 \<or> c = 78 then Inr (reboot K w) else Inl w)"

section \<open>read_image\<close>

text \<open>
  The error, whether the platform is to be used, the state. \<open>None\<close> if a loop does not end or the
  header page is \<open>NULL\<close>; \<open>Inr\<close> if the user reboots.
\<close>

definition read_image ::
  "nat \<Rightarrow> 'w kernel \<Rightarrow> 'w libs \<Rightarrow> ('w, 'm, 's) gcrypt \<Rightarrow> 'w env \<Rightarrow> 'w resume_env \<Rightarrow> fd \<Rightarrow> fd \<Rightarrow> loff_t \<Rightarrow> suspend_state \<Rightarrow> 'w \<Rightarrow>
   ((int \<times> bool \<times> suspend_state \<times> 'w) + 'w) option" where
  "read_image k K L G E N dev fd start st w =
     do {
       (header, m) \<leftarrow> getmem (of_nat (page_bytes k)) (ss_mem st);
       addr \<leftarrow> header;
       (error, h, st, w) \<leftarrow>
         read_or_verify k K L G E dev fd (image_header_of (map (\<lambda>i. mem_byte L (addr + of_nat i)) [0..<page_bytes k]))
           start False False (st\<lparr>ss_mem := m\<rparr>) w;
       let asked = (if error \<noteq> 0 then reboot_question K N w else Inl w);
       case asked of
         Inr w \<Rightarrow> Some (Inr w)
       | Inl w \<Rightarrow> do {
           w \<leftarrow> (if error \<noteq> 0 then Some (snd (rm_dialog N w))
                 else if h_resume_pause h \<noteq> 0 then pause_resume L N (h_resume_pause h) w
                 else Some w);
           Some (Inl (error, error = 0 \<and> has_flag h PLATFORM_SUSPEND, st\<lparr>ss_mem := freemem addr (ss_mem st)\<rparr>, w))
         }
     }"

section \<open>main\<close>

definition STAT_LOOP_STEPS :: nat where "STAT_LOOP_STEPS = 300"

fun wait_device :: "'w posix \<Rightarrow> 'w resume_env \<Rightarrow> byte list \<Rightarrow> nat \<Rightarrow> 'w \<Rightarrow> 'w" where
  "wait_device P N buf 0 w = w"
| "wait_device P N buf (Suc n) w =
     (let (s, w) = sys_stat P (name_of buf) w
      in if st_ret s = 0 then w else wait_device P N buf n (rm_usleep N w))"

text \<open>Asking for the name of the device until there is one; \<open>None\<close> as a name is the empty answer.\<close>

partial_function (option) ask_device ::
  "'w posix \<Rightarrow> 'w resume_env \<Rightarrow> byte list \<Rightarrow> 'w \<Rightarrow> (byte list option \<times> 'w) option" where
  "ask_device P N buf w =
     (let (s, w) = sys_stat P (name_of buf) w
      in if st_ret s = 0 then Some (Some buf, w)
      else let (buf, w) = rm_fgets N (MAX_STR_LEN - 1) buf w
      in if strlen buf \<le> 1 then Some (None, w)
      else ask_device P N (if buf ! (strlen buf - 1) = 10 then buf[strlen buf - 1 := 0] else buf) w)"

text \<open>
  From \<open>read_image\<close> to \<open>close(resume_dev)\<close>: the error, what \<open>reset_signature\<close> has returned, and
  whether the platform is to be used. The signature is reset whether or not the image could be read.
\<close>

definition load_and_reset ::
  "nat \<Rightarrow> loff_t \<Rightarrow> 'w kernel \<Rightarrow> 'w libs \<Rightarrow> ('w, 'm, 's) gcrypt \<Rightarrow> 'w env \<Rightarrow> 'w resume_env \<Rightarrow> fd \<Rightarrow> fd \<Rightarrow> swsusp_header \<Rightarrow>
   suspend_state \<Rightarrow> 'w \<Rightarrow> ((int \<times> int \<times> bool \<times> suspend_state \<times> 'w) + 'w) option" where
  "load_and_reset k ro K L G E N dev resume_dev sh st w =
     do {
       read \<leftarrow> read_image k K L G E N dev resume_dev (sw_image sh) st w;
       case read of
         Inr w \<Rightarrow> Some (Inr w)
       | Inl (error, platform, st, w) \<Rightarrow>
           (let asked =
              (if error \<noteq> 0 then Inl (- error, w)
               else let ((r, e), w) = freeze K dev w
               in if r \<noteq> 0 then map_sum (\<lambda>w. (e, w)) id (reboot_question K N w) else Inl (0, w))
            in case asked of
                 Inr w \<Rightarrow> Some (Inr w)
               | Inl (error, w) \<Rightarrow>
                   (let (r, sh, w) = resume_reset_signature k K ro resume_dev sh w
                    in Some (Inl (error, r, platform, st, k_close K resume_dev w))))
     }"

text \<open>The kernel does not come back from \<open>atomic_restore\<close> unless it fails; then the processes are thawed.\<close>

definition restore_image :: "'w kernel \<Rightarrow> fd \<Rightarrow> bool \<Rightarrow> 'w \<Rightarrow> 'w" where
  "restore_image K dev platform w =
     (let w = (if platform then snd (platform_prepare K dev w) else w);
          (r, w) = atomic_restore K dev w
      in snd (unfreeze K dev w))"

text \<open>After the device is there: up to the label \<open>Free\<close>.\<close>

definition resume_from ::
  "nat \<Rightarrow> 'w posix \<Rightarrow> 'w kernel \<Rightarrow> 'w libs \<Rightarrow> ('w, 'm, 's) gcrypt \<Rightarrow> 'w env \<Rightarrow> 'w resume_env \<Rightarrow> config \<Rightarrow> byte list \<Rightarrow>
   swsusp_header \<Rightarrow> suspend_state \<Rightarrow> 'w \<Rightarrow> 'w suspend_result" where
  "resume_from k P K L G E N env buf sh st w =
     (let ((r, e), w) = sys_mlockall P w
      in if r \<noteq> 0 then Some (Inl (e, st, w))
      else let ((dev, e), w) = sys_open P (name_of (cfg_str env Snapshot_dev_name)) O_WRONLY w
      in if dev < 0 then Some (Inl (ENOENT, st, w))
      else let ro = cfg_num env Resume_offset;
               (resume_dev, sh, w) = open_resume_dev k K (\<lambda>n w. sys_open P n O_RDWR w) ro (name_of buf) sh w
      in if resume_dev = - ENOMEDIUM then Some (Inl (0, st, k_close K dev w))
      else if resume_dev < 0 then Some (Inl (- resume_dev, st, k_close K dev w))
      else do {
        res \<leftarrow> load_and_reset k ro K L G E N dev resume_dev sh st w;
        case res of
          Inr w \<Rightarrow> Some (Inr w)
        | Inl (error, r, platform, st, w) \<Rightarrow>
            (let w = (if error \<noteq> 0 then w else restore_image K dev platform w)
             in Some (Inl (error, st, k_close K dev w)))
      })"

text \<open>\<open>main\<close>: the pool is sized for a compressed and encrypted image, since the image is not known yet.\<close>

definition resume_pool_bytes :: "memalloc \<Rightarrow> nat \<Rightarrow> u32" where
  "resume_pool_bytes m lzo =
     2 * page_size m + buffer_size m + page_size m + ucast (ucast (compress_size m) + round_up_page_size m (of_nat lzo) :: u64)"

definition resume_main ::
  "nat \<Rightarrow> 'w posix \<Rightarrow> 'w kernel \<Rightarrow> 'w libs \<Rightarrow> ('w, 'm, 's) gcrypt \<Rightarrow> 'w env \<Rightarrow> 'w resume_env \<Rightarrow> (int \<times> byte list) list \<Rightarrow>
   byte list option \<Rightarrow> config \<Rightarrow> swsusp_header \<Rightarrow> suspend_state \<Rightarrow> 'w \<Rightarrow> 'w suspend_result" where
  "resume_main k P K L G E N opts argv env sh st w =
     (case resume_config (rm_files N) (rm_config_file N) opts argv env of
        (Inl status, env) \<Rightarrow> Some (Inl (status, st, w))
      | (Inr error, env) \<Rightarrow>
          if error \<noteq> 0 then Some (Inl (- error, st, w))
          else let m = get_page_and_buffer_sizes (2 ^ k) (ss_mem st);
                   (error, m) = init_memalloc (rm_malloc N) (ucast (page_size m)) (ucast (resume_pool_bytes m (lzo_work_size L))) m;
                   st = st\<lparr>ss_mem := m, ss_load := (ss_load st)\<lparr>load_compress_buf_size := unat (compress_size m)\<rparr>\<rparr>
          in if error \<noteq> 0 then Some (Inl (error, st, w))
          else let ((printk, mounted), w) = open_printk P w;
                   (orig_loglevel, w) = get_kernel_console_loglevel P printk w;
                   w = set_kernel_console_loglevel P printk (cfg_num env Suspend_loglevel) w;
                   buf = strncpy_zero MAX_STR_LEN (cfg_str env Resume_dev_name);
                   w = wait_device P N buf STAT_LOOP_STEPS w
          in do {
            (name, w) \<leftarrow> ask_device P N buf w;
            res \<leftarrow> (case name of None \<Rightarrow> Some (Inl (EINVAL, st, w)) | Some buf \<Rightarrow> resume_from k P K L G E N env buf sh st w);
            case res of
              Inr w \<Rightarrow> Some (Inr w)
            | Inl (error, st, w) \<Rightarrow>
                (let w = (if error \<noteq> 0 then set_kernel_console_loglevel P printk (cfg_num env Max_loglevel) w
                          else if 0 \<le> orig_loglevel then set_kernel_console_loglevel P printk orig_loglevel w else w)
                 in Some (Inl (error, st, close_printk P printk mounted w)))
          })"

section \<open>Properties\<close>

lemma pause_loop_nonneg:
  assumes no_key: "\<forall>w. fst (key_pressed L w) \<noteq> ENTER_KEY_CODE" and run: "pause_loop L N pause w = Some w'"
  shows "0 \<le> pause"
proof -
  have "L = L \<longrightarrow> 0 \<le> pause"
    by (rule pause_loop.raw_induct [OF _ run, of "\<lambda>L' N' pause w y. L' = L \<longrightarrow> 0 \<le> pause"])
      (use no_key in \<open>fastforce simp: case_prod_beta Let_def split: if_splits\<close>)
  then show ?thesis by simp
qed

lemma pause_loop_ends:
  "0 \<le> pause \<Longrightarrow> \<exists>w'. pause_loop L N pause w = Some w'"
proof (induction "nat pause" arbitrary: pause w)
  case 0
  then show ?case by (subst pause_loop.simps) simp
next
  case (Suc n)
  obtain key w1 where k: "key_pressed L w = (key, w1)" by fastforce
  have "n = nat (pause - 1)" "0 \<le> pause - 1" using Suc.hyps(2) by auto
  from Suc.hyps(1) [OF this, of "rm_sleep N w1"] show ?case
    using Suc.prems k by (subst pause_loop.simps) auto
qed

text \<open>
  C37: The pause after loading is a time limit only on a terminal. When nobody presses ENTER,
  \<open>pause_resume\<close> comes back just in case the terminal could be prepared and the pause is not negative;
  without a terminal it waits for ever, whatever the time configured.
\<close>

theorem pause_resume_ends_iff:
  assumes "\<forall>w. fst (key_pressed L w) \<noteq> ENTER_KEY_CODE"
  shows "(\<exists>w'. pause_resume L N pause w = Some w') \<longleftrightarrow> fst (prepare_abort L w) = 0 \<and> 0 \<le> pause"
proof -
  obtain r w1 where p: "prepare_abort L w = (r, w1)" by fastforce
  show ?thesis
    using pause_loop_ends [of pause L N w1] pause_loop_nonneg [OF assms, of N pause w1]
      pause_loop_nonneg [OF assms, of N "- 1" w1]
    by (cases "r = 0"; cases "0 \<le> pause"; cases "pause_loop L N (if r = 0 then pause else - 1) w1")
      (auto simp: pause_resume_def p)
qed

text \<open>
  Without a user the missing resume device blocks the boot. If the device never appears and the
  standard input is at its end, so that \<open>fgets\<close> leaves the name alone, \<open>main\<close> asks for another name for
  ever.
\<close>

lemma ask_device_never_returns:
  assumes "\<forall>w. st_ret (fst (sys_stat P (name_of buf) w)) \<noteq> 0" and "\<forall>n w. fst (rm_fgets N n buf w) = buf"
    and "1 < strlen buf" and "buf ! (strlen buf - 1) \<noteq> 10"
  shows "ask_device P N buf w = None"
proof (rule ccontr)
  assume "ask_device P N buf w \<noteq> None"
  then obtain y where run: "ask_device P N buf w = Some y" by blast
  have "(P, N, buf) = (P, N, buf) \<longrightarrow> False"
    by (rule ask_device.raw_induct [OF _ run, of "\<lambda>(((P', N'), buf'), w) y. (P', N', buf') = (P, N, buf) \<longrightarrow> False", simplified prod.case])
      (use assms in \<open>(auto simp: case_prod_beta Let_def split: if_splits, blast)\<close>)
  then show False by simp
qed

lemma load_and_resetE:
  assumes "load_and_reset k ro K L G E N dev resume_dev sh st w = Some (Inl (error, r, platform, st', w'))"
  obtains e0 w0 w1 sh' w2 where "read_image k K L G E N dev resume_dev (sw_image sh) st w = Some (Inl (e0, platform, st', w0))"
    and "e0 \<noteq> 0 \<and> error = - e0 \<or> e0 = 0 \<and> fst (fst (freeze K dev w0)) = 0 \<and> error = 0 \<or>
      e0 = 0 \<and> fst (fst (freeze K dev w0)) \<noteq> 0 \<and> error = snd (fst (freeze K dev w0))"
    and "resume_reset_signature k K ro resume_dev sh w1 = (r, sh', w2)" and "w' = k_close K resume_dev w2"
proof -
  obtain y where y: "read_image k K L G E N dev resume_dev (sw_image sh) st w = Some y"
    using assms unfolding load_and_reset_def bind_eq_Some_conv by blast
  then obtain e0 p0 st0 w0 where rd: "read_image k K L G E N dev resume_dev (sw_image sh) st w = Some (Inl (e0, p0, st0, w0))"
    using assms by (cases y) (auto simp: load_and_reset_def)
  obtain fr fe wf where fz: "freeze K dev w0 = ((fr, fe), wf)" by (metis surj_pair)
  define asked where "asked = (if e0 \<noteq> 0 then Inl (- e0, w0)
    else if fr \<noteq> 0 then map_sum (\<lambda>w. (fe, w)) id (reboot_question K N wf) else Inl (0, wf))"
  have "(case asked of Inr w \<Rightarrow> Some (Inr w)
     | Inl (error, w) \<Rightarrow> (let (r, sh, w) = resume_reset_signature k K ro resume_dev sh w
                        in Some (Inl (error, r, p0, st0, k_close K resume_dev w)))) =
    Some (Inl (error, r, platform, st', w'))"
    using assms by (cases "e0 = 0"; cases "fr = 0") 
      (simp_all add: load_and_reset_def rd fz asked_def Let_def split: sum.split_asm sum.split)
  then obtain w1 where a: "asked = Inl (error, w1)" and
    rs: "(let (r, sh, w) = resume_reset_signature k K ro resume_dev sh w1
          in Some (Inl (error, r, p0, st0, k_close K resume_dev w) :: (int \<times> int \<times> bool \<times> suspend_state \<times> 'a) + 'a)) =
      Some (Inl (error, r, platform, st', w'))"
    by (cases asked) (auto split: prod.splits)
  obtain r1 sh1 w2 where rs1: "resume_reset_signature k K ro resume_dev sh w1 = (r1, sh1, w2)" by (metis surj_pair)
  have eq: "r1 = r" "p0 = platform" "st0 = st'" "k_close K resume_dev w2 = w'" using rs by (auto simp: rs1)
  have "e0 \<noteq> 0 \<and> error = - e0 \<or> e0 = 0 \<and> fst (fst (freeze K dev w0)) = 0 \<and> error = 0 \<or>
      e0 = 0 \<and> fst (fst (freeze K dev w0)) \<noteq> 0 \<and> error = snd (fst (freeze K dev w0))"
    using a by (cases "reboot_question K N wf") (auto simp: asked_def fz split: if_splits)
  with rd rs1 eq show thesis by (intro that) auto
qed



section \<open>Witnesses\<close>

text \<open>Nobody at the terminal: the questions are answered with \<open>y\<close>, the standard input is at its end.\<close>

definition idle_resume :: "'w resume_env" where
  "idle_resume = \<lparr>rm_files = (\<lambda>n. None), rm_config_file = [], rm_malloc = small_malloc, rm_dialog = (\<lambda>w. (121, w)),
     rm_sleep = (\<lambda>w. w), rm_usleep = (\<lambda>w. w), rm_fgets = (\<lambda>n buf w. (buf, w)), rm_errno = (\<lambda>w. 0)\<rparr>"

lemma pause_resume_ends_iff_witness:
  "(\<exists>w'. pause_resume idle_libs idle_resume 10 () = Some w') \<longleftrightarrow> fst (prepare_abort idle_libs ()) = 0 \<and> (0 :: int) \<le> 10"
  by (rule pause_resume_ends_iff) (simp add: idle_libs_def ENTER_KEY_CODE_def)

lemma ask_device_never_returns_witness:
  "ask_device (idle_posix\<lparr>sys_stat := (\<lambda>n w. (\<lparr>st_ret = - 1, st_errno = ENOENT, st_type = Other_file, st_rdev = 0, st_size = 0\<rparr>, w))\<rparr>)
     idle_resume (bytes_of ''/dev/sda2'' @ [0]) () = None"
proof (rule ask_device_never_returns)
  show "1 < strlen (bytes_of ''/dev/sda2'' @ [0])"
    and "(bytes_of ''/dev/sda2'' @ [0]) ! (strlen (bytes_of ''/dev/sda2'' @ [0]) - 1) \<noteq> 10"
    by code_simp+
qed (simp_all add: idle_resume_def)

text \<open>A disk whose image cannot be read.\<close>

definition torn_kernel :: "byte_world kernel" where
  "torn_kernel = byte_kernel\<lparr>k_read := (\<lambda>fd n w. ((- 1, []), w))\<rparr>"

definition torn_header :: swsusp_header where
  "torn_header = \<lparr>sw_image = 8192, sw_orig_sig = SWAPSPACE2, sw_sig = SWSUSP_SIG\<rparr>"


end
