(* ===== verification/Threads.thy ===== *)
theory Threads
  imports Swap_Writer
begin

text \<open>
  The build of \<open>suspend.c\<close> with \<open>CONFIG_THREADS\<close>: \<open>save_image\<close> hands its buffers to the move thread, which
  encrypts them page by page for the save thread; without encryption the move thread writes them itself.
  The three threads are tables of atomic instructions, one table entry per access to a variable that is
  shared, and a step relation runs them interleaved in any order. What \<open>gcry_cipher_encrypt\<close> and
  \<open>save_page\<close> do is a parameter here; each call is one step.
\<close>

section \<open>Instructions\<close>

datatype thread = Main | Mover | Saver

datatype mutex = finish_mutex | move_mutex | save_mutex

datatype condition = finish_cond | move_cond | save_cond

text \<open>\<open>Cond_wait\<close> is \<open>pthread_cond_wait\<close>: it releases the mutex and sleeps, and has the mutex again when it
  is done. \<open>Choose\<close> is the environment's choice.\<close>

datatype ('s, 'pc) instr =
    Lock mutex 'pc
  | Unlock mutex 'pc
  | Cond_wait condition mutex 'pc
  | Signal condition 'pc
  | Do "'s \<Rightarrow> 's" 'pc
  | If_then "'s \<Rightarrow> bool" 'pc 'pc
  | Choose 'pc 'pc
  | Join thread 'pc
  | Exit

text \<open>Where a thread is: in front of an instruction, asleep in \<open>pthread_cond_wait\<close>, or woken and waiting for the mutex.\<close>

datatype 'pc status =
    At 'pc
  | Asleep condition mutex 'pc
  | Woken mutex 'pc

fun pc_of :: "'pc status \<Rightarrow> 'pc" where
  "pc_of (At p) = p"
| "pc_of (Asleep c m p) = p"
| "pc_of (Woken m p) = p"

section \<open>The variables\<close>

record write_buffer =
  wb_size :: nat
  wb_start :: "byte list"

text \<open>The places in \<open>save_image\<close> and what it calls, in \<open>move_thread\<close> and in \<open>save_thread\<close>.\<close>

datatype main_pc =
    M_loop | M_abort | M_more | M_fill | M_lock | M_test | M_wait | M_adv | M_unlock | M_signal | M_ret | M_after
    | M_again | Fin_lock | Fin_test1 | Fin_test2 | Fin_test3 | Fin_wait | Fin_unlock | Fin_ret | Stop_lock | Stop_set
    | Stop_unlock | Stop_move | Stop_join_move | Stop_encrypt | Stop_save | Stop_join_save | M_done

datatype move_pc =
    Mv_lock | Mv_test | Mv_wait | Mv_unlock | Mv_check | Mv_kind | En_start | En_page | En_check | En_moved | En_lock
    | En_test | En_wait | En_adv | En_unlock | En_signal | En_loop | Pl_start | Pl_test | Pl_save | Pl_check | Pl_next
    | Er_lock | Er_set | Er_unlock | Er_move | Er_kind | Er_save | Er_finish | Mv_check2 | Al_finish | Al_move
    | Al_adv | Al_unmove | Al_unfinish | Al_signal | Al_signal2 | Mv_done

datatype save_pc =
    Sv_lock | Sv_test | Sv_wait | Sv_unlock | Sv_check | Sv_save | Sv_error | Se_lock | Se_set | Se_unlock | Se_move
    | Se_save | Se_finish | Sa_finish | Sa_save | Sa_adv | Sa_unsave | Sa_unfinish | Sa_signal | Sa_signal2 | Sv_done

datatype pc = Main_at main_pc | Mover_at move_pc | Saver_at save_pc

text \<open>
  \<open>save_start\<close> and \<open>save_end\<close> are offsets into \<open>encrypt_buf\<close>, whose pages are \<open>encrypt_buf\<close> by offset;
  \<open>moved_size\<close>, \<open>move_err\<close>, \<open>save_err\<close> and \<open>result\<close> are the local variables of the move thread, the save
  thread and \<open>save_image\<close>; \<open>todo\<close> is what \<open>save_image\<close> still has to hand over, a buffer at a time.
\<close>

record ('c, 's) shared =
  save_ret :: int
  save_start :: nat
  save_end :: nat
  move_start :: nat
  move_end :: nat
  write_buffers :: "write_buffer list"
  encrypt_buf :: "nat \<Rightarrow> byte list"
  cipher_state :: 'c
  swap_state :: 's
  moved_size :: nat
  move_err :: int
  save_err :: int
  todo :: "byte list list"
  result :: int

record ('c, 's) system =
  vars :: "('c, 's) shared"
  owner :: "mutex \<Rightarrow> thread option"
  status :: "thread \<Rightarrow> pc status"

text \<open>
  What does not change while the threads run: the settings, the two library calls, the buffers to be
  handed over and whether the last of them is the rest that is flushed after the loop of \<open>save_image\<close>.
\<close>

record ('c, 's) job =
  j_encrypt :: bool
  j_page_size :: nat
  j_encrypt_pages :: nat
  j_gcry_encrypt :: "byte list \<Rightarrow> 'c \<Rightarrow> (int \<times> byte list) \<times> 'c"
  j_save_page :: "byte list \<Rightarrow> 's \<Rightarrow> int \<times> 's"
  j_blocks :: "byte list list"
  j_rest :: bool

definition FORCE_EXIT :: int where "FORCE_EXIT = 1"

definition encrypt_buf_len :: "('c, 's) job \<Rightarrow> nat" where
  "encrypt_buf_len J = j_encrypt_pages J * j_page_size J"

definition save_inc :: "('c, 's) job \<Rightarrow> nat \<Rightarrow> nat" where
  "save_inc J p = (p + j_page_size J) mod encrypt_buf_len J"

definition move_inc :: "nat \<Rightarrow> nat" where
  "move_inc i = (i + 1) mod WRITE_BUFFERS"

section \<open>The threads\<close>

text \<open>\<open>current_write_buffer\<close> filled by \<open>flush_buffer\<close>, and its size set by \<open>prepare_next_write_buffer\<close>. What was in
  the buffer behind the data stays there.\<close>

definition fill_buffer :: "byte list \<Rightarrow> write_buffer \<Rightarrow> write_buffer" where
  "fill_buffer data b = \<lparr>wb_size = length data, wb_start = data @ drop (length data) (wb_start b)\<rparr>"

definition hand_over :: "('c, 's) shared \<Rightarrow> ('c, 's) shared" where
  "hand_over v = v\<lparr>write_buffers := (write_buffers v)[move_start v := fill_buffer (hd (todo v)) (write_buffers v ! move_start v)],
     todo := tl (todo v)\<rparr>"

text \<open>\<open>src\<close>, at \<open>moved_size\<close> in the buffer that is processed.\<close>

definition src_page :: "('c, 's) job \<Rightarrow> ('c, 's) shared \<Rightarrow> byte list" where
  "src_page J v = take (j_page_size J) (drop (moved_size v) (wb_start (write_buffers v ! move_end v)))"

definition encrypt_page :: "('c, 's) job \<Rightarrow> ('c, 's) shared \<Rightarrow> ('c, 's) shared" where
  "encrypt_page J v =
     (let ((error, page), c) = j_gcry_encrypt J (src_page J v) (cipher_state v)
      in v\<lparr>encrypt_buf := (encrypt_buf v)(save_start v := page), cipher_state := c, move_err := error\<rparr>)"

definition save_plain_page :: "('c, 's) job \<Rightarrow> ('c, 's) shared \<Rightarrow> ('c, 's) shared" where
  "save_plain_page J v =
     (let (error, s) = j_save_page J (src_page J v) (swap_state v) in v\<lparr>swap_state := s, move_err := error\<rparr>)"

definition save_encrypted_page :: "('c, 's) job \<Rightarrow> ('c, 's) shared \<Rightarrow> ('c, 's) shared" where
  "save_encrypted_page J v =
     (let (error, s) = j_save_page J (encrypt_buf v (save_end v)) (swap_state v) in v\<lparr>swap_state := s, save_err := error\<rparr>)"

definition set_save_ret :: "int \<Rightarrow> ('c, 's) shared \<Rightarrow> ('c, 's) shared" where
  "set_save_ret error v = (if save_ret v = 0 then v\<lparr>save_ret := error\<rparr> else v)"

definition buffer_left :: "('c, 's) shared \<Rightarrow> bool" where
  "buffer_left v \<longleftrightarrow> moved_size v < wb_size (write_buffers v ! move_end v)"

text \<open>Three functions that the main thread calls; \<open>save_image\<close> around them is \<open>main_code\<close>.\<close>

fun prepare_next_write_buffer :: "main_pc \<Rightarrow> (('c, 's) shared, main_pc) instr" where
  "prepare_next_write_buffer M_lock = Lock move_mutex M_test"
| "prepare_next_write_buffer M_test = If_then (\<lambda>v. move_inc (move_start v) = move_end v \<and> save_ret v = 0) M_wait M_adv"
| "prepare_next_write_buffer M_wait = Cond_wait move_cond move_mutex M_test"
| "prepare_next_write_buffer M_adv = Do (\<lambda>v. v\<lparr>move_start := move_inc (move_start v)\<rparr>) M_unlock"
| "prepare_next_write_buffer M_unlock = Unlock move_mutex M_signal"
| "prepare_next_write_buffer M_signal = Signal move_cond M_ret"
| "prepare_next_write_buffer M_ret = Do (\<lambda>v. v\<lparr>result := save_ret v\<rparr>) M_after"

fun wait_for_finish :: "main_pc \<Rightarrow> (('c, 's) shared, main_pc) instr" where
  "wait_for_finish Fin_lock = Lock finish_mutex Fin_test1"
| "wait_for_finish Fin_test1 = If_then (\<lambda>v. save_end v \<noteq> save_start v) Fin_test3 Fin_test2"
| "wait_for_finish Fin_test2 = If_then (\<lambda>v. move_start v \<noteq> move_end v) Fin_test3 Fin_unlock"
| "wait_for_finish Fin_test3 = If_then (\<lambda>v. save_ret v = 0) Fin_wait Fin_unlock"
| "wait_for_finish Fin_wait = Cond_wait finish_cond finish_mutex Fin_test1"
| "wait_for_finish Fin_unlock = Unlock finish_mutex Fin_ret"
| "wait_for_finish Fin_ret = Do (\<lambda>v. v\<lparr>result := save_ret v\<rparr>) Stop_lock"

fun stop_threads :: "('c, 's) job \<Rightarrow> main_pc \<Rightarrow> (('c, 's) shared, main_pc) instr" where
  "stop_threads J Stop_lock = Lock finish_mutex Stop_set"
| "stop_threads J Stop_set = Do (set_save_ret FORCE_EXIT) Stop_unlock"
| "stop_threads J Stop_unlock = Unlock finish_mutex Stop_move"
| "stop_threads J Stop_move = Signal move_cond Stop_join_move"
| "stop_threads J Stop_join_move = Join Mover Stop_encrypt"
| "stop_threads J Stop_encrypt = If_then (\<lambda>v. j_encrypt J) Stop_save M_done"
| "stop_threads J Stop_save = Signal save_cond Stop_join_save"
| "stop_threads J Stop_join_save = Join Saver M_done"

fun main_code :: "('c, 's) job \<Rightarrow> main_pc \<Rightarrow> (('c, 's) shared, main_pc) instr" where
  "main_code J M_loop = Choose M_abort M_more"
| "main_code J M_abort = Do (\<lambda>v. v\<lparr>result := - EINTR\<rparr>) Stop_lock"
| "main_code J M_more = If_then (\<lambda>v. todo v = []) Fin_lock M_fill"
| "main_code J M_fill = Do hand_over M_lock"
| "main_code J M_lock = prepare_next_write_buffer M_lock"
| "main_code J M_test = prepare_next_write_buffer M_test"
| "main_code J M_wait = prepare_next_write_buffer M_wait"
| "main_code J M_adv = prepare_next_write_buffer M_adv"
| "main_code J M_unlock = prepare_next_write_buffer M_unlock"
| "main_code J M_signal = prepare_next_write_buffer M_signal"
| "main_code J M_ret = prepare_next_write_buffer M_ret"
| "main_code J M_after = If_then (\<lambda>v. j_rest J \<and> todo v = []) Fin_lock M_again"
| "main_code J M_again = If_then (\<lambda>v. result v = 0) M_loop Stop_lock"
| "main_code J Fin_lock = wait_for_finish Fin_lock"
| "main_code J Fin_test1 = wait_for_finish Fin_test1"
| "main_code J Fin_test2 = wait_for_finish Fin_test2"
| "main_code J Fin_test3 = wait_for_finish Fin_test3"
| "main_code J Fin_wait = wait_for_finish Fin_wait"
| "main_code J Fin_unlock = wait_for_finish Fin_unlock"
| "main_code J Fin_ret = wait_for_finish Fin_ret"
| "main_code J Stop_lock = stop_threads J Stop_lock"
| "main_code J Stop_set = stop_threads J Stop_set"
| "main_code J Stop_unlock = stop_threads J Stop_unlock"
| "main_code J Stop_move = stop_threads J Stop_move"
| "main_code J Stop_join_move = stop_threads J Stop_join_move"
| "main_code J Stop_encrypt = stop_threads J Stop_encrypt"
| "main_code J Stop_save = stop_threads J Stop_save"
| "main_code J Stop_join_save = stop_threads J Stop_join_save"
| "main_code J M_done = Exit"

fun move_code :: "('c, 's) job \<Rightarrow> move_pc \<Rightarrow> (('c, 's) shared, move_pc) instr" where
  \<comment> \<open>\<open>move_thread\<close>\<close>
  "move_code J Mv_lock = Lock move_mutex Mv_test"
| "move_code J Mv_test = If_then (\<lambda>v. move_end v = move_start v \<and> save_ret v = 0) Mv_wait Mv_unlock"
| "move_code J Mv_wait = Cond_wait move_cond move_mutex Mv_test"
| "move_code J Mv_unlock = Unlock move_mutex Mv_check"
| "move_code J Mv_check = If_then (\<lambda>v. save_ret v \<noteq> 0) Mv_done Mv_kind"
| "move_code J Mv_kind = If_then (\<lambda>v. j_encrypt J) En_start Pl_start"
  \<comment> \<open>\<open>encrypt_and_save_buffer\<close>\<close>
| "move_code J En_start = Do (\<lambda>v. v\<lparr>moved_size := 0\<rparr>) En_page"
| "move_code J En_page = Do (encrypt_page J) En_check"
| "move_code J En_check = If_then (\<lambda>v. move_err v = 0) En_moved Er_lock"
| "move_code J En_moved = Do (\<lambda>v. v\<lparr>moved_size := moved_size v + j_page_size J\<rparr>) En_lock"
| "move_code J En_lock = Lock save_mutex En_test"
| "move_code J En_test = If_then (\<lambda>v. save_inc J (save_start v) = save_end v \<and> save_ret v = 0) En_wait En_adv"
| "move_code J En_wait = Cond_wait save_cond save_mutex En_test"
| "move_code J En_adv = Do (\<lambda>v. v\<lparr>save_start := save_inc J (save_start v)\<rparr>) En_unlock"
| "move_code J En_unlock = Unlock save_mutex En_signal"
| "move_code J En_signal = Signal save_cond En_loop"
| "move_code J En_loop = If_then (\<lambda>v. buffer_left v \<and> save_ret v = 0) En_page Mv_check2"
  \<comment> \<open>\<open>save_buffer\<close>\<close>
| "move_code J Pl_start = Do (\<lambda>v. v\<lparr>moved_size := 0\<rparr>) Pl_test"
| "move_code J Pl_test = If_then buffer_left Pl_save Mv_check2"
| "move_code J Pl_save = Do (save_plain_page J) Pl_check"
| "move_code J Pl_check = If_then (\<lambda>v. move_err v = 0) Pl_next Er_lock"
| "move_code J Pl_next = Do (\<lambda>v. v\<lparr>moved_size := moved_size v + j_page_size J\<rparr>) Pl_test"
  \<comment> \<open>the error path of both\<close>
| "move_code J Er_lock = Lock finish_mutex Er_set"
| "move_code J Er_set = Do (\<lambda>v. set_save_ret (move_err v) v) Er_unlock"
| "move_code J Er_unlock = Unlock finish_mutex Er_move"
| "move_code J Er_move = Signal move_cond Er_kind"
| "move_code J Er_kind = If_then (\<lambda>v. j_encrypt J) Er_save Er_finish"
| "move_code J Er_save = Signal save_cond Er_finish"
| "move_code J Er_finish = Signal finish_cond Mv_check2"
  \<comment> \<open>the end of the loop of \<open>move_thread\<close>\<close>
| "move_code J Mv_check2 = If_then (\<lambda>v. save_ret v \<noteq> 0) Mv_done Al_finish"
| "move_code J Al_finish = Lock finish_mutex Al_move"
| "move_code J Al_move = Lock move_mutex Al_adv"
| "move_code J Al_adv = Do (\<lambda>v. v\<lparr>move_end := move_inc (move_end v)\<rparr>) Al_unmove"
| "move_code J Al_unmove = Unlock move_mutex Al_unfinish"
| "move_code J Al_unfinish = Unlock finish_mutex Al_signal"
| "move_code J Al_signal = Signal move_cond Al_signal2"
| "move_code J Al_signal2 = Signal finish_cond Mv_lock"
| "move_code J Mv_done = Exit"

fun save_code :: "('c, 's) job \<Rightarrow> save_pc \<Rightarrow> (('c, 's) shared, save_pc) instr" where
  \<comment> \<open>\<open>save_thread\<close>\<close>
  "save_code J Sv_lock = Lock save_mutex Sv_test"
| "save_code J Sv_test = If_then (\<lambda>v. save_end v = save_start v \<and> save_ret v = 0) Sv_wait Sv_unlock"
| "save_code J Sv_wait = Cond_wait save_cond save_mutex Sv_test"
| "save_code J Sv_unlock = Unlock save_mutex Sv_check"
| "save_code J Sv_check = If_then (\<lambda>v. save_ret v \<noteq> 0) Sv_done Sv_save"
| "save_code J Sv_save = Do (save_encrypted_page J) Sv_error"
| "save_code J Sv_error = If_then (\<lambda>v. save_err v \<noteq> 0) Se_lock Sa_finish"
| "save_code J Se_lock = Lock finish_mutex Se_set"
| "save_code J Se_set = Do (\<lambda>v. set_save_ret (save_err v) v) Se_unlock"
| "save_code J Se_unlock = Unlock finish_mutex Se_move"
| "save_code J Se_move = Signal move_cond Se_save"
| "save_code J Se_save = Signal save_cond Se_finish"
| "save_code J Se_finish = Signal finish_cond Sv_done"
| "save_code J Sa_finish = Lock finish_mutex Sa_save"
| "save_code J Sa_save = Lock save_mutex Sa_adv"
| "save_code J Sa_adv = Do (\<lambda>v. v\<lparr>save_end := save_inc J (save_end v)\<rparr>) Sa_unsave"
| "save_code J Sa_unsave = Unlock save_mutex Sa_unfinish"
| "save_code J Sa_unfinish = Unlock finish_mutex Sa_signal"
| "save_code J Sa_signal = Signal save_cond Sa_signal2"
| "save_code J Sa_signal2 = Signal finish_cond Sv_lock"
| "save_code J Sv_done = Exit"

fun code :: "('c, 's) job \<Rightarrow> pc \<Rightarrow> (('c, 's) shared, pc) instr" where
  "code J (Main_at p) = map_instr Main_at (main_code J p)"
| "code J (Mover_at p) = map_instr Mover_at (move_code J p)"
| "code J (Saver_at p) = map_instr Saver_at (save_code J p)"

section \<open>Running them\<close>

definition goto :: "thread \<Rightarrow> pc \<Rightarrow> ('c, 's) system \<Rightarrow> ('c, 's) system" where
  "goto t p S = S\<lparr>status := (status S)(t := At p)\<rparr>"

inductive step :: "('c, 's) job \<Rightarrow> thread \<Rightarrow> ('c, 's) system \<Rightarrow> ('c, 's) system \<Rightarrow> bool" for J where
  lock: "status S t = At p \<Longrightarrow> code J p = Lock m q \<Longrightarrow> owner S m = None \<Longrightarrow>
    step J t S (goto t q (S\<lparr>owner := (owner S)(m := Some t)\<rparr>))"
| unlock: "status S t = At p \<Longrightarrow> code J p = Unlock m q \<Longrightarrow> step J t S (goto t q (S\<lparr>owner := (owner S)(m := None)\<rparr>))"
| cond_wait: "status S t = At p \<Longrightarrow> code J p = Cond_wait c m q \<Longrightarrow>
    step J t S (S\<lparr>owner := (owner S)(m := None), status := (status S)(t := Asleep c m q)\<rparr>)"
| signal_none: "status S t = At p \<Longrightarrow> code J p = Signal c q \<Longrightarrow> \<forall>u m r. status S u \<noteq> Asleep c m r \<Longrightarrow> step J t S (goto t q S)"
| signal: "status S t = At p \<Longrightarrow> code J p = Signal c q \<Longrightarrow> status S u = Asleep c m r \<Longrightarrow>
    step J t S (goto t q (S\<lparr>status := (status S)(u := Woken m r)\<rparr>))"
| wake: "status S t = Woken m q \<Longrightarrow> owner S m = None \<Longrightarrow> step J t S (goto t q (S\<lparr>owner := (owner S)(m := Some t)\<rparr>))"
| do: "status S t = At p \<Longrightarrow> code J p = Do f q \<Longrightarrow> step J t S (goto t q (S\<lparr>vars := f (vars S)\<rparr>))"
| if_true: "status S t = At p \<Longrightarrow> code J p = If_then b q r \<Longrightarrow> b (vars S) \<Longrightarrow> step J t S (goto t q S)"
| if_false: "status S t = At p \<Longrightarrow> code J p = If_then b q r \<Longrightarrow> \<not> b (vars S) \<Longrightarrow> step J t S (goto t r S)"
| choose_left: "status S t = At p \<Longrightarrow> code J p = Choose q r \<Longrightarrow> step J t S (goto t q S)"
| choose_right: "status S t = At p \<Longrightarrow> code J p = Choose q r \<Longrightarrow> step J t S (goto t r S)"
| join: "status S t = At p \<Longrightarrow> code J p = Join u q \<Longrightarrow> status S u = At r \<Longrightarrow> code J r = Exit \<Longrightarrow> step J t S (goto t q S)"
| spurious: "status S t = Asleep c m q \<Longrightarrow> step J t S (S\<lparr>status := (status S)(t := Woken m q)\<rparr>)"

inductive reachable :: "('c, 's) job \<Rightarrow> ('c, 's) system \<Rightarrow> ('c, 's) system \<Rightarrow> bool" for J S0 where
  reach_start: "reachable J S0 S0"
| reach_step: "reachable J S0 S \<Longrightarrow> step J t S S' \<Longrightarrow> reachable J S0 S'"

section \<open>start_threads\<close>

datatype pthread_call =
    Init_save_mutex | Init_save_cond | Init_move_mutex | Init_move_cond
  | Create_save_thread | Create_move_thread | Init_finish_mutex | Init_finish_cond

definition thread_calls :: "('c, 's) job \<Rightarrow> pthread_call list" where
  "thread_calls J =
     (if j_encrypt J then [Init_save_mutex, Init_save_cond] else []) @ [Init_move_mutex, Init_move_cond] @
     (if j_encrypt J then [Create_save_thread] else []) @ [Create_move_thread, Init_finish_mutex, Init_finish_cond]"

text \<open>Whether threads are used, and the variables. The calls answer \<open>pth\<close>; after the first failure everything
  is taken down again. \<open>save_ret\<close> is not set unless threads have to be stopped.\<close>

definition start_threads :: "('c, 's) job \<Rightarrow> (pthread_call \<Rightarrow> int) \<Rightarrow> ('c, 's) shared \<Rightarrow> bool \<times> ('c, 's) shared" where
  "start_threads J pth v =
     (let v = v\<lparr>save_start := 0, save_end := 0, move_start := 0, move_end := 0\<rparr>
      in case find (\<lambda>c. pth c \<noteq> 0) (thread_calls J) of
           None \<Rightarrow> (True, v)
         | Some c \<Rightarrow>
             (False, if c \<in> {Init_finish_mutex, Init_finish_cond} \<or> c = Create_move_thread \<and> j_encrypt J
                     then v\<lparr>save_ret := FORCE_EXIT\<rparr> else v))"

text \<open>The threads as \<open>save_image\<close> starts them; the save thread exists only with encryption.\<close>

definition running :: "('c, 's) job \<Rightarrow> ('c, 's) shared \<Rightarrow> ('c, 's) system" where
  "running J v =
     \<lparr>vars = v\<lparr>todo := j_blocks J\<rparr>, owner = Map.empty,
      status = (\<lambda>t. At (case t of Main \<Rightarrow> Main_at M_loop | Mover \<Rightarrow> Mover_at Mv_lock
                           | Saver \<Rightarrow> Saver_at (if j_encrypt J then Sv_lock else Sv_done)))\<rparr>"

end
