(* ===== verification/Threads_Pages.thy ===== *)
theory Threads_Pages
  imports Threads
begin

text \<open>
  What the threads guarantee, by an invariant over the steps. The indices wrap around, so the invariant
  counts instead: buffers handed over and processed, pages put into the buffer for encrypted pages and
  saved from it.
\<close>

section \<open>The pages in order\<close>

primrec bufs_after :: "('c, 's) job \<Rightarrow> write_buffer list \<Rightarrow> nat \<Rightarrow> write_buffer list" where
  "bufs_after J bs 0 = bs"
| "bufs_after J bs (Suc m) =
     (bufs_after J bs m)[m mod WRITE_BUFFERS := fill_buffer (j_blocks J ! m) (bufs_after J bs m ! (m mod WRITE_BUFFERS))]"

definition handed :: "('c, 's) job \<Rightarrow> write_buffer list \<Rightarrow> nat \<Rightarrow> write_buffer" where
  "handed J bs j = bufs_after J bs (Suc j) ! (j mod WRITE_BUFFERS)"

definition buffer_pages :: "('c, 's) job \<Rightarrow> write_buffer \<Rightarrow> byte list list" where
  "buffer_pages J b =
     map (\<lambda>i. take (j_page_size J) (drop (j_page_size J * i) (wb_start b)))
       [0..<(wb_size b + j_page_size J - 1) div j_page_size J]"

definition all_pages :: "('c, 's) job \<Rightarrow> write_buffer list \<Rightarrow> nat \<Rightarrow> byte list list" where
  "all_pages J bs j = concat (map (\<lambda>i. buffer_pages J (handed J bs i)) [0..<j])"

text \<open>What one thread would do with them: encrypt a page, save it, go on to the next.\<close>

fun write_pages :: "('c, 's) job \<Rightarrow> byte list list \<Rightarrow> 'c \<Rightarrow> 's \<Rightarrow> int \<times> 'c \<times> 's" where
  "write_pages J [] c s = (0, c, s)"
| "write_pages J (p # ps) c s =
     (let ((error, p), c) = (if j_encrypt J then j_gcry_encrypt J p c else ((0, p), c))
      in if error \<noteq> 0 then (error, c, s)
         else let (error, s) = j_save_page J p s
              in if error \<noteq> 0 then (error, c, s) else write_pages J ps c s)"

text \<open>The same page by page, the calls of one library after each other.\<close>

primrec cipher_after :: "('c, 's) job \<Rightarrow> byte list list \<Rightarrow> 'c \<Rightarrow> nat \<Rightarrow> 'c" where
  "cipher_after J ps c 0 = c"
| "cipher_after J ps c (Suc j) = snd (j_gcry_encrypt J (ps ! j) (cipher_after J ps c j))"

definition enc_page :: "('c, 's) job \<Rightarrow> byte list list \<Rightarrow> 'c \<Rightarrow> nat \<Rightarrow> byte list" where
  "enc_page J ps c j = snd (fst (j_gcry_encrypt J (ps ! j) (cipher_after J ps c j)))"

definition enc_err :: "('c, 's) job \<Rightarrow> byte list list \<Rightarrow> 'c \<Rightarrow> nat \<Rightarrow> int" where
  "enc_err J ps c j = fst (fst (j_gcry_encrypt J (ps ! j) (cipher_after J ps c j)))"

primrec swap_after :: "('c, 's) job \<Rightarrow> (nat \<Rightarrow> byte list) \<Rightarrow> 's \<Rightarrow> nat \<Rightarrow> 's" where
  "swap_after J f s 0 = s"
| "swap_after J f s (Suc j) = snd (j_save_page J (f j) (swap_after J f s j))"

definition swap_err :: "('c, 's) job \<Rightarrow> (nat \<Rightarrow> byte list) \<Rightarrow> 's \<Rightarrow> nat \<Rightarrow> int" where
  "swap_err J f s j = fst (j_save_page J (f j) (swap_after J f s j))"

definition stored_page :: "('c, 's) job \<Rightarrow> byte list list \<Rightarrow> 'c \<Rightarrow> nat \<Rightarrow> byte list" where
  "stored_page J ps c j = (if j_encrypt J then enc_page J ps c j else ps ! j)"

lemma cipher_after_shift: "cipher_after J (p # ps) c (Suc j) = cipher_after J ps (snd (j_gcry_encrypt J p c)) j"
  by (induction j) simp_all

lemma swap_after_shift: "swap_after J f s (Suc j) = swap_after J (\<lambda>i. f (Suc i)) (snd (j_save_page J (f 0) s)) j"
  by (induction j) simp_all

lemma swap_after_cong: "(\<And>i. i < j \<Longrightarrow> f i = g i) \<Longrightarrow> swap_after J f s j = swap_after J g s j"
  by (induction j) simp_all

lemma enc_err_shift: "enc_err J (p # ps) c (Suc j) = enc_err J ps (snd (j_gcry_encrypt J p c)) j"
  by (simp add: enc_err_def cipher_after_shift del: cipher_after.simps(2))

lemma write_pages_all:
  assumes "j_encrypt J \<Longrightarrow> \<forall>j<length ps. enc_err J ps c j = 0"
    and "\<forall>j<length ps. swap_err J (stored_page J ps c) s j = 0"
  shows "write_pages J ps c s =
    (0, if j_encrypt J then cipher_after J ps c (length ps) else c, swap_after J (stored_page J ps c) s (length ps))"
  using assms
proof (induction ps arbitrary: c s)
  case Nil
  then show ?case by simp
next
  case (Cons p ps)
  define c1 where "c1 = (if j_encrypt J then snd (j_gcry_encrypt J p c) else c)"
  define p1 where "p1 = (if j_encrypt J then snd (fst (j_gcry_encrypt J p c)) else p)"
  define s1 where "s1 = snd (j_save_page J p1 s)"
  have shift: "stored_page J (p # ps) c (Suc j) = stored_page J ps c1 j" "stored_page J (p # ps) c 0 = p1" for j
    by (simp_all add: stored_page_def enc_page_def cipher_after_shift c1_def p1_def del: cipher_after.simps(2))
  have e0: "j_encrypt J \<Longrightarrow> fst (fst (j_gcry_encrypt J p c)) = 0"
    using Cons.prems(1) by (force simp: enc_err_def)
  have s0: "fst (j_save_page J p1 s) = 0"
    using Cons.prems(2) shift(2) by (force simp: swap_err_def)
  have err: "swap_err J (stored_page J (p # ps) c) s (Suc j) = swap_err J (stored_page J ps c1) s1 j" for j
    by (simp add: swap_err_def swap_after_shift shift s1_def del: swap_after.simps(2))
  have "j_encrypt J \<Longrightarrow> \<forall>j<length ps. enc_err J ps c1 j = 0"
    using Cons.prems(1) by (metis Suc_less_eq c1_def enc_err_shift length_Cons)
  moreover have "\<forall>j<length ps. swap_err J (stored_page J ps c1) s1 j = 0"
    using Cons.prems(2) err by (metis Suc_less_eq length_Cons)
  ultimately have "write_pages J ps c1 s1 = (0, if j_encrypt J then cipher_after J ps c1 (length ps) else c1,
      swap_after J (stored_page J ps c1) s1 (length ps))"
    by (rule Cons.IH)
  moreover have "write_pages J (p # ps) c s = write_pages J ps c1 s1"
    using e0 s0 by (auto simp: c1_def p1_def s1_def case_prod_beta Let_def split: prod.split if_splits)
  ultimately show ?case
    by (simp add: cipher_after_shift swap_after_shift shift s1_def c1_def del: cipher_after.simps(2) swap_after.simps(2))
qed

section \<open>The buffers\<close>

lemma length_bufs_after [simp]: "length (bufs_after J bs m) = length bs"
  by (induction m) simp_all

lemma mod_eq_close:
  fixes d e n :: nat
  assumes "d \<le> e" "e < d + n"
  shows "d mod n = e mod n \<longleftrightarrow> d = e"
proof
  assume "d mod n = e mod n"
  then have "n dvd e - d" using assms(1) by (metis mod_eq_dvd_iff_nat)
  then show "d = e" using assms by (cases "e - d = 0") (auto dest: dvd_imp_le)
qed simp

lemma mod_buffers_neq: "j < m \<Longrightarrow> m < j + WRITE_BUFFERS \<Longrightarrow> j mod WRITE_BUFFERS \<noteq> m mod WRITE_BUFFERS"
  using mod_eq_close [of j m WRITE_BUFFERS] by simp

lemma bufs_after_nth:
  assumes "j < m" "m \<le> j + WRITE_BUFFERS"
  shows "bufs_after J bs m ! (j mod WRITE_BUFFERS) = handed J bs j"
  using assms
proof (induction m)
  case (Suc m)
  show ?case
  proof (cases "m = j")
    case True
    then show ?thesis by (simp add: handed_def)
  next
    case False
    then have "j mod WRITE_BUFFERS \<noteq> m mod WRITE_BUFFERS" using Suc.prems by (intro mod_buffers_neq) auto
    then show ?thesis using Suc False by simp
  qed
qed simp

lemma handed_size: "length bs = WRITE_BUFFERS \<Longrightarrow> wb_size (handed J bs j) = length (j_blocks J ! j)"
  by (simp add: handed_def fill_buffer_def WRITE_BUFFERS_def)

definition pages_before :: "('c, 's) job \<Rightarrow> write_buffer list \<Rightarrow> nat \<Rightarrow> nat" where
  "pages_before J bs j = length (all_pages J bs j)"

definition pages_in :: "('c, 's) job \<Rightarrow> nat \<Rightarrow> nat" where
  "pages_in J j = (length (j_blocks J ! j) + j_page_size J - 1) div j_page_size J"

lemma all_pages_Suc: "all_pages J bs (Suc j) = all_pages J bs j @ buffer_pages J (handed J bs j)"
  by (simp add: all_pages_def)

lemma length_buffer_pages:
  "length bs = WRITE_BUFFERS \<Longrightarrow> length (buffer_pages J (handed J bs j)) = pages_in J j"
  by (simp add: buffer_pages_def handed_size pages_in_def)

lemma pages_before_simps:
  "pages_before J bs 0 = 0"
  "length bs = WRITE_BUFFERS \<Longrightarrow> pages_before J bs (Suc j) = pages_before J bs j + pages_in J j"
  by (simp_all add: pages_before_def all_pages_Suc length_buffer_pages) (simp add: all_pages_def)

lemma all_pages_split:
  "j \<le> m \<Longrightarrow> \<exists>rest. all_pages J bs m = all_pages J bs j @ rest"
  by (induction m) (auto simp: all_pages_Suc le_Suc_eq)

lemma page_nth:
  assumes "length bs = WRITE_BUFFERS" and "j < m" and "k < pages_in J j"
  shows "all_pages J bs m ! (pages_before J bs j + k)
    = take (j_page_size J) (drop (j_page_size J * k) (wb_start (handed J bs j)))"
proof -
  obtain rest where "all_pages J bs m = (all_pages J bs j @ buffer_pages J (handed J bs j)) @ rest"
    using all_pages_split [of "Suc j" m J bs] assms(2) by (auto simp: all_pages_Suc)
  then show ?thesis
    using assms length_buffer_pages [OF assms(1), of J j]
    by (simp add: pages_before_def nth_append) (simp add: buffer_pages_def handed_size pages_in_def)
qed

lemma pages_in_less: "0 < j_page_size J \<Longrightarrow> j_page_size J * k < length (j_blocks J ! j) \<longleftrightarrow> k < pages_in J j"
  by (auto simp: pages_in_def less_eq_Suc_le [of k] less_eq_div_iff_mult_less_eq algebra_simps)

lemma offset_inc:
  "save_inc J (j_page_size J * (e mod j_encrypt_pages J)) = j_page_size J * (Suc e mod j_encrypt_pages J)"
proof -
  have "j_page_size J * (e mod j_encrypt_pages J) + j_page_size J = j_page_size J * Suc (e mod j_encrypt_pages J)" by simp
  then show ?thesis
    by (simp add: save_inc_def encrypt_buf_len_def mult.commute [of "j_encrypt_pages J"] mod_Suc_eq mult_mod_right [symmetric]
        del: mult_Suc_right)
qed

lemma offset_eq:
  assumes "0 < j_page_size J" "d \<le> e" "e < d + j_encrypt_pages J"
  shows "j_page_size J * (d mod j_encrypt_pages J) = j_page_size J * (e mod j_encrypt_pages J) \<longleftrightarrow> d = e"
  using assms mod_eq_close [of d e "j_encrypt_pages J"] by simp

end
