(* ===== verification/Threads_Inv.thy ===== *)
theory Threads_Inv
  imports Threads_Pages
begin

text \<open>
  An assertion for every place of the three threads of \<open>Threads\<close>, over counters that do not wrap around, and
  the proof that every step of one thread keeps its own assertion and those of the two others.
\<close>

section \<open>The invariant\<close>

text \<open>Buffers handed over and processed, encrypted (or, without encryption, saved) pages, pages taken from
  the buffer for encrypted pages, and pages of the current buffer that are done.\<close>

record counts =
  n_in :: nat
  n_out :: nat
  n_enc :: nat
  n_saved :: nat
  n_cur :: nat

definition count_step :: "pc \<Rightarrow> counts \<Rightarrow> counts" where
  "count_step p g =
     (if p = Main_at M_adv then g\<lparr>n_in := n_in g + 1\<rparr>
      else if p = Mover_at Al_adv then g\<lparr>n_out := n_out g + 1\<rparr>
      else if p = Mover_at En_adv then g\<lparr>n_enc := n_enc g + 1\<rparr>
      else if p = Mover_at Pl_next then g\<lparr>n_enc := n_enc g + 1, n_cur := n_cur g + 1\<rparr>
      else if p = Mover_at En_moved then g\<lparr>n_cur := n_cur g + 1\<rparr>
      else if p = Mover_at En_start \<or> p = Mover_at Pl_start then g\<lparr>n_cur := 0\<rparr>
      else if p = Saver_at Sa_adv then g\<lparr>n_saved := n_saved g + 1\<rparr>
      else g)"

lemma count_step_simps [simp]:
  "n_in (count_step p g) = n_in g + of_bool (p = Main_at M_adv)"
  "n_out (count_step p g) = n_out g + of_bool (p = Mover_at Al_adv)"
  "n_enc (count_step p g) = n_enc g + of_bool (p = Mover_at En_adv \<or> p = Mover_at Pl_next)"
  "n_saved (count_step p g) = n_saved g + of_bool (p = Saver_at Sa_adv)"
  "n_cur (count_step p g) =
     (if p = Mover_at En_start \<or> p = Mover_at Pl_start then 0 else n_cur g + of_bool (p = Mover_at Pl_next \<or> p = Mover_at En_moved))"
  by (auto simp: count_step_def)

definition complete :: "('c, 's) job \<Rightarrow> counts \<Rightarrow> bool" where
  "complete J g \<longleftrightarrow> n_in g = length (j_blocks J) \<and> n_out g = n_in g \<and> (j_encrypt J \<longrightarrow> n_saved g = n_enc g)"

lemma complete_count_step [simp]:
  "p \<notin> {Main_at M_adv, Mover_at Al_adv, Mover_at En_adv, Mover_at Pl_next, Saver_at Sa_adv} \<Longrightarrow>
    complete J (count_step p g) = complete J g"
  by (simp add: complete_def)

definition filling :: "main_pc set" where "filling = {M_loop, M_abort, M_more, M_fill, M_lock, M_test, M_wait, M_adv}"
definition filled :: "main_pc set" where "filled = {M_lock, M_test, M_wait, M_adv}"
definition finishing :: "main_pc set" where
  "finishing = {Fin_lock, Fin_test1, Fin_test2, Fin_test3, Fin_wait, Fin_unlock, Fin_ret}"
definition stopping :: "main_pc set" where
  "stopping = {Stop_lock, Stop_set, Stop_unlock, Stop_move, Stop_join_move, Stop_encrypt, Stop_save, Stop_join_save, M_done}"

definition main_inv :: "('c, 's) job \<Rightarrow> write_buffer list \<Rightarrow> counts \<Rightarrow> ('c, 's) shared \<Rightarrow> main_pc \<Rightarrow> bool" where
  "main_inv J bs g v p \<longleftrightarrow>
     n_out g \<le> n_in g \<and> n_in g \<le> n_out g + WRITE_BUFFERS \<and> move_start v = n_in g mod WRITE_BUFFERS \<and>
     n_in g + of_bool (p \<in> filled) \<le> length (j_blocks J) \<and>
     todo v = drop (n_in g + of_bool (p \<in> filled)) (j_blocks J) \<and>
     write_buffers v = bufs_after J bs (n_in g + of_bool (p \<in> filled)) \<and>
     (n_in g = n_out g + WRITE_BUFFERS \<longrightarrow> save_ret v \<noteq> 0 \<and> p \<notin> filling \<and> (p \<in> {M_after, M_again} \<longrightarrow> result v \<noteq> 0)) \<and>
     (p = M_adv \<and> n_in g + 1 = n_out g + WRITE_BUFFERS \<longrightarrow> save_ret v \<noteq> 0) \<and>
     (p = M_fill \<longrightarrow> todo v \<noteq> []) \<and>
     (p \<in> finishing \<longrightarrow> todo v = []) \<and>
     (p = Fin_test2 \<and> j_encrypt J \<longrightarrow> n_saved g = n_enc g \<or> n_out g < n_in g) \<and>
     (p \<in> {Fin_unlock, Fin_ret} \<and> save_ret v = 0 \<longrightarrow> complete J g) \<and>
     (p \<in> stopping \<and> result v = 0 \<longrightarrow> complete J g) \<and>
     (p \<in> stopping - {Stop_lock, Stop_set} \<longrightarrow> save_ret v \<noteq> 0)"

definition idle :: "move_pc set" where
  "idle = {Mv_lock, Mv_test, Mv_wait, Mv_unlock, Mv_check, Mv_kind, En_start, Pl_start,
     Al_unmove, Al_unfinish, Al_signal, Al_signal2}"
definition in_page :: "move_pc set" where "in_page = {En_page, En_check, En_moved, Pl_save, Pl_check, Pl_next}"
definition encrypted :: "move_pc set" where "encrypted = {En_check, En_moved, En_lock, En_test, En_wait, En_adv}"
definition putting :: "move_pc set" where "putting = {En_lock, En_test, En_wait, En_adv}"
definition put :: "move_pc set" where "put = {En_unlock, En_signal, En_loop, Pl_test}"
definition reporting :: "move_pc set" where
  "reporting = {Er_lock, Er_set, Er_unlock, Er_move, Er_kind, Er_save, Er_finish}"
definition advancing :: "move_pc set" where "advancing = {Al_finish, Al_move, Al_adv}"
definition encrypting :: "move_pc set" where
  "encrypting = {En_start, En_page, En_check, En_moved, En_lock, En_test, En_wait, En_adv, En_unlock, En_signal, En_loop}"
definition plain :: "move_pc set" where "plain = {Pl_start, Pl_test, Pl_save, Pl_check, Pl_next}"

text \<open>An error has been seen; the library state may be off by the failed call.\<close>

definition off :: "counts \<Rightarrow> ('c, 's) shared \<Rightarrow> move_pc \<Rightarrow> bool" where
  "off g v p \<longleftrightarrow> p \<in> reporting \<or> p = Mv_check2 \<and> save_ret v \<noteq> 0 \<or> p = Mv_done \<and> n_out g < n_in g"

definition position_inv :: "('c, 's) job \<Rightarrow> write_buffer list \<Rightarrow> counts \<Rightarrow> ('c, 's) shared \<Rightarrow> move_pc \<Rightarrow> bool" where
  "position_inv J bs g v p \<longleftrightarrow>
     (p \<in> idle \<longrightarrow> n_enc g = pages_before J bs (n_out g)) \<and>
     (p \<in> in_page \<union> put \<longrightarrow> n_enc g = pages_before J bs (n_out g) + n_cur g) \<and>
     (p \<in> in_page \<longrightarrow> n_cur g < pages_in J (n_out g)) \<and>
     (p \<in> putting \<longrightarrow> n_enc g + 1 = pages_before J bs (n_out g) + n_cur g) \<and>
     (p \<in> putting \<union> put \<longrightarrow> n_cur g \<le> pages_in J (n_out g)) \<and>
     (p \<in> in_page \<union> putting \<union> put \<longrightarrow> moved_size v = j_page_size J * n_cur g) \<and>
     (p \<in> advancing \<longrightarrow> n_enc g = pages_before J bs (n_out g + 1)) \<and>
     (p = Mv_check2 \<and> save_ret v = 0 \<longrightarrow> n_enc g = pages_before J bs (n_out g + 1)) \<and>
     (p = Mv_done \<longrightarrow> n_out g < n_in g \<or> n_enc g = pages_before J bs (n_out g))"

definition cipher_inv ::
  "('c, 's) job \<Rightarrow> byte list list \<Rightarrow> 'c \<Rightarrow> counts \<Rightarrow> ('c, 's) shared \<Rightarrow> move_pc \<Rightarrow> bool" where
  "cipher_inv J ps c g v p \<longleftrightarrow>
     save_start v = j_page_size J * (n_enc g mod j_encrypt_pages J) \<and>
     n_saved g \<le> n_enc g \<and> n_enc g \<le> n_saved g + j_encrypt_pages J \<and>
     (n_enc g = n_saved g + j_encrypt_pages J \<longrightarrow>
        save_ret v \<noteq> 0 \<and> n_out g < n_in g \<and> p \<in> {En_unlock, En_signal, En_loop, Mv_check2, Mv_done}) \<and>
     (p = En_adv \<and> n_enc g + 1 = n_saved g + j_encrypt_pages J \<longrightarrow> save_ret v \<noteq> 0) \<and>
     (off g v p \<or> cipher_state v = cipher_after J ps c (n_enc g + of_bool (p \<in> encrypted))) \<and>
     (\<forall>j < n_enc g + of_bool (p \<in> encrypted - {En_check}). enc_err J ps c j = 0) \<and>
     (p = En_check \<longrightarrow> move_err v = enc_err J ps c (n_enc g)) \<and>
     (\<forall>j. n_saved g \<le> j \<and> j < n_enc g + of_bool (p \<in> encrypted) \<longrightarrow>
        encrypt_buf v (j_page_size J * (j mod j_encrypt_pages J)) = enc_page J ps c j)"

definition plain_inv ::
  "('c, 's) job \<Rightarrow> byte list list \<Rightarrow> 'c \<Rightarrow> 's \<Rightarrow> counts \<Rightarrow> ('c, 's) shared \<Rightarrow> move_pc \<Rightarrow> bool" where
  "plain_inv J ps c s g v p \<longleftrightarrow>
     save_start v = save_end v \<and> cipher_state v = c \<and>
     (off g v p \<or> swap_state v = swap_after J ((!) ps) s (n_enc g + of_bool (p \<in> {Pl_check, Pl_next}))) \<and>
     (\<forall>j < n_enc g + of_bool (p = Pl_next). swap_err J ((!) ps) s j = 0) \<and>
     (p = Pl_check \<longrightarrow> move_err v = swap_err J ((!) ps) s (n_enc g))"

definition move_inv ::
  "('c, 's) job \<Rightarrow> write_buffer list \<Rightarrow> 'c \<Rightarrow> 's \<Rightarrow> counts \<Rightarrow> ('c, 's) shared \<Rightarrow> move_pc \<Rightarrow> bool" where
  "move_inv J bs c s g v p \<longleftrightarrow>
     move_end v = n_out g mod WRITE_BUFFERS \<and>
     (p \<in> encrypting \<union> plain \<union> reporting \<union> advancing \<union> {Mv_kind, Mv_check2} \<longrightarrow> n_out g < n_in g) \<and>
     (p \<in> {Mv_unlock, Mv_check} \<longrightarrow> n_out g < n_in g \<or> save_ret v \<noteq> 0) \<and>
     (p \<in> {Er_lock, Er_set} \<longrightarrow> move_err v \<noteq> 0) \<and>
     (p \<in> reporting - {Er_lock, Er_set} \<union> {Mv_done} \<longrightarrow> save_ret v \<noteq> 0) \<and>
     (p \<in> encrypting \<longrightarrow> j_encrypt J) \<and> (p \<in> plain \<longrightarrow> \<not> j_encrypt J) \<and>
     position_inv J bs g v p \<and>
     (if j_encrypt J then cipher_inv J (all_pages J bs (length (j_blocks J))) c g v p
      else plain_inv J (all_pages J bs (length (j_blocks J))) c s g v p)"

definition saved :: "save_pc set" where "saved = {Sa_finish, Sa_save, Sa_adv}"
definition failing :: "save_pc set" where "failing = {Se_lock, Se_set, Se_unlock, Se_move, Se_save, Se_finish}"

definition save_inv ::
  "('c, 's) job \<Rightarrow> (nat \<Rightarrow> byte list) \<Rightarrow> 's \<Rightarrow> counts \<Rightarrow> ('c, 's) shared \<Rightarrow> save_pc \<Rightarrow> bool" where
  "save_inv J f s g v p \<longleftrightarrow>
     (if j_encrypt J then
        save_end v = j_page_size J * (n_saved g mod j_encrypt_pages J) \<and>
        (p \<in> {Sv_save, Sv_error} \<union> saved \<union> failing \<longrightarrow> n_saved g < n_enc g) \<and>
        (p \<in> {Sv_unlock, Sv_check} \<longrightarrow> n_saved g < n_enc g \<or> save_ret v \<noteq> 0) \<and>
        (p \<in> {Se_lock, Se_set} \<longrightarrow> save_err v \<noteq> 0) \<and>
        (p \<in> failing - {Se_lock, Se_set} \<union> {Sv_done} \<longrightarrow> save_ret v \<noteq> 0) \<and>
        (p \<in> failing \<or> p = Sv_done \<and> n_saved g < n_enc g \<or>
           swap_state v = swap_after J f s (n_saved g + of_bool (p \<in> insert Sv_error saved))) \<and>
        (\<forall>j < n_saved g + of_bool (p \<in> saved). swap_err J f s j = 0) \<and>
        (p = Sv_error \<longrightarrow> save_err v = swap_err J f s (n_saved g))
      else p = Sv_done)"

lemmas pc_sets = filling_def filled_def finishing_def stopping_def idle_def in_page_def encrypted_def putting_def put_def
  reporting_def advancing_def encrypting_def plain_def saved_def failing_def


section \<open>One thread moves\<close>

fun next_states :: "('s, 'pc) instr \<Rightarrow> 's \<Rightarrow> ('s \<times> 'pc) set" where
  "next_states (Lock m q) v = {(v, q)}"
| "next_states (Unlock m q) v = {(v, q)}"
| "next_states (Cond_wait c m q) v = {(v, q)}"
| "next_states (Signal c q) v = {(v, q)}"
| "next_states (Do f q) v = {(f v, q)}"
| "next_states (If_then b q r) v = {(v, if b v then q else r)}"
| "next_states (Choose q r) v = {(v, q), (v, r)}"
| "next_states (Join t q) v = {(v, q)}"
| "next_states Exit v = {}"

definition job_ok :: "('c, 's) job \<Rightarrow> write_buffer list \<Rightarrow> bool" where
  "job_ok J bs \<longleftrightarrow> 0 < j_page_size J \<and> 0 < j_encrypt_pages J \<and> length bs = WRITE_BUFFERS \<and> (\<forall>b \<in> set (j_blocks J). b \<noteq> [])"

lemma set_save_ret_simps [simp]:
  "save_ret (set_save_ret e v) = (if save_ret v = 0 then e else save_ret v)"
  "save_start (set_save_ret e v) = save_start v" "save_end (set_save_ret e v) = save_end v"
  "move_start (set_save_ret e v) = move_start v" "move_end (set_save_ret e v) = move_end v"
  "write_buffers (set_save_ret e v) = write_buffers v" "encrypt_buf (set_save_ret e v) = encrypt_buf v"
  "cipher_state (set_save_ret e v) = cipher_state v" "swap_state (set_save_ret e v) = swap_state v"
  "moved_size (set_save_ret e v) = moved_size v" "move_err (set_save_ret e v) = move_err v"
  "save_err (set_save_ret e v) = save_err v" "todo (set_save_ret e v) = todo v" "result (set_save_ret e v) = result v"
  by (simp_all add: set_save_ret_def)

lemma hand_over_bufs:
  assumes "todo v = drop m (j_blocks J)" "todo v \<noteq> []" "write_buffers v = bufs_after J bs m" "move_start v = m mod WRITE_BUFFERS"
  shows "write_buffers (hand_over v) = bufs_after J bs (Suc m)" "todo (hand_over v) = drop (Suc m) (j_blocks J)"
    "Suc m \<le> length (j_blocks J)"
proof -
  have m: "m < length (j_blocks J)" using assms(1,2) by simp
  then show "write_buffers (hand_over v) = bufs_after J bs (Suc m)"
    by (simp add: hand_over_def assms(1,3,4) hd_drop_conv_nth)
  show "todo (hand_over v) = drop (Suc m) (j_blocks J)"
    by (simp add: hand_over_def assms(1) drop_Suc tl_drop)
  show "Suc m \<le> length (j_blocks J)" using m by simp
qed

lemma hand_over_simps [simp]:
  "save_ret (hand_over v) = save_ret v"
  "save_start (hand_over v) = save_start v" "save_end (hand_over v) = save_end v"
  "move_start (hand_over v) = move_start v" "move_end (hand_over v) = move_end v"
  "encrypt_buf (hand_over v) = encrypt_buf v"
  "cipher_state (hand_over v) = cipher_state v" "swap_state (hand_over v) = swap_state v"
  "moved_size (hand_over v) = moved_size v" "move_err (hand_over v) = move_err v"
  "save_err (hand_over v) = save_err v" "result (hand_over v) = result v"
  by (simp_all add: hand_over_def)

lemma move_inc_mod: "move_inc (i mod WRITE_BUFFERS) = Suc i mod WRITE_BUFFERS"
  by (simp add: move_inc_def mod_Suc_eq)

lemma ring_empty:
  assumes "job_ok J bs" "move_inv J bs c s g v q" "save_inv J f s g v r" "j_encrypt J" "save_end v = save_start v"
  shows "n_saved g = n_enc g \<or> n_out g < n_in g"
proof -
  have "save_start v = j_page_size J * (n_enc g mod j_encrypt_pages J)" "n_saved g \<le> n_enc g"
    "n_enc g \<le> n_saved g + j_encrypt_pages J" "n_enc g = n_saved g + j_encrypt_pages J \<longrightarrow> n_out g < n_in g"
    using assms(2,4) by (simp_all add: move_inv_def cipher_inv_def)
  moreover have "save_end v = j_page_size J * (n_saved g mod j_encrypt_pages J)" using assms(3,4) by (simp add: save_inv_def)
  moreover have "0 < j_page_size J" using assms(1) by (simp add: job_ok_def)
  ultimately show ?thesis
    using assms(5) offset_eq [of J "n_saved g" "n_enc g"] by (metis le_neq_implies_less)
qed

lemma buffers_empty:
  assumes "main_inv J bs g v p" "move_inv J bs c s g v q" "move_start v = move_end v" "save_ret v = 0"
  shows "n_out g = n_in g"
proof -
  have "n_out g \<le> n_in g" "n_in g < n_out g + WRITE_BUFFERS" "move_start v = n_in g mod WRITE_BUFFERS"
    using assms(1,4) by (auto simp: main_inv_def le_less)
  moreover have "move_end v = n_out g mod WRITE_BUFFERS" using assms(2) by (simp add: move_inv_def)
  ultimately show ?thesis using assms(3) mod_eq_close by metis
qed

lemma main_inv_main:
  assumes ok: "job_ok J bs" and main: "main_inv J bs g v p" and move: "move_inv J bs c s g v q" and save: "save_inv J f s g v r"
    and nxt: "(v', p') \<in> next_states (main_code J p) v"
  shows "main_inv J bs (count_step (Main_at p) g) v' p'"
proof (cases p)
  case M_fill
  have m: "todo v = drop (n_in g) (j_blocks J)" "todo v \<noteq> []" "write_buffers v = bufs_after J bs (n_in g)"
    "move_start v = n_in g mod WRITE_BUFFERS"
    using main M_fill by (auto simp: main_inv_def pc_sets)
  note hand_over_bufs [OF this]
  then show ?thesis using M_fill main nxt by (simp add: main_inv_def pc_sets)
next
  case M_test
  have "move_end v = n_out g mod WRITE_BUFFERS" using move by (simp add: move_inv_def)
  then show ?thesis using M_test main nxt mod_eq_close [of "n_out g" "Suc (n_in g)" WRITE_BUFFERS]
    by (auto simp: main_inv_def pc_sets move_inc_mod split: if_splits)
next
  case M_adv
  then show ?thesis using main nxt
    by (auto simp: main_inv_def pc_sets move_inc_mod split: if_splits)
next
  case Fin_test1
  then show ?thesis using main nxt ring_empty [OF ok move save]
    by (auto simp: main_inv_def pc_sets split: if_splits)
next
  case Fin_test2
  have "complete J g" if "move_start v = move_end v" "save_ret v = 0"
  proof -
    have "n_out g = n_in g" by (rule buffers_empty [OF main move that])
    with main Fin_test2 show ?thesis by (auto simp: main_inv_def complete_def pc_sets)
  qed
  then show ?thesis using main nxt Fin_test2
    by (cases "move_start v = move_end v") (auto simp: main_inv_def pc_sets)
next
  case Stop_set
  then show ?thesis using main nxt by (simp add: main_inv_def pc_sets FORCE_EXIT_def split: if_splits)
qed (use main nxt in \<open>auto simp: main_inv_def pc_sets split: if_splits\<close>)

text \<open>What a step of one thread leaves alone.\<close>

lemma move_frame:
  assumes "(v', q') \<in> next_states (move_code J q) v"
  shows "todo v' = todo v" "write_buffers v' = write_buffers v" "move_start v' = move_start v" "result v' = result v"
    "save_end v' = save_end v" "save_err v' = save_err v" "save_ret v \<noteq> 0 \<longrightarrow> save_ret v' \<noteq> 0"
    "q \<noteq> Er_set \<longrightarrow> save_ret v' = save_ret v"
  using assms by (cases q; auto simp: encrypt_page_def save_plain_page_def case_prod_beta Let_def)+

lemma save_frame:
  assumes "(v', r') \<in> next_states (save_code J r) v"
  shows "todo v' = todo v" "write_buffers v' = write_buffers v" "move_start v' = move_start v" "result v' = result v"
    "move_end v' = move_end v" "save_start v' = save_start v" "encrypt_buf v' = encrypt_buf v" "cipher_state v' = cipher_state v"
    "moved_size v' = moved_size v" "move_err v' = move_err v" "save_ret v \<noteq> 0 \<longrightarrow> save_ret v' \<noteq> 0"
    "r \<noteq> Se_set \<longrightarrow> save_ret v' = save_ret v"
  using assms by (cases r; auto simp: save_encrypted_page_def case_prod_beta Let_def)+

lemma main_frame:
  assumes "(v', p') \<in> next_states (main_code J p) v"
  shows "move_end v' = move_end v" "save_start v' = save_start v" "encrypt_buf v' = encrypt_buf v" "cipher_state v' = cipher_state v"
    "moved_size v' = moved_size v" "move_err v' = move_err v" "save_end v' = save_end v" "save_err v' = save_err v"
    "swap_state v' = swap_state v" "save_ret v \<noteq> 0 \<longrightarrow> save_ret v' \<noteq> 0"
  using assms by (cases p; auto)+

lemma main_invD:
  assumes "main_inv J bs g v p"
  shows "n_out g \<le> n_in g" "n_in g \<le> n_out g + WRITE_BUFFERS" "move_start v = n_in g mod WRITE_BUFFERS"
    "n_in g + of_bool (p \<in> filled) \<le> length (j_blocks J)" "todo v = drop (n_in g + of_bool (p \<in> filled)) (j_blocks J)"
    "write_buffers v = bufs_after J bs (n_in g + of_bool (p \<in> filled))"
    "n_in g = n_out g + WRITE_BUFFERS \<Longrightarrow> save_ret v \<noteq> 0 \<and> p \<notin> filling \<and> (p \<in> {M_after, M_again} \<longrightarrow> result v \<noteq> 0)"
    "p = M_adv \<Longrightarrow> n_in g + 1 = n_out g + WRITE_BUFFERS \<Longrightarrow> save_ret v \<noteq> 0"
    "p = M_fill \<Longrightarrow> todo v \<noteq> []" "p \<in> finishing \<Longrightarrow> todo v = []"
    "p = Fin_test2 \<Longrightarrow> j_encrypt J \<Longrightarrow> n_saved g = n_enc g \<or> n_out g < n_in g"
    "p \<in> {Fin_unlock, Fin_ret} \<Longrightarrow> save_ret v = 0 \<Longrightarrow> complete J g"
    "p \<in> stopping \<Longrightarrow> result v = 0 \<Longrightarrow> complete J g"
    "p \<in> stopping - {Stop_lock, Stop_set} \<Longrightarrow> save_ret v \<noteq> 0"
  using assms unfolding main_inv_def by blast+

lemma main_inv_stable:
  assumes main: "main_inv J bs g v p" and same: "todo v' = todo v" "write_buffers v' = write_buffers v" "move_start v' = move_start v"
    "result v' = result v" and ret: "save_ret v \<noteq> 0 \<Longrightarrow> save_ret v' \<noteq> 0"
    and cnt: "n_in g' = n_in g" "n_out g \<le> n_out g'" "n_out g' \<le> n_in g" and compl: "complete J g \<Longrightarrow> complete J g'"
    and fin: "p = Fin_test2 \<Longrightarrow> j_encrypt J \<Longrightarrow> n_saved g' = n_enc g' \<or> n_out g' < n_in g'"
  shows "main_inv J bs g' v' p"
proof -
  note D = main_invD [OF main]
  have full: "n_in g = n_out g' + WRITE_BUFFERS \<Longrightarrow> n_in g = n_out g + WRITE_BUFFERS"
    and near: "n_in g + 1 = n_out g' + WRITE_BUFFERS \<Longrightarrow> n_in g = n_out g + WRITE_BUFFERS \<or> n_in g + 1 = n_out g + WRITE_BUFFERS"
    and le: "n_in g \<le> n_out g' + WRITE_BUFFERS"
    using D(1,2) cnt by linarith+
  have M_adv: "p = M_adv \<Longrightarrow> n_in g + 1 = n_out g' + WRITE_BUFFERS \<Longrightarrow> save_ret v' \<noteq> 0"
    using near D(7,8) ret by (auto simp: filling_def)
  show ?thesis
    unfolding main_inv_def same cnt(1)
    by (intro conjI impI; (rule D | rule cnt | rule le | use full D(7) ret in blast | use M_adv in blast
      | use D(9,10) in blast | use fin cnt(1) in force | use D(12-14) compl ret in blast))
qed

lemma main_inv_move:
  assumes main: "main_inv J bs g v p" and move: "move_inv J bs c s g v q"
    and nxt: "(v', q') \<in> next_states (move_code J q) v" and excl: "\<not> (p = Fin_test2 \<and> q = Al_adv)"
  shows "main_inv J bs (count_step (Mover_at q) g) v' p"
proof (rule main_inv_stable [OF main move_frame(1-4) [OF nxt]])
  show "save_ret v \<noteq> 0 \<Longrightarrow> save_ret v' \<noteq> 0" using move_frame(7) [OF nxt] by blast
  have busy: "n_out g < n_in g" if "q \<in> {Al_adv, En_adv, Pl_next}"
    using move that by (auto simp: move_inv_def pc_sets)
  show "n_out (count_step (Mover_at q) g) \<le> n_in g"
    using main_invD(1) [OF main] busy by (cases "q = Al_adv") auto
  show "complete J (count_step (Mover_at q) g)" if "complete J g"
    using that busy by (cases "q \<in> {Al_adv, En_adv, Pl_next}") (auto simp: complete_def)
  show "n_saved (count_step (Mover_at q) g) = n_enc (count_step (Mover_at q) g)
      \<or> n_out (count_step (Mover_at q) g) < n_in (count_step (Mover_at q) g)" if "p = Fin_test2" "j_encrypt J"
    using main_invD(11) [OF main that] that(1) excl busy by (cases "q \<in> {En_adv, Pl_next}") auto
qed simp_all

lemma main_inv_save:
  assumes main: "main_inv J bs g v p" and save: "save_inv J f s g v r" and nxt: "(v', r') \<in> next_states (save_code J r) v"
  shows "main_inv J bs (count_step (Saver_at r) g) v' p"
proof (rule main_inv_stable [OF main save_frame(1-4) [OF nxt]])
  show "save_ret v \<noteq> 0 \<Longrightarrow> save_ret v' \<noteq> 0" using save_frame(11) [OF nxt] by blast
  have busy: "j_encrypt J \<and> n_saved g < n_enc g" if "r = Sa_adv"
    using save that by (simp add: save_inv_def pc_sets split: if_splits)
  show "complete J (count_step (Saver_at r) g)" if "complete J g"
    using that busy by (cases "r = Sa_adv") (auto simp: complete_def)
  show "n_saved (count_step (Saver_at r) g) = n_enc (count_step (Saver_at r) g)
      \<or> n_out (count_step (Saver_at r) g) < n_in (count_step (Saver_at r) g)" if "p = Fin_test2" "j_encrypt J"
    using main_invD(11) [OF main that] busy by (cases "r = Sa_adv") auto
  show "n_out (count_step (Saver_at r) g) \<le> n_in g" using main_invD(1) [OF main] by simp
qed simp_all

lemma current_buffer:
  assumes ok: "job_ok J bs" and main: "main_inv J bs g v p" and "move_end v = n_out g mod WRITE_BUFFERS" "n_out g < n_in g"
  shows "write_buffers v ! move_end v = handed J bs (n_out g)" "n_out g < length (j_blocks J)"
proof -
  note D = main_invD [OF main]
  have "n_in g + of_bool (p \<in> filled) \<le> n_out g + WRITE_BUFFERS"
    using D(2) D(7) by (cases "n_in g = n_out g + WRITE_BUFFERS") (auto simp: filling_def filled_def)
  then show "write_buffers v ! move_end v = handed J bs (n_out g)"
    using assms(3,4) by (simp add: D(6) bufs_after_nth)
  show "n_out g < length (j_blocks J)" using D(4) assms(4) by simp
qed

lemma buffer_left_iff:
  assumes "job_ok J bs" "main_inv J bs g v p" "move_end v = n_out g mod WRITE_BUFFERS" "n_out g < n_in g"
    and "moved_size v = j_page_size J * n_cur g"
  shows "buffer_left v \<longleftrightarrow> n_cur g < pages_in J (n_out g)"
  using assms(1,5) current_buffer [OF assms(1-4)]
  by (simp add: buffer_left_def handed_size job_ok_def pages_in_less)

lemma src_page_eq:
  assumes "job_ok J bs" "main_inv J bs g v p" "move_end v = n_out g mod WRITE_BUFFERS" "n_out g < n_in g"
    and "moved_size v = j_page_size J * n_cur g" "n_cur g < pages_in J (n_out g)"
  shows "src_page J v = all_pages J bs (length (j_blocks J)) ! (pages_before J bs (n_out g) + n_cur g)"
  using assms(1,5,6) current_buffer [OF assms(1-4)] by (simp add: src_page_def job_ok_def page_nth)

lemma pages_in_pos: "job_ok J bs \<Longrightarrow> j < length (j_blocks J) \<Longrightarrow> 0 < pages_in J j"
  using pages_in_less [of J 0 j] by (auto simp: job_ok_def)

lemma move_invD:
  assumes "move_inv J bs c s g v p"
  shows "move_end v = n_out g mod WRITE_BUFFERS"
    "p \<in> encrypting \<union> plain \<union> reporting \<union> advancing \<union> {Mv_kind, Mv_check2} \<Longrightarrow> n_out g < n_in g"
    "p \<in> {Mv_unlock, Mv_check} \<Longrightarrow> n_out g < n_in g \<or> save_ret v \<noteq> 0"
    "p \<in> {Er_lock, Er_set} \<Longrightarrow> move_err v \<noteq> 0"
    "p \<in> reporting - {Er_lock, Er_set} \<union> {Mv_done} \<Longrightarrow> save_ret v \<noteq> 0"
    "p \<in> encrypting \<Longrightarrow> j_encrypt J" "p \<in> plain \<Longrightarrow> \<not> j_encrypt J"
    "position_inv J bs g v p"
    "j_encrypt J \<Longrightarrow> cipher_inv J (all_pages J bs (length (j_blocks J))) c g v p"
    "\<not> j_encrypt J \<Longrightarrow> plain_inv J (all_pages J bs (length (j_blocks J))) c s g v p"
  using assms unfolding move_inv_def by presburger+

lemma position_invD:
  assumes "position_inv J bs g v p"
  shows "p \<in> idle \<Longrightarrow> n_enc g = pages_before J bs (n_out g)"
    "p \<in> in_page \<union> put \<Longrightarrow> n_enc g = pages_before J bs (n_out g) + n_cur g"
    "p \<in> in_page \<Longrightarrow> n_cur g < pages_in J (n_out g)"
    "p \<in> putting \<Longrightarrow> n_enc g + 1 = pages_before J bs (n_out g) + n_cur g"
    "p \<in> putting \<union> put \<Longrightarrow> n_cur g \<le> pages_in J (n_out g)"
    "p \<in> in_page \<union> putting \<union> put \<Longrightarrow> moved_size v = j_page_size J * n_cur g"
    "p \<in> advancing \<Longrightarrow> n_enc g = pages_before J bs (n_out g + 1)"
    "p = Mv_check2 \<Longrightarrow> save_ret v = 0 \<Longrightarrow> n_enc g = pages_before J bs (n_out g + 1)"
    "p = Mv_done \<Longrightarrow> n_out g < n_in g \<or> n_enc g = pages_before J bs (n_out g)"
  using assms unfolding position_inv_def by presburger+

lemma position_inv_move:
  assumes ok: "job_ok J bs" and main: "main_inv J bs g v p" and move: "move_inv J bs c s g v q"
    and nxt: "(v', q') \<in> next_states (move_code J q) v"
  shows "position_inv J bs (count_step (Mover_at q) g) v' q'"
proof -
  note D = move_invD [OF move]
  have len: "length bs = WRITE_BUFFERS" using ok by (simp add: job_ok_def)
  consider "q \<in> {En_start, Pl_start}" | "q \<in> {En_loop, Pl_test}" | "q \<notin> {En_start, Pl_start, En_loop, Pl_test}" by blast
  then show ?thesis
  proof cases
    case 1
    then have "n_out g < n_in g" and pos: "n_enc g = pages_before J bs (n_out g)"
      using D(2) position_invD(1) [OF D(8)] by (auto simp: encrypting_def plain_def idle_def)
    then have "0 < pages_in J (n_out g)" using current_buffer(2) [OF ok main D(1)] pages_in_pos [OF ok] by blast
    with pos show ?thesis using 1 nxt by (cases "q = En_start") (simp_all add: position_inv_def pc_sets)
  next
    case 2
    then have put: "q \<in> put" and less: "n_out g < n_in g"
      using D(2) by (auto simp: put_def encrypting_def plain_def)
    note pos = position_invD(2,5,6) [OF D(8)]
    have moved: "moved_size v = j_page_size J * n_cur g" using put pos(3) by blast
    have "buffer_left v \<longleftrightarrow> n_cur g < pages_in J (n_out g)" by (rule buffer_left_iff [OF ok main D(1) less moved])
    moreover have "n_enc g = pages_before J bs (n_out g) + n_cur g" "n_cur g \<le> pages_in J (n_out g)"
      using put pos(1,2) by blast+
    ultimately show ?thesis using 2 nxt moved pages_before_simps(2) [OF len, of J "n_out g"]
      by (cases "q = En_loop"; cases "n_cur g < pages_in J (n_out g)"; cases "save_ret v = 0")
        (simp_all add: position_inv_def pc_sets)
  next
    case 3
    then show ?thesis using nxt D(2,5,8)
      by (cases q) (auto simp: position_inv_def pc_sets set_save_ret_def encrypt_page_def save_plain_page_def Let_def
          split: if_splits prod.splits)
  qed
qed

lemma cipher_invD:
  assumes "cipher_inv J ps c g v p"
  shows "save_start v = j_page_size J * (n_enc g mod j_encrypt_pages J)" "n_saved g \<le> n_enc g"
    "n_enc g \<le> n_saved g + j_encrypt_pages J"
    "n_enc g = n_saved g + j_encrypt_pages J \<Longrightarrow>
      save_ret v \<noteq> 0 \<and> n_out g < n_in g \<and> p \<in> {En_unlock, En_signal, En_loop, Mv_check2, Mv_done}"
    "p = En_adv \<Longrightarrow> n_enc g + 1 = n_saved g + j_encrypt_pages J \<Longrightarrow> save_ret v \<noteq> 0"
    "off g v p \<or> cipher_state v = cipher_after J ps c (n_enc g + of_bool (p \<in> encrypted))"
    "\<And>j. j < n_enc g + of_bool (p \<in> encrypted - {En_check}) \<Longrightarrow> enc_err J ps c j = 0"
    "p = En_check \<Longrightarrow> move_err v = enc_err J ps c (n_enc g)"
    "\<And>j. n_saved g \<le> j \<Longrightarrow> j < n_enc g + of_bool (p \<in> encrypted) \<Longrightarrow>
      encrypt_buf v (j_page_size J * (j mod j_encrypt_pages J)) = enc_page J ps c j"
  using assms unfolding cipher_inv_def by presburger+

lemma cipher_invI:
  assumes "save_start v = j_page_size J * (n_enc g mod j_encrypt_pages J)" "n_saved g \<le> n_enc g"
    "n_enc g \<le> n_saved g + j_encrypt_pages J"
    "n_enc g = n_saved g + j_encrypt_pages J \<Longrightarrow>
      save_ret v \<noteq> 0 \<and> n_out g < n_in g \<and> p \<in> {En_unlock, En_signal, En_loop, Mv_check2, Mv_done}"
    "p = En_adv \<Longrightarrow> n_enc g + 1 = n_saved g + j_encrypt_pages J \<Longrightarrow> save_ret v \<noteq> 0"
    "off g v p \<or> cipher_state v = cipher_after J ps c (n_enc g + of_bool (p \<in> encrypted))"
    "\<And>j. j < n_enc g + of_bool (p \<in> encrypted - {En_check}) \<Longrightarrow> enc_err J ps c j = 0"
    "p = En_check \<Longrightarrow> move_err v = enc_err J ps c (n_enc g)"
    "\<And>j. n_saved g \<le> j \<Longrightarrow> j < n_enc g + of_bool (p \<in> encrypted) \<Longrightarrow>
      encrypt_buf v (j_page_size J * (j mod j_encrypt_pages J)) = enc_page J ps c j"
  shows "cipher_inv J ps c g v p"
  using assms unfolding cipher_inv_def by blast

lemma save_invD:
  assumes "save_inv J f s g v p" and "j_encrypt J"
  shows "save_end v = j_page_size J * (n_saved g mod j_encrypt_pages J)"
    "p \<in> {Sv_save, Sv_error} \<union> saved \<union> failing \<Longrightarrow> n_saved g < n_enc g"
    "p \<in> {Sv_unlock, Sv_check} \<Longrightarrow> n_saved g < n_enc g \<or> save_ret v \<noteq> 0"
    "p \<in> {Se_lock, Se_set} \<Longrightarrow> save_err v \<noteq> 0"
    "p \<in> failing - {Se_lock, Se_set} \<union> {Sv_done} \<Longrightarrow> save_ret v \<noteq> 0"
    "p \<in> failing \<or> p = Sv_done \<and> n_saved g < n_enc g \<or>
       swap_state v = swap_after J f s (n_saved g + of_bool (p \<in> insert Sv_error saved))"
    "\<And>j. j < n_saved g + of_bool (p \<in> saved) \<Longrightarrow> swap_err J f s j = 0"
    "p = Sv_error \<Longrightarrow> save_err v = swap_err J f s (n_saved g)"
  using assms unfolding save_inv_def by presburger+

lemma off_step:
  assumes "off g v q" and nxt: "(v', q') \<in> next_states (move_code J q) v"
    and reporting: "q \<in> reporting - {Er_lock, Er_set} \<Longrightarrow> save_ret v \<noteq> 0" and less: "q = Mv_check2 \<Longrightarrow> n_out g < n_in g"
  shows "off (count_step (Mover_at q) g) v' q'"
proof -
  consider "q \<in> reporting" | "q = Mv_check2" "save_ret v \<noteq> 0" | "q = Mv_done"
    using assms(1) by (auto simp: off_def)
  then show ?thesis
  proof cases
    case 1
    then show ?thesis using nxt reporting by (cases q) (simp_all add: off_def reporting_def split: if_splits)
  next
    case 2
    then show ?thesis using nxt less by (simp add: off_def)
  next
    case 3
    then show ?thesis using nxt by simp
  qed
qed

text \<open>An instruction of the move thread that touches nothing the invariant of the cipher speaks of.\<close>

lemma cipher_inv_quiet:
  assumes inv: "cipher_inv J ps c g v q" and nxt: "(v', q') \<in> next_states (move_code J q) v"
    and q: "q \<notin> {En_page, En_check, En_test, En_adv} \<union> plain"
    and reporting: "q \<in> reporting - {Er_lock, Er_set} \<Longrightarrow> save_ret v \<noteq> 0" and less: "q = Mv_check2 \<Longrightarrow> n_out g < n_in g"
  shows "cipher_inv J ps c (count_step (Mover_at q) g) v' q'"
proof -
  note D = cipher_invD [OF inv]
  have eq: "n_enc (count_step (Mover_at q) g) = n_enc g" "n_saved (count_step (Mover_at q) g) = n_saved g"
    using q by (auto simp: plain_def)
  have same: "save_start v' = save_start v" "encrypt_buf v' = encrypt_buf v" "cipher_state v' = cipher_state v"
    and enc: "q' \<in> encrypted \<longleftrightarrow> q \<in> encrypted" "q' \<noteq> En_check" "q' \<noteq> En_adv" "q \<noteq> En_check"
    using nxt q by (cases q; auto simp: pc_sets split: if_splits)+
  show ?thesis
  proof (rule cipher_invI, unfold eq same enc(1))
    show "save_ret v' \<noteq> 0 \<and> n_out (count_step (Mover_at q) g) < n_in (count_step (Mover_at q) g) \<and>
        q' \<in> {En_unlock, En_signal, En_loop, Mv_check2, Mv_done}"
      if "n_enc g = n_saved g + j_encrypt_pages J"
      using D(4) [OF that] nxt by (elim conjE insertE) (simp_all split: if_splits)
    show "off (count_step (Mover_at q) g) v' q' \<or> cipher_state v = cipher_after J ps c (n_enc g + of_bool (q \<in> encrypted))"
    proof (cases "off g v q")
      case True
      then show ?thesis using off_step [OF _ nxt reporting less] by blast
    next
      case False
      then show ?thesis using D(6) by blast
    qed
  qed (use D enc in auto)
qed

lemma encrypt_page_simps:
  assumes "src_page J v = ps ! n" "cipher_state v = cipher_after J ps c n"
  shows "cipher_state (encrypt_page J v) = cipher_after J ps c (Suc n)" "move_err (encrypt_page J v) = enc_err J ps c n"
    "encrypt_buf (encrypt_page J v) = (encrypt_buf v)(save_start v := enc_page J ps c n)"
    "save_start (encrypt_page J v) = save_start v" "save_ret (encrypt_page J v) = save_ret v"
  using assms by (simp_all add: encrypt_page_def enc_err_def enc_page_def case_prod_beta Let_def)

lemma cipher_inv_page:
  assumes "0 < j_page_size J" and inv: "cipher_inv J ps c g v En_page" and src: "src_page J v = ps ! n_enc g"
  shows "cipher_inv J ps c g (encrypt_page J v) En_check"
proof -
  note D = cipher_invD [OF inv]
  have "cipher_state v = cipher_after J ps c (n_enc g)" using D(6) by (simp add: off_def reporting_def encrypted_def)
  note E = encrypt_page_simps [OF src this]
  have room: "n_enc g < n_saved g + j_encrypt_pages J"
    using D(3,4) by (cases "n_enc g = n_saved g + j_encrypt_pages J") simp_all
  show ?thesis
  proof (rule cipher_invI, unfold E)
    fix j assume j: "n_saved g \<le> j" "j < n_enc g + of_bool (En_check \<in> encrypted)"
    show "((encrypt_buf v)(save_start v := enc_page J ps c (n_enc g))) (j_page_size J * (j mod j_encrypt_pages J)) = enc_page J ps c j"
    proof (cases "j = n_enc g")
      case True
      then show ?thesis using D(1) by simp
    next
      case False
      then have "j < n_enc g" using j(2) by (simp add: encrypted_def)
      then have "j_page_size J * (j mod j_encrypt_pages J) \<noteq> save_start v"
        using offset_eq [OF assms(1), of j "n_enc g"] room j(1) D(1) by simp
      then show ?thesis using D(9) \<open>j < n_enc g\<close> j(1) by (simp add: encrypted_def)
    qed
  qed (use D room in \<open>simp_all add: encrypted_def\<close>)
qed

lemma cipher_inv_move:
  assumes ok: "job_ok J bs" and main: "main_inv J bs g v p" and move: "move_inv J bs c s g v q" and save: "save_inv J f s g v r"
    and enc: "j_encrypt J" and nxt: "(v', q') \<in> next_states (move_code J q) v"
  shows "cipher_inv J (all_pages J bs (length (j_blocks J))) c (count_step (Mover_at q) g) v' q'"
proof -
  let ?ps = "all_pages J bs (length (j_blocks J))"
  note M = move_invD [OF move]
  note inv = M(9) [OF enc]
  note D = cipher_invD [OF inv]
  have "q \<notin> plain" using M(7) enc by blast
  then consider "q = En_page" | "q = En_check" | "q = En_test" | "q = En_adv" | "q \<notin> {En_page, En_check, En_test, En_adv} \<union> plain"
    by blast
  then show ?thesis
  proof cases
    case 1
    have "n_out g < n_in g" and pos: "n_enc g = pages_before J bs (n_out g) + n_cur g" "n_cur g < pages_in J (n_out g)"
      and moved: "moved_size v = j_page_size J * n_cur g"
      using M(2) position_invD(2,3,6) [OF M(8)] 1 by (simp_all add: encrypting_def in_page_def)
    then have "src_page J v = ?ps ! n_enc g" using src_page_eq [OF ok main M(1)] by simp
    then show ?thesis using cipher_inv_page [of J ?ps c g v] inv ok 1 nxt by (simp add: job_ok_def count_step_def)
  next
    case 2
    have c: "cipher_state v = cipher_after J ?ps c (n_enc g + 1)"
      using D(6) 2 by (simp add: off_def reporting_def encrypted_def)
    show ?thesis
    proof (cases "move_err v = 0")
      case True
      then have "q' = En_moved" "v' = v" using 2 nxt by simp_all
      then show ?thesis
        using 2 c True D(1-4,7,8,9)
        by (intro cipher_invI) (auto simp: encrypted_def less_Suc_eq)
    next
      case False
      then have "q' = Er_lock" "v' = v" using 2 nxt by simp_all
      then show ?thesis using 2 c D(1-4,7,9) by (intro cipher_invI) (auto simp: encrypted_def off_def reporting_def)
    qed
  next
    case 3
    have q: "v' = v" "q' = (if save_inc J (save_start v) = save_end v \<and> save_ret v = 0 then En_wait else En_adv)"
      using 3 nxt by simp_all
    have "save_ret v \<noteq> 0" if "q' = En_adv" "n_enc g + 1 = n_saved g + j_encrypt_pages J"
    proof -
      have "save_inc J (save_start v) = j_page_size J * (n_saved g mod j_encrypt_pages J)"
        using that(2) by (simp add: D(1) offset_inc)
      then show ?thesis using that(1) q(2) save_invD(1) [OF save enc] by (auto split: if_splits)
    qed
    then show ?thesis using 3 q(1) D by (intro cipher_invI) (auto simp: q(2) encrypted_def off_def reporting_def split: if_splits)
  next
    case 4
    then have q: "v' = v\<lparr>save_start := save_inc J (save_start v)\<rparr>" "q' = En_unlock" using nxt by simp_all
    have "n_out g < n_in g" using M(2) 4 by (simp add: encrypting_def)
    moreover have "n_enc g < n_saved g + j_encrypt_pages J" using D(3,4) 4 by (auto simp: le_less)
    ultimately show ?thesis
      using 4 D(1,2,5,6,7,9) by (intro cipher_invI) (auto simp: q offset_inc encrypted_def off_def reporting_def)
  next
    case 5
    then show ?thesis using M(2,5) by (intro cipher_inv_quiet [OF inv nxt]) auto
  qed
qed

lemma plain_inv_move:
  assumes ok: "job_ok J bs" and main: "main_inv J bs g v p" and move: "move_inv J bs c s g v q"
    and plain: "\<not> j_encrypt J" and nxt: "(v', q') \<in> next_states (move_code J q) v"
  shows "plain_inv J (all_pages J bs (length (j_blocks J))) c s (count_step (Mover_at q) g) v' q'"
proof -
  let ?ps = "all_pages J bs (length (j_blocks J))"
  note M = move_invD [OF move]
  note inv = M(10) [OF plain]
  have "q \<notin> encrypting" using M(6) plain by blast
  then consider "q = Pl_save" | "q = Pl_check" | "q = Pl_next" | "q \<notin> {Pl_save, Pl_check, Pl_next} \<union> encrypting"
    by blast
  then show ?thesis
  proof cases
    case 1
    have "n_out g < n_in g" and pos: "n_enc g = pages_before J bs (n_out g) + n_cur g" "n_cur g < pages_in J (n_out g)"
      and moved: "moved_size v = j_page_size J * n_cur g"
      using M(2) position_invD(2,3,6) [OF M(8)] 1 by (simp_all add: plain_def in_page_def)
    then have "src_page J v = ?ps ! n_enc g" using src_page_eq [OF ok main M(1)] by simp
    then show ?thesis using inv 1 nxt
      by (auto simp: plain_inv_def save_plain_page_def case_prod_beta Let_def off_def reporting_def swap_err_def)
  next
    case 2
    then show ?thesis using inv nxt
      by (cases "move_err v = 0") (auto simp: plain_inv_def off_def reporting_def less_Suc_eq)
  next
    case 3
    then show ?thesis using inv nxt by (simp add: plain_inv_def off_def reporting_def)
  next
    case 4
    have "off (count_step (Mover_at q) g) v' q' \<or> swap_state v = swap_after J ((!) ?ps) s (n_enc g)"
      using inv 4 off_step [OF _ nxt M(5) M(2)] by (auto simp: plain_inv_def)
    moreover have "save_start v' = save_start v" "save_end v' = save_end v" "cipher_state v' = cipher_state v"
      "swap_state v' = swap_state v" "q' \<notin> {Pl_check, Pl_next}"
      using 4 nxt by (cases q; auto simp: encrypting_def split: if_splits)+
    moreover have "n_enc (count_step (Mover_at q) g) = n_enc g" using 4 by (auto simp: encrypting_def)
    ultimately show ?thesis using inv 4 by (simp add: plain_inv_def)
  qed
qed

lemma move_inv_move:
  assumes ok: "job_ok J bs" and main: "main_inv J bs g v p" and move: "move_inv J bs c s g v q" and save: "save_inv J f s g v r"
    and nxt: "(v', q') \<in> next_states (move_code J q) v"
  shows "move_inv J bs c s (count_step (Mover_at q) g) v' q'"
proof -
  note M = move_invD [OF move]
  have test: "n_out g < n_in g \<or> save_ret v \<noteq> 0" if "q' = Mv_unlock"
    using that nxt main_invD(1,3) [OF main] M(1) by (cases q; cases "n_out g = n_in g") (auto split: if_splits)
  have "move_end v' = n_out (count_step (Mover_at q) g) mod WRITE_BUFFERS"
    using nxt M(1) by (cases q) (auto simp: move_inc_mod encrypt_page_def save_plain_page_def case_prod_beta Let_def split: if_splits)
  moreover have "q' \<in> encrypting \<union> plain \<union> reporting \<union> advancing \<union> {Mv_kind, Mv_check2} \<longrightarrow>
       n_out (count_step (Mover_at q) g) < n_in (count_step (Mover_at q) g)"
    using nxt M(2,3) by (cases q) (simp_all add: pc_sets split: if_splits)
  moreover have "q' \<in> {Mv_unlock, Mv_check} \<longrightarrow>
      n_out (count_step (Mover_at q) g) < n_in (count_step (Mover_at q) g) \<or> save_ret v' \<noteq> 0"
    using nxt M(3) test by (cases q) (auto split: if_splits)
  moreover have "q' \<in> {Er_lock, Er_set} \<longrightarrow> move_err v' \<noteq> 0"
    using nxt M(4) by (cases q) (auto split: if_splits)
  moreover have "q' \<in> reporting - {Er_lock, Er_set} \<union> {Mv_done} \<longrightarrow> save_ret v' \<noteq> 0"
    using nxt M(4,5) by (cases q) (simp_all add: reporting_def split: if_splits)
  moreover have "q' \<in> encrypting \<longrightarrow> j_encrypt J" "q' \<in> plain \<longrightarrow> \<not> j_encrypt J"
    using nxt M(6,7) by (cases q; simp add: encrypting_def plain_def split: if_splits)+
  ultimately show ?thesis
    unfolding move_inv_def
    using position_inv_move [OF ok main move nxt] cipher_inv_move [OF ok main move save _ nxt] plain_inv_move [OF ok main move _ nxt]
    by (cases "j_encrypt J") simp_all
qed

lemma off_mono:
  "off g v q \<Longrightarrow> n_out g' = n_out g \<Longrightarrow> n_in g \<le> n_in g' \<Longrightarrow> (save_ret v \<noteq> 0 \<Longrightarrow> save_ret v' \<noteq> 0) \<Longrightarrow> off g' v' q"
  by (auto simp: off_def)

lemma move_inv_stable:
  assumes move: "move_inv J bs c s g v q"
    and same: "move_end v' = move_end v" "save_start v' = save_start v" "encrypt_buf v' = encrypt_buf v"
      "cipher_state v' = cipher_state v" "moved_size v' = moved_size v" "move_err v' = move_err v"
    and ret: "save_ret v \<noteq> 0 \<Longrightarrow> save_ret v' \<noteq> 0"
    and cnt: "n_out g' = n_out g" "n_in g \<le> n_in g'" "n_enc g' = n_enc g" "n_cur g' = n_cur g" "n_saved g \<le> n_saved g'"
    and saved: "n_saved g' \<noteq> n_saved g \<Longrightarrow> n_saved g' \<le> n_enc g"
    and swap: "\<not> j_encrypt J \<Longrightarrow> swap_state v' = swap_state v \<and> save_end v' = save_end v"
  shows "move_inv J bs c s g' v' q"
proof -
  let ?ps = "all_pages J bs (length (j_blocks J))"
  note M = move_invD [OF move]
  have less: "n_out g < n_in g \<Longrightarrow> n_out g' < n_in g'" and ret0: "save_ret v' = 0 \<Longrightarrow> save_ret v = 0"
    using cnt(1,2) ret by auto
  have "position_inv J bs g' v' q"
    unfolding position_inv_def cnt same using position_invD [OF M(8)] less ret0 by (auto simp: cnt(1))
  moreover have "cipher_inv J ?ps c g' v' q" if "j_encrypt J"
  proof -
    note D = cipher_invD [OF M(9) [OF that]]
    have off: "off g v q \<Longrightarrow> off g' v' q" using off_mono [OF _ cnt(1,2) ret] by blast
    have full: "n_enc g = n_saved g' + j_encrypt_pages J \<Longrightarrow> n_enc g = n_saved g + j_encrypt_pages J"
      and near: "n_enc g + 1 = n_saved g' + j_encrypt_pages J \<Longrightarrow>
        n_enc g + 1 = n_saved g + j_encrypt_pages J \<or> n_enc g = n_saved g + j_encrypt_pages J"
      using D(3) cnt(5) by auto
    show ?thesis
    proof (rule cipher_invI, unfold cnt(3) same)
      show "n_saved g' \<le> n_enc g" using D(2) saved by (cases "n_saved g' = n_saved g") auto
      show "save_ret v' \<noteq> 0 \<and> n_out g' < n_in g' \<and> q \<in> {En_unlock, En_signal, En_loop, Mv_check2, Mv_done}"
        if "n_enc g = n_saved g' + j_encrypt_pages J"
        using D(4) [OF full [OF that]] ret less by blast
      show "save_ret v' \<noteq> 0" if "q = En_adv" "n_enc g + 1 = n_saved g' + j_encrypt_pages J"
        using near [OF that(2)] D(4,5) that(1) ret by blast
      show "off g' v' q \<or> cipher_state v = cipher_after J ?ps c (n_enc g + of_bool (q \<in> encrypted))"
        using D(6) off by blast
    qed (use D(1,3,7,8,9) cnt(5) in auto)
  qed
  moreover have "plain_inv J ?ps c s g' v' q" if "\<not> j_encrypt J"
    using M(10) [OF that] swap [OF that] off_mono [OF _ cnt(1,2) ret, where q = q] by (auto simp: plain_inv_def cnt(3) same)
  ultimately show ?thesis
    unfolding move_inv_def cnt(1) same using M(1-7) less ret by (auto simp: cnt(1))
qed

lemma move_inv_main:
  assumes move: "move_inv J bs c s g v q" and nxt: "(v', p') \<in> next_states (main_code J p) v"
  shows "move_inv J bs c s (count_step (Main_at p) g) v' q"
  by (rule move_inv_stable [OF move main_frame(1-6) [OF nxt]]) (use main_frame(7,9,10) [OF nxt] in simp_all)

lemma move_inv_save:
  assumes move: "move_inv J bs c s g v q" and save: "save_inv J f s g v r" and nxt: "(v', r') \<in> next_states (save_code J r) v"
  shows "move_inv J bs c s (count_step (Saver_at r) g) v' q"
proof (rule move_inv_stable [OF move save_frame(5-10) [OF nxt]])
  have plain: "r = Sv_done" if "\<not> j_encrypt J" using save that by (simp add: save_inv_def)
  show "swap_state v' = swap_state v \<and> save_end v' = save_end v" if "\<not> j_encrypt J"
    using plain [OF that] nxt by simp
  show "n_saved (count_step (Saver_at r) g) \<le> n_enc g" if "n_saved (count_step (Saver_at r) g) \<noteq> n_saved g"
    using that save by (auto simp: save_inv_def saved_def split: if_splits)
  show "save_ret v \<noteq> 0 \<Longrightarrow> save_ret v' \<noteq> 0" using save_frame(11) [OF nxt] by blast
qed simp_all

lemma save_inv_save:
  assumes ok: "job_ok J bs" and main: "main_inv J bs g v p" and move: "move_inv J bs c s' g v q"
    and save: "save_inv J (enc_page J (all_pages J bs (length (j_blocks J))) c) s g v r"
    and nxt: "(v', r') \<in> next_states (save_code J r) v"
  shows "save_inv J (enc_page J (all_pages J bs (length (j_blocks J))) c) s (count_step (Saver_at r) g) v' r'"
proof (cases "j_encrypt J")
  case False
  then show ?thesis using save nxt by (auto simp: save_inv_def)
next
  case enc: True
  let ?f = "enc_page J (all_pages J bs (length (j_blocks J))) c"
  note S = save_invD [OF save enc]
  note D = cipher_invD [OF move_invD(9) [OF move enc]]
  consider "r = Sv_test" | "r = Sv_save" | "r = Sv_error" | "r = Sa_adv" | "r \<notin> {Sv_test, Sv_save, Sv_error, Sa_adv}" by blast
  then show ?thesis
  proof cases
    case 1
    have "n_saved g < n_enc g" if "save_end v \<noteq> save_start v"
      using that S(1) D(1,2) by (cases "n_saved g = n_enc g") auto
    then show ?thesis using 1 nxt save enc by (auto simp: save_inv_def saved_def failing_def split: if_splits)
  next
    case 2
    have less: "n_saved g < n_enc g" using S(2) 2 by simp
    then have "encrypt_buf v (save_end v) = ?f (n_saved g)"
      using D(9) [of "n_saved g"] S(1) by simp
    moreover have "swap_state v = swap_after J ?f s (n_saved g)"
      using S(6) 2 by (simp add: failing_def saved_def)
    ultimately show ?thesis using 2 nxt save enc less
      by (auto simp: save_inv_def saved_def failing_def save_encrypted_page_def swap_err_def case_prod_beta Let_def)
  next
    case 3
    have less: "n_saved g < n_enc g" and sw: "swap_state v = swap_after J ?f s (Suc (n_saved g))"
      and err: "save_err v = swap_err J ?f s (n_saved g)"
      using S(2,6,8) 3 by (simp_all add: failing_def saved_def)
    show ?thesis
    proof (cases "save_err v = 0")
      case True
      then have "r' = Sa_finish" "v' = v" using 3 nxt by simp_all
      then show ?thesis using True less sw err S(1,7) 3 enc
        by (auto simp: save_inv_def saved_def failing_def less_Suc_eq)
    next
      case False
      then have "r' = Se_lock" "v' = v" using 3 nxt by simp_all
      then show ?thesis using False less S(1,7) 3 enc by (simp add: save_inv_def saved_def failing_def)
    qed
  next
    case 4
    then have v: "v' = v\<lparr>save_end := save_inc J (save_end v)\<rparr>" "r' = Sa_unsave" using nxt by simp_all
    have "swap_state v = swap_after J ?f s (Suc (n_saved g))" using S(6) 4 by (simp add: failing_def saved_def)
    then show ?thesis using 4 S(1,7) enc by (simp add: save_inv_def v offset_inc saved_def failing_def)
  next
    case 5
    have cnt: "n_saved (count_step (Saver_at r) g) = n_saved g" "n_enc (count_step (Saver_at r) g) = n_enc g" using 5 by simp_all
    have same: "save_end v' = save_end v" "swap_state v' = swap_state v" "save_err v' = save_err v"
      using 5 nxt by (cases r; auto)+
    show ?thesis
      unfolding save_inv_def cnt same using 5 nxt S enc
      by (cases r) (simp_all add: saved_def failing_def split: if_splits)
  qed
qed

lemma save_inv_stable:
  assumes save: "save_inv J f s g v r" and "save_end v' = save_end v" "save_err v' = save_err v"
    and "j_encrypt J \<Longrightarrow> swap_state v' = swap_state v" "save_ret v \<noteq> 0 \<Longrightarrow> save_ret v' \<noteq> 0"
    and "n_saved g' = n_saved g" "n_enc g \<le> n_enc g'"
  shows "save_inv J f s g' v' r"
proof (cases "j_encrypt J")
  case True
  note S = save_invD [OF save True]
  have less: "n_saved g < n_enc g \<Longrightarrow> n_saved g' < n_enc g'" using assms(6,7) by simp
  show ?thesis
    unfolding save_inv_def using True S less assms(2-6) by (auto simp: assms(6))
next
  case False
  then show ?thesis using save by (simp add: save_inv_def)
qed

lemma save_inv_main:
  assumes save: "save_inv J f s g v r" and nxt: "(v', p') \<in> next_states (main_code J p) v"
  shows "save_inv J f s (count_step (Main_at p) g) v' r"
  by (rule save_inv_stable [OF save main_frame(7,8,9) [OF nxt]]) (use main_frame(10) [OF nxt] in simp_all)

lemma save_inv_move:
  assumes save: "save_inv J f s g v r" and move: "move_inv J bs c s' g v q" and nxt: "(v', q') \<in> next_states (move_code J q) v"
  shows "save_inv J f s (count_step (Mover_at q) g) v' r"
proof (rule save_inv_stable [OF save move_frame(5,6) [OF nxt]])
  show "save_ret v \<noteq> 0 \<Longrightarrow> save_ret v' \<noteq> 0" using move_frame(7) [OF nxt] by blast
  show "swap_state v' = swap_state v" if "j_encrypt J"
    using that move_invD(7) [OF move] nxt
    by (cases q) (auto simp: plain_def encrypt_page_def case_prod_beta Let_def split: if_splits)
qed simp_all

end
