(* ===== verification/Threads_Run.thy ===== *)
theory Threads_Run
  imports Threads_Inv
begin

text \<open>
  The system of the three threads: who holds which mutex, the invariant in every reachable state, and
  what follows from it for \<open>save_image\<close>.
\<close>

section \<open>Mutexes\<close>

fun thread_of :: "pc \<Rightarrow> thread" where
  "thread_of (Main_at p) = Main"
| "thread_of (Mover_at p) = Mover"
| "thread_of (Saver_at p) = Saver"

fun held :: "pc \<Rightarrow> mutex set" where
  "held (Main_at p) =
     (if p \<in> {M_test, M_wait, M_adv, M_unlock} then {move_mutex}
      else if p \<in> {Fin_test1, Fin_test2, Fin_test3, Fin_wait, Fin_unlock, Stop_set, Stop_unlock} then {finish_mutex} else {})"
| "held (Mover_at p) =
     (if p \<in> {Mv_test, Mv_wait, Mv_unlock} then {move_mutex}
      else if p \<in> {En_test, En_wait, En_adv, En_unlock} then {save_mutex}
      else if p \<in> {Er_set, Er_unlock, Al_move, Al_unfinish} then {finish_mutex}
      else if p \<in> {Al_adv, Al_unmove} then {finish_mutex, move_mutex} else {})"
| "held (Saver_at p) =
     (if p \<in> {Sv_test, Sv_wait, Sv_unlock} then {save_mutex}
      else if p \<in> {Se_set, Se_unlock, Sa_save, Sa_unfinish} then {finish_mutex}
      else if p \<in> {Sa_adv, Sa_unsave} then {finish_mutex, save_mutex} else {})"

text \<open>Where \<open>pthread_cond_wait\<close> goes on: at the test of the loop around it.\<close>

definition retests :: "pc set" where
  "retests = {Main_at M_test, Main_at Fin_test1, Mover_at Mv_test, Mover_at En_test, Saver_at Sv_test}"

definition instr_ok :: "('c, 's) job \<Rightarrow> pc \<Rightarrow> bool" where
  "instr_ok J p \<longleftrightarrow>
     (case code J p of
        Lock m q \<Rightarrow> m \<notin> held p \<and> held q = insert m (held p) \<and> thread_of q = thread_of p
      | Unlock m q \<Rightarrow> m \<in> held p \<and> held q = held p - {m} \<and> thread_of q = thread_of p
      | Cond_wait c m q \<Rightarrow> held p = {m} \<and> held q = {m} \<and> q \<in> retests \<and> thread_of q = thread_of p
      | Signal c q \<Rightarrow> held q = held p \<and> thread_of q = thread_of p
      | Do f q \<Rightarrow> held q = held p \<and> thread_of q = thread_of p
      | If_then b q r \<Rightarrow> held q = held p \<and> held r = held p \<and> thread_of q = thread_of p \<and> thread_of r = thread_of p
      | Choose q r \<Rightarrow> held q = held p \<and> held r = held p \<and> thread_of q = thread_of p \<and> thread_of r = thread_of p
      | Join t q \<Rightarrow> held q = held p \<and> thread_of q = thread_of p
      | Exit \<Rightarrow> True)"

lemma main_instr_ok: "instr_ok J (Main_at p)"
  by (cases p) (simp_all add: instr_ok_def retests_def)

lemma move_instr_ok: "instr_ok J (Mover_at p)"
  by (cases p) (auto simp: instr_ok_def retests_def)

lemma save_instr_ok: "instr_ok J (Saver_at p)"
  by (cases p) (auto simp: instr_ok_def retests_def)

lemma instr_ok: "instr_ok J p"
  by (cases p) (simp_all only: main_instr_ok move_instr_ok save_instr_ok)

fun holding :: "pc status \<Rightarrow> mutex set" where
  "holding (At p) = held p"
| "holding (Asleep c m p) = {}"
| "holding (Woken m p) = {}"

fun status_ok :: "thread \<Rightarrow> pc status \<Rightarrow> bool" where
  "status_ok t (At p) = (thread_of p = t)"
| "status_ok t (Asleep c m p) = (thread_of p = t \<and> held p = {m} \<and> p \<in> retests)"
| "status_ok t (Woken m p) = (thread_of p = t \<and> held p = {m} \<and> p \<in> retests)"

definition mutex_inv :: "('c, 's) system \<Rightarrow> bool" where
  "mutex_inv S \<longleftrightarrow> (\<forall>t m. owner S m = Some t \<longleftrightarrow> m \<in> holding (status S t)) \<and> (\<forall>t. status_ok t (status S t))"

lemma mutex_invD:
  assumes "mutex_inv S"
  shows "owner S m = Some t \<longleftrightarrow> m \<in> holding (status S t)" "status_ok t (status S t)"
  using assms by (simp_all add: mutex_inv_def)

lemma mutex_inv_update:
  assumes inv: "mutex_inv S" and own: "\<And>u m. owner S' m = Some u \<longleftrightarrow> (if u = t then m \<in> holding (status S' t) else owner S m = Some u)"
    and other: "\<And>u. u \<noteq> t \<Longrightarrow> holding (status S' u) = holding (status S u) \<and> status_ok u (status S' u)" and "status_ok t (status S' t)"
  shows "mutex_inv S'"
  using assms unfolding mutex_inv_def by metis

lemma mutex_inv_step:
  assumes "step J t S S'" and inv: "mutex_inv S"
  shows "mutex_inv S'"
proof (rule mutex_inv_update [OF inv])
  note I = mutex_invD [OF inv]
  show "status_ok t (status S' t)"
    using assms(1)
    by (cases rule: step.cases) (use instr_ok [of J] I(2) [of t] in \<open>force simp: instr_ok_def goto_def split: instr.splits\<close>)+
  show "holding (status S' u) = holding (status S u) \<and> status_ok u (status S' u)" if "u \<noteq> t" for u
    using assms(1) that I(2) [of u] by (cases rule: step.cases) (auto simp: goto_def)
  show "owner S' m = Some u \<longleftrightarrow> (if u = t then m \<in> holding (status S' t) else owner S m = Some u)" for m u
    using assms(1)
  proof (cases rule: step.cases)
    case (lock p m' q)
    then show ?thesis using instr_ok [of J p] I(1) [of m t] by (auto simp: instr_ok_def goto_def)
  next
    case (unlock p m' q)
    then show ?thesis using instr_ok [of J p] I(1) [of m t] I(1) [of m' t] by (auto simp: instr_ok_def goto_def)
  next
    case (cond_wait p c m' q)
    then show ?thesis using instr_ok [of J p] I(1) [of m t] I(1) [of m' t] by (auto simp: instr_ok_def goto_def)
  next
    case (wake m' q)
    then show ?thesis using I(1) [of m t] I(2) [of t] by (auto simp: goto_def)
  qed (use instr_ok [of J] I(1) [of m t] in \<open>force simp: instr_ok_def goto_def split: instr.splits\<close>)+
qed

section \<open>The invariant of the system\<close>

text \<open>A step that changes the variables or the place of a thread is a step of that thread's table.\<close>

lemma step_next:
  assumes "step J t S S'"
  shows "((\<forall>p. status S t \<noteq> At p) \<and> vars S' = vars S \<and> (\<forall>u. pc_of (status S' u) = pc_of (status S u))) \<or>
    (\<exists>p. status S t = At p \<and> (vars S', pc_of (status S' t)) \<in> next_states (code J p) (vars S) \<and>
       (\<forall>u. u \<noteq> t \<longrightarrow> pc_of (status S' u) = pc_of (status S u)))"
  using assms by (cases rule: step.cases) (auto simp: goto_def)

lemma next_states_map:
  "(v', p') \<in> next_states (map_instr f i) v \<longleftrightarrow> (\<exists>q. p' = f q \<and> (v', q) \<in> next_states i v)"
  by (cases i) auto

definition threads_inv :: "('c, 's) job \<Rightarrow> ('c, 's) shared \<Rightarrow> counts \<Rightarrow> ('c, 's) system \<Rightarrow> bool" where
  "threads_inv J v0 g S \<longleftrightarrow> mutex_inv S \<and>
     (\<exists>p q r. pc_of (status S Main) = Main_at p \<and> pc_of (status S Mover) = Mover_at q \<and> pc_of (status S Saver) = Saver_at r \<and>
        main_inv J (write_buffers v0) g (vars S) p \<and>
        move_inv J (write_buffers v0) (cipher_state v0) (swap_state v0) g (vars S) q \<and>
        save_inv J (enc_page J (all_pages J (write_buffers v0) (length (j_blocks J))) (cipher_state v0)) (swap_state v0) g (vars S) r)"

fun next_count :: "pc status \<Rightarrow> counts \<Rightarrow> counts" where
  "next_count (At p) g = count_step p g"
| "next_count st g = g"

lemma not_both_holding:
  assumes "mutex_inv S" "status S t = At p" "status S u = At q" "m \<in> held p" "m \<in> held q"
  shows "t = u"
  using mutex_invD(1) [OF assms(1), of m t] mutex_invD(1) [OF assms(1), of m u] assms(2-5) by simp

lemma not_Fin_test2:
  assumes mutex: "mutex_inv S" and p: "pc_of (status S Main) = Main_at p" and q: "status S Mover = At (Mover_at q)"
  shows "\<not> (p = Fin_test2 \<and> q = Al_adv)"
proof
  assume "p = Fin_test2 \<and> q = Al_adv"
  moreover have "status S Main = At (Main_at Fin_test2)"
    using calculation p mutex_invD(2) [OF mutex, of Main] by (cases "status S Main") (auto simp: retests_def)
  ultimately show False using not_both_holding [OF mutex _ q, of Main "Main_at Fin_test2" finish_mutex] by simp
qed

lemma threads_inv_step:
  assumes ok: "job_ok J (write_buffers v0)" and step: "step J t S S'" and inv: "threads_inv J v0 g S"
  shows "threads_inv J v0 (next_count (status S t) g) S'"
proof -
  let ?bs = "write_buffers v0" and ?c = "cipher_state v0" and ?s = "swap_state v0"
  let ?f = "enc_page J (all_pages J ?bs (length (j_blocks J))) ?c"
  obtain p q r where mutex: "mutex_inv S" and pcs: "pc_of (status S Main) = Main_at p" "pc_of (status S Mover) = Mover_at q"
      "pc_of (status S Saver) = Saver_at r"
    and main: "main_inv J ?bs g (vars S) p" and move: "move_inv J ?bs ?c ?s g (vars S) q" and save: "save_inv J ?f ?s g (vars S) r"
    using inv unfolding threads_inv_def by blast
  note mutex' = mutex_inv_step [OF step mutex]
  from step_next [OF step] show ?thesis
  proof (elim disjE conjE exE)
    assume "\<forall>p. status S t \<noteq> At p" "vars S' = vars S" "\<forall>u. pc_of (status S' u) = pc_of (status S u)"
    then show ?thesis unfolding threads_inv_def using mutex' pcs main move save by (cases "status S t") auto
  next
    fix pc
    assume at: "status S t = At pc" and nxt: "(vars S', pc_of (status S' t)) \<in> next_states (code J pc) (vars S)"
      and other: "\<forall>u. u \<noteq> t \<longrightarrow> pc_of (status S' u) = pc_of (status S u)"
    have "threads_inv J v0 (count_step pc g) S'"
    proof (cases t)
      case Main
      then have pc: "pc = Main_at p" using at pcs by simp
      then obtain p' where p': "pc_of (status S' Main) = Main_at p'" "(vars S', p') \<in> next_states (main_code J p) (vars S)"
        using nxt Main by (auto simp: next_states_map)
      show ?thesis unfolding threads_inv_def pc
        using mutex' p'(1) other Main pcs main_inv_main [OF ok main move save p'(2)] move_inv_main [OF move p'(2)]
          save_inv_main [OF save p'(2)] by auto
    next
      case Mover
      then have pc: "pc = Mover_at q" using at pcs by simp
      then obtain q' where q': "pc_of (status S' Mover) = Mover_at q'" "(vars S', q') \<in> next_states (move_code J q) (vars S)"
        using nxt Mover by (auto simp: next_states_map)
      have "\<not> (p = Fin_test2 \<and> q = Al_adv)"
        using not_Fin_test2 [OF mutex pcs(1)] at Mover pc by blast
      then show ?thesis unfolding threads_inv_def pc
        using mutex' q'(1) other Mover pcs main_inv_move [OF main move q'(2)] move_inv_move [OF ok main move save q'(2)]
          save_inv_move [OF save move q'(2)] by auto
    next
      case Saver
      then have pc: "pc = Saver_at r" using at pcs by simp
      then obtain r' where r': "pc_of (status S' Saver) = Saver_at r'" "(vars S', r') \<in> next_states (save_code J r) (vars S)"
        using nxt Saver by (auto simp: next_states_map)
      show ?thesis unfolding threads_inv_def pc
        using mutex' r'(1) other Saver pcs main_inv_save [OF main save r'(2)] move_inv_save [OF move save r'(2)]
          save_inv_save [OF ok main move save r'(2)] by auto
    qed
    then show ?thesis using at by simp
  qed
qed

lemma start_threads_vars:
  assumes "start_threads J pth v0 = (True, v)"
  shows "v = v0\<lparr>save_start := 0, save_end := 0, move_start := 0, move_end := 0\<rparr>"
  using assms by (auto simp: start_threads_def Let_def split: option.splits)

definition no_counts :: counts where
  "no_counts = \<lparr>n_in = 0, n_out = 0, n_enc = 0, n_saved = 0, n_cur = 0\<rparr>"

lemma threads_inv_start:
  assumes ok: "job_ok J (write_buffers v0)" and start: "start_threads J pth v0 = (True, v)" and ret: "save_ret v0 = 0"
  shows "threads_inv J v0 no_counts (running J v)"
proof -
  let ?g = no_counts
  note no_counts_def [simp]
  let ?v = "v\<lparr>todo := j_blocks J\<rparr>"
  note v = start_threads_vars [OF start]
  have "main_inv J (write_buffers v0) ?g ?v M_loop"
    by (simp add: main_inv_def pc_sets v WRITE_BUFFERS_def)
  moreover have "move_inv J (write_buffers v0) (cipher_state v0) (swap_state v0) ?g ?v Mv_lock"
    using ok by (simp add: move_inv_def pc_sets v position_inv_def pages_before_simps cipher_inv_def plain_inv_def job_ok_def)
  moreover have "save_inv J f (swap_state v0) ?g ?v (if j_encrypt J then Sv_lock else Sv_done)" for f
    by (simp add: save_inv_def v pc_sets)
  moreover have "mutex_inv (running J v)"
    by (auto simp: mutex_inv_def running_def split: thread.splits)
  ultimately show ?thesis unfolding threads_inv_def by (auto simp: running_def)
qed

lemma threads_inv_reachable:
  assumes "job_ok J (write_buffers v0)" "start_threads J pth v0 = (True, v)" "save_ret v0 = 0" "reachable J (running J v) S"
  obtains g where "threads_inv J v0 g S"
proof -
  have "\<exists>g. threads_inv J v0 g S"
    using assms(4) by induction (use assms(1-3) threads_inv_start threads_inv_step in blast)+
  then show thesis using that by blast
qed

lemma mutex_inv_reachable:
  assumes "reachable J (running J v) S"
  shows "mutex_inv S"
  using assms
proof induction
  case reach_start
  then show ?case by (auto simp: mutex_inv_def running_def split: thread.splits)
qed (rule mutex_inv_step)

section \<open>Properties\<close>

text \<open>
  C3: The threads lose nothing, write nothing twice and keep the order. When \<open>save_image\<close> comes to its end
  without an error, whatever the interleaving was, the cipher and the swap are in the state in which one
  thread would have left them that encrypts and saves the pages of the handed over buffers one by one,
  and none of these calls has failed.
\<close>

theorem threads_write_all:
  assumes ok: "job_ok J (write_buffers v0)" and start: "start_threads J pth v0 = (True, v)" and "save_ret v0 = 0"
    and "reachable J (running J v) S" and ended: "status S Main = At (Main_at M_done)" "result (vars S) = 0"
  shows "write_pages J (all_pages J (write_buffers v0) (length (j_blocks J))) (cipher_state v0) (swap_state v0)
    = (0, cipher_state (vars S), swap_state (vars S))"
proof -
  let ?ps = "all_pages J (write_buffers v0) (length (j_blocks J))"
  obtain g where "threads_inv J v0 g S" by (rule threads_inv_reachable [OF assms(1-4)])
  then obtain q r where main: "main_inv J (write_buffers v0) g (vars S) M_done"
    and move: "move_inv J (write_buffers v0) (cipher_state v0) (swap_state v0) g (vars S) q"
    and save: "save_inv J (enc_page J ?ps (cipher_state v0)) (swap_state v0) g (vars S) r"
    using ended(1) by (auto simp: threads_inv_def)
  have c: "n_in g = length (j_blocks J)" "n_out g = n_in g" "j_encrypt J \<Longrightarrow> n_saved g = n_enc g"
    using main_invD(13) [OF main] ended(2) by (simp_all add: stopping_def complete_def)
  note M = move_invD [OF move]
  have q: "q \<in> idle - {Mv_kind, En_start, Pl_start} \<union> {Mv_done}"
    using M(2) c(2) by (cases q) (simp_all add: pc_sets)
  then have n: "n_enc g = length ?ps"
    using position_invD(1,9) [OF M(8)] c(1,2) by (auto simp: pages_before_def)
  have off: "\<not> off g (vars S) q" using q c(2) by (auto simp: off_def reporting_def idle_def)
  have sets: "q \<notin> encrypted" "q \<noteq> Pl_check" "q \<noteq> Pl_next" using q by (auto simp: encrypted_def idle_def)
  show ?thesis
  proof (cases "j_encrypt J")
    case True
    note D = cipher_invD [OF M(9) [OF True]] and S = save_invD [OF save True]
    have "r \<notin> failing" "r \<notin> insert Sv_error saved" using S(2) c(3) [OF True] by auto
    then have "swap_state (vars S) = swap_after J (enc_page J ?ps (cipher_state v0)) (swap_state v0) (length ?ps)"
      using S(6) c(3) [OF True] n by simp
    moreover have "stored_page J ?ps (cipher_state v0) = enc_page J ?ps (cipher_state v0)"
      using True by (simp add: stored_page_def fun_eq_iff)
    moreover have "cipher_state (vars S) = cipher_after J ?ps (cipher_state v0) (length ?ps)"
      using D(6) off sets n by simp
    ultimately show ?thesis
      using D(7) S(7) c(3) [OF True] n True
      by (subst write_pages_all) auto
  next
    case False
    have "stored_page J ?ps (cipher_state v0) = (!) ?ps"
      using False by (simp add: stored_page_def fun_eq_iff)
    then show ?thesis
      using M(10) [OF False] off sets n False by (subst write_pages_all) (auto simp: plain_inv_def)
  qed
qed

text \<open>
  C4: The threads never touch the same buffer at the same time. While \<open>save_image\<close> fills a write buffer the
  move thread is not reading it, and while the move thread puts an encrypted page into \<open>encrypt_buf\<close> the save
  thread is not writing that page out; this holds after errors too.
\<close>

theorem buffers_exclusive:
  assumes ok: "job_ok J (write_buffers v0)" and start: "start_threads J pth v0 = (True, v)" and "save_ret v0 = 0"
    and "reachable J (running J v) S"
  shows "(status S Main = At (Main_at M_fill) \<and> status S Mover \<in> At ` Mover_at ` {En_page, En_loop, Pl_test, Pl_save} \<longrightarrow>
      move_start (vars S) \<noteq> move_end (vars S)) \<and>
    (status S Mover = At (Mover_at En_page) \<and> status S Saver = At (Saver_at Sv_save) \<longrightarrow>
      save_start (vars S) \<noteq> save_end (vars S))"
proof -
  obtain g where "threads_inv J v0 g S" by (rule threads_inv_reachable [OF assms])
  then obtain p q r where pcs: "pc_of (status S Main) = Main_at p" "pc_of (status S Mover) = Mover_at q"
      "pc_of (status S Saver) = Saver_at r"
    and main: "main_inv J (write_buffers v0) g (vars S) p"
    and move: "move_inv J (write_buffers v0) (cipher_state v0) (swap_state v0) g (vars S) q"
    and save: "save_inv J (enc_page J (all_pages J (write_buffers v0) (length (j_blocks J))) (cipher_state v0)) (swap_state v0) g
      (vars S) r"
    by (auto simp: threads_inv_def)
  note D = main_invD [OF main] and M = move_invD [OF move]
  show ?thesis
  proof (intro conjI impI)
    assume "status S Main = At (Main_at M_fill) \<and> status S Mover \<in> At ` Mover_at ` {En_page, En_loop, Pl_test, Pl_save}"
    then have p: "p = M_fill" and "q \<in> {En_page, En_loop, Pl_test, Pl_save}" using pcs by auto
    then have less: "n_out g < n_in g" using M(2) by (auto simp: encrypting_def plain_def)
    moreover have "n_in g < n_out g + WRITE_BUFFERS"
      using D(2,7) p by (cases "n_in g = n_out g + WRITE_BUFFERS") (auto simp: filling_def)
    ultimately show "move_start (vars S) \<noteq> move_end (vars S)"
      using mod_buffers_neq [OF less] D(3) M(1) by simp
  next
    assume "status S Mover = At (Mover_at En_page) \<and> status S Saver = At (Saver_at Sv_save)"
    then have q: "q = En_page" and r: "r = Sv_save" using pcs by auto
    then have enc: "j_encrypt J" using M(6) by (simp add: encrypting_def)
    note C = cipher_invD [OF M(9) [OF enc]] and S = save_invD [OF save enc]
    have "n_saved g < n_enc g" "n_enc g < n_saved g + j_encrypt_pages J"
      using S(2) r C(3,4) q by (auto simp: le_less)
    then show "save_start (vars S) \<noteq> save_end (vars S)"
      using offset_eq [of J "n_saved g" "n_enc g"] C(1) S(1) ok by (simp add: job_ok_def)
  qed
qed

text \<open>
  C8: The mutexes are used as \<open>pthread_mutex\<close> demands. In every reachable state the thread in front of a
  \<open>pthread_mutex_unlock\<close> or a \<open>pthread_cond_wait\<close> owns the mutex, and no thread locks a mutex it owns.
\<close>

theorem mutexes_well_used:
  assumes "reachable J (running J v) S"
  shows "status S t = At p \<longrightarrow>
    (case code J p of
       Unlock m q \<Rightarrow> owner S m = Some t
     | Cond_wait c m q \<Rightarrow> owner S m = Some t
     | Lock m q \<Rightarrow> owner S m \<noteq> Some t
     | _ \<Rightarrow> True)"
  using instr_ok [of J p] mutex_invD(1) [OF mutex_inv_reachable [OF assms], of _ t]
  by (auto simp: instr_ok_def split: instr.splits)

section \<open>Lost wake-ups\<close>

text \<open>No thread can move unless the system wakes one without a signal.\<close>

definition stuck :: "('c, 's) job \<Rightarrow> ('c, 's) system \<Rightarrow> bool" where
  "stuck J S \<longleftrightarrow> (\<forall>t S'. step J t S S' \<longrightarrow> (\<exists>c m q. status S t = Asleep c m q))"

lemma reach_do:
  "reachable J S0 S \<Longrightarrow> status S t = At p \<Longrightarrow> code J p = Do f q \<Longrightarrow> reachable J S0 (goto t q (S\<lparr>vars := f (vars S)\<rparr>))"
  by (rule reach_step [OF _ step.do])

lemma reach_lock:
  "reachable J S0 S \<Longrightarrow> status S t = At p \<Longrightarrow> code J p = Lock m q \<Longrightarrow> owner S m = None \<Longrightarrow>
    reachable J S0 (goto t q (S\<lparr>owner := (owner S)(m := Some t)\<rparr>))"
  by (rule reach_step [OF _ step.lock])

lemma reach_unlock:
  "reachable J S0 S \<Longrightarrow> status S t = At p \<Longrightarrow> code J p = Unlock m q \<Longrightarrow>
    reachable J S0 (goto t q (S\<lparr>owner := (owner S)(m := None)\<rparr>))"
  by (rule reach_step [OF _ step.unlock])

lemma reach_if:
  "reachable J S0 S \<Longrightarrow> status S t = At p \<Longrightarrow> code J p = If_then b q r \<Longrightarrow> reachable J S0 (goto t (if b (vars S) then q else r) S)"
  by (auto intro: reach_step step.if_true step.if_false)

lemma reach_wait:
  "reachable J S0 S \<Longrightarrow> status S t = At p \<Longrightarrow> code J p = Cond_wait c m q \<Longrightarrow>
    reachable J S0 (S\<lparr>owner := (owner S)(m := None), status := (status S)(t := Asleep c m q)\<rparr>)"
  by (rule reach_step [OF _ step.cond_wait])

text \<open>The system with the save thread asleep, if there is one.\<close>

definition parked :: "('c, 's) job \<Rightarrow> ('c, 's) shared \<Rightarrow> ('c, 's) system" where
  "parked J v = (running J v)\<lparr>owner := Map.empty, status := (status (running J v))
     (Saver := if j_encrypt J then Asleep save_cond save_mutex (Saver_at Sv_test) else At (Saver_at Sv_done))\<rparr>"

lemma reach_parked:
  assumes "save_end v = save_start v" "save_ret v = 0"
  shows "reachable J (running J v) (parked J v)"
proof (cases "j_encrypt J")
  case False
  then have "parked J v = running J v" by (auto simp: parked_def running_def)
  then show ?thesis by (simp add: reach_start)
next
  case True
  let ?R = "reachable J (running J v)"
  have "?R (running J v)" by (rule reach_start)
  from reach_lock [OF this, of Saver "Saver_at Sv_lock" save_mutex "Saver_at Sv_test"] True
  have 1: "?R (goto Saver (Saver_at Sv_test) ((running J v)\<lparr>owner := [save_mutex \<mapsto> Saver]\<rparr>))"
    by (simp add: running_def)
  from reach_if [OF this, of Saver "Saver_at Sv_test" "\<lambda>v. save_end v = save_start v \<and> save_ret v = 0"
      "Saver_at Sv_wait" "Saver_at Sv_unlock"] assms
  have 2: "?R (goto Saver (Saver_at Sv_wait) ((running J v)\<lparr>owner := [save_mutex \<mapsto> Saver]\<rparr>))"
    by (simp add: running_def goto_def)
  from reach_wait [OF this, of Saver "Saver_at Sv_wait" save_cond save_mutex "Saver_at Sv_test"] True
  show ?thesis by (simp add: running_def goto_def parked_def fun_upd_def if_distrib cong: if_cong)
qed

lemma mover_before_wait:
  assumes "save_end v = save_start v" "move_end v = move_start v" "save_ret v = 0"
  shows "reachable J (running J v) (goto Mover (Mover_at Mv_wait) ((parked J v)\<lparr>owner := [move_mutex \<mapsto> Mover]\<rparr>))"
proof -
  let ?R = "reachable J (running J v)"
  have "?R (parked J v)" by (rule reach_parked [OF assms(1,3)])
  from reach_lock [OF this, of Mover "Mover_at Mv_lock" move_mutex "Mover_at Mv_test"]
  have "?R (goto Mover (Mover_at Mv_test) ((parked J v)\<lparr>owner := [move_mutex \<mapsto> Mover]\<rparr>))"
    by (simp add: parked_def running_def)
  from reach_if [OF this, of Mover "Mover_at Mv_test" "\<lambda>v. move_end v = move_start v \<and> save_ret v = 0"
      "Mover_at Mv_wait" "Mover_at Mv_unlock"] assms
  show ?thesis by (simp add: running_def goto_def parked_def)
qed

text \<open>From there \<open>save_image\<close> is aborted and \<open>stop_threads\<close> signals in vain.\<close>

definition signalled :: "('c, 's) job \<Rightarrow> ('c, 's) shared \<Rightarrow> pc \<Rightarrow> ('c, 's) system" where
  "signalled J v p =
     \<lparr>vars = v\<lparr>todo := j_blocks J, result := - EINTR, save_ret := FORCE_EXIT\<rparr>, owner = [move_mutex \<mapsto> Mover],
      status = (status (parked J v))(Mover := At (Mover_at Mv_wait), Main := At p)\<rparr>"

lemma unlocked:
  "[move_mutex \<mapsto> Mover](finish_mutex := None) = [move_mutex \<mapsto> Mover]" "Map.empty(m := None) = Map.empty"
  by (simp_all add: fun_eq_iff)

lemma reach_signalled:
  assumes "save_end v = save_start v" "move_end v = move_start v" "save_ret v = 0"
  shows "reachable J (running J v) (signalled J v (Main_at Stop_join_move))"
proof -
  let ?R = "reachable J (running J v)"
  let ?S = "\<lambda>p v' own. \<lparr>vars = v', owner = own, status = (status (parked J v))(Mover := At (Mover_at Mv_wait), Main := At p)\<rparr>"
  let ?v = "v\<lparr>todo := j_blocks J\<rparr>"
  have "?S (Main_at M_loop) ?v [move_mutex \<mapsto> Mover] = goto Mover (Mover_at Mv_wait) ((parked J v)\<lparr>owner := [move_mutex \<mapsto> Mover]\<rparr>)"
    by (simp add: goto_def parked_def running_def fun_eq_iff split: thread.split)
  then have "?R (?S (Main_at M_loop) ?v [move_mutex \<mapsto> Mover])"
    using mover_before_wait [OF assms, of J] by simp
  from reach_step [OF this step.choose_left, of Main "Main_at M_loop" "Main_at M_abort" "Main_at M_more"]
  have "?R (?S (Main_at M_abort) ?v [move_mutex \<mapsto> Mover])" by (simp add: goto_def)
  from reach_do [OF this, of Main "Main_at M_abort" "\<lambda>v. v\<lparr>result := - EINTR\<rparr>" "Main_at Stop_lock"]
  have "?R (?S (Main_at Stop_lock) (?v\<lparr>result := - EINTR\<rparr>) [move_mutex \<mapsto> Mover])" by (simp add: goto_def)
  from reach_lock [OF this, of Main "Main_at Stop_lock" finish_mutex "Main_at Stop_set"]
  have "?R (?S (Main_at Stop_set) (?v\<lparr>result := - EINTR\<rparr>) [move_mutex \<mapsto> Mover, finish_mutex \<mapsto> Main])" by (simp add: goto_def)
  from reach_do [OF this, of Main "Main_at Stop_set" "set_save_ret FORCE_EXIT" "Main_at Stop_unlock"] assms(3)
  have "?R (?S (Main_at Stop_unlock) (?v\<lparr>result := - EINTR, save_ret := FORCE_EXIT\<rparr>) [move_mutex \<mapsto> Mover, finish_mutex \<mapsto> Main])"
    by (simp add: goto_def set_save_ret_def)
  from reach_unlock [OF this, of Main "Main_at Stop_unlock" finish_mutex "Main_at Stop_move"]
  have "?R (?S (Main_at Stop_move) (?v\<lparr>result := - EINTR, save_ret := FORCE_EXIT\<rparr>) [move_mutex \<mapsto> Mover])"
    by (simp add: goto_def unlocked)
  from reach_step [OF this step.signal_none, of Main "Main_at Stop_move" move_cond "Main_at Stop_join_move"]
  have "?R (?S (Main_at Stop_join_move) (?v\<lparr>result := - EINTR, save_ret := FORCE_EXIT\<rparr>) [move_mutex \<mapsto> Mover])"
    by (simp add: goto_def parked_def running_def split: thread.split)
  then show ?thesis by (simp add: signalled_def)
qed

lemma stuck_when_signalled:
  assumes "status S Main = At (Main_at Stop_join_move)" "status S Mover = Asleep move_cond move_mutex (Mover_at Mv_test)"
    and "status S Saver = (if j_encrypt J then Asleep save_cond save_mutex (Saver_at Sv_test) else At (Saver_at Sv_done))"
  shows "stuck J S"
proof -
  have "\<not> step J Main S S'" for S'
    using assms(1,2) by (auto elim!: step.cases)
  moreover have "j_encrypt J" if "step J Saver S S'" for S'
    using that assms(3) by (auto elim!: step.cases split: if_splits)
  ultimately show ?thesis
    using assms(2,3) unfolding stuck_def by (metis thread.exhaust)
qed

text \<open>
  C6: A wake-up can be lost, and then \<open>suspend\<close> hangs. \<open>save_ret\<close> is set under \<open>finish_mutex\<close> but tested
  under \<open>move_mutex\<close> and \<open>save_mutex\<close>: when \<open>stop_threads\<close> sets it and signals between the move thread's test
  and its \<open>pthread_cond_wait\<close>, the move thread sleeps for ever and \<open>stop_threads\<close> waits for it in
  \<open>pthread_join\<close>. Such a state can be reached for every image, right at the start, by aborting with the keyboard.
\<close>

theorem lost_wakeup_hangs:
  assumes start: "start_threads J pth v0 = (True, v)" and "save_ret v0 = 0"
  shows "\<exists>S. reachable J (running J v) S \<and> status S Main = At (Main_at Stop_join_move) \<and>
    save_ret (vars S) \<noteq> 0 \<and> stuck J S"
proof -
  let ?S = "(signalled J v (Main_at Stop_join_move))\<lparr>owner := Map.empty,
    status := (status (signalled J v (Main_at Stop_join_move)))(Mover := Asleep move_cond move_mutex (Mover_at Mv_test))\<rparr>"
  have v: "save_end v = save_start v" "move_end v = move_start v" "save_ret v = 0"
    using start_threads_vars [OF start] assms(2) by simp_all
  have "reachable J (running J v) ?S"
    using reach_wait [OF reach_signalled [OF v, of J], of Mover "Mover_at Mv_wait" move_cond move_mutex "Mover_at Mv_test"]
    by (simp add: signalled_def unlocked)
  moreover have st: "status ?S Main = At (Main_at Stop_join_move)" "status ?S Mover = Asleep move_cond move_mutex (Mover_at Mv_test)"
    "status ?S Saver = (if j_encrypt J then Asleep save_cond save_mutex (Saver_at Sv_test) else At (Saver_at Sv_done))"
    by (simp_all add: signalled_def parked_def)
  moreover have "stuck J ?S" by (rule stuck_when_signalled [OF st])
  moreover have "save_ret (vars ?S) \<noteq> 0" by (simp add: signalled_def FORCE_EXIT_def)
  ultimately show ?thesis by blast
qed

section \<open>save_ret is never cleared\<close>

text \<open>Induction over the runs of the tables.\<close>

lemma reachable_pcs:
  assumes reach: "reachable J (running J v) S"
    and start: "I (v\<lparr>todo := j_blocks J\<rparr>) M_loop Mv_lock (if j_encrypt J then Sv_lock else Sv_done)"
    and main: "\<And>w p q r w' p'. I w p q r \<Longrightarrow> (w', p') \<in> next_states (main_code J p) w \<Longrightarrow> I w' p' q r"
    and move: "\<And>w p q r w' q'. I w p q r \<Longrightarrow> (w', q') \<in> next_states (move_code J q) w \<Longrightarrow> I w' p q' r"
    and save: "\<And>w p q r w' r'. I w p q r \<Longrightarrow> (w', r') \<in> next_states (save_code J r) w \<Longrightarrow> I w' p q r'"
  obtains p q r where "pc_of (status S Main) = Main_at p" "pc_of (status S Mover) = Mover_at q" "pc_of (status S Saver) = Saver_at r"
    "I (vars S) p q r"
proof -
  have "\<exists>p q r. pc_of (status S Main) = Main_at p \<and> pc_of (status S Mover) = Mover_at q \<and> pc_of (status S Saver) = Saver_at r \<and> I (vars S) p q r"
    using reach
  proof induction
    case reach_start
    then show ?case using start by (simp add: running_def)
  next
    case (reach_step S t S')
    then obtain p q r where pcs: "pc_of (status S Main) = Main_at p" "pc_of (status S Mover) = Mover_at q"
        "pc_of (status S Saver) = Saver_at r" and I: "I (vars S) p q r" by blast
    from step_next [OF reach_step(2)] show ?case
    proof (elim disjE conjE exE)
      assume "vars S' = vars S" "\<forall>u. pc_of (status S' u) = pc_of (status S u)"
      then show ?thesis using pcs I by simp
    next
      fix pc
      assume at: "status S t = At pc" and nxt: "(vars S', pc_of (status S' t)) \<in> next_states (code J pc) (vars S)"
        and other: "\<forall>u. u \<noteq> t \<longrightarrow> pc_of (status S' u) = pc_of (status S u)"
      show ?thesis
        using at nxt other pcs main [OF I] move [OF I] save [OF I] by (cases t) (auto simp: next_states_map)
    qed
  qed
  then show thesis using that by blast
qed

lemma stopped_save_ret:
  assumes "reachable J (running J v) S" "status S Main = At (Main_at M_done)"
  shows "save_ret (vars S) \<noteq> 0"
proof -
  obtain p where "pc_of (status S Main) = Main_at p" "p \<in> stopping - {Stop_lock, Stop_set} \<longrightarrow> save_ret (vars S) \<noteq> 0"
  proof (rule reachable_pcs [OF assms(1), of "\<lambda>w p q r. p \<in> stopping - {Stop_lock, Stop_set} \<longrightarrow> save_ret w \<noteq> 0"])
    show "p' \<in> stopping - {Stop_lock, Stop_set} \<longrightarrow> save_ret w' \<noteq> 0"
      if "p \<in> stopping - {Stop_lock, Stop_set} \<longrightarrow> save_ret w \<noteq> 0" "(w', p') \<in> next_states (main_code J p) w" for w p w' p'
      using that by (cases p) (auto simp: stopping_def FORCE_EXIT_def split: if_splits)
    show "p \<in> stopping - {Stop_lock, Stop_set} \<longrightarrow> save_ret w' \<noteq> 0"
      if "p \<in> stopping - {Stop_lock, Stop_set} \<longrightarrow> save_ret w \<noteq> 0" "(w', q') \<in> next_states (move_code J q) w" for w p q w' q'
      using that move_frame(7) by blast
    show "p \<in> stopping - {Stop_lock, Stop_set} \<longrightarrow> save_ret w' \<noteq> 0"
      if "p \<in> stopping - {Stop_lock, Stop_set} \<longrightarrow> save_ret w \<noteq> 0" "(w', r') \<in> next_states (save_code J r) w" for w p r w' r'
      using that save_frame(11) by blast
  qed (simp_all add: stopping_def)
  then show ?thesis using assms(2) by (simp add: stopping_def)
qed

definition spoiled :: "'s \<Rightarrow> ('c, 's) shared \<Rightarrow> main_pc \<Rightarrow> move_pc \<Rightarrow> save_pc \<Rightarrow> bool" where
  "spoiled s w p q r \<longleftrightarrow> save_ret w \<noteq> 0 \<and> swap_state w = s \<and> (p \<in> stopping \<longrightarrow> result w \<noteq> 0) \<and>
     q \<in> {Mv_lock, Mv_test, Mv_unlock, Mv_check, Mv_done} \<and> r \<in> {Sv_lock, Sv_test, Sv_unlock, Sv_check, Sv_done}"

text \<open>
  C7: After the threads have been stopped once they can never be used again. \<open>stop_threads\<close> leaves
  \<open>save_ret\<close> set (to the error, or to \<open>FORCE_EXIT\<close>) and \<open>start_threads\<close> does not clear it: the second attempt of
  \<open>suspend_system\<close>, made with a smaller image when the first ran out of swap, saves no page at all and fails.
\<close>

theorem second_run_saves_nothing:
  assumes "reachable J1 (running J1 v1) S1" and "status S1 Main = At (Main_at M_done)"
    and start: "start_threads J pth (vars S1) = (True, v)" and reach: "reachable J (running J v) S"
  shows "swap_state (vars S) = swap_state (vars S1) \<and> (status S Main = At (Main_at M_done) \<longrightarrow> result (vars S) \<noteq> 0)"
proof -
  have ret: "save_ret (vars S1) \<noteq> 0" by (rule stopped_save_ret [OF assms(1,2)])
  obtain p q r where "pc_of (status S Main) = Main_at p" "spoiled (swap_state (vars S1)) (vars S) p q r"
  proof (rule reachable_pcs [OF reach, of "spoiled (swap_state (vars S1))"])
    show "spoiled (swap_state (vars S1)) (v\<lparr>todo := j_blocks J\<rparr>) M_loop Mv_lock (if j_encrypt J then Sv_lock else Sv_done)"
      using ret start_threads_vars [OF start] by (simp add: spoiled_def stopping_def)
    show "spoiled s w' p' q r" if "spoiled s w p q r" "(w', p') \<in> next_states (main_code J p) w" for s w p q r w' p'
      using that by (cases p) (auto simp: spoiled_def stopping_def split: if_splits)
    show "spoiled s w' p q' r" if "spoiled s w p q r" "(w', q') \<in> next_states (move_code J q) w" for s w p q r w' q'
      using that by (cases q) (auto simp: spoiled_def split: if_splits)
    show "spoiled s w' p q r'" if "spoiled s w p q r" "(w', r') \<in> next_states (save_code J r) w" for s w p q r w' r'
      using that by (cases r) (auto simp: spoiled_def split: if_splits)
  qed blast
  then show ?thesis by (auto simp: spoiled_def stopping_def)
qed

section \<open>Schedules\<close>

text \<open>A thread's next step if it has one: the first sleeper is woken, \<open>save_image\<close> is not aborted.\<close>

fun asleep_on :: "condition \<Rightarrow> pc status \<Rightarrow> bool" where
  "asleep_on c (Asleep c' m p) = (c' = c)"
| "asleep_on c st = False"

fun woken :: "pc status \<Rightarrow> pc status" where
  "woken (Asleep c m p) = Woken m p"
| "woken st = st"

definition wake_one :: "condition \<Rightarrow> ('c, 's) system \<Rightarrow> ('c, 's) system" where
  "wake_one c S =
     (case find (\<lambda>u. asleep_on c (status S u)) [Main, Mover, Saver] of
        None \<Rightarrow> S | Some u \<Rightarrow> S\<lparr>status := (status S)(u := woken (status S u))\<rparr>)"

definition exec :: "('c, 's) job \<Rightarrow> thread \<Rightarrow> ('c, 's) system \<Rightarrow> ('c, 's) system option" where
  "exec J t S =
     (case status S t of
        Asleep c m q \<Rightarrow> None
      | Woken m q \<Rightarrow> if owner S m = None then Some (goto t q (S\<lparr>owner := (owner S)(m := Some t)\<rparr>)) else None
      | At p \<Rightarrow>
         (case code J p of
            Lock m q \<Rightarrow> if owner S m = None then Some (goto t q (S\<lparr>owner := (owner S)(m := Some t)\<rparr>)) else None
          | Unlock m q \<Rightarrow> Some (goto t q (S\<lparr>owner := (owner S)(m := None)\<rparr>))
          | Cond_wait c m q \<Rightarrow> Some (S\<lparr>owner := (owner S)(m := None), status := (status S)(t := Asleep c m q)\<rparr>)
          | Signal c q \<Rightarrow> Some (goto t q (wake_one c S))
          | Do f q \<Rightarrow> Some (goto t q (S\<lparr>vars := f (vars S)\<rparr>))
          | If_then b q r \<Rightarrow> Some (goto t (if b (vars S) then q else r) S)
          | Choose q r \<Rightarrow> Some (goto t r S)
          | Join u q \<Rightarrow> (case status S u of At r \<Rightarrow> (case code J r of Exit \<Rightarrow> Some (goto t q S) | _ \<Rightarrow> None) | _ \<Rightarrow> None)
          | Exit \<Rightarrow> None))"

fun run :: "('c, 's) job \<Rightarrow> thread list \<Rightarrow> ('c, 's) system \<Rightarrow> ('c, 's) system option" where
  "run J [] S = Some S"
| "run J (t # ts) S = Option.bind (exec J t S) (run J ts)"

lemma exec_signal:
  assumes "status S t = At p" "code J p = Signal c q"
  shows "step J t S (goto t q (wake_one c S))"
proof (cases "find (\<lambda>u. asleep_on c (status S u)) [Main, Mover, Saver]")
  case None
  have "status S u \<noteq> Asleep c m r" for u m r
    using None by (cases u) (auto split: if_splits)
  then show ?thesis using step.signal_none [OF assms] None by (simp add: wake_one_def)
next
  case (Some u)
  then have "asleep_on c (status S u)" by (auto split: if_splits)
  then obtain m r where u: "status S u = Asleep c m r" by (cases "status S u") auto
  show ?thesis using step.signal [OF assms u] Some u by (simp add: wake_one_def)
qed

lemma exec_step: "exec J t S = Some S' \<Longrightarrow> step J t S S'"
  unfolding exec_def
  by (auto split: status.splits instr.splits if_splits intro: step.intros exec_signal)

lemma run_reachable: "run J ts S = Some S' \<Longrightarrow> reachable J S0 S \<Longrightarrow> reachable J S0 S'"
  by (induction ts arbitrary: S) (auto simp: bind_eq_Some_conv intro: reach_step exec_step)

section \<open>Witnesses\<close>

text \<open>Pages of one byte, a cipher that adds 1, a swap that is the list of the pages saved; one buffer of two pages.\<close>

definition small_job :: "bool \<Rightarrow> (unit, byte list list) job" where
  "small_job enc = \<lparr>j_encrypt = enc, j_page_size = 1, j_encrypt_pages = 2, j_gcry_encrypt = (\<lambda>p c. ((0, map ((+) 1) p), c)),
     j_save_page = (\<lambda>p s. (0, s @ [p])), j_blocks = [[5, 6]], j_rest = False\<rparr>"

definition small_vars :: "(unit, byte list list) shared" where
  "small_vars = \<lparr>save_ret = 0, save_start = 0, save_end = 0, move_start = 0, move_end = 0,
     write_buffers = replicate 4 \<lparr>wb_size = 0, wb_start = [0, 0]\<rparr>, encrypt_buf = (\<lambda>p. []), cipher_state = (), swap_state = [],
     moved_size = 0, move_err = 0, save_err = 0, todo = [], result = 0\<rparr>"

lemma small_job_ok: "job_ok (small_job enc) (write_buffers small_vars)"
  by (simp add: job_ok_def small_job_def small_vars_def WRITE_BUFFERS_def)

lemma small_start: "start_threads (small_job enc) (\<lambda>c. 0) small_vars = (True, small_vars)"
  by (cases enc) (simp_all add: start_threads_def thread_calls_def small_job_def small_vars_def)

text \<open>Without encryption: \<open>save_image\<close> hands the buffer over, the move thread saves it, both stop.\<close>

definition plain_schedule :: "thread list" where
  "plain_schedule = replicate 13 Main @ replicate 23 Mover @ replicate 9 Main @ replicate 4 Mover @ replicate 2 Main"

definition plain_end :: "(unit, byte list list) system" where
  "plain_end = the (run (small_job False) plain_schedule (running (small_job False) small_vars))"

lemma plain_run:
  "case run (small_job False) plain_schedule (running (small_job False) small_vars) of
     None \<Rightarrow> False
   | Some S \<Rightarrow> status S Main = At (Main_at M_done) \<and> result (vars S) = 0 \<and> swap_state (vars S) = [[5], [6]] \<and> save_ret (vars S) = 1"
  by code_simp

lemma plain_end:
  "reachable (small_job False) (running (small_job False) small_vars) plain_end" "status plain_end Main = At (Main_at M_done)"
  "result (vars plain_end) = 0" "swap_state (vars plain_end) = [[5], [6]]"
  using plain_run run_reachable [OF _ reach_start] by (auto simp: plain_end_def split: option.splits)

lemma threads_write_all_witness:
  "write_pages (small_job False) (all_pages (small_job False) (write_buffers small_vars) (length (j_blocks (small_job False))))
     (cipher_state small_vars) (swap_state small_vars) = (0, cipher_state (vars plain_end), [[5], [6]])"
proof -
  have "save_ret small_vars = 0" by (simp add: small_vars_def)
  from threads_write_all [OF small_job_ok small_start this plain_end(1-3)] show ?thesis by (simp add: plain_end(4))
qed

text \<open>With encryption, in the middle: \<open>save_image\<close> is about to fill the next buffer while the move thread encrypts the
  second page and the save thread is writing the first one out.\<close>

definition busy_job :: "(unit, byte list list) job" where
  "busy_job = (small_job True)\<lparr>j_blocks := [[5, 6], [7]]\<rparr>"

definition busy_schedule :: "thread list" where
  "busy_schedule = replicate 13 Main @ replicate 15 Mover @ replicate 4 Saver"

definition busy_end :: "(unit, byte list list) system" where
  "busy_end = the (run busy_job busy_schedule (running busy_job small_vars))"

lemma busy_run:
  "case run busy_job busy_schedule (running busy_job small_vars) of
     None \<Rightarrow> False
   | Some S \<Rightarrow> status S Main = At (Main_at M_fill) \<and> status S Mover = At (Mover_at En_page) \<and> status S Saver = At (Saver_at Sv_save)"
  by code_simp

lemma buffers_exclusive_witness:
  "move_start (vars busy_end) \<noteq> move_end (vars busy_end) \<and> save_start (vars busy_end) \<noteq> save_end (vars busy_end)"
proof -
  have ok: "job_ok busy_job (write_buffers small_vars)"
    using small_job_ok [of True] by (simp add: busy_job_def job_ok_def small_job_def)
  have start: "start_threads busy_job (\<lambda>c. 0) small_vars = (True, small_vars)"
    using small_start [of True] by (simp add: busy_job_def start_threads_def thread_calls_def small_job_def)
  have "reachable busy_job (running busy_job small_vars) busy_end"
    using busy_run run_reachable [OF _ reach_start] by (auto simp: busy_end_def split: option.splits)
  from buffers_exclusive [OF ok start _ this] busy_run show ?thesis
    by (auto simp: busy_end_def small_vars_def split: option.splits)
qed

lemma unlock_run:
  "case run (small_job False) (replicate 6 Main) (running (small_job False) small_vars) of
     None \<Rightarrow> False | Some S \<Rightarrow> status S Main = At (Main_at M_unlock)"
  by code_simp

lemma mutexes_well_used_witness:
  "case run (small_job False) (replicate 6 Main) (running (small_job False) small_vars) of
     None \<Rightarrow> False | Some S \<Rightarrow> owner S move_mutex = Some Main"
proof (cases "run (small_job False) (replicate 6 Main) (running (small_job False) small_vars)")
  case None
  then show ?thesis using unlock_run by simp
next
  case (Some S)
  from mutexes_well_used [OF run_reachable [OF Some reach_start], of Main "Main_at M_unlock"]
  show ?thesis using Some unlock_run by simp
qed

lemma lost_wakeup_hangs_witness:
  "\<exists>S. reachable (small_job False) (running (small_job False) small_vars) S \<and> status S Main = At (Main_at Stop_join_move) \<and>
    save_ret (vars S) \<noteq> 0 \<and> stuck (small_job False) S"
  by (rule lost_wakeup_hangs [OF small_start]) (simp add: small_vars_def)

lemma second_run_saves_nothing_witness:
  "swap_state (vars (running (small_job True) (vars plain_end))) = [[5], [6]]"
proof -
  have "start_threads (small_job True) (\<lambda>c. 0) (vars plain_end) =
      (True, (vars plain_end)\<lparr>save_start := 0, save_end := 0, move_start := 0, move_end := 0\<rparr>)"
    by (simp add: start_threads_def thread_calls_def small_job_def)
  from second_run_saves_nothing [OF plain_end(1,2) this reach_start] plain_end(4) show ?thesis
    by (simp add: running_def)
qed

end
