(* ===== verification/Threads_Live.thy ===== *)
theory Threads_Live
  imports Threads_Run
begin

text \<open>
  As long as nothing has gone wrong the threads do not block each other: no wake-up that is needed is missing,
  and the order in which the mutexes are taken has no cycle. This is what fails once \<open>save_ret\<close> is set
  (\<open>lost_wakeup_hangs\<close>).
\<close>

section \<open>Needed wake-ups are on their way\<close>

definition unfinished :: "('c, 's) job \<Rightarrow> counts \<Rightarrow> bool" where
  "unfinished J g \<longleftrightarrow> j_encrypt J \<and> n_saved g \<noteq> n_enc g \<or> n_out g \<noteq> n_in g"

definition buffers_full :: "counts \<Rightarrow> bool" where
  "buffers_full g \<longleftrightarrow> n_in g + 1 = n_out g + WRITE_BUFFERS"

definition pages_full :: "('c, 's) job \<Rightarrow> counts \<Rightarrow> bool" where
  "pages_full J g \<longleftrightarrow> n_enc g + 1 = n_saved g + j_encrypt_pages J"

text \<open>What a thread waits for, at the places from the test up to \<open>pthread_cond_wait\<close>.\<close>

definition waits_rightly :: "('c, 's) job \<Rightarrow> counts \<Rightarrow> main_pc \<Rightarrow> move_pc \<Rightarrow> save_pc \<Rightarrow> bool" where
  "waits_rightly J g p q r \<longleftrightarrow>
     (p = M_wait \<longrightarrow> buffers_full g) \<and> (p \<in> {Fin_test3, Fin_wait} \<longrightarrow> unfinished J g) \<and>
     (q = Mv_wait \<longrightarrow> n_out g = n_in g) \<and> (q = En_wait \<longrightarrow> pages_full J g) \<and> (r = Sv_wait \<longrightarrow> n_saved g = n_enc g)"

text \<open>A thread that sleeps still has a reason to, or another is about to signal.\<close>

definition sleeps_rightly :: "('c, 's) job \<Rightarrow> counts \<Rightarrow> (thread \<Rightarrow> pc status) \<Rightarrow> main_pc \<Rightarrow> move_pc \<Rightarrow> save_pc \<Rightarrow> bool" where
  "sleeps_rightly J g st p q r \<longleftrightarrow>
     (asleep_on move_cond (st Main) \<longrightarrow> buffers_full g \<or> q \<in> {Al_unmove, Al_unfinish, Al_signal}) \<and>
     (asleep_on finish_cond (st Main) \<longrightarrow> unfinished J g \<or> q \<in> {Al_unmove, Al_unfinish, Al_signal, Al_signal2} \<or>
        r \<in> {Sa_unsave, Sa_unfinish, Sa_signal, Sa_signal2}) \<and>
     (asleep_on move_cond (st Mover) \<longrightarrow> n_out g = n_in g \<or> p \<in> {M_unlock, M_signal}) \<and>
     (asleep_on save_cond (st Mover) \<longrightarrow> pages_full J g \<or> r \<in> {Sa_unsave, Sa_unfinish, Sa_signal}) \<and>
     (asleep_on save_cond (st Saver) \<longrightarrow> n_saved g = n_enc g \<or> q \<in> {En_unlock, En_signal})"

text \<open>Which conditions a thread can sleep on, and where it goes on.\<close>

fun sleep_ok :: "thread \<Rightarrow> pc status \<Rightarrow> bool" where
  "sleep_ok t (Asleep c m p) =
     ((t, c, p) \<in> {(Main, move_cond, Main_at M_test), (Main, finish_cond, Main_at Fin_test1), (Mover, move_cond, Mover_at Mv_test),
        (Mover, save_cond, Mover_at En_test), (Saver, save_cond, Saver_at Sv_test)})"
| "sleep_ok t st = True"

definition live_inv :: "('c, 's) job \<Rightarrow> ('c, 's) shared \<Rightarrow> counts \<Rightarrow> ('c, 's) system \<Rightarrow> bool" where
  "live_inv J v0 g S \<longleftrightarrow> threads_inv J v0 g S \<and> (\<forall>t. sleep_ok t (status S t)) \<and>
     (save_ret (vars S) = 0 \<longrightarrow> (\<forall>p q r. pc_of (status S Main) = Main_at p \<longrightarrow> pc_of (status S Mover) = Mover_at q \<longrightarrow>
        pc_of (status S Saver) = Saver_at r \<longrightarrow>
        waits_rightly J g p q r \<and> sleeps_rightly J g (status S) p q r))"

lemma sleep_ok_step:
  assumes step: "step J t S S'" and mutex: "mutex_inv S" and "\<forall>t. sleep_ok t (status S t)"
  shows "\<forall>t. sleep_ok t (status S' t)"
proof -
  have "sleep_ok t (Asleep c m q)" if at: "status S t = At p" and code: "code J p = Cond_wait c m q" for p c m q
  proof -
    have "thread_of p = t" using mutex_invD(2) [OF mutex, of t] at by simp
    then show ?thesis using code
    proof (cases p)
      case (Main_at x)
      then show ?thesis using code \<open>thread_of p = t\<close> by (cases x) auto
    next
      case (Mover_at x)
      then show ?thesis using code \<open>thread_of p = t\<close> by (cases x) auto
    next
      case (Saver_at x)
      then show ?thesis using code \<open>thread_of p = t\<close> by (cases x) auto
    qed
  qed
  note waits = this
  show ?thesis
  proof
    fix u
    show "sleep_ok u (status S' u)"
      using step assms(3) [rule_format, of u]
      by (cases rule: step.cases) (auto simp: goto_def waits simp del: sleep_ok.simps(1))
  qed
qed

section \<open>Every step keeps it\<close>

lemma excluded:
  assumes "mutex_inv S" "pc_of (status S t) = p" "p \<notin> retests" "status S u = At p'" "t \<noteq> u" "m \<in> held p"
  shows "m \<notin> held p'"
proof -
  have "status S t = At p"
    using assms(2,3) mutex_invD(2) [OF assms(1), of t] by (cases "status S t") auto
  then show ?thesis using not_both_holding [OF assms(1) _ assms(4)] assms(5,6) by blast
qed

lemma waits_main:
  assumes ok: "job_ok J bs" and main: "main_inv J bs g v p" and move: "move_inv J bs c s g v q" and save: "save_inv J f s g v r"
    and nxt: "(v', p') \<in> next_states (main_code J p) v" and ret: "save_ret v = 0" and waits: "waits_rightly J g p q r"
    and excl: "\<not> (p = M_adv \<and> q = Mv_wait)"
  shows "waits_rightly J (count_step (Main_at p) g) p' q r"
proof -
  have "buffers_full g" if "p' = M_wait"
  proof -
    have "p = M_test" using that nxt by (cases p) (auto split: if_splits)
    then have "Suc (n_in g) mod WRITE_BUFFERS = n_out g mod WRITE_BUFFERS"
      using nxt that main_invD(3) [OF main] move_invD(1) [OF move] by (auto simp: move_inc_mod split: if_splits)
    moreover have "n_in g < n_out g + WRITE_BUFFERS"
      using main_invD(2,7) [OF main] ret by (auto simp: le_less)
    ultimately show ?thesis
      using main_invD(1) [OF main] mod_eq_close [of "n_out g" "Suc (n_in g)" WRITE_BUFFERS]
      by (cases "Suc (n_in g) = n_out g + WRITE_BUFFERS") (auto simp: buffers_full_def)
  qed
  moreover have "unfinished J g" if "p' \<in> {Fin_test3, Fin_wait}"
  proof -
    have "p = Fin_test1 \<and> save_end v \<noteq> save_start v \<or> p = Fin_test2 \<and> move_start v \<noteq> move_end v \<or> p = Fin_test3"
      using that nxt by (cases p) (auto split: if_splits)
    then show ?thesis
    proof (elim disjE conjE)
      assume ne: "save_end v \<noteq> save_start v"
      have "j_encrypt J" using ne move_invD(10) [OF move] by (auto simp: plain_inv_def)
      then show ?thesis
        using ne cipher_invD(1) [OF move_invD(9) [OF move]] save_invD(1) [OF save] by (auto simp: unfinished_def)
    next
      assume "move_start v \<noteq> move_end v"
      then show ?thesis using main_invD(3) [OF main] move_invD(1) [OF move] by (auto simp: unfinished_def)
    qed (use waits in \<open>simp add: waits_rightly_def\<close>)
  qed
  moreover have "n_out g = n_in g \<and> p \<noteq> M_adv" if "q = Mv_wait" using waits that excl by (auto simp: waits_rightly_def)
  moreover have "p' \<noteq> M_wait \<and> p' \<notin> {Fin_test3, Fin_wait}" if "p = M_adv" using nxt that by simp
  ultimately show ?thesis
    using waits by (cases "p = M_adv") (auto simp: waits_rightly_def unfinished_def buffers_full_def pages_full_def)
qed

lemma waits_move:
  assumes ok: "job_ok J bs" and main: "main_inv J bs g v p" and move: "move_inv J bs c s g v q" and save: "save_inv J f s g v r"
    and nxt: "(v', q') \<in> next_states (move_code J q) v" and ret: "save_ret v = 0" and waits: "waits_rightly J g p q r"
    and excl: "\<not> (q = Al_adv \<and> p \<in> {M_wait, Fin_test3, Fin_wait})" "\<not> (q = En_adv \<and> r = Sv_wait)"
  shows "waits_rightly J (count_step (Mover_at q) g) p q' r"
proof -
  let ?g = "count_step (Mover_at q) g"
  have "n_out ?g = n_in ?g" if "q' = Mv_wait"
  proof -
    have q: "q = Mv_test" using that nxt by (cases q) (auto split: if_splits)
    then have "move_start v = move_end v" using nxt that by (auto split: if_splits)
    then have "n_out g = n_in g" by (rule buffers_empty [OF main move _ ret])
    with q show ?thesis by simp
  qed
  moreover have "pages_full J ?g" if "q' = En_wait"
  proof -
    have q: "q = En_test" using that nxt by (cases q) (auto split: if_splits)
    then have enc: "j_encrypt J" using move_invD(6) [OF move] by (simp add: encrypting_def)
    note C = cipher_invD [OF move_invD(9) [OF move enc]]
    have "save_inc J (save_start v) = save_end v" using nxt that q by (auto split: if_splits)
    then have "j_page_size J * (n_saved g mod j_encrypt_pages J) = j_page_size J * (Suc (n_enc g) mod j_encrypt_pages J)"
      using C(1) save_invD(1) [OF save enc] by (auto simp: offset_inc)
    moreover have "n_enc g < n_saved g + j_encrypt_pages J" using C(3,4) ret by (auto simp: le_less)
    ultimately have "Suc (n_enc g) = n_saved g + j_encrypt_pages J"
      using offset_eq [of J "n_saved g" "Suc (n_enc g)"] ok C(2)
      by (cases "Suc (n_enc g) = n_saved g + j_encrypt_pages J") (auto simp: job_ok_def)
    then show ?thesis using q by (simp add: pages_full_def)
  qed
  moreover have "unfinished J ?g" if "p \<in> {Fin_test3, Fin_wait}"
  proof -
    have "unfinished J g" "q \<noteq> Al_adv" using waits that excl by (auto simp: waits_rightly_def)
    moreover have "j_encrypt J \<Longrightarrow> n_saved g \<le> n_enc g" using cipher_invD(2) [OF move_invD(9) [OF move]] .
    ultimately show ?thesis by (auto simp: unfinished_def)
  qed
  moreover have "n_saved ?g = n_enc ?g" if "r = Sv_wait"
  proof -
    have "j_encrypt J" using save that by (simp add: save_inv_def split: if_splits)
    then have "q \<noteq> Pl_next" using move_invD(7) [OF move] by (auto simp: plain_def)
    then show ?thesis using waits that excl(2) by (auto simp: waits_rightly_def)
  qed
  ultimately show ?thesis
    using waits excl(1) by (auto simp: waits_rightly_def buffers_full_def)
qed

lemma waits_save:
  assumes ok: "job_ok J bs" and move: "move_inv J bs c s g v q" and save: "save_inv J f s g v r"
    and nxt: "(v', r') \<in> next_states (save_code J r) v" and ret: "save_ret v = 0" and waits: "waits_rightly J g p q r"
    and excl: "\<not> (r = Sa_adv \<and> p \<in> {Fin_test3, Fin_wait})" "\<not> (r = Sa_adv \<and> q = En_wait)"
  shows "waits_rightly J (count_step (Saver_at r) g) p q r'"
proof -
  have "n_saved g = n_enc g \<and> r = Sv_test" if "r' = Sv_wait"
  proof -
    have r: "r = Sv_test" using that nxt by (cases r) (auto split: if_splits)
    then have enc: "j_encrypt J" using save by (simp add: save_inv_def split: if_splits)
    note C = cipher_invD [OF move_invD(9) [OF move enc]]
    have "save_end v = save_start v" using nxt that r by (auto split: if_splits)
    moreover have "n_enc g < n_saved g + j_encrypt_pages J" using C(3,4) ret by (auto simp: le_less)
    moreover have "0 < j_page_size J" using ok by (simp add: job_ok_def)
    ultimately show ?thesis using r offset_eq [of J "n_saved g" "n_enc g"] C(1,2) save_invD(1) [OF save enc] by simp
  qed
  then show ?thesis using waits excl by (auto simp: waits_rightly_def unfinished_def buffers_full_def pages_full_def)
qed

lemma asleep_self: "step J t S S' \<Longrightarrow> status S t = At p \<Longrightarrow> asleep_on c (status S' t) \<Longrightarrow> \<exists>m q. code J p = Cond_wait c m q"
  by (cases rule: step.cases) (auto simp: goto_def split: if_splits)

lemma asleep_other:
  assumes "step J t S S'" "u \<noteq> t" "asleep_on c (status S' u)"
  shows "asleep_on c (status S u)"
  using assms by (cases rule: step.cases) (auto simp: goto_def split: if_splits)

lemma asleep_signalled:
  assumes "step J t S S'" "status S t = At p" "code J p = Signal c q" "u \<noteq> t" "asleep_on c (status S' u)"
  obtains w where "w \<noteq> u" "w \<noteq> t" "asleep_on c (status S w)"
proof -
  obtain m r where u: "status S' u = Asleep c m r" using assms(5) by (cases "status S' u") auto
  have "status S u = Asleep c m r" using assms(1,4) u by (cases rule: step.cases) (auto simp: goto_def split: if_splits)
  with assms(1-4) u have "\<exists>w. w \<noteq> u \<and> w \<noteq> t \<and> asleep_on c (status S w)"
  proof (cases rule: step.cases)
    case (signal p' c' q' w m' r')
    then have "w \<noteq> t" "w \<noteq> u" "asleep_on c (status S w)" using assms(2-4) u by (auto simp: goto_def)
    then show ?thesis by blast
  next
    case (signal_none p' c' q')
    then show ?thesis using assms(2-4) \<open>status S u = Asleep c m r\<close> by auto
  qed (use assms(2,3) in auto)
  then show thesis using that by blast
qed

lemma sleeps_main:
  assumes nxt: "(v', p') \<in> next_states (main_code J p) v" and waits: "waits_rightly J g p q r" and sleeps: "sleeps_rightly J g st p q r"
    and self: "\<And>c. asleep_on c (st' Main) \<Longrightarrow> \<exists>m l. main_code J p = Cond_wait c m l"
    and other: "\<And>c u. u \<noteq> Main \<Longrightarrow> asleep_on c (st' u) \<Longrightarrow> asleep_on c (st u)"
    and woken: "asleep_on move_cond (st' Mover) \<Longrightarrow> p \<noteq> M_signal"
  shows "sleeps_rightly J (count_step (Main_at p) g) st' p' q r"
proof -
  let ?g = "count_step (Main_at p) g"
  have 1: "p = M_wait" if "asleep_on move_cond (st' Main)" using self [OF that] by (cases p) auto
  have 2: "p = Fin_wait" if "asleep_on finish_cond (st' Main)" using self [OF that] by (cases p) auto
  have 3: "n_out ?g = n_in ?g \<or> p' \<in> {M_unlock, M_signal}" if "asleep_on move_cond (st' Mover)"
  proof (cases "p \<in> {M_adv, M_unlock}")
    case True
    then show ?thesis using nxt by auto
  next
    case False
    then show ?thesis using sleeps other [OF _ that] woken [OF that] by (auto simp: sleeps_rightly_def)
  qed
  have 4: "asleep_on save_cond (st' Mover) \<Longrightarrow> pages_full J ?g \<or> r \<in> {Sa_unsave, Sa_unfinish, Sa_signal}"
    using sleeps other [of Mover save_cond] by (auto simp: sleeps_rightly_def pages_full_def)
  have 5: "asleep_on save_cond (st' Saver) \<Longrightarrow> n_saved ?g = n_enc ?g \<or> q \<in> {En_unlock, En_signal}"
    using sleeps other [of Saver save_cond] by (auto simp: sleeps_rightly_def)
  have 6: "asleep_on move_cond (st' Main) \<Longrightarrow> buffers_full ?g" "asleep_on finish_cond (st' Main) \<Longrightarrow> unfinished J ?g"
    using 1 2 waits by (auto simp: waits_rightly_def buffers_full_def unfinished_def)
  show ?thesis unfolding sleeps_rightly_def using 3 4 5 6 by blast
qed

lemma sleeps_move:
  assumes nxt: "(v', q') \<in> next_states (move_code J q) v" and waits: "waits_rightly J g p q r" and sleeps: "sleeps_rightly J g st p q r"
    and self: "\<And>c. asleep_on c (st' Mover) \<Longrightarrow> \<exists>m l. move_code J q = Cond_wait c m l"
    and other: "\<And>c u. u \<noteq> Mover \<Longrightarrow> asleep_on c (st' u) \<Longrightarrow> asleep_on c (st u)"
    and woken: "asleep_on move_cond (st' Main) \<Longrightarrow> q \<noteq> Al_signal" "asleep_on finish_cond (st' Main) \<Longrightarrow> q \<noteq> Al_signal2"
      "asleep_on save_cond (st' Saver) \<Longrightarrow> q \<noteq> En_signal"
    and le: "j_encrypt J \<Longrightarrow> n_saved g \<le> n_enc g" and plain: "asleep_on save_cond (st Saver) \<Longrightarrow> q \<noteq> Pl_next"
  shows "sleeps_rightly J (count_step (Mover_at q) g) st' p q' r"
proof -
  let ?g = "count_step (Mover_at q) g"
  have 1: "buffers_full ?g \<or> q' \<in> {Al_unmove, Al_unfinish, Al_signal}" if "asleep_on move_cond (st' Main)"
  proof (cases "q \<in> {Al_adv, Al_unmove, Al_unfinish}")
    case True
    then show ?thesis using nxt by auto
  next
    case False
    then show ?thesis using sleeps other [OF _ that] woken(1) [OF that] by (auto simp: sleeps_rightly_def buffers_full_def)
  qed
  have 2: "unfinished J ?g \<or> q' \<in> {Al_unmove, Al_unfinish, Al_signal, Al_signal2} \<or> r \<in> {Sa_unsave, Sa_unfinish, Sa_signal, Sa_signal2}"
    if "asleep_on finish_cond (st' Main)"
  proof (cases "q \<in> {Al_adv, Al_unmove, Al_unfinish, Al_signal}")
    case True
    then show ?thesis using nxt by auto
  next
    case False
    then show ?thesis using sleeps other [OF _ that] woken(2) [OF that] le by (auto simp: sleeps_rightly_def unfinished_def)
  qed
  have 3: "q = Mv_wait" if "asleep_on move_cond (st' Mover)" using self [OF that] by (cases q) auto
  have 4: "q = En_wait" if "asleep_on save_cond (st' Mover)" using self [OF that] by (cases q) auto
  have 5: "n_saved ?g = n_enc ?g \<or> q' \<in> {En_unlock, En_signal}" if "asleep_on save_cond (st' Saver)"
  proof (cases "q \<in> {En_adv, En_unlock}")
    case True
    then show ?thesis using nxt by auto
  next
    case False
    then show ?thesis using sleeps other [OF _ that] woken(3) [OF that] plain by (auto simp: sleeps_rightly_def)
  qed
  have 6: "asleep_on move_cond (st' Mover) \<Longrightarrow> n_out ?g = n_in ?g" "asleep_on save_cond (st' Mover) \<Longrightarrow> pages_full J ?g"
    using 3 4 waits by (auto simp: waits_rightly_def pages_full_def)
  show ?thesis
    unfolding sleeps_rightly_def using 1 2 5 6 by blast
qed

lemma sleeps_save:
  assumes nxt: "(v', r') \<in> next_states (save_code J r) v" and waits: "waits_rightly J g p q r" and sleeps: "sleeps_rightly J g st p q r"
    and self: "\<And>c. asleep_on c (st' Saver) \<Longrightarrow> \<exists>m l. save_code J r = Cond_wait c m l"
    and other: "\<And>c u. u \<noteq> Saver \<Longrightarrow> asleep_on c (st' u) \<Longrightarrow> asleep_on c (st u)"
    and woken: "asleep_on finish_cond (st' Main) \<Longrightarrow> r \<noteq> Sa_signal2" "asleep_on save_cond (st' Mover) \<Longrightarrow> r \<noteq> Sa_signal"
  shows "sleeps_rightly J (count_step (Saver_at r) g) st' p q r'"
proof -
  let ?g = "count_step (Saver_at r) g"
  have 2: "unfinished J ?g \<or> q \<in> {Al_unmove, Al_unfinish, Al_signal, Al_signal2} \<or> r' \<in> {Sa_unsave, Sa_unfinish, Sa_signal, Sa_signal2}"
    if "asleep_on finish_cond (st' Main)"
  proof (cases "r \<in> {Sa_adv, Sa_unsave, Sa_unfinish, Sa_signal}")
    case True
    then show ?thesis using nxt by auto
  next
    case False
    then show ?thesis using sleeps other [OF _ that] woken(1) [OF that] by (auto simp: sleeps_rightly_def unfinished_def)
  qed
  have 4: "pages_full J ?g \<or> r' \<in> {Sa_unsave, Sa_unfinish, Sa_signal}" if "asleep_on save_cond (st' Mover)"
  proof (cases "r \<in> {Sa_adv, Sa_unsave, Sa_unfinish}")
    case True
    then show ?thesis using nxt by auto
  next
    case False
    then show ?thesis using sleeps other [OF _ that] woken(2) [OF that] by (auto simp: sleeps_rightly_def pages_full_def)
  qed
  have 5: "r = Sv_wait" if "asleep_on save_cond (st' Saver)" using self [OF that] by (cases r) auto
  have 6: "asleep_on save_cond (st' Saver) \<Longrightarrow> n_saved ?g = n_enc ?g"
    using 5 waits by (auto simp: waits_rightly_def)
  have 7: "asleep_on move_cond (st' Main) \<Longrightarrow> buffers_full ?g \<or> q \<in> {Al_unmove, Al_unfinish, Al_signal}"
    "asleep_on move_cond (st' Mover) \<Longrightarrow> n_out ?g = n_in ?g \<or> p \<in> {M_unlock, M_signal}"
    using sleeps other [of Main move_cond] other [of Mover move_cond]
    by (auto simp: sleeps_rightly_def buffers_full_def)
  show ?thesis unfolding sleeps_rightly_def using 2 4 6 7 by blast
qed

lemma asleep_quiet:
  assumes "step J t S S'" "\<forall>p. status S t \<noteq> At p" "asleep_on c (status S' u)"
  shows "asleep_on c (status S u)"
  using assms by (cases rule: step.cases) (auto simp: goto_def split: if_splits)

lemma sleeps_rightly_mono:
  assumes "sleeps_rightly J g st p q r" "\<And>c u. asleep_on c (st' u) \<Longrightarrow> asleep_on c (st u)"
  shows "sleeps_rightly J g st' p q r"
  unfolding sleeps_rightly_def using assms(1) [unfolded sleeps_rightly_def] assms(2) by blast

lemma signalled_third:
  assumes "step J t S S'" "\<forall>u. sleep_ok u (status S u)" "status S t = At p" "code J p = Signal c q" "asleep_on c (status S' u)" "u \<noteq> t"
    and "(c, t, u) \<in> {(move_cond, Main, Mover), (move_cond, Mover, Main), (finish_cond, Mover, Main), (save_cond, Mover, Saver),
      (finish_cond, Saver, Main), (save_cond, Saver, Mover)}"
  shows False
proof -
  obtain w where w: "w \<noteq> u" "w \<noteq> t" "asleep_on c (status S w)" by (rule asleep_signalled [OF assms(1,3,4,6,5)])
  have "sleep_ok w (status S w)" using assms(2) by blast
  with w assms(7) show False by (cases w; cases "status S w") auto
qed

lemma save_ret_back:
  assumes "step J t S S'" "save_ret (vars S') = 0"
  shows "save_ret (vars S) = 0"
proof -
  have "save_ret v = 0" if "(v', q) \<in> next_states (code J p) v" "save_ret v' = 0" for v' q p and v :: "('a, 'b) shared"
  proof (cases p)
    case (Main_at x)
    then show ?thesis using that by (cases x) (auto simp: hand_over_def set_save_ret_def split: if_splits)
  next
    case (Mover_at x)
    then show ?thesis using that
      by (cases x) (auto simp: encrypt_page_def save_plain_page_def set_save_ret_def Let_def split: if_splits prod.splits)
  next
    case (Saver_at x)
    then show ?thesis using that by (cases x) (auto simp: save_encrypted_page_def set_save_ret_def Let_def split: if_splits prod.splits)
  qed
  then show ?thesis using step_next [OF assms(1)] assms(2) by auto
qed

lemma live_invD:
  assumes "live_inv J v0 g S"
  shows "threads_inv J v0 g S" "\<forall>t. sleep_ok t (status S t)"
    "save_ret (vars S) = 0 \<Longrightarrow> pc_of (status S Main) = Main_at p \<Longrightarrow> pc_of (status S Mover) = Mover_at q \<Longrightarrow>
      pc_of (status S Saver) = Saver_at r \<Longrightarrow> waits_rightly J g p q r"
    "save_ret (vars S) = 0 \<Longrightarrow> pc_of (status S Main) = Main_at p \<Longrightarrow> pc_of (status S Mover) = Mover_at q \<Longrightarrow>
      pc_of (status S Saver) = Saver_at r \<Longrightarrow> sleeps_rightly J g (status S) p q r"
  using assms by (simp_all add: live_inv_def)

lemma live_inv_main:
  assumes ok: "job_ok J (write_buffers v0)" and step: "step J Main S S'" and live: "live_inv J v0 g S" and ret: "save_ret (vars S) = 0"
    and at: "status S Main = At (Main_at p)" and nxt: "(vars S', p') \<in> next_states (main_code J p) (vars S)"
    and pcs: "pc_of (status S Mover) = Mover_at q" "pc_of (status S Saver) = Saver_at r"
  shows "waits_rightly J (count_step (Main_at p) g) p' q r \<and> sleeps_rightly J (count_step (Main_at p) g) (status S') p' q r"
proof
  note L = live_invD [OF live]
  have inv: "mutex_inv S" "main_inv J (write_buffers v0) g (vars S) p"
    "move_inv J (write_buffers v0) (cipher_state v0) (swap_state v0) g (vars S) q"
    "save_inv J (enc_page J (all_pages J (write_buffers v0) (length (j_blocks J))) (cipher_state v0)) (swap_state v0) g (vars S) r"
    using L(1) at pcs by (auto simp: threads_inv_def)
  have waits: "waits_rightly J g p q r" and sleeps: "sleeps_rightly J g (status S) p q r" using L(3,4) [OF ret _ pcs, of p] at by simp_all
  have "\<not> (p = M_adv \<and> q = Mv_wait)"
    using excluded [OF inv(1) pcs(1) _ at, of move_mutex] by (auto simp: retests_def)
  with inv show "waits_rightly J (count_step (Main_at p) g) p' q r" using waits_main [OF ok inv(2-4) nxt ret waits] by blast
  show "sleeps_rightly J (count_step (Main_at p) g) (status S') p' q r"
  proof (rule sleeps_main [OF nxt waits sleeps])
    show "\<exists>m l. main_code J p = Cond_wait c m l" if "asleep_on c (status S' Main)" for c
      using asleep_self [OF step at that] by (cases "main_code J p") auto
    show "asleep_on c (status S u)" if "u \<noteq> Main" "asleep_on c (status S' u)" for c u
      by (rule asleep_other [OF step that])
    show "p \<noteq> M_signal" if "asleep_on move_cond (status S' Mover)"
      using signalled_third [OF step L(2) at _ that] by auto
  qed
qed

lemma live_inv_move:
  assumes ok: "job_ok J (write_buffers v0)" and step: "step J Mover S S'" and live: "live_inv J v0 g S" and ret: "save_ret (vars S) = 0"
    and at: "status S Mover = At (Mover_at q)" and nxt: "(vars S', q') \<in> next_states (move_code J q) (vars S)"
    and pcs: "pc_of (status S Main) = Main_at p" "pc_of (status S Saver) = Saver_at r"
  shows "waits_rightly J (count_step (Mover_at q) g) p q' r \<and> sleeps_rightly J (count_step (Mover_at q) g) (status S') p q' r"
proof
  note L = live_invD [OF live]
  have inv: "mutex_inv S" "main_inv J (write_buffers v0) g (vars S) p"
    "move_inv J (write_buffers v0) (cipher_state v0) (swap_state v0) g (vars S) q"
    "save_inv J (enc_page J (all_pages J (write_buffers v0) (length (j_blocks J))) (cipher_state v0)) (swap_state v0) g (vars S) r"
    using L(1) at pcs by (auto simp: threads_inv_def)
  have waits: "waits_rightly J g p q r" and sleeps: "sleeps_rightly J g (status S) p q r" using L(3,4) [OF ret pcs(1) _ pcs(2), of q] at by simp_all
  have excl: "\<not> (q = Al_adv \<and> p \<in> {M_wait, Fin_test3, Fin_wait})" "\<not> (q = En_adv \<and> r = Sv_wait)"
    using excluded [OF inv(1) pcs(1) _ at, of move_mutex] excluded [OF inv(1) pcs(1) _ at, of finish_mutex]
      excluded [OF inv(1) pcs(2) _ at, of save_mutex] by (auto simp: retests_def)
  show "waits_rightly J (count_step (Mover_at q) g) p q' r" by (rule waits_move [OF ok inv(2-4) nxt ret waits excl])
  show "sleeps_rightly J (count_step (Mover_at q) g) (status S') p q' r"
  proof (rule sleeps_move [OF nxt waits sleeps])
    show "\<exists>m l. move_code J q = Cond_wait c m l" if "asleep_on c (status S' Mover)" for c
      using asleep_self [OF step at that] by (cases "move_code J q") auto
    show "asleep_on c (status S u)" if "u \<noteq> Mover" "asleep_on c (status S' u)" for c u
      by (rule asleep_other [OF step that])
    show "q \<noteq> Al_signal" if "asleep_on move_cond (status S' Main)"
      using signalled_third [OF step L(2) at _ that] by auto
    show "q \<noteq> Al_signal2" if "asleep_on finish_cond (status S' Main)"
      using signalled_third [OF step L(2) at _ that] by auto
    show "q \<noteq> En_signal" if "asleep_on save_cond (status S' Saver)"
      using signalled_third [OF step L(2) at _ that] by auto
    show "n_saved g \<le> n_enc g" if "j_encrypt J"
      using cipher_invD(2) [OF move_invD(9) [OF inv(3) that]] .
    show "q \<noteq> Pl_next" if "asleep_on save_cond (status S Saver)"
    proof -
      have "r = Sv_test" using that L(2) [rule_format, of Saver] pcs(2) by (cases "status S Saver") auto
      then have "j_encrypt J" using inv(4) by (simp add: save_inv_def split: if_splits)
      then show ?thesis using move_invD(7) [OF inv(3)] by (auto simp: plain_def)
    qed
  qed
qed

lemma live_inv_save:
  assumes ok: "job_ok J (write_buffers v0)" and step: "step J Saver S S'" and live: "live_inv J v0 g S" and ret: "save_ret (vars S) = 0"
    and at: "status S Saver = At (Saver_at r)" and nxt: "(vars S', r') \<in> next_states (save_code J r) (vars S)"
    and pcs: "pc_of (status S Main) = Main_at p" "pc_of (status S Mover) = Mover_at q"
  shows "waits_rightly J (count_step (Saver_at r) g) p q r' \<and> sleeps_rightly J (count_step (Saver_at r) g) (status S') p q r'"
proof
  note L = live_invD [OF live]
  have inv: "mutex_inv S" "main_inv J (write_buffers v0) g (vars S) p"
    "move_inv J (write_buffers v0) (cipher_state v0) (swap_state v0) g (vars S) q"
    "save_inv J (enc_page J (all_pages J (write_buffers v0) (length (j_blocks J))) (cipher_state v0)) (swap_state v0) g (vars S) r"
    using L(1) at pcs by (auto simp: threads_inv_def)
  have waits: "waits_rightly J g p q r" and sleeps: "sleeps_rightly J g (status S) p q r" using L(3,4) [OF ret pcs, of r] at by simp_all
  have excl: "\<not> (r = Sa_adv \<and> p \<in> {Fin_test3, Fin_wait})" "\<not> (r = Sa_adv \<and> q = En_wait)"
    using excluded [OF inv(1) pcs(1) _ at, of finish_mutex] excluded [OF inv(1) pcs(2) _ at, of save_mutex] by (auto simp: retests_def)
  show "waits_rightly J (count_step (Saver_at r) g) p q r'" by (rule waits_save [OF ok inv(3,4) nxt ret waits excl])
  show "sleeps_rightly J (count_step (Saver_at r) g) (status S') p q r'"
  proof (rule sleeps_save [OF nxt waits sleeps])
    show "\<exists>m l. save_code J r = Cond_wait c m l" if "asleep_on c (status S' Saver)" for c
      using asleep_self [OF step at that] by (cases "save_code J r") auto
    show "asleep_on c (status S u)" if "u \<noteq> Saver" "asleep_on c (status S' u)" for c u
      by (rule asleep_other [OF step that])
    show "r \<noteq> Sa_signal2" if "asleep_on finish_cond (status S' Main)"
      using signalled_third [OF step L(2) at _ that] by auto
    show "r \<noteq> Sa_signal" if "asleep_on save_cond (status S' Mover)"
      using signalled_third [OF step L(2) at _ that] by auto
  qed
qed

lemma live_inv_step:
  assumes ok: "job_ok J (write_buffers v0)" and step: "step J t S S'" and live: "live_inv J v0 g S"
  shows "live_inv J v0 (next_count (status S t) g) S'"
proof -
  note L = live_invD [OF live]
  have mutex: "mutex_inv S" using L(1) by (simp add: threads_inv_def)
  have "waits_rightly J (next_count (status S t) g) p' q' r' \<and> sleeps_rightly J (next_count (status S t) g) (status S') p' q' r'"
    if ret': "save_ret (vars S') = 0" and pcs': "pc_of (status S' Main) = Main_at p'" "pc_of (status S' Mover) = Mover_at q'"
      "pc_of (status S' Saver) = Saver_at r'" for p' q' r'
  proof -
    have ret: "save_ret (vars S) = 0" by (rule save_ret_back [OF step ret'])
    from step_next [OF step] show ?thesis
    proof (elim disjE conjE exE)
      assume quiet: "\<forall>p. status S t \<noteq> At p" and "\<forall>u. pc_of (status S' u) = pc_of (status S u)"
      then have "waits_rightly J g p' q' r'" "sleeps_rightly J g (status S) p' q' r'" using L(3,4) [OF ret] pcs' by simp_all
      moreover have "next_count (status S t) g = g" using quiet by (cases "status S t") auto
      ultimately show ?thesis using sleeps_rightly_mono asleep_quiet [OF step quiet] by metis
    next
      fix pc
      assume at: "status S t = At pc" and nxt: "(vars S', pc_of (status S' t)) \<in> next_states (code J pc) (vars S)"
        and other: "\<forall>u. u \<noteq> t \<longrightarrow> pc_of (status S' u) = pc_of (status S u)"
      show ?thesis
      proof (cases t)
        case Main
        obtain p where "pc = Main_at p" using mutex_invD(2) [OF mutex, of t] at Main by (cases pc) auto
        then show ?thesis
          using live_inv_main [OF ok _ live ret, of S' p p' q' r'] step at nxt other pcs' Main by (auto simp: next_states_map)
      next
        case Mover
        obtain q where "pc = Mover_at q" using mutex_invD(2) [OF mutex, of t] at Mover by (cases pc) auto
        then show ?thesis
          using live_inv_move [OF ok _ live ret, of S' q q' p' r'] step at nxt other pcs' Mover by (auto simp: next_states_map)
      next
        case Saver
        obtain r where "pc = Saver_at r" using mutex_invD(2) [OF mutex, of t] at Saver by (cases pc) auto
        then show ?thesis
          using live_inv_save [OF ok _ live ret, of S' r r' p' q'] step at nxt other pcs' Saver by (auto simp: next_states_map)
      qed
    qed
  qed
  then show ?thesis
    unfolding live_inv_def using threads_inv_step [OF ok step L(1)] sleep_ok_step [OF step mutex L(2)] by blast
qed

lemma live_inv_reachable:
  assumes ok: "job_ok J (write_buffers v0)" and start: "start_threads J pth v0 = (True, v)" and ret: "save_ret v0 = 0"
    and "reachable J (running J v) S"
  obtains g where "live_inv J v0 g S"
proof -
  have "\<exists>g. live_inv J v0 g S"
    using assms(4)
  proof induction
    case reach_start
    define st where "st = status (running J v)"
    have st: "st Main = At (Main_at M_loop)" "st Mover = At (Mover_at Mv_lock)" "st Saver = At (Saver_at (if j_encrypt J then Sv_lock else Sv_done))"
      by (simp_all add: st_def running_def)
    have "sleep_ok t (st t)" for t using st by (cases t) simp_all
    moreover have "waits_rightly J no_counts M_loop Mv_lock r" if "pc_of (st Saver) = Saver_at r" for r
      using that st by (simp add: waits_rightly_def split: if_splits)
    moreover have "sleeps_rightly J no_counts st M_loop Mv_lock r" for r
      using st by (simp add: sleeps_rightly_def)
    ultimately have "live_inv J v0 no_counts (running J v)"
      unfolding live_inv_def st_def [symmetric] using threads_inv_start [OF ok start ret] st(1,2) by simp
    then show ?case by blast
  qed (use live_inv_step [OF ok] in blast)
  then show thesis using that by blast
qed

section \<open>No deadlock\<close>

lemma at_step:
  assumes "status S t = At p" "\<And>m q. code J p = Lock m q \<Longrightarrow> owner S m = None" "\<And>u q. code J p \<noteq> Join u q" "code J p \<noteq> Exit"
  shows "\<exists>S'. step J t S S'"
proof (cases "code J p")
  case (Lock m q)
  then show ?thesis using step.lock [OF assms(1) Lock assms(2) [OF Lock]] by blast
next
  case (Signal c q)
  then show ?thesis using step.signal_none [OF assms(1) Signal] step.signal [OF assms(1) Signal] by blast
next
  case (If_then b q r)
  then show ?thesis using step.if_true [OF assms(1) If_then] step.if_false [OF assms(1) If_then] by blast
next
  case (Unlock m q)
  show ?thesis using step.unlock [OF assms(1) Unlock] by blast
next
  case (Cond_wait c m q)
  show ?thesis using step.cond_wait [OF assms(1) Cond_wait] by blast
next
  case (Do f q)
  show ?thesis using step.do [OF assms(1) Do] by blast
next
  case (Choose q r)
  show ?thesis using step.choose_left [OF assms(1) Choose] by blast
qed (use assms(3,4) in simp_all)

text \<open>Whoever holds \<open>move_mutex\<close> or \<open>save_mutex\<close> waits for nobody, and \<open>finish_mutex\<close> is taken first.\<close>

lemma holder_steps:
  assumes mutex: "mutex_inv S" and "owner S m = Some t" "m \<noteq> finish_mutex \<or> owner S move_mutex = None \<and> owner S save_mutex = None"
  shows "\<exists>S' p. step J t S S' \<and> status S t = At p"
proof -
  have h: "m \<in> holding (status S t)" using mutex_invD(1) [OF mutex] assms(2) by blast
  then obtain p where at: "status S t = At p" by (cases "status S t") auto
  have "\<exists>S'. step J t S S'"
  proof (rule at_step [OF at])
    have m: "m \<in> held p" using h at by simp
    show "owner S m' = None" if "code J p = Lock m' q" for m' q
    proof (cases p)
      case (Main_at x)
      then show ?thesis using m that by (cases x) auto
    next
      case (Mover_at x)
      then show ?thesis using m that assms(3) by (cases x) auto
    next
      case (Saver_at x)
      then show ?thesis using m that assms(3) by (cases x) auto
    qed
    have "(\<forall>u q. code J p \<noteq> Join u q) \<and> code J p \<noteq> Exit"
    proof (cases p)
      case (Main_at x)
      then show ?thesis using m by (cases x) auto
    next
      case (Mover_at x)
      then show ?thesis using m by (cases x) auto
    next
      case (Saver_at x)
      then show ?thesis using m by (cases x) auto
    qed
    then show "code J p \<noteq> Join u q" "code J p \<noteq> Exit" for u q by blast+
  qed
  then show ?thesis using at by blast
qed

lemma unlocked_steps:
  assumes "\<And>m. owner S m = None" "\<And>c m q. status S t \<noteq> Asleep c m q" "\<And>p u q. status S t = At p \<Longrightarrow> code J p \<noteq> Join u q"
    "\<And>p. status S t = At p \<Longrightarrow> code J p \<noteq> Exit"
  shows "\<exists>S'. step J t S S'"
proof (cases "status S t")
  case (At p)
  then show ?thesis using assms by (intro at_step [OF At]) auto
next
  case (Woken m q)
  then show ?thesis using step.wake [OF Woken] assms(1) by blast
qed (use assms(2) in blast)

text \<open>With \<open>save_ret\<close> clear no thread is at its end or waits for another's; only without encryption there is no save thread.\<close>

lemma none_ended:
  assumes inv: "threads_inv J v0 g S" and ret: "save_ret (vars S) = 0" and at: "status S t = At p" and "t \<noteq> Saver \<or> j_encrypt J"
  shows "code J p \<noteq> Join u q \<and> code J p \<noteq> Exit"
proof -
  obtain x y z where mutex: "mutex_inv S" and pcs: "pc_of (status S Main) = Main_at x" "pc_of (status S Mover) = Mover_at y"
      "pc_of (status S Saver) = Saver_at z"
    and "main_inv J (write_buffers v0) g (vars S) x" "move_inv J (write_buffers v0) (cipher_state v0) (swap_state v0) g (vars S) y"
      "save_inv J (enc_page J (all_pages J (write_buffers v0) (length (j_blocks J))) (cipher_state v0)) (swap_state v0) g (vars S) z"
    using inv unfolding threads_inv_def by blast
  then have ends: "x \<notin> stopping - {Stop_lock, Stop_set}" "y \<noteq> Mv_done" "j_encrypt J \<Longrightarrow> z \<noteq> Sv_done"
    using ret by (auto simp: main_inv_def move_inv_def save_inv_def)
  show ?thesis
  proof (cases t)
    case Main
    then have "p = Main_at x" using at pcs(1) by simp
    then show ?thesis using ends(1) by (cases x) (simp_all add: stopping_def)
  next
    case Mover
    then have "p = Mover_at y" using at pcs(2) by simp
    then show ?thesis using ends(2) by (cases y) simp_all
  next
    case Saver
    then have "p = Saver_at z" using at pcs(3) by simp
    then show ?thesis using ends(3) assms(4) Saver by (cases z) simp_all
  qed
qed

lemma someone_awake:
  assumes ok: "2 \<le> j_encrypt_pages J" and live: "live_inv J v0 g S" and ret: "save_ret (vars S) = 0"
    and main: "status S Main = Asleep c m p" and mover: "status S Mover = Asleep c' m' q"
    and saver: "j_encrypt J \<Longrightarrow> \<exists>c m q. status S Saver = Asleep c m q"
  shows False
proof -
  note L = live_invD [OF live]
  have sl: "(c = move_cond \<and> p = Main_at M_test) \<or> (c = finish_cond \<and> p = Main_at Fin_test1)"
    "(c' = move_cond \<and> q = Mover_at Mv_test) \<or> (c' = save_cond \<and> q = Mover_at En_test)"
    using L(2) [rule_format, of Main] L(2) [rule_format, of Mover] main mover by auto
  obtain x y z where pcs: "pc_of (status S Main) = Main_at x" "pc_of (status S Mover) = Mover_at y" "pc_of (status S Saver) = Saver_at z"
    and move: "move_inv J (write_buffers v0) (cipher_state v0) (swap_state v0) g (vars S) y"
    using L(1) unfolding threads_inv_def by blast
  have sleeps: "sleeps_rightly J g (status S) x y z" by (rule L(4) [OF ret pcs])
  have x: "x \<in> {M_test, Fin_test1}" and y: "y \<in> {Mv_test, En_test}" using sl pcs main mover by auto
  have enc: "n_saved g = n_enc g" if J: "j_encrypt J"
  proof -
    obtain c'' m'' q'' where s: "status S Saver = Asleep c'' m'' q''" using saver [OF J] by blast
    have "c'' = save_cond" using L(2) [rule_format, of Saver] s by auto
    then show ?thesis using sleeps s y by (auto simp: sleeps_rightly_def)
  qed
  have z: "j_encrypt J \<Longrightarrow> z = Sv_test" using saver L(2) [rule_format, of Saver] pcs(3) by auto
  show False
  proof (cases "c' = move_cond")
    case True
    then have eq: "n_out g = n_in g" using sleeps mover x by (auto simp: sleeps_rightly_def)
    show False
    proof (cases "c = move_cond")
      case True
      then have "buffers_full g" using sleeps main y by (auto simp: sleeps_rightly_def)
      then show False using eq by (simp add: buffers_full_def WRITE_BUFFERS_def)
    next
      case False
      then have "unfinished J g \<or> z \<in> {Sa_unsave, Sa_unfinish, Sa_signal, Sa_signal2}" using sl sleeps main y by (auto simp: sleeps_rightly_def)
      moreover have "\<not> unfinished J g" using eq enc by (auto simp: unfinished_def)
      ultimately have "\<not> j_encrypt J" "z \<noteq> Sv_done" using z by auto
      then show False using L(1) pcs(3) by (auto simp: threads_inv_def save_inv_def)
    qed
  next
    case False
    then have "y = En_test" "c' = save_cond" using sl pcs(2) mover by auto
    then have "j_encrypt J" using move_invD(6) [OF move] by (simp add: encrypting_def)
    then have "pages_full J g" using sleeps mover \<open>c' = save_cond\<close> z by (auto simp: sleeps_rightly_def)
    then show False using enc \<open>j_encrypt J\<close> ok by (simp add: pages_full_def)
  qed
qed

text \<open>
  C5: The threads cannot deadlock as long as nothing has gone wrong. In every reachable state in which
  \<open>save_ret\<close> is still 0 some thread can go on by itself, without a spurious wake-up: no signal has been lost,
  and nobody waits for a mutex in a circle.
\<close>

theorem no_deadlock:
  assumes ok: "job_ok J (write_buffers v0)" "2 \<le> j_encrypt_pages J" and start: "start_threads J pth v0 = (True, v)" "save_ret v0 = 0"
    and "reachable J (running J v) S" and ret: "save_ret (vars S) = 0"
  shows "\<exists>t S'. step J t S S' \<and> (\<forall>c m q. status S t \<noteq> Asleep c m q)"
proof (rule ccontr)
  assume no: "\<not> ?thesis"
  obtain g where live: "live_inv J v0 g S" by (rule live_inv_reachable [OF ok(1) start assms(5)])
  have inv: "threads_inv J v0 g S" by (rule live_invD(1) [OF live])
  then have mutex: "mutex_inv S" by (simp add: threads_inv_def)
  have "owner S m = None" if "m \<noteq> finish_mutex \<or> owner S move_mutex = None \<and> owner S save_mutex = None" for m
    using holder_steps [OF mutex _ that] no by (cases "owner S m") fastforce+
  then have free: "owner S m = None" for m by blast
  have asleep: "\<exists>c m q. status S t = Asleep c m q" if "t \<noteq> Saver \<or> j_encrypt J" for t
    using unlocked_steps [OF free, of t] none_ended [OF inv ret _ that] no by blast
  obtain c m p where main: "status S Main = Asleep c m p" using asleep [of Main] by blast
  obtain c' m' q where mover: "status S Mover = Asleep c' m' q" using asleep [of Mover] by blast
  show False by (rule someone_awake [OF ok(2) live ret main mover asleep]) simp
qed

lemma busy_ret:
  "case run busy_job busy_schedule (running busy_job small_vars) of None \<Rightarrow> False | Some S \<Rightarrow> save_ret (vars S) = 0"
  by code_simp

lemma no_deadlock_witness:
  "\<exists>t S'. step busy_job t busy_end S' \<and> (\<forall>c m q. status busy_end t \<noteq> Asleep c m q)"
proof -
  have ok: "job_ok busy_job (write_buffers small_vars)" "2 \<le> j_encrypt_pages busy_job"
    using small_job_ok [of True] by (simp_all add: busy_job_def job_ok_def small_job_def)
  have start: "start_threads busy_job (\<lambda>c. 0) small_vars = (True, small_vars)"
    using small_start [of True] by (simp add: busy_job_def start_threads_def thread_calls_def small_job_def)
  have "reachable busy_job (running busy_job small_vars) busy_end" "save_ret (vars busy_end) = 0"
    using busy_run busy_ret run_reachable [OF _ reach_start] by (auto simp: busy_end_def split: option.splits)
  from no_deadlock [OF ok start _ this] show ?thesis by (simp add: small_vars_def)
qed

end
