(* ===== verification/Keygen.thy ===== *)
theory Keygen
  imports Config_Parser Image_Header Pool_Room
begin

text \<open>
  The key generator \<open>keygen.c\<close>: it asks for a size and a passphrase, lets libgcrypt generate an RSA key pair and
  stores the six numbers, the private ones encrypted, in the file that \<open>generate_key\<close> of \<open>suspend.c\<close> reads and
  \<open>decrypt_key\<close> of \<open>load.c\<close> finds in the image header.
\<close>

section \<open>The questions\<close>

definition MIN_KEY_BITS :: int where "MIN_KEY_BITS = 1024"
definition MAX_KEY_BITS :: int where "MAX_KEY_BITS = 4096"
definition EXIT_FAILURE :: int where "EXIT_FAILURE = 1"
definition DEFAULT_FILE :: "byte list" where "DEFAULT_FILE = map of_char ''suspend.key''"
definition rsa_keys :: "byte list" where "rsa_keys = map of_char ''nedpqu''"

text \<open>The number of bits; \<open>None\<close> if the loop does not end.\<close>

partial_function (option) ask_key_bits :: "byte list \<Rightarrow> int \<Rightarrow> byte list \<Rightarrow> (byte list \<times> int \<times> byte list) option" where
  "ask_key_bits in_buffer len input =
     (let (in_buffer, input) = fgets MAX_STR_LEN in_buffer input;
          len = (if strlen in_buffer \<noteq> 0 \<and> hd in_buffer \<noteq> 10
                 then case scan_number (c_string in_buffer) of None \<Rightarrow> len | Some n \<Rightarrow> int_of_32 n
                 else len)
      in if len < MIN_KEY_BITS \<or> MAX_KEY_BITS < len \<or> len mod 8 \<noteq> 0 then ask_key_bits in_buffer len input
         else Some (in_buffer, len, input))"

text \<open>The passphrase and its confirmation, as in \<open>read_password\<close> but twice as long.\<close>

partial_function (option) ask_nonempty :: "byte list \<Rightarrow> byte list \<Rightarrow> (byte list \<times> byte list) option" where
  "ask_nonempty pass_buf input =
     (let (pass_buf, input) = fgets MAX_STR_LEN pass_buf input
      in if strlen pass_buf \<le> 1 then ask_nonempty pass_buf input else Some (pass_buf, input))"

partial_function (option) ask_passphrase ::
  "byte list \<Rightarrow> byte list \<Rightarrow> byte list \<Rightarrow> (byte list \<times> byte list) option" where
  "ask_passphrase pass_buf vrfy_buf input = do {
     (pass_buf, input) \<leftarrow> ask_nonempty pass_buf input;
     let len = strlen pass_buf - 1;
     let pass_buf = strip_newline len pass_buf;
     let (vrfy_buf, input) = fgets MAX_STR_LEN vrfy_buf input;
     let vrfy_buf = strip_newline len vrfy_buf;
     if take MAX_STR_LEN (c_string pass_buf) \<noteq> take MAX_STR_LEN (c_string vrfy_buf)
     then ask_passphrase pass_buf vrfy_buf input
     else Some (pass_buf, input)
   }"

definition ask_file_name :: "byte list \<Rightarrow> byte list \<Rightarrow> byte list" where
  "ask_file_name in_buffer input =
     (let (in_buffer, input) = fgets MAX_STR_LEN in_buffer input; s = c_string in_buffer
      in if s = [] \<or> hd s = 10 then DEFAULT_FILE else if last s = 10 then butlast s else s)"

section \<open>The key pair\<close>

text \<open>What \<open>keygen.c\<close> needs from outside besides the functions of \<open>gcrypt\<close>.\<close>

record ('w, 's) key_maker =
  genkey_spec :: "int \<Rightarrow> int \<times> 's"
  pk_genkey :: "'s \<Rightarrow> 'w \<Rightarrow> (int \<times> 's) \<times> 'w"
  pk_testkey :: "'s \<Rightarrow> int"
  find_token :: "'s \<Rightarrow> byte list \<Rightarrow> 's option"
  create_file :: "byte list \<Rightarrow> 'w \<Rightarrow> int \<times> 'w"
  write_fd :: "int \<Rightarrow> byte list \<Rightarrow> 'w \<Rightarrow> 'w"
  close_fd :: "int \<Rightarrow> 'w \<Rightarrow> 'w"

text \<open>From \<open>Retry\<close> on: a private key that passes the test, or the error.\<close>

partial_function (option) generate_pair :: "('w, 's) key_maker \<Rightarrow> 's \<Rightarrow> 'w \<Rightarrow> ((int + 's) \<times> 'w) option" where
  "generate_pair L rsa_spec w =
     (let ((ret, rsa_pair), w) = pk_genkey L rsa_spec w
      in if ret \<noteq> 0 then Some (Inl ret, w)
         else case find_token L rsa_pair (map of_char ''private-key'') of
                None \<Rightarrow> Some (Inl EXIT_FAILURE, w)
              | Some rsa_priv \<Rightarrow> if pk_testkey L rsa_priv \<noteq> 0 then generate_pair L rsa_spec w else Some (Inr rsa_priv, w))"

section \<open>The file\<close>

definition put_at :: "nat \<Rightarrow> byte list \<Rightarrow> byte list \<Rightarrow> byte list" where
  "put_at off bs xs = take off xs @ bs @ drop (off + length bs) xs"

text \<open>The loop over the components, from \<open>j\<close> on: error, structure and \<open>offset\<close>.\<close>

function store_fields ::
  "('w, 'm, 's) gcrypt \<Rightarrow> ('w, 's) key_maker \<Rightarrow> 's \<Rightarrow> nat \<Rightarrow> RSA_data \<Rightarrow> nat \<Rightarrow> 'w \<Rightarrow> (int \<times> RSA_data \<times> nat) \<times> 'w" where
  "store_fields G L rsa_priv j rsa offset w =
     (if j < RSA_FIELDS then
        (let rsa = rsa\<lparr>rsa_field := (rsa_field rsa)[j := [rsa_keys ! j, 0]]\<rparr>
         in case find_token L rsa_priv (c_string (rsa_field rsa ! j)) of
              None \<Rightarrow> ((- EINVAL, rsa, offset), w)
            | Some token \<Rightarrow>
           (case sexp_nth_1 G token of
              None \<Rightarrow> ((- EINVAL, rsa, offset), w)
            | Some mpi \<Rightarrow>
           (let (ret, num) = mpi_print G (RSA_DATA_SIZE - offset) mpi
            in if ret \<noteq> 0 then ((ret, rsa, offset), w)
               else let rsa = rsa\<lparr>rsa_bytes := put_at offset num (rsa_bytes rsa)\<rparr>;
                        s = length num;
                        ((ret, ciph), w) = (if RSA_FIELDS_PUB \<le> j then pk_encrypt G (take s (drop offset (rsa_bytes rsa))) w
                                           else ((0, num), w))
                    in if ret \<noteq> 0 then ((ret, rsa, offset), w)
                       else store_fields G L rsa_priv (j + 1)
                              (rsa\<lparr>rsa_bytes := put_at offset ciph (rsa_bytes rsa), rsa_size := (rsa_size rsa)[j := s mod 2 ^ 16]\<rparr>)
                              (offset + s) w)))
      else ((0, rsa, offset), w))"
  by pat_completeness auto
termination
  by (relation "measure (\<lambda>(G, L, rsa_priv, j, rsa, offset, w). RSA_FIELDS - j)") auto

declare store_fields.simps [simp del]

text \<open>From the passphrase to the structure that is written: \<open>(ret, rsa, offset)\<close>.\<close>

definition seal_key ::
  "('w, 'm, 's) gcrypt \<Rightarrow> ('w, 's) key_maker \<Rightarrow> nat \<Rightarrow> md5_ctx \<Rightarrow> byte list \<Rightarrow> 's \<Rightarrow> RSA_data \<Rightarrow> 'w \<Rightarrow>
   (int \<times> RSA_data \<times> nat) \<times> 'w" where
  "seal_key G L al ctx pass_buf rsa_priv rsa w =
     (let ivec = strncpy_zero PK_CIPHER_BLOCK pass_buf;
          (key_buf, ctx) = md5_finish_ctx (md5_process_bytes al (c_string pass_buf) (md5_init_ctx ctx));
          (ret, w) = pk_open G w
      in if ret \<noteq> 0 then ((ret, rsa, 0), w)
         else let (ret, w) = pk_setkey G key_buf w;
                  (ret, w) = (if ret = 0 then pk_setiv G ivec w else (ret, w));
                  ((ret, ciph), w) = (if ret = 0 then pk_encrypt G KEY_TEST_DATA w else ((ret, rsa_key_test rsa), w));
                  rsa = rsa\<lparr>rsa_key_test := ciph\<rparr>;
                  w = pk_close G w
         in if ret \<noteq> 0 then ((ret, rsa, 0), w)
         else let (ret, w) = pk_open G w
         in if ret \<noteq> 0 then ((ret, rsa, 0), w)
         else let (ret, w) = pk_setkey G key_buf w;
                  (ret, w) = (if ret = 0 then pk_setiv G ivec w else (ret, w))
         in if ret \<noteq> 0 then ((ret, rsa, 0), pk_close G w)
         else let ((ret, rsa, offset), w) = store_fields G L rsa_priv 0 rsa 0 w
              in ((ret, rsa, offset), if ret \<noteq> 0 then pk_close G w else w))"

text \<open>\<open>write(fd, &rsa, size)\<close>: the structure up to the end of the numbers.\<close>

definition sizeof_RSA_data :: nat where "sizeof_RSA_data = 1840"

definition key_file_bytes :: "RSA_data \<Rightarrow> nat \<Rightarrow> byte list" where
  "key_file_bytes rsa offset =
     take ((offset + (sizeof_RSA_data - RSA_DATA_SIZE)) mod 2 ^ 16) (rsa_data_bytes rsa)"

definition keygen ::
  "('w, 'm, 's) gcrypt \<Rightarrow> ('w, 's) key_maker \<Rightarrow> nat \<Rightarrow> md5_ctx \<Rightarrow> byte list \<Rightarrow> 'w \<Rightarrow> (int \<times> 'w) option" where
  "keygen G L al ctx input w = do {
     (in_buffer, len, input) \<leftarrow> ask_key_bits (replicate MAX_STR_LEN 0) MIN_KEY_BITS input;
     let (ret, rsa_spec) = genkey_spec L len;
     if ret \<noteq> 0 then Some (ret, w)
     else do {
       (res, w) \<leftarrow> generate_pair L rsa_spec w;
       case res of Inl ret \<Rightarrow> Some (ret, w)
       | Inr rsa_priv \<Rightarrow> do {
           (pass_buf, input) \<leftarrow> ask_passphrase (replicate MAX_STR_LEN 0) (replicate RSA_DATA_SIZE 0) input;
           let ((ret, rsa, offset), w) = seal_key G L al ctx pass_buf rsa_priv zero_rsa w;
           if ret \<noteq> 0 then Some (ret, w)
           else do {
             let (fd, w) = create_file L (ask_file_name in_buffer input) w;
             let (ret, w) = (if 0 \<le> fd then (ret, close_fd L fd (write_fd L fd (key_file_bytes rsa offset) w))
                             else (EXIT_FAILURE, w));
             Some (ret, pk_close G w)
           }
         }
     }
   }"

section \<open>The other programs\<close>

text \<open>How \<open>generate_key\<close> reads the file into \<open>key_data.rsa\<close>.\<close>

definition load_key_file :: "RSA_data \<Rightarrow> byte list \<Rightarrow> RSA_data option" where
  "load_key_file rsa file =
     (if file = [] then None
      else Some (rsa_data_of (take sizeof_RSA_data file @ drop (length file) (rsa_data_bytes rsa))))"

text \<open>
  What the documentation of libgcrypt says. A cipher accepts a key and a vector again that it has accepted
  once; two handles with the same key and vector are matched: what one encrypts the other decrypts, piece by
  piece (the mode is CFB), or encrypts to the same bytes. A printed number has at most the given size, and is
  scanned back. A private key that passes \<open>gcry_pk_testkey\<close> belongs to its public key.
\<close>

definition cipher_laws :: "('w, 'm, 's) gcrypt \<Rightarrow> ('w \<Rightarrow> 'w \<Rightarrow> bool) \<Rightarrow> bool" where
  "cipher_laws G matched \<longleftrightarrow>
     (\<forall>w w' u. pk_open G w = (0, w') \<longrightarrow> fst (pk_open G u) = 0) \<and>
     (\<forall>key iv w w1 w2 u. pk_setkey G key w = (0, w1) \<longrightarrow> pk_setiv G iv w1 = (0, w2) \<longrightarrow>
        (\<exists>u1 u2. pk_setkey G key u = (0, u1) \<and> pk_setiv G iv u1 = (0, u2) \<and> matched w2 u2)) \<and>
     (\<forall>d c w w'. pk_encrypt G d w = ((0, c), w') \<longrightarrow> length c = length d) \<and>
     (\<forall>d c w w' u. matched w u \<longrightarrow> pk_encrypt G d w = ((0, c), w') \<longrightarrow>
        (\<exists>u'. pk_decrypt G c u = ((0, d), u') \<and> matched w' u') \<and> (\<exists>u'. pk_encrypt G d u = ((0, c), u')))"

lemma cipher_lawsD:
  assumes "cipher_laws G matched"
  shows "pk_open G w = (0, w') \<Longrightarrow> fst (pk_open G u) = 0"
    "pk_setkey G key w = (0, w1) \<Longrightarrow> pk_setiv G iv w1 = (0, w2) \<Longrightarrow>
      \<exists>u1 u2. pk_setkey G key u = (0, u1) \<and> pk_setiv G iv u1 = (0, u2) \<and> matched w2 u2"
    "pk_encrypt G d w = ((0, c), w') \<Longrightarrow> length c = length d"
    "matched w u \<Longrightarrow> pk_encrypt G d w = ((0, c), w') \<Longrightarrow> \<exists>u'. pk_decrypt G c u = ((0, d), u') \<and> matched w' u'"
    "matched w u \<Longrightarrow> pk_encrypt G d w = ((0, c), w') \<Longrightarrow> \<exists>u'. pk_encrypt G d u = ((0, c), u')"
  using assms unfolding cipher_laws_def by blast+

definition mpi_laws :: "('w, 'm, 's) gcrypt \<Rightarrow> bool" where
  "mpi_laws G \<longleftrightarrow> (\<forall>n x bs. mpi_print G n x = (0, bs) \<longrightarrow> length bs \<le> n \<and> mpi_scan G bs = (0, x))"

definition key_numbers :: "('w, 'm, 's) gcrypt \<Rightarrow> ('w, 's) key_maker \<Rightarrow> 's \<Rightarrow> 'm list" where
  "key_numbers G L priv = map (\<lambda>c. the (sexp_nth_1 G (the (find_token L priv [c])))) rsa_keys"

definition key_names :: "byte list list" where "key_names = map (\<lambda>c. [c, 0]) rsa_keys"

definition testkey_law :: "('w, 'm, 's) gcrypt \<Rightarrow> ('w, 's) key_maker \<Rightarrow> bool" where
  "testkey_law G L \<longleftrightarrow>
     (\<forall>priv pub. pk_testkey L priv = 0 \<longrightarrow> sexp_public_key G (zip (take 2 key_names) (take 2 (key_numbers G L priv))) = (0, pub) \<longrightarrow>
        (\<exists>prv. sexp_private_key G (zip key_names (key_numbers G L priv)) = (0, prv) \<and> rsa_pair G pub prv))"

section \<open>What is stored is found again\<close>

lemma length_put_at [simp]: "off + length bs \<le> length xs \<Longrightarrow> length (put_at off bs xs) = length xs"
  by (simp add: put_at_def)

lemma put_at_parts:
  assumes "off + length bs \<le> length xs"
  shows "take off (put_at off bs xs) = take off xs" "take (length bs) (drop off (put_at off bs xs)) = bs"
    "drop (off + length bs) (put_at off bs xs) = drop (off + length bs) xs"
    "take (off + length bs) (put_at off bs xs) = take off xs @ bs"
  using assms by (simp_all add: put_at_def)

lemma rsa_keys_simps: "length rsa_keys = RSA_FIELDS" "0 \<notin> set rsa_keys"
  by (simp_all add: rsa_keys_def RSA_FIELDS_def)

lemma c_string_name: "j < RSA_FIELDS \<Longrightarrow> c_string [rsa_keys ! j, 0] = [rsa_keys ! j]"
  using c_string_append [of "[rsa_keys ! j]" "[]"] rsa_keys_simps nth_mem [of j rsa_keys] by (metis append_Cons append_Nil list.set(1,2) singletonD)

definition stored_from ::
  "('w, 'm, 's) gcrypt \<Rightarrow> ('w \<Rightarrow> 'w \<Rightarrow> bool) \<Rightarrow> 'm list \<Rightarrow> nat \<Rightarrow> RSA_data \<Rightarrow> nat \<Rightarrow> 'w \<Rightarrow> RSA_data \<Rightarrow> nat \<Rightarrow> bool" where
  "stored_from G matched nums j rsa off w rsa' off' \<longleftrightarrow>
     rsa_wf rsa' \<and> off \<le> off' \<and> off' \<le> RSA_DATA_SIZE \<and> drop off' (rsa_bytes rsa') = replicate (RSA_DATA_SIZE - off') 0 \<and>
     take off (rsa_bytes rsa') = take off (rsa_bytes rsa) \<and> take j (rsa_size rsa') = take j (rsa_size rsa) \<and>
     rsa_field rsa' = take j (rsa_field rsa) @ drop j key_names \<and> rsa_key_test rsa' = rsa_key_test rsa \<and>
     (\<forall>u. matched w u \<longrightarrow> (\<exists>u'. rsa_params G rsa' j (drop off (rsa_bytes rsa')) u = ((0, drop j nums), u')))"

lemma store_fields_step:
  assumes "store_fields G L priv j rsa off w = ((0, rsa', off'), w')" "j < RSA_FIELDS" "rsa_wf rsa"
  obtains x num ciph w1 where "sexp_nth_1 G (the (find_token L priv [rsa_keys ! j])) = Some x"
    "mpi_print G (RSA_DATA_SIZE - off) x = (0, num)"
    "if RSA_FIELDS_PUB \<le> j then pk_encrypt G (take (length num) (drop off (put_at off num (rsa_bytes rsa)))) w = ((0, ciph), w1)
      else ciph = num \<and> w1 = w"
    "store_fields G L priv (j + 1)
       (rsa\<lparr>rsa_field := (rsa_field rsa)[j := [rsa_keys ! j, 0]], rsa_bytes := put_at off ciph (put_at off num (rsa_bytes rsa)),
          rsa_size := (rsa_size rsa)[j := length num mod 2 ^ 16]\<rparr>) (off + length num) w1 = ((0, rsa', off'), w')"
proof -
  have j: "j < length (rsa_field rsa)" using assms(2,3) by (simp add: rsa_wf_def)
  show thesis
    using assms(1) that
    by (subst (asm) store_fields.simps)
       (auto simp: assms(2) j c_string_name Let_def split: option.splits prod.splits if_splits)
qed

lemma rsa_params_step:
  assumes "j < RSA_FIELDS" "rsa_size rsa ! j = length num" "take (length num) buf = ciph" "mpi_scan G num = (0, x)"
    and "if RSA_FIELDS_PUB \<le> j then pk_decrypt G ciph u = ((0, num), u1) else ciph = num \<and> u1 = u"
    and "rsa_params G rsa (j + 1) (drop (length num) buf) u1 = ((0, xs), u2)"
  shows "rsa_params G rsa j buf u = ((0, x # xs), u2)"
  using assms by (subst rsa_params.simps) (simp split: if_splits)

lemma store_fields_stored:
  assumes laws: "cipher_laws G matched" "mpi_laws G"
    and "store_fields G L priv j rsa off w = ((0, rsa', off'), w')" "j \<le> RSA_FIELDS" "rsa_wf rsa" "off \<le> RSA_DATA_SIZE"
    "drop off (rsa_bytes rsa) = replicate (RSA_DATA_SIZE - off) 0"
  shows "stored_from G matched (key_numbers G L priv) j rsa off w rsa' off'"
  using assms(3-)
proof (induction "RSA_FIELDS - j" arbitrary: j rsa off w)
  case 0
  then have j: "j = RSA_FIELDS" by simp
  then have "rsa' = rsa" "off' = off" using 0(2) by (simp_all add: store_fields.simps)
  moreover have "rsa_params G rsa j (drop off (rsa_bytes rsa)) u = ((0, []), u)" for u
    by (subst rsa_params.simps) (simp add: j)
  ultimately show ?case
    using 0 j rsa_keys_simps by (simp add: stored_from_def rsa_wf_def key_names_def key_numbers_def)
next
  case (Suc n)
  then have j: "j < RSA_FIELDS" by simp
  obtain x num ciph w1 where x: "sexp_nth_1 G (the (find_token L priv [rsa_keys ! j])) = Some x"
    and num: "mpi_print G (RSA_DATA_SIZE - off) x = (0, num)"
    and ciph: "if RSA_FIELDS_PUB \<le> j then pk_encrypt G (take (length num) (drop off (put_at off num (rsa_bytes rsa)))) w = ((0, ciph), w1)
      else ciph = num \<and> w1 = w"
    and rest: "store_fields G L priv (j + 1)
       (rsa\<lparr>rsa_field := (rsa_field rsa)[j := [rsa_keys ! j, 0]], rsa_bytes := put_at off ciph (put_at off num (rsa_bytes rsa)),
          rsa_size := (rsa_size rsa)[j := length num mod 2 ^ 16]\<rparr>) (off + length num) w1 = ((0, rsa', off'), w')"
      (is "store_fields _ _ _ _ ?rsa _ _ = _")
    using store_fields_step [OF Suc(3) j Suc(5)] by blast
  have scan: "mpi_scan G num = (0, x)" and len: "length num \<le> RSA_DATA_SIZE - off"
    using laws(2) num by (auto simp: mpi_laws_def)
  have bytes: "length (rsa_bytes rsa) = RSA_DATA_SIZE" using Suc(5) by (simp add: rsa_wf_def)
  have fits: "off + length num \<le> length (rsa_bytes rsa)" using len bytes Suc(6) by simp
  have enc: "RSA_FIELDS_PUB \<le> j \<Longrightarrow> pk_encrypt G num w = ((0, ciph), w1)"
    using ciph put_at_parts(2) [OF fits] by simp
  have ciph_len: "length ciph = length num"
    using ciph enc cipher_lawsD(3) [OF laws(1)] by (auto split: if_splits)
  then have fits': "off + length ciph \<le> length (rsa_bytes rsa)" "off + length ciph \<le> length (put_at off num (rsa_bytes rsa))"
    using fits by simp_all
  have wf: "rsa_wf ?rsa"
    using Suc(5) fits' fits by (auto simp: rsa_wf_def set_list_update dest!: set_update_subset_insert [THEN subsetD])
  have zeros: "drop (off + length num) (rsa_bytes ?rsa) = replicate (RSA_DATA_SIZE - (off + length num)) 0"
  proof -
    have "drop (off + length num) (rsa_bytes ?rsa) = drop (length num) (drop off (rsa_bytes rsa))"
      using put_at_parts(3) [OF fits'(2)] put_at_parts(3) [OF fits] ciph_len by (simp add: add.commute)
    then show ?thesis using Suc(7) by simp
  qed
  have IH: "stored_from G matched (key_numbers G L priv) (j + 1) ?rsa (off + length num) w1 rsa' off'"
    using Suc(2) rest j wf fits bytes zeros by (intro Suc(1)) auto
  note I = IH [unfolded stored_from_def]
  have "take (off + length num) (rsa_bytes rsa') = take off (rsa_bytes rsa) @ ciph"
    using I put_at_parts(1) [OF fits] put_at_parts(4) [OF fits'(2)] ciph_len by simp
  then have parts: "take off (rsa_bytes rsa') = take off (rsa_bytes rsa)" "take (length num) (drop off (rsa_bytes rsa')) = ciph"
    using ciph_len fits bytes by (auto dest: arg_cong [of _ _ "take off"] arg_cong [of _ _ "drop off"] simp: drop_take)
  have sizes: "take j (rsa_size rsa') = take j (rsa_size rsa)" "rsa_size rsa' ! j = length num"
    using I j Suc(5) len
    by (auto simp: rsa_wf_def RSA_DATA_SIZE_def dest: arg_cong [of _ _ "take j"] arg_cong [of _ _ "\<lambda>l. l ! j"])
  have names: "rsa_field rsa' = take j (rsa_field rsa) @ drop j key_names"
  proof -
    have "take (Suc j) ((rsa_field rsa)[j := [rsa_keys ! j, 0]]) = take j (rsa_field rsa) @ [[rsa_keys ! j, 0]]"
      using j Suc(5) by (simp add: rsa_wf_def take_Suc_conv_app_nth)
    moreover have "drop j key_names = [rsa_keys ! j, 0] # drop (Suc j) key_names"
      using j rsa_keys_simps Cons_nth_drop_Suc [of j key_names] by (simp add: key_names_def)
    ultimately show ?thesis using I by simp
  qed
  have "\<exists>u'. rsa_params G rsa' j (drop off (rsa_bytes rsa')) u = ((0, drop j (key_numbers G L priv)), u')" if m: "matched w u" for u
  proof -
    obtain u1 where u1: "if RSA_FIELDS_PUB \<le> j then pk_decrypt G ciph u = ((0, num), u1) else ciph = num \<and> u1 = u" "matched w1 u1"
      using ciph enc cipher_lawsD(4) [OF laws(1) m, of num ciph w1] m by (auto split: if_splits)
    obtain u2 where "rsa_params G rsa' (j + 1) (drop (off + length num) (rsa_bytes rsa')) u1 = ((0, drop (j + 1) (key_numbers G L priv)), u2)"
      using I u1(2) by blast
    then have "rsa_params G rsa' j (drop off (rsa_bytes rsa')) u = ((0, x # drop (j + 1) (key_numbers G L priv)), u2)"
      using rsa_params_step [OF j sizes(2) parts(2) scan u1(1)] by (simp add: add.commute)
    moreover have "x # drop (j + 1) (key_numbers G L priv) = drop j (key_numbers G L priv)"
      using j rsa_keys_simps x by (simp add: key_numbers_def Cons_nth_drop_Suc [symmetric])
    ultimately show ?thesis by simp
  qed
  then show ?case using I parts(1) sizes(1) names by (simp add: stored_from_def)
qed

lemma seal_key_ok:
  assumes laws: "cipher_laws G matched" "mpi_laws G" and seal: "seal_key G L al ctx pass priv zero_rsa w = ((0, rsa, off), w')"
    and ctx: "length (md5_buf ctx) = 128" "length (c_string pass) < 2 ^ 32"
  shows "rsa_wf rsa \<and> rsa_field rsa = key_names \<and> off \<le> RSA_DATA_SIZE \<and> drop off (rsa_bytes rsa) = replicate (RSA_DATA_SIZE - off) 0"
    "fst (pk_open G u) = 0"
    "\<exists>u1 u2 u'. pk_setkey G (rfc_md5 (c_string pass)) u = (0, u1) \<and> pk_setiv G (strncpy_zero PK_CIPHER_BLOCK pass) u1 = (0, u2) \<and>
       pk_encrypt G KEY_TEST_DATA u2 = ((0, rsa_key_test rsa), u')"
    "\<exists>u1 u2 u'. pk_setkey G (rfc_md5 (c_string pass)) u = (0, u1) \<and> pk_setiv G (strncpy_zero PK_CIPHER_BLOCK pass) u1 = (0, u2) \<and>
       rsa_params G rsa 0 (rsa_bytes rsa) u2 = ((0, key_numbers G L priv), u')"
proof -
  let ?key = "rfc_md5 (c_string pass)" and ?iv = "strncpy_zero PK_CIPHER_BLOCK pass"
  obtain c where md5: "md5_finish_ctx (md5_process_bytes al (c_string pass) (md5_init_ctx ctx)) = (?key, c)"
    using md5_buffer_rfc [OF ctx, of al] by (metis md5_buffer_def prod.collapse)
  obtain r1 w1 where 1: "pk_open G w = (r1, w1)" by fastforce
  obtain r2 w2 where 2: "pk_setkey G ?key w1 = (r2, w2)" by fastforce
  obtain r3 w3 where 3: "pk_setiv G ?iv w2 = (r3, w3)" by fastforce
  obtain r4 test w4 where 4: "pk_encrypt G KEY_TEST_DATA w3 = ((r4, test), w4)" by (metis prod.collapse)
  obtain r5 w5 where 5: "pk_open G (pk_close G w4) = (r5, w5)" by fastforce
  obtain r6 w6 where 6: "pk_setkey G ?key w5 = (r6, w6)" by fastforce
  obtain r7 w7 where 7: "pk_setiv G ?iv w6 = (r7, w7)" by fastforce
  obtain r8 rsa8 off8 w8 where 8: "store_fields G L priv 0 (zero_rsa\<lparr>rsa_key_test := test\<rparr>) 0 w7 = ((r8, rsa8, off8), w8)"
    by (metis prod.collapse)
  have r1: "r1 = 0" using seal by (cases "r1 = 0") (simp_all add: seal_key_def md5 1 Let_def)
  have r2: "r2 = 0" using seal by (cases "r2 = 0") (simp_all add: seal_key_def md5 1 2 r1 Let_def)
  have r3: "r3 = 0" using seal by (cases "r3 = 0") (simp_all add: seal_key_def md5 1 2 3 r1 r2 Let_def)
  have r4: "r4 = 0" using seal by (cases "r4 = 0") (simp_all add: seal_key_def md5 1 2 3 4 r1 r2 r3 Let_def)
  have r5: "r5 = 0" using seal by (cases "r5 = 0") (simp_all add: seal_key_def md5 1 2 3 4 5 r1 r2 r3 r4 Let_def)
  have r6: "r6 = 0" using seal by (cases "r6 = 0") (simp_all add: seal_key_def md5 1 2 3 4 5 6 r1 r2 r3 r4 r5 Let_def)
  have r7: "r7 = 0" using seal by (cases "r7 = 0") (simp_all add: seal_key_def md5 1 2 3 4 5 6 7 r1 r2 r3 r4 r5 r6 Let_def)
  have "r8 = 0 \<and> rsa8 = rsa \<and> off8 = off" using seal by (auto simp: seal_key_def md5 1 2 3 4 5 6 7 8 r1 r2 r3 r4 r5 r6 r7 Let_def)
  then have open1: "pk_open G w = (0, w1)"
    and test: "pk_setkey G ?key w1 = (0, w2)" "pk_setiv G ?iv w2 = (0, w3)" "pk_encrypt G KEY_TEST_DATA w3 = ((0, test), w4)"
    and open2: "pk_setkey G ?key w5 = (0, w6)" "pk_setiv G ?iv w6 = (0, w7)"
    and store: "store_fields G L priv 0 (zero_rsa\<lparr>rsa_key_test := test\<rparr>) 0 w7 = ((0, rsa, off), w8)"
    using 1 2 3 4 6 7 8 r1 r2 r3 r4 r6 r7 by simp_all
  have "length test = 8" using cipher_lawsD(3) [OF laws(1) test(3)] by (simp add: KEY_TEST_DATA_def)
  then have "rsa_wf (zero_rsa\<lparr>rsa_key_test := test\<rparr>)"
    by (simp add: rsa_wf_def zero_rsa_def RSA_FIELDS_def KEY_TEST_SIZE_def)
  then have S: "stored_from G matched (key_numbers G L priv) 0 (zero_rsa\<lparr>rsa_key_test := test\<rparr>) 0 w7 rsa off"
    by (intro store_fields_stored [OF laws store]) (simp_all add: zero_rsa_def)
  note S' = S [unfolded stored_from_def]
  show "rsa_wf rsa \<and> rsa_field rsa = key_names \<and> off \<le> RSA_DATA_SIZE \<and> drop off (rsa_bytes rsa) = replicate (RSA_DATA_SIZE - off) 0"
    using S' by simp
  show "fst (pk_open G u) = 0" by (rule cipher_lawsD(1) [OF laws(1) open1])
  show "\<exists>u1 u2 u'. pk_setkey G ?key u = (0, u1) \<and> pk_setiv G ?iv u1 = (0, u2) \<and> pk_encrypt G KEY_TEST_DATA u2 = ((0, rsa_key_test rsa), u')"
    using cipher_lawsD(2) [OF laws(1) test(1,2), of u] cipher_lawsD(5) [OF laws(1) _ test(3)] S' by auto
  show "\<exists>u1 u2 u'. pk_setkey G ?key u = (0, u1) \<and> pk_setiv G ?iv u1 = (0, u2) \<and> rsa_params G rsa 0 (rsa_bytes rsa) u2 = ((0, key_numbers G L priv), u')"
    using cipher_lawsD(2) [OF laws(1) open2, of u] S' by fastforce
qed

lemma load_key_file_bytes:
  assumes "rsa_wf rsa" "off \<le> RSA_DATA_SIZE" "drop off (rsa_bytes rsa) = replicate (RSA_DATA_SIZE - off) 0"
  shows "load_key_file zero_rsa (key_file_bytes rsa off) = Some rsa"
proof -
  have len: "length (rsa_data_bytes rsa) = 1840" "length (rsa_data_bytes zero_rsa) = 1840"
    using length_rsa_data_bytes [OF assms(1)] length_rsa_data_bytes [of zero_rsa]
    by (simp_all add: rsa_wf_def zero_rsa_def RSA_FIELDS_def)
  have bs: "key_file_bytes rsa off = take (off + 32) (rsa_data_bytes rsa)"
    using assms(2) by (simp add: key_file_bytes_def sizeof_RSA_data_def RSA_DATA_SIZE_def)
  have tail: "drop 32 (rsa_data_bytes r) = rsa_bytes r" if "rsa_wf r" for r
  proof -
    have "length (concat (rsa_field r)) = 12" "length (concat (map (\<lambda>n. le_bytes 2 (of_nat n :: 16 word)) (rsa_size r))) = 12"
      "length (rsa_key_test r) = 8"
      using that length_chunks [of "rsa_field r" 2] length_chunks [of "map (\<lambda>n. le_bytes 2 (of_nat n :: 16 word)) (rsa_size r)" 2]
      by (simp_all add: rsa_wf_def RSA_FIELDS_def KEY_TEST_SIZE_def)
    then show ?thesis by (simp add: rsa_data_bytes_def)
  qed
  have "drop (off + 32) (rsa_data_bytes r) = drop off (rsa_bytes r)" if "rsa_wf r" for r
    using tail [OF that] by (metis drop_drop)
  then have "drop (off + 32) (rsa_data_bytes zero_rsa) = drop (off + 32) (rsa_data_bytes rsa)"
    using assms by (simp add: zero_rsa_def rsa_wf_def RSA_FIELDS_def)
  then have "take sizeof_RSA_data (key_file_bytes rsa off) @ drop (length (key_file_bytes rsa off)) (rsa_data_bytes zero_rsa) = rsa_data_bytes rsa"
    using assms(2) len by (simp add: bs sizeof_RSA_data_def RSA_DATA_SIZE_def min_def)
  moreover have "key_file_bytes rsa off \<noteq> []" using len by (auto simp: bs)
  ultimately show ?thesis
    using rsa_data_roundtrip [OF assms(1), of "[]"] by (simp add: load_key_file_def)
qed

lemma rsa_params_public:
  assumes "rsa_params G rsa 0 (rsa_bytes rsa) u = ((0, nums), u')"
  shows "rsa_public G rsa = (0, take 2 nums)"
proof -
  obtain n xs u1 where n: "mpi_scan G (take (rsa_size rsa ! 0) (rsa_bytes rsa)) = (0, n)" "nums = n # xs"
    "rsa_params G rsa 1 (drop (rsa_size rsa ! 0) (rsa_bytes rsa)) u = ((0, xs), u1)"
    using assms by (subst (asm) rsa_params.simps) (auto simp: RSA_FIELDS_def RSA_FIELDS_PUB_def Let_def split: prod.splits if_splits)
  obtain e ys where "mpi_scan G (take (rsa_size rsa ! 1) (drop (rsa_size rsa ! 0) (rsa_bytes rsa))) = (0, e)" "xs = e # ys"
    using n(3) by (subst (asm) rsa_params.simps) (auto simp: RSA_FIELDS_def RSA_FIELDS_PUB_def Let_def split: prod.splits if_splits)
  then show ?thesis using n by (simp add: rsa_public_def)
qed

lemma generate_key_cases:
  assumes "generate_key G (Some rsa) (Some rnd) False kd v = Some (True, kd', v')"
  obtains nums pub bs x enc where "rsa_public G rsa = (0, nums)" "sexp_public_key G (zip (take 2 (rsa_field rsa)) nums) = (0, pub)"
    "random_main_key G rnd v = Some (Some (bs, x), v')" "encrypt_main_key G pub x = Some enc"
    "kd_rsa kd' = rsa" "kd_key kd' = take KEY_SIZE bs" "kd_ivec kd' = drop KEY_SIZE bs" "kd_encrypted_key kd' = enc"
proof -
  obtain r nums where 1: "rsa_public G rsa = (r, nums)" by fastforce
  obtain r2 pub where 2: "sexp_public_key G (zip (take 2 (rsa_field rsa)) nums) = (r2, pub)" by fastforce
  have "r = 0" using assms by (cases "r = 0") (simp_all add: generate_key_def 1)
  moreover have "r2 = 0" using assms \<open>r = 0\<close> by (cases "r2 = 0") (simp_all add: generate_key_def 1 2)
  ultimately have r: "r = 0" "r2 = 0" by simp_all
  note G = generate_key_def Let_def
  obtain res w where main: "random_main_key G rnd v = Some (res, w)"
    using assms by (cases "random_main_key G rnd v") (auto simp: G 1 2 r)
  obtain bs x where res: "res = Some (bs, x)"
    using assms by (cases res) (auto simp: G 1 2 r main)
  obtain enc where enc: "encrypt_main_key G pub x = Some enc"
    using assms by (cases "encrypt_main_key G pub x") (auto simp: G 1 2 r main res)
  have "kd' = kd\<lparr>kd_rsa := rsa, kd_key := take KEY_SIZE bs, kd_ivec := drop KEY_SIZE bs, kd_encrypted_key := enc\<rparr>" "v' = w"
    using assms by (simp_all add: G 1 2 r main res enc)
  with main res enc 1 2 r show thesis by (intro that [of nums pub bs x enc]) simp_all
qed

lemma generate_pair_tested:
  fixes L :: "('w, 's) key_maker"
  assumes "generate_pair L spec w = Some (Inr priv, w')"
  shows "pk_testkey L priv = 0"
proof -
  let ?P = "\<lambda>L' (spec' :: 's) (w :: 'w) (r :: (int + 's) \<times> 'w). L' = L \<longrightarrow> (\<forall>priv. fst r = Inr priv \<longrightarrow> pk_testkey L priv = 0)"
  have "?P L spec w (Inr priv, w')"
  proof (rule generate_pair.raw_induct [OF _ assms, of ?P])
    fix gp L' spec' w r
    assume IH: "\<And>L spec w r. gp L spec w = Some r \<Longrightarrow> ?P L spec w r"
      and eq: "(let ((ret, rsa_pair), w) = pk_genkey L' spec' w
      in if ret \<noteq> 0 then Some (Inl ret, w)
         else case find_token L' rsa_pair (map of_char ''private-key'') of
                None \<Rightarrow> Some (Inl EXIT_FAILURE, w)
              | Some rsa_priv \<Rightarrow> if pk_testkey L' rsa_priv \<noteq> 0 then gp L' spec' w else Some (Inr rsa_priv, w)) = Some r"
    obtain ret pair w1 where "pk_genkey L' spec' w = ((ret, pair), w1)" by (metis prod.collapse)
    then show "?P L' spec' w r"
      using eq IH [of L' spec' w1 r] by (auto split: if_splits option.splits)
  qed
  then show ?thesis by simp
qed

lemma ask_pk_key_right:
  assumes "ask w = (pass', w1)" "c_string pass' = c_string pass" "length (c_string pass) < 2 ^ 32" "length (md5_buf ctx) = 128"
    and "pk_setkey G (rfc_md5 (c_string pass)) w1 = (0, w2)" "pk_setiv G (strncpy_zero PK_CIPHER_BLOCK pass) w2 = (0, w3)"
    "pk_encrypt G KEY_TEST_DATA w3 = ((0, test), w4)"
  shows "ask_pk_key G ask al ctx test w = Some (0, rfc_md5 (c_string pass), strncpy_zero PK_CIPHER_BLOCK pass, w4)"
proof -
  obtain c where "md5_finish_ctx (md5_process_bytes al (c_string pass) (md5_init_ctx ctx)) = (rfc_md5 (c_string pass), c)"
    using md5_buffer_rfc [OF assms(4,3), of al] by (metis md5_buffer_def prod.collapse)
  moreover have "strncpy_zero PK_CIPHER_BLOCK pass' = strncpy_zero PK_CIPHER_BLOCK pass"
    by (simp add: strncpy_zero_def assms(2))
  ultimately show ?thesis using assms by (subst ask_pk_key.simps) (simp add: Let_def)
qed

lemma key_buffers_fit:
  assumes "has_room k m 3 (roundup (2 ^ k) 16 + (roundup (2 ^ k) 16 + roundup (2 ^ k) 8))"
  obtains a1 m1 a2 m2 a3 m3 where "getmem (of_nat PK_KEY_SIZE) m = Some (Some a1, m1)"
    "getmem (of_nat PK_CIPHER_BLOCK) m1 = Some (Some a2, m2)" "getmem (of_nat (length KEY_TEST_DATA)) m2 = Some (Some a3, m3)"
proof -
  have "has_room k m (Suc (Suc (Suc 0))) (roundup (2 ^ k) (unat (16 :: u64)) + (roundup (2 ^ k) 16 + roundup (2 ^ k) 8))"
    using assms by (simp add: numeral_3_eq_3 [symmetric])
  then obtain a1 m1 where 1: "getmem 16 m = Some (Some a1, m1)" "has_room k m1 (Suc (Suc 0)) (roundup (2 ^ k) 16 + roundup (2 ^ k) 8)"
    by (rule getmem_has_room) simp
  then have "has_room k m1 (Suc (Suc 0)) (roundup (2 ^ k) (unat (16 :: u64)) + roundup (2 ^ k) 8)" by simp
  then obtain a2 m2 where 2: "getmem 16 m1 = Some (Some a2, m2)" "has_room k m2 (Suc 0) (roundup (2 ^ k) 8)"
    by (rule getmem_has_room) simp
  then have "has_room k m2 (Suc 0) (roundup (2 ^ k) (unat (8 :: u64)) + 0)" by simp
  then obtain a3 m3 where 3: "getmem 8 m2 = Some (Some a3, m3)"
    by (rule getmem_has_room) simp
  show thesis
    using 1 2 3 by (intro that [of a1 m1 a2 m2 a3 m3]) (simp_all add: PK_KEY_SIZE_def PK_CIPHER_BLOCK_def KEY_TEST_DATA_def)
qed

text \<open>
  C23: The key file works. Let \<open>suspend-keygen\<close> generate a key pair and store it under a passphrase, \<open>suspend\<close>
  read the file, draw a main key and encrypt it with the public key, and \<open>resume\<close> be given the same passphrase
  for what it finds in the image header: then \<open>decrypt_key\<close> accepts the passphrase, decrypts the six numbers and
  gets back exactly the cipher key and the vector that \<open>generate_key\<close> drew.
\<close>

theorem key_file_works:
  assumes laws: "cipher_laws G matched" "mpi_laws G" "testkey_law G L"
    and keygen: "generate_pair L spec w0 = Some (Inr priv, w)" "seal_key G L al ctx pass priv zero_rsa w = ((0, rsa, off), w')"
    and suspend: "generate_key G (load_key_file zero_rsa (key_file_bytes rsa off)) (Some rnd) False kd v = Some (True, kd', v')"
    and ctx: "length (md5_buf ctx) = 128" "length (md5_buf ctx') = 128" "length (c_string pass) < 2 ^ 32"
    and ask: "\<And>u. c_string (fst (ask u)) = c_string pass"
    and room: "has_room k m 3 (roundup (2 ^ k) 16 + (roundup (2 ^ k) 16 + roundup (2 ^ k) 8))"
  shows "\<exists>m' u'. decrypt_key G ask al' ctx' (kd_rsa kd') (kd_encrypted_key kd') key ivec m u =
    Some (0, kd_key kd', kd_ivec kd', m', u')"
proof -
  let ?key = "rfc_md5 (c_string pass)" and ?iv = "strncpy_zero PK_CIPHER_BLOCK pass"
  note S = seal_key_ok [OF laws(1,2) keygen(2) ctx(1,3)]
  note S1 = S(1)
  have loaded: "load_key_file zero_rsa (key_file_bytes rsa off) = Some rsa"
    using S1 by (intro load_key_file_bytes) simp_all
  obtain nums pub bs x enc where public: "rsa_public G rsa = (0, nums)" "sexp_public_key G (zip (take 2 (rsa_field rsa)) nums) = (0, pub)"
    and main: "random_main_key G rnd v = Some (Some (bs, x), v')" "encrypt_main_key G pub x = Some enc"
    and kd: "kd_rsa kd' = rsa" "kd_key kd' = take KEY_SIZE bs" "kd_ivec kd' = drop KEY_SIZE bs" "kd_encrypted_key kd' = enc"
    using generate_key_cases [OF suspend [unfolded loaded]] by blast
  obtain a1 m1 a2 m2 a3 m3 where mem: "getmem (of_nat PK_KEY_SIZE) m = Some (Some a1, m1)"
    "getmem (of_nat PK_CIPHER_BLOCK) m1 = Some (Some a2, m2)" "getmem (of_nat (length KEY_TEST_DATA)) m2 = Some (Some a3, m3)"
    by (rule key_buffers_fit [OF room])
  obtain w1 where 1: "pk_open G u = (0, w1)" using S(2) [of u] by (metis prod.collapse)
  obtain pass' w2 where 2: "ask w1 = (pass', w2)" by fastforce
  obtain w3 w4 w5 where 3: "pk_setkey G ?key w2 = (0, w3)" "pk_setiv G ?iv w3 = (0, w4)" "pk_encrypt G KEY_TEST_DATA w4 = ((0, rsa_key_test rsa), w5)"
    using S(3) [of w2] by blast
  obtain w6 where 4: "pk_open G (pk_close G w5) = (0, w6)" using S(2) [of "pk_close G w5"] by (metis prod.collapse)
  obtain w7 w8 w9 where 5: "pk_setkey G ?key w6 = (0, w7)" "pk_setiv G ?iv w7 = (0, w8)"
    "rsa_params G rsa 0 (rsa_bytes rsa) w8 = ((0, key_numbers G L priv), w9)"
    using S(4) [of w6] by blast
  have "pk_testkey L priv = 0" by (rule generate_pair_tested [OF keygen(1)])
  moreover have "sexp_public_key G (zip (take 2 key_names) (take 2 (key_numbers G L priv))) = (0, pub)"
    using public rsa_params_public [OF 5(3)] S1 by simp
  ultimately obtain prv where "sexp_private_key G (zip key_names (key_numbers G L priv)) = (0, prv)" "rsa_pair G pub prv"
    using laws(3) unfolding testkey_law_def by blast
  then have "decrypt_main_key G rsa (key_numbers G L priv) enc = Some (0, bs)"
    using main_key_roundtrip [OF main] S1 by auto
  moreover have "ask_pk_key G ask al' ctx' (rsa_key_test rsa) w1 = Some (0, ?key, ?iv, w5)"
    using ask_pk_key_right [of ask w1 pass' w2 pass] 2 3 ask [of w1] ctx by simp
  ultimately show ?thesis
    using 1 4 5 mem by (simp add: decrypt_key_def kd)
qed

text \<open>A libgcrypt for the witness: ciphers and RSA reverse, numbers and expressions are byte lists.\<close>

definition toy_keys_gcrypt :: "(unit, byte list, byte list) gcrypt" where
  "toy_keys_gcrypt = toy_gcrypt\<lparr>mpi_print := (\<lambda>n x. if length x \<le> n then (0, x) else (1, []))\<rparr>"

definition toy_maker :: "(unit, byte list) key_maker" where
  "toy_maker = \<lparr>genkey_spec = (\<lambda>n. (0, [])), pk_genkey = (\<lambda>s w. ((0, s), w)), pk_testkey = (\<lambda>s. 0),
     find_token = (\<lambda>s n. Some (take 2 n)), create_file = (\<lambda>n w. (3, w)), write_fd = (\<lambda>fd bs w. w), close_fd = (\<lambda>fd w. w)\<rparr>"

definition toy_pass :: "byte list" where "toy_pass = map of_char ''secret'' @ [0]"

definition toy_priv :: "byte list" where "toy_priv = map of_char ''pr''"

definition toy_sealed :: "(int \<times> RSA_data \<times> nat) \<times> unit" where
  "toy_sealed = seal_key toy_keys_gcrypt toy_maker 0 zero_ctx toy_pass toy_priv zero_rsa ()"

definition toy_key_data :: key_data where
  "toy_key_data = \<lparr>kd_key = replicate 16 0, kd_ivec = replicate 8 0, kd_rsa = zero_rsa, kd_encrypted_key = []\<rparr>"

lemma toy_gcrypt_simps:
  "pk_open toy_keys_gcrypt w = (0, w)" "pk_setkey toy_keys_gcrypt k w = (0, w)" "pk_setiv toy_keys_gcrypt v w = (0, w)"
  "pk_encrypt toy_keys_gcrypt d w = ((0, rev d), w)" "pk_decrypt toy_keys_gcrypt d w = ((0, rev d), w)"
  "mpi_scan toy_keys_gcrypt d = (0, d)" "mpi_aprint toy_keys_gcrypt d = (0, d)" "sexp_nth_1 toy_keys_gcrypt s = Some s"
  "mpi_print toy_keys_gcrypt n x = (if length x \<le> n then (0, x) else (1, []))"
  "sexp_find_a toy_keys_gcrypt s = Some s" "sexp_data toy_keys_gcrypt d = (0, d)" "rsa_encrypt toy_keys_gcrypt x s = (0, rev x)"
  "rsa_decrypt toy_keys_gcrypt x s = (0, rev x)" "sexp_enc_val toy_keys_gcrypt d = (0, d)"
  "sexp_public_key toy_keys_gcrypt l = (0, concat (map snd l))" "sexp_private_key toy_keys_gcrypt l = (0, concat (map snd l))"
  by (simp_all add: toy_keys_gcrypt_def toy_gcrypt_def)

lemma toy_laws: "cipher_laws toy_keys_gcrypt (\<lambda>w u. True)" "mpi_laws toy_keys_gcrypt" "testkey_law toy_keys_gcrypt toy_maker"
  by (auto simp: cipher_laws_def mpi_laws_def testkey_law_def rsa_pair_def toy_gcrypt_simps split: if_splits)

lemma toy_store_fields:
  "rsa_wf rsa \<Longrightarrow> j \<le> RSA_FIELDS \<Longrightarrow> off \<le> 2 * j \<Longrightarrow>
    \<exists>rsa' off'. store_fields toy_keys_gcrypt toy_maker priv j rsa off () = ((0, rsa', off'), ())"
proof (induction "RSA_FIELDS - j" arbitrary: j rsa off)
  case 0
  then show ?case by (simp add: store_fields.simps)
next
  case (Suc n)
  then have j: "j < RSA_FIELDS" "off \<le> 12" by (simp_all add: RSA_FIELDS_def)
  let ?bytes = "put_at off [rsa_keys ! j] (rsa_bytes rsa)"
  let ?rsa = "rsa\<lparr>rsa_field := (rsa_field rsa)[j := [rsa_keys ! j, 0]], rsa_bytes := put_at off [rsa_keys ! j] ?bytes,
    rsa_size := (rsa_size rsa)[j := 1]\<rparr>"
  have bytes: "off + length [rsa_keys ! j] \<le> length (rsa_bytes rsa)" using Suc(3) j by (simp add: rsa_wf_def RSA_DATA_SIZE_def)
  have "rsa_wf ?rsa"
    using Suc(3) bytes by (auto simp: rsa_wf_def dest!: set_update_subset_insert [THEN subsetD])
  then have "\<exists>rsa' off'. store_fields toy_keys_gcrypt toy_maker priv (j + 1) ?rsa (off + 1) () = ((0, rsa', off'), ())"
    using Suc(2,5) j by (intro Suc(1)) auto
  moreover have "take 1 (drop off ?bytes) = [rsa_keys ! j]" using put_at_parts(2) [OF bytes] by simp
  ultimately show ?case
    using j Suc(3) by (subst store_fields.simps) (simp add: toy_maker_def toy_gcrypt_simps c_string_name rsa_wf_def RSA_DATA_SIZE_def Let_def)
qed

lemma toy_pair: "generate_pair toy_maker [] () = Some (Inr toy_priv, ())"
  by (subst generate_pair.simps) (simp add: toy_maker_def toy_priv_def)

lemma toy_pool: "has_room 12 example_pool 3 (roundup (2 ^ 12) 16 + (roundup (2 ^ 12) 16 + roundup (2 ^ 12) 8))"
  using example_pool_wf by (simp add: has_room_def example_pool_def top_def live_def roundup_def)

lemma toy_seal: "\<exists>rsa off. toy_sealed = ((0, rsa, off), ())"
proof -
  let ?rsa = "zero_rsa\<lparr>rsa_key_test := rev KEY_TEST_DATA\<rparr>"
  have "rsa_wf ?rsa" by (simp add: rsa_wf_def zero_rsa_def RSA_FIELDS_def KEY_TEST_SIZE_def KEY_TEST_DATA_def)
  then have "\<exists>rsa' off'. store_fields toy_keys_gcrypt toy_maker toy_priv 0 ?rsa 0 () = ((0, rsa', off'), ())"
    using toy_store_fields [of ?rsa 0 0 toy_priv] by simp
  then obtain rsa' off' where "store_fields toy_keys_gcrypt toy_maker toy_priv 0 ?rsa 0 () = ((0, rsa', off'), ())"
    by blast
  then show ?thesis
    by (simp add: toy_sealed_def seal_key_def toy_gcrypt_simps split: prod.splits)
qed

text \<open>What \<open>suspend\<close> makes of the file: the random generator gives the numbers from 1 to 24.\<close>

definition toy_suspend :: "(bool \<times> key_data \<times> unit) option" where
  "toy_suspend = generate_key toy_keys_gcrypt (load_key_file zero_rsa (key_file_bytes (fst (snd (fst toy_sealed))) (snd (snd (fst toy_sealed)))))
     (Some (\<lambda>w. (map of_nat [1..<25], w))) False toy_key_data ()"

lemma toy_suspends:
  obtains kd where "toy_suspend = Some (True, kd, ())" "kd_key kd = map of_nat [1..<17]" "kd_ivec kd = map of_nat [17..<25]"
proof -
  obtain rsa off where s: "toy_sealed = ((0, rsa, off), ())" using toy_seal by blast
  note S = seal_key_ok(1) [OF toy_laws(1,2) s [unfolded toy_sealed_def]]
  have "load_key_file zero_rsa (key_file_bytes rsa off) = Some rsa"
    using S by (intro load_key_file_bytes) (simp_all add: zero_ctx_def toy_pass_def c_string_def)
  moreover have "random_main_key toy_keys_gcrypt (\<lambda>w. (map of_nat [1..<25], w)) () = Some (Some (map of_nat [1..<25], map of_nat [1..<25]), ())"
    by (subst random_main_key.simps) (simp add: toy_gcrypt_simps KEY_SIZE_def CIPHER_BLOCK_def)
  moreover have "length (rev (map of_nat [1..<25]) :: byte list) \<le> KEY_DATA_SIZE" by (simp add: KEY_DATA_SIZE_def)
  ultimately show thesis
    using that [of "toy_key_data\<lparr>kd_rsa := rsa, kd_key := take KEY_SIZE (map of_nat [1..<25]),
        kd_ivec := drop KEY_SIZE (map of_nat [1..<25]), kd_encrypted_key := rev (map of_nat [1..<25])\<rparr>"]
    by (simp add: toy_suspend_def s generate_key_def rsa_public_def toy_gcrypt_simps encrypt_main_key_def KEY_SIZE_def take_map drop_map
        del: upt_rec_numeral)
qed

lemma key_file_works_witness:
  "case toy_suspend of None \<Rightarrow> False | Some (use_rsa, kd, w) \<Rightarrow> use_rsa \<and>
     (\<exists>m' u'. decrypt_key toy_keys_gcrypt (\<lambda>u. (toy_pass, u)) 3 zero_ctx (kd_rsa kd) (kd_encrypted_key kd) [] [] example_pool () =
        Some (0, map of_nat [1..<17], map of_nat [17..<25], m', u'))"
proof -
  obtain rsa off where s: "toy_sealed = ((0, rsa, off), ())" using toy_seal by blast
  obtain kd where kd: "toy_suspend = Some (True, kd, ())" "kd_key kd = map of_nat [1..<17]" "kd_ivec kd = map of_nat [17..<25]"
    by (rule toy_suspends)
  have ctx: "length (md5_buf zero_ctx) = 128" "length (c_string toy_pass) < 2 ^ 32"
    by (simp_all add: zero_ctx_def toy_pass_def c_string_def)
  have "generate_key toy_keys_gcrypt (load_key_file zero_rsa (key_file_bytes rsa off)) (Some (\<lambda>w. (map of_nat [1..<25], w))) False toy_key_data ()
      = Some (True, kd, ())"
    using kd(1) by (simp add: toy_suspend_def s)
  from key_file_works [OF toy_laws toy_pair s [unfolded toy_sealed_def] this ctx(1) ctx(1,2) _ toy_pool, of "\<lambda>u. (toy_pass, u)" 3 "[]" "[]" "()"]
  show ?thesis by (simp add: kd)
qed

end
