(* ===== verification/Swap_Offset.thy ===== *)
theory Swap_Offset
  imports Signature
begin

text \<open>
  \<open>swap-offset.c\<close>: where a swap file begins on its device, in pages. The number that it prints is the
  \<open>resume offset\<close> of the configuration, with which \<open>mark_swap\<close> and \<open>open_resume_dev\<close> find the swap header.
\<close>

section \<open>The program\<close>

definition SWAP_SIG :: "byte list" where "SWAP_SIG = map of_char ''SWAPSPACE2''"
definition SWAP_SIG_SIZE :: nat where "SWAP_SIG_SIZE = 10"

text \<open>The system calls on the file, each with its return value and \<open>errno\<close>.\<close>

record file_calls =
  fc_open :: "int \<times> int"
  fc_fstat :: "(int \<times> int) \<times> bool"                     \<comment> \<open>\<open>S_ISREG\<close>\<close>
  fc_lseek :: "int \<Rightarrow> int \<times> int"
  fc_read :: "int \<Rightarrow> nat \<Rightarrow> (int \<times> int) \<times> byte list"      \<comment> \<open>from the position after \<open>lseek\<close>\<close>
  fc_getbsz :: "(int \<times> int) \<times> int"
  fc_fibmap :: "u32 \<Rightarrow> (int \<times> int) \<times> u32"

text \<open>The loop over the blocks of the first page: \<open>errno\<close>, or \<open>first_block\<close> and \<open>size\<close>.\<close>

fun header_blocks :: "file_calls \<Rightarrow> int \<Rightarrow> nat list \<Rightarrow> u32 \<Rightarrow> u32 \<Rightarrow> int \<Rightarrow> int + u32 \<times> int" where
  "header_blocks F blk_size [] first_block last_block sz = Inr (first_block, sz)"
| "header_blocks F blk_size (i # is) first_block last_block sz =
     (let ((r, errno), block) = fc_fibmap F (of_nat i)
      in if r \<noteq> 0 then Inl errno
         else if last_block \<noteq> 0 \<and> block \<noteq> last_block + 1 then Inr (first_block, sz)
         else header_blocks F blk_size is (if first_block = 0 then block else first_block) block (sz + blk_size))"

text \<open>The exit status, and the offset if it is printed.\<close>

definition swap_offset :: "nat \<Rightarrow> file_calls \<Rightarrow> int \<times> u32 option" where
  "swap_offset k F =
     (let (fd, errno) = fc_open F
      in if fd < 0 then (errno, None)
         else let ((r, errno), isreg) = fc_fstat F
         in if r \<noteq> 0 then (errno, None)
         else if \<not> isreg then (EINVAL, None)
         else let (p, errno) = fc_lseek F (2 ^ k - int SWAP_SIG_SIZE)
         in if p < 0 then (errno, None)
         else let ((ret, errno), buf) = fc_read F (2 ^ k - int SWAP_SIG_SIZE) SWAP_SIG_SIZE
         in if ret < 0 then (errno, None)
         else if ret < int SWAP_SIG_SIZE then (EINVAL, None)
         else if buf \<noteq> SWAP_SIG then (EINVAL, None)
         else let ((r, errno), blk_size) = fc_getbsz F
         in if r \<noteq> 0 then (errno, None)
         else case header_blocks F blk_size [0..<nat (2 ^ k div blk_size)] 0 0 0 of
                Inl errno \<Rightarrow> (errno, None)
              | Inr (first_block, sz) \<Rightarrow>
                  if sz < 2 ^ k then (EINVAL, None)
                  else (0, Some (ucast (ucast first_block * word_of_int blk_size div 2 ^ k :: u64))))"

section \<open>The loop\<close>

text \<open>Whenever the loop sees the whole page, it starts at the first block that is mapped, and what comes after a mapped
  block is the block behind it.\<close>

lemma header_blocks_size:
  "header_blocks F b is f l s = Inr (f', s') \<Longrightarrow> 0 < b \<Longrightarrow> s' \<le> s + b * int (length is)"
proof (induction "is" arbitrary: f l s)
  case (Cons i "is")
  then show ?case
    by (cases "fc_fibmap F (of_nat i)") (fastforce simp: algebra_simps Let_def split: if_splits prod.splits)
qed simp

lemma header_blocks_contiguous:
  assumes "header_blocks F b [i..<n] f l s = Inr (f', s')" "s + b * int (n - i) \<le> s'" "0 < b" "i \<le> n"
    and "l \<noteq> 0" "f \<noteq> 0" "\<And>j. i \<le> j \<Longrightarrow> j < n \<Longrightarrow> snd (fc_fibmap F (of_nat j)) \<noteq> 0"
  shows "f' = f \<and> (\<forall>j. i \<le> j \<and> j < n \<longrightarrow> snd (fc_fibmap F (of_nat j)) = l + 1 + of_nat (j - i))"
  using assms
proof (induction "n - i" arbitrary: i l s)
  case (Suc d)
  obtain r e block where m: "fc_fibmap F (of_nat i) = ((r, e), block)" by (metis prod.collapse)
  have up: "[i..<n] = i # [Suc i..<n]" using Suc(2) by (simp add: upt_conv_Cons)
  have r: "r = 0" using Suc(3) by (simp add: up m split: if_splits)
  have "block = l + 1"
    using Suc(2-7) by (auto simp: up m r algebra_simps split: if_splits)
  moreover have rest: "header_blocks F b [Suc i..<n] f block (s + b) = Inr (f', s')"
    using Suc(3,8) \<open>block = l + 1\<close> by (simp add: up m r)
  moreover have "block \<noteq> 0" using Suc(9) [of i] m Suc(2) by simp
  ultimately have IH: "f' = f \<and> (\<forall>j. Suc i \<le> j \<and> j < n \<longrightarrow> snd (fc_fibmap F (of_nat j)) = block + 1 + of_nat (j - Suc i))"
    using Suc(2-) by (intro Suc(1)) (auto simp: algebra_simps of_nat_diff)
  show ?case
  proof (intro conjI allI impI)
    fix j assume j: "i \<le> j \<and> j < n"
    show "snd (fc_fibmap F (of_nat j)) = l + 1 + of_nat (j - i)"
    proof (cases "j = i")
      case False
      then have "Suc i \<le> j" "j - i = Suc (j - Suc i)" using j by auto
      then show ?thesis using IH j \<open>block = l + 1\<close> by simp
    qed (use m \<open>block = l + 1\<close> in simp)
  qed (use IH in blast)
qed auto

lemma unat_plus_nowrap:
  fixes a :: "'a::len word"
  assumes "\<forall>i\<le>j. a + of_nat i \<noteq> 0"
  shows "unat (a + of_nat j) = unat a + j"
  using assms
proof (induction j)
  case (Suc j)
  have "a + of_nat (Suc j) = 1 + (a + of_nat j)" by simp
  moreover have "1 + (a + of_nat j) \<noteq> 0" using Suc.prems [rule_format, of "Suc j"] by (simp add: add.left_commute)
  ultimately have "unat (a + of_nat (Suc j)) = Suc (unat (a + of_nat j))" using unatSuc by metis
  then show ?case using Suc by simp
qed simp

lemma swap_offset_loop:
  assumes "swap_offset k F = (0, Some off)" "snd (fc_getbsz F) = b"
  obtains f s where "header_blocks F b [0..<nat (2 ^ k div b)] 0 0 0 = Inr (f, s)" "2 ^ k \<le> s"
    "off = ucast (ucast f * word_of_int b div 2 ^ k :: u64)" "snd (fc_read F (2 ^ k - 10) 10) = SWAP_SIG"
  using assms
  by (cases "header_blocks F b [0..<nat (2 ^ k div b)] 0 0 0")
     (auto simp: swap_offset_def SWAP_SIG_SIZE_def Let_def split: prod.splits if_splits)

lemma swap_offset_blocks:
  assumes "swap_offset k F = (0, Some off)" "snd (fc_getbsz F) = b" "0 < b" "b dvd 2 ^ k" "k \<le> 16"
    and mapped: "\<forall>j < nat (2 ^ k div b). snd (fc_fibmap F (of_nat j)) \<noteq> 0"
  shows "int (unat off) = int (unat (snd (fc_fibmap F 0))) * b div 2 ^ k"
    "j < nat (2 ^ k div b) \<Longrightarrow> unat (snd (fc_fibmap F (of_nat j))) = unat (snd (fc_fibmap F 0)) + j"
proof -
  define n where "n = nat (2 ^ k div b)"
  define a where "a = snd (fc_fibmap F 0)"
  obtain f s where loop: "header_blocks F b [0..<n] 0 0 0 = Inr (f, s)" "2 ^ k \<le> s"
    and off: "off = ucast (ucast f * word_of_int b div 2 ^ k :: u64)"
    using swap_offset_loop [OF assms(1,2)] unfolding n_def by blast
  have b: "b \<le> 2 ^ k" "b * int n = 2 ^ k" "0 < n"
    using assms(3,4) zdvd_imp_le [of b "2 ^ k"] by (auto simp: n_def pos_imp_zdiv_pos_iff)
  obtain r e where m: "fc_fibmap F 0 = ((r, e), a)" unfolding a_def by (metis prod.collapse)
  have up: "[0..<n] = 0 # [1..<n]" using b(3) by (simp add: upt_conv_Cons)
  have "a \<noteq> 0" using mapped [rule_format, of 0] b(3) by (simp add: n_def a_def)
  have r: "r = 0" using loop(1) by (simp add: up m split: if_splits)
  have "header_blocks F b [1..<n] a a b = Inr (f, s)"
    using loop(1) r by (simp add: up m)
  moreover have "b + b * int (n - 1) \<le> s" using loop(2) b by (simp add: algebra_simps of_nat_diff)
  ultimately have C: "f = a \<and> (\<forall>j. 1 \<le> j \<and> j < n \<longrightarrow> snd (fc_fibmap F (of_nat j)) = a + 1 + of_nat (j - 1))"
    using assms(3) b(3) \<open>a \<noteq> 0\<close> mapped by (intro header_blocks_contiguous) (auto simp: n_def)
  have blocks: "snd (fc_fibmap F (of_nat j)) = a + of_nat j" if "j < n" for j
    using C that by (cases j) (auto simp: a_def)
  show "unat (snd (fc_fibmap F (of_nat j))) = unat (snd (fc_fibmap F 0)) + j" if "j < nat (2 ^ k div b)"
    using that mapped blocks by (subst blocks) (auto simp: n_def a_def intro!: unat_plus_nowrap)
  define B where "B = nat b"
  have B: "b = int B" "B \<le> 2 ^ k" using assms(3) b(1) by (auto simp: B_def nat_le_iff)
  have "(2::nat) ^ k \<le> 2 ^ 16" using assms(5) by (intro power_increasing) auto
  then have "B \<le> 2 ^ 16" using B(2) by linarith
  then have B64: "unat (word_of_int b :: u64) = B"
    by (simp add: B(1) unsigned_of_nat take_bit_nat_eq_self)
  have a32: "unat a < 2 ^ 32" using unsigned_less [of a] by simp
  have "unat a * B \<le> 2 ^ 32 * 2 ^ 16" using a32 \<open>B \<le> 2 ^ 16\<close> by (intro mult_mono) auto
  moreover have "unat (ucast a :: u64) = unat a" by (simp add: unsigned_ucast_eq take_bit_nat_eq_self a32 order_less_trans [OF a32])
  ultimately have prod: "unat (ucast a * word_of_int b :: u64) = unat a * B"
    using B64 by (simp add: unat_word_ariths)
  have "unat (2 ^ k :: u64) = 2 ^ k" using assms(5) by (simp add: unat_pow2)
  then have "unat off = unat a * B div 2 ^ k mod 2 ^ 32"
    using C prod by (simp add: off unat_div unsigned_ucast_eq take_bit_eq_mod)
  moreover have "unat a * B div 2 ^ k \<le> unat a"
    using div_le_mono [OF mult_le_mono2 [OF B(2)], of "unat a" "2 ^ k"] by simp
  ultimately have "unat off = unat a * B div 2 ^ k" using a32 by simp
  then show "int (unat off) = int (unat (snd (fc_fibmap F 0))) * b div 2 ^ k"
    by (simp add: a_def B(1) zdiv_int)
qed

text \<open>\<open>FIBMAP\<close> gives for each block of the file the block of the device that holds it; the file's bytes are there.\<close>

definition lies_on :: "file_calls \<Rightarrow> int \<Rightarrow> byte list \<Rightarrow> (int \<Rightarrow> byte) \<Rightarrow> bool" where
  "lies_on F b page disk \<longleftrightarrow>
     (\<forall>x < length page. page ! x = disk (int (unat (snd (fc_fibmap F (of_nat (x div nat b))))) * b + int (x mod nat b)))"


text \<open>
  What the check of the header misses: a block that is not mapped has the number 0, which is also the mark for
  \<open>no block yet\<close>. For a file whose first page is not on the device at all the program prints 0 and succeeds.
\<close>

lemma swap_offset_accepts_hole:
  assumes "fc_open F = (fd, e1)" "0 \<le> fd" "fc_fstat F = ((0, e2), True)" "fc_lseek F (2 ^ k - 10) = (p, e3)" "0 \<le> p"
    and "fc_read F (2 ^ k - 10) 10 = ((10, e4), SWAP_SIG)" "fc_getbsz F = ((0, e5), b)" "0 < b" "b dvd 2 ^ k"
    and "\<And>j. fc_fibmap F j = ((0, 0), 0)"
  shows "swap_offset k F = (0, Some 0)"
proof -
  have "header_blocks F b is 0 0 s = Inr (0, s + b * int (length is))" for "is" s
    by (induction "is" arbitrary: s) (simp_all add: assms(10) algebra_simps)
  moreover have "b * int (nat (2 ^ k div b)) = 2 ^ k" using assms(8,9) by (simp add: pos_imp_zdiv_nonneg_iff)
  ultimately show ?thesis using assms by (simp add: swap_offset_def SWAP_SIG_SIZE_def)
qed

text \<open>A file of 1024-byte blocks whose first page, of 4096 bytes, is in the blocks 8 to 11.\<close>

definition small_page :: "byte list" where "small_page = replicate 4086 7 @ SWAP_SIG"

definition small_swap_file :: file_calls where
  "small_swap_file = \<lparr>fc_open = (3, 0), fc_fstat = ((0, 0), True), fc_lseek = (\<lambda>p. (p, 0)),
     fc_read = (\<lambda>p n. ((int n, 0), drop (nat p) small_page)), fc_getbsz = ((0, 0), 1024), fc_fibmap = (\<lambda>i. ((0, 0), i + 8))\<rparr>"

lemma small_page_simps: "length small_page = 4096" "drop 4086 small_page = SWAP_SIG" "length SWAP_SIG = 10"
  by (simp_all add: small_page_def SWAP_SIG_def)

lemma small_block: "j < 4 \<Longrightarrow> unat (of_nat j + 8 :: u32) = j + 8"
proof -
  assume "j < 4"
  then have "unat (of_nat (j + 8) :: u32) = j + 8" by (simp add: unsigned_of_nat take_bit_nat_eq_self del: of_nat_add)
  then show ?thesis by simp
qed

lemma small_lies_on: "lies_on small_swap_file 1024 small_page (\<lambda>x. (replicate 8192 0 @ small_page) ! nat x)"
proof -
  have "unat (of_nat (x div 1024) + 8 :: u32) * 1024 + x mod 1024 = 8192 + x" if "x < 4096" for x :: nat
    using small_block [of "x div 1024"] that by simp
  then have "nat (int (unat (of_nat (x div 1024) + 8 :: u32)) * 1024 + int (x mod 1024)) = 8192 + x" if "x < 4096" for x
    using that by (metis nat_int of_nat_add of_nat_mult of_nat_numeral)
  then show ?thesis
    unfolding lies_on_def small_swap_file_def small_page_simps by (simp add: nth_append del: of_nat_unat)
qed


end
