(* ===== verification/Lrmi.thy ===== *)
theory Lrmi
  imports Allocator
begin

text \<open>
  The memory of the real mode interface, \<open>vbetool/x86-common.c\<close>: an allocator over the blocks of a fixed region,
  which \<open>vbetool.c\<close> uses for the buffers it passes to the video BIOS. The blocks lie one behind the other; a block
  is cut off in front of a free one, and a block that is freed is merged with its free neighbours.
\<close>

section \<open>The code\<close>

definition REAL_MEM_BASE :: int where "REAL_MEM_BASE = 0x10000"
definition REAL_MEM_SIZE :: int where "REAL_MEM_SIZE = 0x90000"
definition REAL_MEM_BLOCKS :: nat where "REAL_MEM_BLOCKS = 0x100"

text \<open>\<open>mb_size\<close> is a bit field of 20 bits, \<open>set_mb_size\<close> an assignment to it.\<close>

record mem_block =
  mb_size :: int
  mb_free :: bool

record mem_info =
  mi_ready :: bool
  mi_count :: nat
  mi_blocks :: "mem_block list"

definition set_mb_size :: "int \<Rightarrow> mem_block \<Rightarrow> mem_block" where
  "set_mb_size n b = b\<lparr>mb_size := n mod 2 ^ 20\<rparr>"

text \<open>What \<open>real_mem_init\<close> leaves; \<open>maps\<close> says whether \<open>open\<close> and \<open>mmap\<close> succeed.\<close>

definition real_mem_init :: "bool \<Rightarrow> mem_info \<Rightarrow> bool \<times> mem_info" where
  "real_mem_init maps m =
     (if mi_ready m then (True, m)
      else if \<not> maps then (False, m)
      else (True, m\<lparr>mi_ready := True, mi_count := 1, mi_blocks := (mi_blocks m)[0 := \<lparr>mb_size = REAL_MEM_SIZE, mb_free = True\<rparr>]\<rparr>))"

definition real_mem_deinit :: "mem_info \<Rightarrow> mem_info" where
  "real_mem_deinit m = (if mi_ready m then m\<lparr>mi_ready := False\<rparr> else m)"

definition insert_block :: "nat \<Rightarrow> mem_info \<Rightarrow> mem_info" where
  "insert_block i m =
     m\<lparr>mi_blocks := array_move (mi_blocks m) (i + 1) i (mi_count m - i), mi_count := mi_count m + 1\<rparr>"

definition delete_block :: "nat \<Rightarrow> mem_info \<Rightarrow> mem_info" where
  "delete_block i m =
     (let m = m\<lparr>mi_count := mi_count m - 1\<rparr>
      in m\<lparr>mi_blocks := array_move (mi_blocks m) i (i + 1) (mi_count m - i)\<rparr>)"

function alloc_loop :: "int \<Rightarrow> nat \<Rightarrow> int \<Rightarrow> mem_info \<Rightarrow> int option \<times> mem_info" where
  "alloc_loop sz i r m =
     (if i < mi_count m then
        (if mb_free (mi_blocks m ! i) \<and> sz < mb_size (mi_blocks m ! i) then
           (let m = insert_block i m;
                bs = (mi_blocks m)[i := set_mb_size sz (mi_blocks m ! i)];
                bs = bs[i := (bs ! i)\<lparr>mb_free := False\<rparr>];
                bs = bs[i + 1 := set_mb_size (mb_size (bs ! (i + 1)) - sz) (bs ! (i + 1))]
            in (Some r, m\<lparr>mi_blocks := bs\<rparr>))
         else alloc_loop sz (i + 1) (r + mb_size (mi_blocks m ! i)) m)
      else (None, m))"
  by pat_completeness auto
termination
  by (relation "measure (\<lambda>(sz, i, r, m). mi_count m - i)") auto

declare alloc_loop.simps [simp del]

definition LRMI_alloc_real :: "int \<Rightarrow> mem_info \<Rightarrow> int option \<times> mem_info" where
  "LRMI_alloc_real sz m =
     (if \<not> mi_ready m then (None, m)
      else if mi_count m = REAL_MEM_BLOCKS then (None, m)
      else alloc_loop ((sz + 15) AND NOT 15) 0 REAL_MEM_BASE m)"

text \<open>The loop of \<open>LRMI_free_real\<close>: the index of the block at \<open>a\<close>, or none. It ends when \<open>i\<close> meets \<open>count\<close>.\<close>

partial_function (option) find_block :: "int \<Rightarrow> nat \<Rightarrow> int \<Rightarrow> mem_info \<Rightarrow> nat option option" where
  "find_block a i r m =
     (if a \<noteq> r then (if i + 1 = mi_count m then Some None else find_block a (i + 1) (r + mb_size (mi_blocks m ! i)) m)
      else Some (Some i))"

definition merge_next :: "nat \<Rightarrow> mem_info \<Rightarrow> mem_info" where
  "merge_next i m =
     delete_block (i + 1) (m\<lparr>mi_blocks :=
       (mi_blocks m)[i := set_mb_size (mb_size (mi_blocks m ! i) + mb_size (mi_blocks m ! (i + 1))) (mi_blocks m ! i)]\<rparr>)"

definition LRMI_free_real :: "int \<Rightarrow> mem_info \<Rightarrow> mem_info option" where
  "LRMI_free_real a m =
     (if \<not> mi_ready m then Some m
      else case find_block a 0 REAL_MEM_BASE m of
             None \<Rightarrow> None
           | Some None \<Rightarrow> Some m
           | Some (Some i) \<Rightarrow>
               (let m = m\<lparr>mi_blocks := (mi_blocks m)[i := (mi_blocks m ! i)\<lparr>mb_free := True\<rparr>]\<rparr>;
                    m = (if i + 1 < mi_count m \<and> mb_free (mi_blocks m ! (i + 1)) then merge_next i m else m);
                    m = (if 1 \<le> i \<and> mb_free (mi_blocks m ! (i - 1)) then merge_next (i - 1) m else m)
                in Some m))"

text \<open>
  \<open>LRMI_common_init\<close>: the arguments say which of \<open>open("/dev/zero")\<close> with its \<open>mmap\<close>, \<open>open("/dev/mem")\<close>, the mapping of the
  interrupt vectors and the one of the ROM succeed, \<open>maps\<close> are the mappings in force.
\<close>

definition LRMI_common_init :: "bool \<Rightarrow> bool \<Rightarrow> bool \<Rightarrow> bool \<Rightarrow> mem_info \<Rightarrow> (int \<times> int) set \<Rightarrow> bool \<times> mem_info \<times> (int \<times> int) set" where
  "LRMI_common_init zero_ok mem_ok ivt_ok rom_ok m maps =
     (let real = (REAL_MEM_BASE, REAL_MEM_SIZE);
          (ok, m') = real_mem_init zero_ok m;
          maps = (if ok \<and> \<not> mi_ready m then insert real maps else maps)
      in if \<not> ok then (False, m', maps)
         else if \<not> mem_ok \<or> \<not> ivt_ok then (False, real_mem_deinit m', maps - {real})
         else let maps = insert (0, 0x502) maps
         in if \<not> rom_ok then (False, real_mem_deinit m', maps - {(0, 0x502)} - {real})
            else (True, m', insert (0xa0000, 0x60000) maps))"

section \<open>The blocks as a list\<close>

definition live_blocks :: "mem_info \<Rightarrow> mem_block list" where
  "live_blocks m = take (mi_count m) (mi_blocks m)"

definition sizes :: "mem_block list \<Rightarrow> int" where
  "sizes bs = sum_list (map mb_size bs)"

lemma sizes_simps [simp]: "sizes [] = 0" "sizes (b # bs) = mb_size b + sizes bs" "sizes (bs @ cs) = sizes bs + sizes cs"
  by (simp_all add: sizes_def)

text \<open>The allocated regions of blocks that start at \<open>r\<close>.\<close>

fun regions_at :: "int \<Rightarrow> mem_block list \<Rightarrow> (int \<times> int) set" where
  "regions_at r [] = {}"
| "regions_at r (b # bs) = (if mb_free b then {} else {(r, mb_size b)}) \<union> regions_at (r + mb_size b) bs"

lemma regions_at_append: "regions_at r (bs @ cs) = regions_at r bs \<union> regions_at (r + sizes bs) cs"
  by (induction bs arbitrary: r) (auto simp: add.assoc)

definition blocks_ok :: "mem_block list \<Rightarrow> bool" where
  "blocks_ok bs \<longleftrightarrow> (\<forall>b\<in>set bs. 0 < mb_size b \<and> 16 dvd mb_size b)"

lemma blocks_ok_simps [simp]:
  "blocks_ok []" "blocks_ok (b # bs) \<longleftrightarrow> 0 < mb_size b \<and> 16 dvd mb_size b \<and> blocks_ok bs"
  "blocks_ok (bs @ cs) \<longleftrightarrow> blocks_ok bs \<and> blocks_ok cs"
  by (auto simp: blocks_ok_def)

lemma sizes_nonneg: "blocks_ok bs \<Longrightarrow> 0 \<le> sizes bs"
  by (induction bs) auto

lemma regions_at_bounds:
  "blocks_ok bs \<Longrightarrow> (a, n) \<in> regions_at r bs \<Longrightarrow> r \<le> a \<and> 0 < n \<and> 16 dvd n \<and> a + n \<le> r + sizes bs"
  by (induction bs arbitrary: r) (fastforce dest: sizes_nonneg split: if_splits)+

lemma regions_at_aligned:
  "blocks_ok bs \<Longrightarrow> (a, n) \<in> regions_at r bs \<Longrightarrow> 16 dvd r \<Longrightarrow> 16 dvd a"
  by (induction bs arbitrary: r) (auto split: if_splits)

lemma regions_at_disjoint:
  "blocks_ok bs \<Longrightarrow> (a, n) \<in> regions_at r bs \<Longrightarrow> (a', n') \<in> regions_at r bs \<Longrightarrow> (a, n) \<noteq> (a', n') \<Longrightarrow> a + n \<le> a' \<or> a' + n' \<le> a"
proof (induction bs arbitrary: r)
  case (Cons b bs)
  then show ?case
    using regions_at_bounds [of bs a n "r + mb_size b"] regions_at_bounds [of bs a' n' "r + mb_size b"]
    by (auto split: if_splits)
qed simp

text \<open>No two free blocks are neighbours.\<close>

definition coalesced :: "mem_block list \<Rightarrow> bool" where
  "coalesced bs \<longleftrightarrow> successively (\<lambda>a b. \<not> (mb_free a \<and> mb_free b)) bs"

definition real_blocks :: "mem_info \<Rightarrow> bool" where
  "real_blocks m \<longleftrightarrow> mi_ready m \<and> length (mi_blocks m) = REAL_MEM_BLOCKS \<and> 1 \<le> mi_count m \<and> mi_count m \<le> REAL_MEM_BLOCKS \<and>
     blocks_ok (live_blocks m) \<and> sizes (live_blocks m) = REAL_MEM_SIZE"

definition real_wf :: "mem_info \<Rightarrow> bool" where
  "real_wf m \<longleftrightarrow> real_blocks m \<and> coalesced (live_blocks m)"

definition real_regions :: "mem_info \<Rightarrow> (int \<times> int) set" where
  "real_regions m = regions_at REAL_MEM_BASE (live_blocks m)"

section \<open>Inserting and deleting blocks\<close>

lemma live_insert_block:
  assumes "i \<le> mi_count m" "mi_count m < length (mi_blocks m)"
  shows "live_blocks (insert_block i m) = take i (live_blocks m) @ mi_blocks m ! i # drop i (live_blocks m)"
    "length (mi_blocks (insert_block i m)) = length (mi_blocks m)"
proof -
  let ?A = "take (Suc i) (mi_blocks m) @ take (mi_count m - i) (drop i (mi_blocks m))"
  have "length ?A = mi_count m + 1" using assms by (simp add: min_def) linarith
  moreover have "mi_blocks (insert_block i m) = ?A @ drop (Suc i + (mi_count m - i)) (mi_blocks m)" "mi_count (insert_block i m) = mi_count m + 1"
    by (simp_all add: insert_block_def array_move_def)
  ultimately have "live_blocks (insert_block i m) = ?A"
    by (metis live_blocks_def append_eq_conv_conj)
  moreover have "take (Suc i) (mi_blocks m) = take i (mi_blocks m) @ [mi_blocks m ! i]"
    using assms by (simp add: take_Suc_conv_app_nth)
  ultimately show "live_blocks (insert_block i m) = take i (live_blocks m) @ mi_blocks m ! i # drop i (live_blocks m)"
    using assms by (simp add: live_blocks_def drop_take min_def)
  show "length (mi_blocks (insert_block i m)) = length (mi_blocks m)"
    using assms by (simp add: insert_block_def array_simps)
qed

lemma live_delete_block:
  assumes "i < mi_count m" "mi_count m \<le> length (mi_blocks m)"
  shows "live_blocks (delete_block i m) = take i (live_blocks m) @ drop (Suc i) (live_blocks m)"
    "length (mi_blocks (delete_block i m)) = length (mi_blocks m)"
proof -
  let ?A = "take i (mi_blocks m) @ take (mi_count m - 1 - i) (drop (Suc i) (mi_blocks m))"
  have "length ?A = mi_count m - 1" using assms by (simp add: min_def) linarith
  moreover have "mi_blocks (delete_block i m) = ?A @ drop (i + (mi_count m - 1 - i)) (mi_blocks m)" "mi_count (delete_block i m) = mi_count m - 1"
    by (simp_all add: delete_block_def array_move_def Let_def)
  ultimately have "live_blocks (delete_block i m) = ?A"
    by (metis live_blocks_def append_eq_conv_conj)
  then show "live_blocks (delete_block i m) = take i (live_blocks m) @ drop (Suc i) (live_blocks m)"
    using assms by (simp add: live_blocks_def drop_take min_def)
  show "length (mi_blocks (delete_block i m)) = length (mi_blocks m)"
    using assms by (simp add: delete_block_def array_simps Let_def)
qed

lemma live_nth: "i < mi_count m \<Longrightarrow> live_blocks m ! i = mi_blocks m ! i"
  by (simp add: live_blocks_def)

lemma live_split:
  assumes "i < mi_count m" "mi_count m \<le> length (mi_blocks m)"
  shows "live_blocks m = take i (live_blocks m) @ mi_blocks m ! i # drop (Suc i) (live_blocks m)"
  using assms id_take_nth_drop [of i "live_blocks m"] by (simp add: live_blocks_def)

lemma live_update: "live_blocks (m\<lparr>mi_blocks := (mi_blocks m)[i := b]\<rparr>) = (live_blocks m)[i := b]"
  by (simp add: live_blocks_def take_update_swap)

section \<open>Allocating\<close>

text \<open>The first free block that is larger than \<open>sz\<close> is cut in two.\<close>

lemma alloc_loop_spec:
  assumes "i \<le> mi_count m" "length (mi_blocks m) = REAL_MEM_BLOCKS" "mi_count m < REAL_MEM_BLOCKS"
  shows "(alloc_loop sz i (r + sizes (take i (live_blocks m))) m = (None, m) \<and>
      (\<forall>b\<in>set (drop i (live_blocks m)). \<not> (mb_free b \<and> sz < mb_size b))) \<or>
    (\<exists>xs b ys m'. live_blocks m = xs @ b # ys \<and> mb_free b \<and> sz < mb_size b \<and>
      alloc_loop sz i (r + sizes (take i (live_blocks m))) m = (Some (r + sizes xs), m') \<and>
      live_blocks m' = xs @ (set_mb_size sz b)\<lparr>mb_free := False\<rparr> # set_mb_size (mb_size b - sz) b # ys \<and>
      mi_count m' = mi_count m + 1 \<and> length (mi_blocks m') = length (mi_blocks m) \<and> mi_ready m' = mi_ready m)"
  using assms(1)
proof (induction "mi_count m - i" arbitrary: i)
  case 0
  then show ?case by (subst alloc_loop.simps) (simp add: live_blocks_def)
next
  case (Suc n)
  then have i: "i < mi_count m" by simp
  let ?b = "mi_blocks m ! i"
  have split: "live_blocks m = take i (live_blocks m) @ ?b # drop (Suc i) (live_blocks m)"
    using live_split [OF i] assms by simp
  show ?case
  proof (cases "mb_free ?b \<and> sz < mb_size ?b")
    case True
    let ?m = "insert_block i m"
    have live: "live_blocks ?m = take i (live_blocks m) @ ?b # ?b # drop (Suc i) (live_blocks m)"
      using live_insert_block(1) [of i m] i assms Cons_nth_drop_Suc [of i "live_blocks m"] live_nth [OF i] by (simp add: live_blocks_def)
    have len: "length (mi_blocks ?m) = REAL_MEM_BLOCKS" "mi_count ?m = mi_count m + 1"
      using live_insert_block(2) [of i m] i assms by (simp_all add: insert_block_def)
    have li: "length (take i (live_blocks m)) = i" using i assms by (simp add: live_blocks_def)
    have nth: "mi_blocks ?m ! i = ?b" "mi_blocks ?m ! (i + 1) = ?b"
      using live_nth [of i ?m] live_nth [of "i + 1" ?m] i len li unfolding live by (simp_all add: nth_append)
    let ?bs = "(mi_blocks ?m)[i := (set_mb_size sz ?b)\<lparr>mb_free := False\<rparr>, i + 1 := set_mb_size (mb_size ?b - sz) ?b]"
    have "alloc_loop sz i (r + sizes (take i (live_blocks m))) m
        = (Some (r + sizes (take i (live_blocks m))), ?m\<lparr>mi_blocks := ?bs\<rparr>)"
      using i True nth len assms by (subst alloc_loop.simps) (simp add: Let_def)
    moreover have "live_blocks (?m\<lparr>mi_blocks := ?bs\<rparr>)
        = take i (live_blocks m) @ (set_mb_size sz ?b)\<lparr>mb_free := False\<rparr> # set_mb_size (mb_size ?b - sz) ?b # drop (Suc i) (live_blocks m)"
    proof -
      have "live_blocks (?m\<lparr>mi_blocks := ?bs\<rparr>) =
          (live_blocks ?m)[i := (set_mb_size sz ?b)\<lparr>mb_free := False\<rparr>, i + 1 := set_mb_size (mb_size ?b - sz) ?b]"
        by (simp add: live_blocks_def take_update_swap)
      then show ?thesis using li by (simp add: live list_update_append)
    qed
    moreover have "mi_ready ?m = mi_ready m" by (simp add: insert_block_def)
    ultimately show ?thesis using split True len assms
      by (intro disjI2 exI [of _ "take i (live_blocks m)"] exI [of _ ?b] exI [of _ "drop (Suc i) (live_blocks m)"]
          exI [of _ "?m\<lparr>mi_blocks := ?bs\<rparr>"] conjI) simp_all
  next
    case False
    have drop: "drop i (live_blocks m) = ?b # drop (Suc i) (live_blocks m)"
      using i assms Cons_nth_drop_Suc [of i "live_blocks m"] live_nth [OF i] by (simp add: live_blocks_def)
    have "r + sizes (take i (live_blocks m)) + mb_size ?b = r + sizes (take (i + 1) (live_blocks m))"
      using i assms live_nth [OF i] by (simp add: take_Suc_conv_app_nth live_blocks_def)
    moreover have "alloc_loop sz i x m = alloc_loop sz (i + 1) (x + mb_size ?b) m" for x
      by (subst alloc_loop.simps) (simp only: i False if_True if_False)
    ultimately have "alloc_loop sz i (r + sizes (take i (live_blocks m))) m = alloc_loop sz (i + 1) (r + sizes (take (i + 1) (live_blocks m))) m"
      by (simp only:)
    moreover have "n = mi_count m - (i + 1)" "i + 1 \<le> mi_count m" using Suc(2) by auto
    ultimately show ?thesis using Suc(1) [of "i + 1"] False drop by simp
  qed
qed

lemma sizes_total:
  assumes "real_blocks m" "live_blocks m = xs @ b # ys"
  shows "0 \<le> sizes xs" "0 < mb_size b" "0 \<le> sizes ys" "sizes xs + mb_size b + sizes ys = REAL_MEM_SIZE"
  using assms sizes_nonneg by (auto simp: real_blocks_def)

lemma mod_size: "0 \<le> n \<Longrightarrow> n \<le> REAL_MEM_SIZE \<Longrightarrow> n mod 2 ^ 20 = n"
  by (simp add: REAL_MEM_SIZE_def)

lemma round_up_16:
  assumes "0 < sz"
  shows "sz \<le> (sz + 15) AND NOT 15" "16 dvd (sz + 15) AND NOT (15 :: int)" "0 < (sz + 15) AND NOT (15 :: int)"
proof -
  have "x AND NOT (mask 4) = push_bit 4 (drop_bit 4 x)" for x :: int
    by (rule bit_eqI) (auto simp: bit_simps)
  then have "(sz + 15) AND NOT 15 = (sz + 15) div 16 * 16"
    by (simp add: mask_eq_exp_minus_1 push_bit_eq_mult drop_bit_eq_div)
  then show "sz \<le> (sz + 15) AND NOT 15" "16 dvd (sz + 15) AND NOT (15 :: int)" "0 < (sz + 15) AND NOT (15 :: int)"
    using assms by simp_all
qed

lemma successively_cut:
  assumes "coalesced (xs @ b # ys)" "mb_free b" "mb_free c"
  shows "coalesced (xs @ d\<lparr>mb_free := False\<rparr> # c # ys)"
  using assms by (auto simp: coalesced_def successively_append_iff successively_Cons)

lemma alloc_real_spec:
  assumes wf: "real_wf m" and sz: "0 < sz"
  shows "LRMI_alloc_real sz m = (None, m) \<or>
    (\<exists>a m'. LRMI_alloc_real sz m = (Some a, m') \<and> real_wf m' \<and> a \<notin> fst ` real_regions m \<and>
       real_regions m' = insert (a, (sz + 15) AND NOT 15) (real_regions m))"
proof (cases "LRMI_alloc_real sz m = (None, m)")
  case False
  let ?n = "(sz + 15) AND NOT 15"
  note n = round_up_16 [OF sz]
  have len: "length (mi_blocks m) = REAL_MEM_BLOCKS" "mi_count m \<le> REAL_MEM_BLOCKS" "mi_ready m"
    and live: "blocks_ok (live_blocks m)" "coalesced (live_blocks m)" "sizes (live_blocks m) = REAL_MEM_SIZE"
    using wf by (simp_all add: real_wf_def real_blocks_def)
  have count: "mi_count m < REAL_MEM_BLOCKS" using False len by (cases "mi_count m = REAL_MEM_BLOCKS") (auto simp: LRMI_alloc_real_def)
  obtain xs b ys m' where split: "live_blocks m = xs @ b # ys" "mb_free b" "?n < mb_size b"
    and run: "LRMI_alloc_real sz m = (Some (REAL_MEM_BASE + sizes xs), m')"
    and m': "live_blocks m' = xs @ (set_mb_size ?n b)\<lparr>mb_free := False\<rparr> # set_mb_size (mb_size b - ?n) b # ys"
      "mi_count m' = mi_count m + 1" "length (mi_blocks m') = length (mi_blocks m)" "mi_ready m' = mi_ready m"
    using alloc_loop_spec [of 0 m ?n REAL_MEM_BASE] False len count by (auto simp: LRMI_alloc_real_def)
  have blocks: "real_blocks m" using wf by (simp add: real_wf_def)
  note S = sizes_total [OF blocks split(1)]
  have set: "mb_size (set_mb_size ?n b) = ?n" "mb_size (set_mb_size (mb_size b - ?n) b) = mb_size b - ?n"
    "mb_free (set_mb_size (mb_size b - ?n) b)"
  proof -
    have "?n mod 2 ^ 20 = ?n" by (rule mod_size) (use n(3) split(3) S in linarith)+
    moreover have "(mb_size b - ?n) mod 2 ^ 20 = mb_size b - ?n" by (rule mod_size) (use n(3) split(3) S in linarith)+
    ultimately show "mb_size (set_mb_size ?n b) = ?n" "mb_size (set_mb_size (mb_size b - ?n) b) = mb_size b - ?n"
      "mb_free (set_mb_size (mb_size b - ?n) b)"
      using split(2) by (simp_all add: set_mb_size_def)
  qed
  have L: "blocks_ok (live_blocks m')" "sizes (live_blocks m') = REAL_MEM_SIZE"
    using live(1) n split(3) S set by (simp_all add: m' split(1))
  have "coalesced (live_blocks m')"
    using live(2) split(2) set(3) unfolding m' split(1) by (rule successively_cut)
  then have wf': "real_wf m'" using L m'(2-4) len count by (simp add: real_wf_def real_blocks_def)
  have regions: "real_regions m' = insert (REAL_MEM_BASE + sizes xs, ?n) (real_regions m)"
    using split(2) set by (simp add: real_regions_def m'(1) split(1) regions_at_append insert_commute Un_insert_left algebra_simps)
  have "REAL_MEM_BASE + sizes xs \<notin> fst ` real_regions m"
  proof
    assume "REAL_MEM_BASE + sizes xs \<in> fst ` real_regions m"
    then obtain k where "(REAL_MEM_BASE + sizes xs, k) \<in> real_regions m" by auto
    then have "(REAL_MEM_BASE + sizes xs, k) \<in> regions_at REAL_MEM_BASE xs \<union> regions_at (REAL_MEM_BASE + sizes xs + mb_size b) ys"
      using split(2) by (simp add: real_regions_def split(1) regions_at_append add.assoc)
    then show False
      using regions_at_bounds [of xs "REAL_MEM_BASE + sizes xs" k] regions_at_bounds [of ys "REAL_MEM_BASE + sizes xs" k] live(1) S
      by (fastforce simp: split(1))
  qed
  with wf' regions run show ?thesis by blast
qed simp

section \<open>Freeing\<close>

lemma regions_at_start:
  "(a, n) \<in> regions_at r bs \<Longrightarrow> \<exists>j < length bs. a = r + sizes (take j bs)"
proof (induction bs arbitrary: r)
  case (Cons b bs)
  show ?case
  proof (cases "(a, n) \<in> regions_at (r + mb_size b) bs")
    case True
    then obtain j where "j < length bs" "a = r + mb_size b + sizes (take j bs)" using Cons.IH by blast
    then show ?thesis by (intro exI [of _ "Suc j"]) simp
  next
    case False
    then show ?thesis using Cons.prems by (intro exI [of _ 0]) (auto split: if_splits)
  qed
qed simp

lemma find_block_spec:
  assumes "i < mi_count m" "mi_count m \<le> length (mi_blocks m)"
  shows "\<exists>res. find_block a i (r + sizes (take i (live_blocks m))) m = Some res \<and>
    (case res of None \<Rightarrow> \<forall>j. i \<le> j \<and> j < mi_count m \<longrightarrow> a \<noteq> r + sizes (take j (live_blocks m))
     | Some j \<Rightarrow> i \<le> j \<and> j < mi_count m \<and> a = r + sizes (take j (live_blocks m)))"
  using assms(1)
proof (induction "mi_count m - i" arbitrary: i)
  case (Suc n)
  show ?case
  proof (cases "a = r + sizes (take i (live_blocks m))")
    case True
    then show ?thesis using Suc(3) by (subst find_block.simps) simp
  next
    case ne: False
    show ?thesis
    proof (cases "i + 1 = mi_count m")
      case True
      have "a \<noteq> r + sizes (take j (live_blocks m))" if "i \<le> j" "j < mi_count m" for j
      proof -
        have "j = i" using that True by linarith
        then show ?thesis using ne by simp
      qed
      then show ?thesis using True ne by (subst find_block.simps) simp
    next
      case False
      have "sizes (take i (live_blocks m)) + mb_size (mi_blocks m ! i) = sizes (take (i + 1) (live_blocks m))"
        using Suc(3) assms(2) live_nth [OF Suc(3)] by (simp add: take_Suc_conv_app_nth live_blocks_def)
      then have "find_block a i (r + sizes (take i (live_blocks m))) m = find_block a (i + 1) (r + sizes (take (i + 1) (live_blocks m))) m"
        using ne False by (subst find_block.simps) (simp add: add.assoc)
      moreover have "i \<le> j \<and> j < mi_count m \<longleftrightarrow> j = i \<or> i + 1 \<le> j \<and> j < mi_count m" for j using Suc(3) by auto
      moreover have "n = mi_count m - (i + 1)" "i + 1 < mi_count m" using Suc(2,3) False by auto
      ultimately show ?thesis using Suc(1) [of "i + 1"] ne by (fastforce split: option.splits)
    qed
  qed
qed simp

lemma live_merge_next:
  assumes "live_blocks m = xs @ b # c # ys" "length xs = i" "mi_count m \<le> length (mi_blocks m)"
  shows "live_blocks (merge_next i m) = xs @ set_mb_size (mb_size b + mb_size c) b # ys"
    "mi_count (merge_next i m) = mi_count m - 1" "length (mi_blocks (merge_next i m)) = length (mi_blocks m)"
    "mi_ready (merge_next i m) = mi_ready m"
proof -
  have count: "i + 1 < mi_count m" using arg_cong [OF assms(1), of length] assms(2,3) by (simp add: live_blocks_def)
  have nth: "mi_blocks m ! i = b" "mi_blocks m ! Suc i = c"
    using live_nth [of i m] live_nth [of "i + 1" m] count assms(1,2) by (auto simp: nth_append)
  let ?m = "m\<lparr>mi_blocks := (mi_blocks m)[i := set_mb_size (mb_size b + mb_size c) b]\<rparr>"
  have "live_blocks ?m = xs @ set_mb_size (mb_size b + mb_size c) b # c # ys"
    using assms(1,2) by (simp add: live_update list_update_append)
  then show "live_blocks (merge_next i m) = xs @ set_mb_size (mb_size b + mb_size c) b # ys"
    using live_delete_block(1) [of "i + 1" ?m] count assms(2,3) by (simp add: merge_next_def nth)
  show "length (mi_blocks (merge_next i m)) = length (mi_blocks m)"
    using live_delete_block(2) [of "i + 1" ?m] count assms(3) by (simp add: merge_next_def nth)
  show "mi_count (merge_next i m) = mi_count m - 1" "mi_ready (merge_next i m) = mi_ready m"
    by (simp_all add: merge_next_def delete_block_def Let_def)
qed

lemma coalesced_around:
  "coalesced xs \<Longrightarrow> coalesced ys \<Longrightarrow> xs = [] \<or> \<not> mb_free (last xs) \<Longrightarrow> ys = [] \<or> \<not> mb_free (hd ys) \<Longrightarrow> coalesced (xs @ b # ys)"
  by (auto simp: coalesced_def successively_append_iff successively_Cons)

lemma coalescedD: "coalesced (xs @ b # ys) \<Longrightarrow> coalesced xs \<and> coalesced ys \<and>
    (mb_free b \<longrightarrow> (xs = [] \<or> \<not> mb_free (last xs)) \<and> (ys = [] \<or> \<not> mb_free (hd ys)))"
  by (auto simp: coalesced_def successively_append_iff successively_Cons)

text \<open>Merging a free block with a free one behind it.\<close>

lemma merge_two:
  assumes m: "real_blocks m" and L: "live_blocks m = xs @ b # c # ys" "length xs = i" "mb_free b" "mb_free c"
  obtains d where "real_blocks (merge_next i m)" "live_blocks (merge_next i m) = xs @ d # ys" "mb_free d"
    "real_regions (merge_next i m) = real_regions m" "mi_count (merge_next i m) = mi_count m - 1"
proof -
  let ?d = "set_mb_size (mb_size b + mb_size c) b"
  have m': "mi_ready m" "length (mi_blocks m) = REAL_MEM_BLOCKS" "mi_count m \<le> REAL_MEM_BLOCKS" "blocks_ok (live_blocks m)"
    "sizes (live_blocks m) = REAL_MEM_SIZE"
    using m by (simp_all add: real_blocks_def)
  note M = live_merge_next [OF L(1,2)]
  have count: "2 \<le> mi_count m" using arg_cong [OF L(1), of length] m' by (simp add: live_blocks_def)
  have "(mb_size b + mb_size c) mod 2 ^ 20 = mb_size b + mb_size c"
    using m'(4,5) sizes_nonneg [of xs] sizes_nonneg [of ys] by (intro mod_size) (auto simp: L(1))
  then have d: "mb_size ?d = mb_size b + mb_size c" "mb_free ?d" using L(3) by (simp_all add: set_mb_size_def)
  have "real_blocks (merge_next i m)"
  proof -
    have "1 \<le> mi_count m - 1" "mi_count m - 1 \<le> REAL_MEM_BLOCKS" using count m'(3) by linarith+
    then show ?thesis using M m' d by (simp add: real_blocks_def L(1))
  qed
  moreover have "real_regions (merge_next i m) = real_regions m"
    using M(1) m' d L(3,4) by (simp add: real_regions_def L(1) regions_at_append algebra_simps)
  ultimately show thesis using that M m' d(2) by simp
qed

lemma merge_forward:
  assumes m: "real_blocks m" and L: "live_blocks m = xs @ b # ys" "length xs = i" "mb_free b" and "coalesced ys"
    and m2: "m2 = (if i + 1 < mi_count m \<and> mb_free (mi_blocks m ! (i + 1)) then merge_next i m else m)"
  obtains d zs where "real_blocks m2" "live_blocks m2 = xs @ d # zs" "mb_free d" "coalesced zs" "zs = [] \<or> \<not> mb_free (hd zs)"
    "real_regions m2 = real_regions m"
proof -
  have n: "length (live_blocks m) = mi_count m" using m by (simp add: live_blocks_def real_blocks_def)
  have next_block: "i + 1 < mi_count m \<longleftrightarrow> ys \<noteq> []" "ys \<noteq> [] \<Longrightarrow> mi_blocks m ! (i + 1) = hd ys"
    using n live_nth [of "i + 1" m] L(2) by (cases ys; simp add: L(1) nth_append)+
  show thesis
  proof (cases "ys \<noteq> [] \<and> mb_free (hd ys)")
    case True
    then obtain c zs where ys: "ys = c # zs" "mb_free c" by (cases ys) auto
    then obtain d where d: "real_blocks (merge_next i m)" "live_blocks (merge_next i m) = xs @ d # zs" "mb_free d"
      "real_regions (merge_next i m) = real_regions m"
      using merge_two [OF m _ L(2,3), of c zs] L(1) by metis
    moreover have "coalesced zs" "zs = [] \<or> \<not> mb_free (hd zs)"
      using coalescedD [of "[]" c zs] assms(5) ys by simp_all
    ultimately show thesis using that [of d zs] True next_block by (simp add: m2)
  next
    case False
    then show thesis using that [of b ys] m L assms(5) next_block by (auto simp: m2)
  qed
qed

lemma merge_backward:
  assumes m: "real_blocks m" and L: "live_blocks m = xs @ b # ys" "length xs = i" "mb_free b"
    and "coalesced xs" "coalesced ys" "ys = [] \<or> \<not> mb_free (hd ys)"
    and m3: "m3 = (if 1 \<le> i \<and> mb_free (mi_blocks m ! (i - 1)) then merge_next (i - 1) m else m)"
  shows "real_wf m3 \<and> real_regions m3 = real_regions m"
proof -
  have n: "length (live_blocks m) = mi_count m" using m by (simp add: live_blocks_def real_blocks_def)
  have prev: "1 \<le> i \<longleftrightarrow> xs \<noteq> []" "xs \<noteq> [] \<Longrightarrow> mi_blocks m ! (i - 1) = last xs"
  proof -
    show "1 \<le> i \<longleftrightarrow> xs \<noteq> []" using L(2) by (cases xs) auto
    assume "xs \<noteq> []"
    then have "i - 1 < length xs" using L(2) by (cases xs) auto
    moreover have "length xs \<le> mi_count m" using n L(1) by simp
    ultimately have "mi_blocks m ! (i - 1) = xs ! (i - 1)" using live_nth [of "i - 1" m] by (simp add: L(1) nth_append)
    then show "mi_blocks m ! (i - 1) = last xs" using \<open>xs \<noteq> []\<close> L(2) by (simp add: last_conv_nth)
  qed
  show ?thesis
  proof (cases "xs \<noteq> [] \<and> mb_free (last xs)")
    case True
    then have xs: "xs = butlast xs @ [last xs]" by simp
    then have "live_blocks m = butlast xs @ last xs # b # ys" using L(1) by (metis append.assoc append_Cons append_Nil)
    then obtain d where d: "real_blocks (merge_next (i - 1) m)" "live_blocks (merge_next (i - 1) m) = butlast xs @ d # ys" "mb_free d"
      "real_regions (merge_next (i - 1) m) = real_regions m"
      by (rule merge_two [OF m]) (use L(2,3) True in auto)
    moreover have "coalesced (butlast xs)" "butlast xs = [] \<or> \<not> mb_free (last (butlast xs))"
      using coalescedD [of "butlast xs" "last xs" "[]"] assms(5) xs True by simp_all
    ultimately show ?thesis
      using True prev coalesced_around [of "butlast xs" ys d] assms(6,7) by (simp add: m3 real_wf_def)
  next
    case False
    then show ?thesis using m L assms(5-7) prev coalesced_around [of xs ys b] by (auto simp: m3 real_wf_def)
  qed
qed

lemma free_real_spec:
  assumes wf: "real_wf m"
  shows "\<exists>m'. LRMI_free_real a m = Some m' \<and> real_wf m' \<and> real_regions m' = {r \<in> real_regions m. fst r \<noteq> a}"
proof -
  have m: "real_blocks m" "coalesced (live_blocks m)" using wf by (simp_all add: real_wf_def)
  then have m': "mi_ready m" "length (mi_blocks m) = REAL_MEM_BLOCKS" "0 < mi_count m" "mi_count m \<le> REAL_MEM_BLOCKS" "blocks_ok (live_blocks m)"
    by (simp_all add: real_blocks_def)
  obtain res where res: "find_block a 0 REAL_MEM_BASE m = Some res"
    "case res of None \<Rightarrow> \<forall>j. j < mi_count m \<longrightarrow> a \<noteq> REAL_MEM_BASE + sizes (take j (live_blocks m))
     | Some j \<Rightarrow> j < mi_count m \<and> a = REAL_MEM_BASE + sizes (take j (live_blocks m))"
    using find_block_spec [of 0 m a REAL_MEM_BASE] m' by (auto split: option.splits)
  show ?thesis
  proof (cases res)
    case None
    have "a \<noteq> fst r" if "r \<in> real_regions m" for r
      using that regions_at_start [of "fst r" "snd r" REAL_MEM_BASE "live_blocks m"] res(2) None m'
      by (auto simp: real_regions_def live_blocks_def)
    then have "real_regions m = {r \<in> real_regions m. fst r \<noteq> a}" by auto
    then show ?thesis using None res(1) wf m' by (auto simp: LRMI_free_real_def)
  next
    case (Some i)
    then have i: "i < mi_count m" and a: "a = REAL_MEM_BASE + sizes (take i (live_blocks m))" using res(2) by simp_all
    define xs b ys where "xs = take i (live_blocks m)" and "b = mi_blocks m ! i" and "ys = drop (Suc i) (live_blocks m)"
    have a: "a = REAL_MEM_BASE + sizes xs" using a by (simp only: xs_def)
    have L: "live_blocks m = xs @ b # ys" "length xs = i"
      using live_split [OF i] m' i by (simp_all add: xs_def b_def ys_def live_blocks_def)
    let ?m = "m\<lparr>mi_blocks := (mi_blocks m)[i := b\<lparr>mb_free := True\<rparr>]\<rparr>"
    have L1: "live_blocks ?m = xs @ b\<lparr>mb_free := True\<rparr> # ys" using L by (simp add: live_update list_update_append)
    have m1: "real_blocks ?m" using m(1) unfolding real_blocks_def L1 L(1) by simp
    note S = sizes_total [OF m(1) L(1)]
    have "fst r \<noteq> a" if "r \<in> regions_at REAL_MEM_BASE xs" for r
      using that regions_at_bounds [of xs "fst r" "snd r" REAL_MEM_BASE] m' by (simp add: L(1) a)
    moreover have "fst r \<noteq> a" if "r \<in> regions_at (REAL_MEM_BASE + sizes xs + mb_size b) ys" for r
      using that regions_at_bounds [of ys "fst r" "snd r" "REAL_MEM_BASE + sizes xs + mb_size b"] m' S by (simp add: L(1) a)
    ultimately have r1: "real_regions ?m = {r \<in> real_regions m. fst r \<noteq> a}"
      unfolding real_regions_def L1 L(1) regions_at_append by (auto simp: a)
    have co: "coalesced xs" "coalesced ys" using coalescedD m(2) unfolding L(1) by blast+
    define m2 where "m2 = (if i + 1 < mi_count ?m \<and> mb_free (mi_blocks ?m ! (i + 1)) then merge_next i ?m else ?m)"
    define m3 where "m3 = (if 1 \<le> i \<and> mb_free (mi_blocks m2 ! (i - 1)) then merge_next (i - 1) m2 else m2)"
    obtain d zs where 2: "real_blocks m2" "live_blocks m2 = xs @ d # zs" "mb_free d" "coalesced zs" "zs = [] \<or> \<not> mb_free (hd zs)"
      "real_regions m2 = real_regions ?m"
      by (rule merge_forward [OF m1 L1 L(2) _ co(2) m2_def]) auto
    have 3: "real_wf m3 \<and> real_regions m3 = real_regions m2"
      by (rule merge_backward [OF 2(1,2) L(2) 2(3) co(1) 2(4,5) m3_def])
    have "LRMI_free_real a m = Some m3"
      using res(1) Some m'(1) by (simp only: LRMI_free_real_def m3_def m2_def b_def Let_def option.case not_True_eq_False if_False simp_thms)
    then show ?thesis using 2(6) 3 r1 by simp
  qed
qed

section \<open>The interface\<close>

definition real_covers :: "int \<times> int \<Rightarrow> nat set" where
  "real_covers r = {nat (fst r)..<nat (fst r + snd r)}"

interpretation real: allocator "\<lambda>n m. Some (LRMI_alloc_real n m)" LRMI_free_real real_wf real_regions real_covers "\<lambda>n. 0 < n"
proof unfold_locales
  show "Some (LRMI_alloc_real n m) = Some (None, m) \<or> (\<exists>a l m'. Some (LRMI_alloc_real n m) = Some (Some a, m') \<and> real_wf m' \<and>
      a \<notin> fst ` real_regions m \<and> real_regions m' = insert (a, l) (real_regions m))" if "real_wf m" "0 < n" for m n
    using alloc_real_spec [OF that] by auto
  show "\<exists>m'. LRMI_free_real a m = Some m' \<and> real_wf m' \<and> real_regions m' = {r \<in> real_regions m. fst r \<noteq> a}" if "real_wf m" for m a
    by (rule free_real_spec [OF that])
  show "real_covers r \<inter> real_covers s = {}" if "real_wf m" "r \<in> real_regions m" "s \<in> real_regions m" "r \<noteq> s" for m r s
  proof -
    have ok: "blocks_ok (live_blocks m)" using that(1) by (simp add: real_wf_def real_blocks_def)
    have "fst r + snd r \<le> fst s \<or> fst s + snd s \<le> fst r"
      using regions_at_disjoint [OF ok, of "fst r" "snd r" REAL_MEM_BASE "fst s" "snd s"] that(2-4)
      by (simp add: real_regions_def prod_eq_iff)
    then show ?thesis by (auto simp: real_covers_def)
  qed
qed

text \<open>All that \<open>vbetool\<close> does with this memory: a sequence of requests.\<close>

datatype request = Alloc int | Free int

fun serve :: "request list \<Rightarrow> mem_info \<Rightarrow> mem_info option" where
  "serve [] m = Some m"
| "serve (Alloc n # rs) m = serve rs (snd (LRMI_alloc_real n m))"
| "serve (Free a # rs) m = Option.bind (LRMI_free_real a m) (serve rs)"

lemma real_mem_init_wf:
  assumes "\<not> mi_ready m" "length (mi_blocks m) = REAL_MEM_BLOCKS"
  shows "\<exists>m'. real_mem_init True m = (True, m') \<and> real_wf m' \<and> real_regions m' = {}"
proof -
  obtain b bs where "mi_blocks m = b # bs" using assms(2) by (cases "mi_blocks m") (auto simp: REAL_MEM_BLOCKS_def)
  then show ?thesis
    using assms by (simp add: real_mem_init_def real_wf_def real_blocks_def live_blocks_def REAL_MEM_SIZE_def REAL_MEM_BLOCKS_def
        coalesced_def real_regions_def)
qed

lemma failed_init_unmaps:
  assumes "LRMI_common_init z me iv ro m maps = (False, m', maps')" "\<not> mi_ready m" "(REAL_MEM_BASE, REAL_MEM_SIZE) \<notin> maps" "(0, 0x502) \<notin> maps"
  shows "\<not> mi_ready m' \<and> maps' = maps"
  using assms by (auto simp: LRMI_common_init_def real_mem_init_def real_mem_deinit_def REAL_MEM_BASE_def Let_def split: if_splits)

lemma serve_wf:
  assumes "real_wf m" "\<forall>n. Alloc n \<in> set rs \<longrightarrow> 0 < n"
  shows "\<exists>m'. serve rs m = Some m' \<and> real_wf m'"
  using assms
proof (induction rs arbitrary: m)
  case (Cons x rs)
  show ?case
  proof (cases x)
    case (Alloc n)
    then have "0 < n" using Cons.prems(2) by simp
    then have "real_wf (snd (LRMI_alloc_real n m))" using alloc_real_spec [OF Cons.prems(1), of n] Cons.prems(1) by auto
    then show ?thesis using Cons.IH Cons.prems(2) Alloc by simp
  next
    case (Free a)
    then show ?thesis using free_real_spec [OF Cons.prems(1), of a] Cons.IH Cons.prems(2) by auto
  qed
qed simp

lemma all_free_one:
  assumes "coalesced bs" "\<forall>b\<in>set bs. mb_free b" "bs \<noteq> []"
  shows "length bs = 1"
  using assms by (cases bs; cases "tl bs") (auto simp: coalesced_def successively_Cons)

lemma regions_at_empty: "regions_at r bs = {} \<Longrightarrow> \<forall>b\<in>set bs. mb_free b"
  by (induction bs arbitrary: r) (auto split: if_splits)

section \<open>Properties\<close>

text \<open>
  C16: What \<open>LRMI_alloc_real\<close> hands out to \<open>vbetool\<close> is safe to use. The region starts at a multiple of 16, as a
  real mode segment has to, it lies in the real mode memory, it is at least as long as asked for, and no
  region that is in force overlaps it.
\<close>

theorem real_alloc_safe:
  assumes "real_wf m" "0 < n" "LRMI_alloc_real n m = (Some a, m')"
  shows "real_wf m' \<and> 16 dvd a \<and> REAL_MEM_BASE \<le> a \<and> a + n \<le> REAL_MEM_BASE + REAL_MEM_SIZE \<and>
    (\<exists>l. n \<le> l \<and> (a, l) \<in> real_regions m' \<and> (\<forall>r\<in>real_regions m. real_covers (a, l) \<inter> real_covers r = {}))"
proof -
  obtain l where m': "real_wf m'" "real_regions m' = insert (a, l) (real_regions m)" and l: "n \<le> l"
    using alloc_real_spec [OF assms(1,2)] assms(3) round_up_16(1) [OF assms(2)] by auto
  then have in_regions: "(a, l) \<in> regions_at REAL_MEM_BASE (live_blocks m')" by (auto simp: real_regions_def)
  have ok: "blocks_ok (live_blocks m')" "sizes (live_blocks m') = REAL_MEM_SIZE"
    using m'(1) by (simp_all add: real_wf_def real_blocks_def)
  have "16 dvd a" using regions_at_aligned [OF ok(1) in_regions] by (simp add: REAL_MEM_BASE_def)
  moreover have "REAL_MEM_BASE \<le> a" "a + l \<le> REAL_MEM_BASE + REAL_MEM_SIZE"
    using regions_at_bounds [OF ok(1) in_regions] ok(2) by simp_all
  moreover have "real_covers (a, l) \<inter> real_covers r = {}" if "r \<in> real_regions m" for r
    using real.alloc_fresh [OF assms(1,2) _ that, of a m' l] assms(3) m'(2) by simp
  ultimately show ?thesis using m' l by (intro conjI exI [of _ l]) auto
qed

definition fresh_real :: mem_info where
  "fresh_real = \<lparr>mi_ready = False, mi_count = 0, mi_blocks = replicate REAL_MEM_BLOCKS \<lparr>mb_size = 0, mb_free = False\<rparr>\<rparr>"

definition started_real :: mem_info where "started_real = snd (real_mem_init True fresh_real)"

lemma started_real: "real_wf started_real" "real_regions started_real = {}"
  using real_mem_init_wf [of fresh_real] by (auto simp: started_real_def fresh_real_def)

lemma started_alloc: "LRMI_alloc_real 100 started_real = (Some 0x10000, snd (LRMI_alloc_real 100 started_real))"
proof -
  have "fst (LRMI_alloc_real 100 started_real) = Some 0x10000"
    by (simp add: LRMI_alloc_real_def started_real_def real_mem_init_def fresh_real_def alloc_loop.simps REAL_MEM_BLOCKS_def
        REAL_MEM_BASE_def REAL_MEM_SIZE_def Let_def)
  then show ?thesis by (metis prod.collapse)
qed

lemma real_alloc_safe_witness:
  "\<exists>l. 100 \<le> l \<and> (0x10000, l) \<in> real_regions (snd (LRMI_alloc_real 100 started_real))"
  using real_alloc_safe [OF started_real(1) _ started_alloc] by auto

text \<open>
  C17: Real mode memory does not get lost or fragmented for good. After any sequence of requests, granted or
  not, in any order, with addresses that were never handed out among those freed, every call has returned; and
  as soon as nothing is allocated the whole region is one free block again.
\<close>

theorem real_memory_coalesces:
  assumes "\<not> mi_ready m" "length (mi_blocks m) = REAL_MEM_BLOCKS" "\<forall>n. Alloc n \<in> set rs \<longrightarrow> 0 < n"
  shows "\<exists>m'. serve rs (snd (real_mem_init True m)) = Some m' \<and>
    (real_regions m' = {} \<longrightarrow> live_blocks m' = [\<lparr>mb_size = REAL_MEM_SIZE, mb_free = True\<rparr>])"
proof -
  obtain m0 where "real_mem_init True m = (True, m0)" "real_wf m0" using real_mem_init_wf [OF assms(1,2)] by blast
  then obtain m' where m': "serve rs (snd (real_mem_init True m)) = Some m'" "real_wf m'"
    using serve_wf [OF _ assms(3), of m0] by auto
  have "live_blocks m' = [\<lparr>mb_size = REAL_MEM_SIZE, mb_free = True\<rparr>]" if "real_regions m' = {}"
  proof -
    have free: "\<forall>b\<in>set (live_blocks m'). mb_free b" using that by (auto simp: real_regions_def dest: regions_at_empty)
    have "live_blocks m' \<noteq> []" using m'(2) by (auto simp: real_wf_def real_blocks_def REAL_MEM_SIZE_def)
    then have "length (live_blocks m') = 1" using all_free_one free m'(2) by (simp add: real_wf_def)
    then obtain b where b: "live_blocks m' = [b]" by (auto simp: length_Suc_conv)
    then show ?thesis using m'(2) free by (simp add: real_wf_def real_blocks_def)
  qed
  with m'(1) show ?thesis by blast
qed

text \<open>A region is handed out and released.\<close>

lemma real_memory_coalesces_witness:
  "\<exists>m. serve [Alloc 100, Free 0x10000] started_real = Some m \<and> live_blocks m = [\<lparr>mb_size = REAL_MEM_SIZE, mb_free = True\<rparr>]"
proof -
  obtain l where a: "real_wf (snd (LRMI_alloc_real 100 started_real))" "real_regions (snd (LRMI_alloc_real 100 started_real)) = {(0x10000, l)}"
    using alloc_real_spec [OF started_real(1), of 100] started_alloc started_real(2) by auto
  obtain m where m: "LRMI_free_real 0x10000 (snd (LRMI_alloc_real 100 started_real)) = Some m" "real_regions m = {}"
    using free_real_spec [OF a(1), of "0x10000"] a(2) by auto
  have "serve [Alloc 100, Free 0x10000] started_real = Some m" using m(1) by simp
  with real_memory_coalesces [of fresh_real "[Alloc 100, Free 0x10000]"] m(2) show ?thesis
    by (simp add: started_real_def fresh_real_def)
qed

end
