(* ===== verification/Vbetool.thy ===== *)
theory Vbetool
  imports Lrmi S2ram
begin

text \<open>
  \<open>vbetool.c\<close>: video BIOS calls in real mode, as a program of its own and for \<open>s2ram\<close>, which saves and restores
  the state of the graphics card with it. The interpreter of real mode code (libx86) is a parameter.
\<close>

section \<open>The interface of libx86\<close>

record LRMI_regs =
  edi :: u32
  esi :: u32
  ebp :: u32
  reserved :: u32
  ebx :: u32
  edx :: u32
  ecx :: u32
  eax :: u32
  flags :: u16
  es :: u16
  ds :: u16
  fs :: u16
  gs :: u16
  ip :: u16
  cs :: u16
  sp :: u16
  ss :: u16

definition no_regs :: LRMI_regs where
  "no_regs = \<lparr>edi = 0, esi = 0, ebp = 0, reserved = 0, ebx = 0, edx = 0, ecx = 0, eax = 0, flags = 0, es = 0, ds = 0,
     fs = 0, gs = 0, ip = 0, cs = 0, sp = 0, ss = 0\<rparr>"

text \<open>Addresses are those of the process; \<open>lr_load\<close> and \<open>lr_store\<close> access the real mode memory.\<close>

record 'w bios =
  lr_init :: "'w \<Rightarrow> bool \<times> 'w"
  lr_int :: "nat \<Rightarrow> LRMI_regs \<Rightarrow> 'w \<Rightarrow> (bool \<times> LRMI_regs) \<times> 'w"
  lr_call :: "LRMI_regs \<Rightarrow> 'w \<Rightarrow> (bool \<times> LRMI_regs) \<times> 'w"
  lr_alloc :: "int \<Rightarrow> 'w \<Rightarrow> int option \<times> 'w"
  lr_free :: "int \<Rightarrow> 'w \<Rightarrow> 'w"
  lr_base :: int
  lr_load :: "int \<Rightarrow> nat \<Rightarrow> 'w \<Rightarrow> byte list"
  lr_store :: "int \<Rightarrow> byte list \<Rightarrow> 'w \<Rightarrow> 'w"
  io_inb :: "u16 \<Rightarrow> 'w \<Rightarrow> byte \<times> 'w"
  io_outb :: "byte \<Rightarrow> u16 \<Rightarrow> 'w \<Rightarrow> 'w"
  io_perm :: "'w \<Rightarrow> 'w"                        \<comment> \<open>\<open>ioperm\<close> and \<open>iopl\<close>\<close>
  kd_text :: "'w \<Rightarrow> 'w"                        \<comment> \<open>\<open>ioctl(0, KDSETMODE, KD_TEXT)\<close>\<close>
  io_read :: "nat \<Rightarrow> 'w \<Rightarrow> (int \<times> int \<times> byte list) \<times> 'w"    \<comment> \<open>\<open>read(0, ...)\<close>: result, \<open>errno\<close>, data\<close>
  io_write :: "byte list \<Rightarrow> 'w \<Rightarrow> 'w"
  io_print :: "int list \<Rightarrow> 'w \<Rightarrow> 'w"

text \<open>\<open>None\<close>: \<open>exit(1)\<close>.\<close>

definition vbetool_setup :: "'w bios \<Rightarrow> 'w machine \<Rightarrow> 'w \<Rightarrow> 'w option" where
  "vbetool_setup B M w =
     (let (ok, w) = lr_init B w in if \<not> ok then None else Some (pci_alloc M (io_perm B w)))"

section \<open>Calls\<close>

text \<open>The result is the register \<open>ebx\<close> as an \<open>int\<close>, or a negative error.\<close>

definition do_vbe_service :: "'w bios \<Rightarrow> u32 \<Rightarrow> u32 \<Rightarrow> LRMI_regs \<Rightarrow> 'w \<Rightarrow> int \<times> LRMI_regs \<times> 'w" where
  "do_vbe_service B AX BX regs w =
     (let regs = regs\<lparr>ds := 0x0040, eax := AX, ebx := BX\<rparr>;
          ((ok, regs), w) = lr_int B 0x10 regs w
      in if \<not> ok then (- 1, regs, w)
         else let function_sup = (eax regs AND 0xff = 0x4f); success = (eax regs AND 0xff00 = 0)
              in if \<not> success then (- 2, regs, w)
                 else if \<not> function_sup then (- 3, regs, w)
                 else (sint (ebx regs), regs, w))"

definition do_set_mode :: "'w bios \<Rightarrow> int \<Rightarrow> bool \<Rightarrow> 'w \<Rightarrow> int \<times> 'w" where
  "do_set_mode B mode vga w =
     (let (error, regs, w) = (if vga then do_vbe_service B (word_of_int mode) 0 no_regs w
                              else do_vbe_service B 0x4f02 (word_of_int mode) no_regs w)
      in (if error < 0 then error else 0, w))"

definition get_mode :: "'w bios \<Rightarrow> 'w \<Rightarrow> int \<times> 'w" where
  "get_mode B w = (let (error, regs, w) = do_vbe_service B 0x4f03 0 no_regs w in (error, w))"

definition do_get_mode :: "'w bios \<Rightarrow> 'w \<Rightarrow> int \<times> 'w" where
  "do_get_mode B w = (let (error, w) = get_mode B w in if error < 0 then (error, w) else (0, io_print B [error] w))"

definition do_blank :: "'w bios \<Rightarrow> u32 \<Rightarrow> 'w \<Rightarrow> int \<times> 'w" where
  "do_blank B state w =
     (let (error, regs, w) = do_vbe_service B 0x4f10 (state OR 0x01) no_regs w in (if error < 0 then error else 0, w))"

definition do_get_panel_brightness :: "'w bios \<Rightarrow> 'w \<Rightarrow> int \<times> 'w" where
  "do_get_panel_brightness B w =
     (let (error, regs, w) = do_vbe_service B 0x4f11 0x05 no_regs w
      in if error < 0 then (error, w) else (0, io_print B [sint (ecx regs)] w))"

definition do_set_panel_brightness :: "'w bios \<Rightarrow> int \<Rightarrow> 'w \<Rightarrow> int \<times> 'w" where
  "do_set_panel_brightness B brightness w =
     (let (error, regs, w) = do_vbe_service B 0x4f11 0x0105 (no_regs\<lparr>ecx := word_of_int brightness\<rparr>) w
      in if error < 0 then (error, w) else (0, io_print B [sint (ecx regs)] w))"

definition do_invert_panel :: "'w bios \<Rightarrow> 'w \<Rightarrow> int \<times> 'w" where
  "do_invert_panel B w =
     (let (error, regs, w) = do_vbe_service B 0x4f11 0x02 no_regs w
      in if error < 0 then (error, w)
         else let regs = regs\<lparr>ecx := (if ebx regs AND 0xff = 0 then 3 else 0)\<rparr>;
                  (error, regs, w) = do_vbe_service B 0x4f11 0x0102 regs w
              in (if error < 0 then error else 0, w))"

definition do_real_post :: "'w bios \<Rightarrow> u32 \<Rightarrow> 'w \<Rightarrow> int \<times> 'w" where
  "do_real_post B pci_device w =
     (let r = no_regs\<lparr>eax := pci_device, cs := 0xc000, ip := 0x0003, edx := 0x80, ds := 0x0040\<rparr>;
          ((ok, r), w) = lr_call B r w
      in (if ok then 0 else 1, w))"

text \<open>\<open>pci_id\<close> is the number made of bus, device and function.\<close>

fun post_devices :: "'w bios \<Rightarrow> 'w machine \<Rightarrow> (pci_dev \<Rightarrow> u32) \<Rightarrow> pci_dev list \<Rightarrow> 'w \<Rightarrow> int \<times> 'w" where
  "post_devices B M pci_id [] w = (0, w)"
| "post_devices B M pci_id (p # ps) w =
     (let (c, w) = pci_class M p w
      in if c = 0x300 then
           (let (error, w) = do_real_post B (pci_id p) w
            in if error \<noteq> 0 then (error, w) else post_devices B M pci_id ps w)
         else post_devices B M pci_id ps w)"

definition do_post :: "'w bios \<Rightarrow> 'w machine \<Rightarrow> (pci_dev \<Rightarrow> u32) \<Rightarrow> 'w \<Rightarrow> int \<times> 'w" where
  "do_post B M pci_id w = (let (ps, w) = pci_scan_bus M w in post_devices B M pci_id ps w)"

section \<open>The state of the card\<close>

text \<open>\<open>es\<close> and \<open>ebx\<close> for a buffer at \<open>a\<close>.\<close>

definition real_segment :: "'w bios \<Rightarrow> int \<Rightarrow> u16" where
  "real_segment B a = ucast (drop_bit 4 (word_of_int (a - lr_base B) :: u32))"

definition real_offset :: "'w bios \<Rightarrow> int \<Rightarrow> u32" where
  "real_offset B a = word_of_int (a - lr_base B) AND 0xf"

text \<open>\<open>__save_state\<close>: the buffer and its size. Only the allocation is acted upon; the errors are printed.\<close>

definition save_state_buffer :: "'w bios \<Rightarrow> 'w \<Rightarrow> (int option \<times> nat) \<times> 'w" where
  "save_state_buffer B w =
     (let ((ok, r), w) = lr_int B 0x10 (no_regs\<lparr>eax := 0x4f04, ecx := 0xf, edx := 0, ds := 0x0040\<rparr>) w;
          size = unat (ebx r AND 0xffff) * 64;
          (buffer, w) = lr_alloc B (int size) w
      in case buffer of
           None \<Rightarrow> ((None, size), w)
         | Some a \<Rightarrow>
             (let ((ok, r), w) = lr_int B 0x10 (no_regs\<lparr>eax := 0x4f04, ecx := 0xf, edx := 1, es := real_segment B a,
                                                  ebx := real_offset B a, ds := 0x0040\<rparr>) w
              in ((Some a, size), w)))"

definition restore_state_from :: "'w bios \<Rightarrow> int \<Rightarrow> 'w \<Rightarrow> 'w" where
  "restore_state_from B a w =
     (let (error, w) = do_set_mode B 3 True w;
          ((ok, r), w) = lr_int B 0x10 (no_regs\<lparr>eax := 0x4f04, ecx := 0xf, edx := 2, es := real_segment B a,
                                           ebx := real_offset B a, ds := 0x0040\<rparr>) w
      in kd_text B (lr_free B a w))"

definition save_state :: "'w bios \<Rightarrow> 'w \<Rightarrow> 'w" where
  "save_state B w =
     (let ((buffer, size), w) = save_state_buffer B w
      in case buffer of None \<Rightarrow> w | Some a \<Rightarrow> io_write B (lr_load B a size w) w)"

abbreviation (input) EAGAIN :: int where "EAGAIN \<equiv> 11"

text \<open>The loop that reads the state from the standard input: \<open>None\<close> if it does not end, \<open>Inl\<close> for an error.\<close>

definition STATE_BUFFER :: nat where "STATE_BUFFER = 524288"

partial_function (option) read_state :: "'w bios \<Rightarrow> byte list \<Rightarrow> 'w \<Rightarrow> ((unit + byte list) \<times> 'w) option" where
  "read_state B got w =
     (let ((i, errno, bs), w) = io_read B (STATE_BUFFER - length got) w
      in if i = 0 then Some (Inr got, w)
         else if i = - 1 then (if errno \<noteq> EAGAIN \<and> errno \<noteq> EINTR then Some (Inl (), w) else read_state B got w)
         else read_state B (got @ take (nat i) bs) w)"

text \<open>\<open>None\<close> also for the \<open>memcpy\<close> to \<open>NULL\<close> when the real mode memory is exhausted.\<close>

definition restore_state :: "'w bios \<Rightarrow> 'w \<Rightarrow> 'w option" where
  "restore_state B w = do {
     (data, w) \<leftarrow> read_state B [] w;
     case data of Inl _ \<Rightarrow> Some w
     | Inr bs \<Rightarrow>
         (let (buffer, w) = lr_alloc B (int (length bs)) w
          in case buffer of None \<Rightarrow> (if bs = [] then Some (restore_state_from B 0 w) else None)
             | Some a \<Rightarrow> Some (restore_state_from B a (lr_store B a bs w)))
   }"

section \<open>Ports and panels\<close>

fun port_bits :: "'w bios \<Rightarrow> (byte \<Rightarrow> byte \<Rightarrow> byte) \<Rightarrow> (byte \<times> u16 \<times> u16) list \<Rightarrow> 'w \<Rightarrow> 'w" where
  "port_bits B f [] w = w"
| "port_bits B f ((bits, src, dst) # ps) w = (let (v, w) = io_inb B src w in port_bits B f ps (io_outb B (f bits v) dst w))"

definition vga_ports :: "(byte \<times> u16 \<times> u16) list" where
  "vga_ports = [(0x03, 0x3CC, 0x3C2), (0x01, 0x3C3, 0x3C3), (0x08, 0x46e8, 0x46e8), (0x01, 0x102, 0x102)]"

definition enable_vga :: "'w bios \<Rightarrow> 'w \<Rightarrow> int \<times> 'w" where
  "enable_vga B w = (0, port_bits B (\<lambda>bits v. bits OR v) vga_ports w)"

definition disable_vga :: "'w bios \<Rightarrow> 'w \<Rightarrow> int \<times> 'w" where
  "disable_vga B w = (0, port_bits B (\<lambda>bits v. NOT bits AND v) vga_ports w)"

text \<open>The first \<open>return\<close> of \<open>check_console\<close> leaves the rest of it unused.\<close>

definition check_console :: int where "check_console = 0"

text \<open>
  \<open>id - LRMI_base_addr()\<close> subtracts from a pointer to structures of 32 bytes. \<open>None\<close>: \<open>id\<close> is \<open>NULL\<close> and read.
\<close>

definition do_get_panel_id :: "'w bios \<Rightarrow> bool \<Rightarrow> 'w \<Rightarrow> (int \<times> 'w) option" where
  "do_get_panel_id B just_dimensions w =
     (let (mem, w) = lr_alloc B 32 w;
          p = (case mem of None \<Rightarrow> 0 | Some a \<Rightarrow> a) - 32 * lr_base B;
          r = no_regs\<lparr>eax := 0x4f11, ebx := 0x0001, es := word_of_int (p div 16), edi := word_of_int p AND 0xf\<rparr>;
          ((ok, r), w) = lr_int B 0x10 r w
      in if \<not> ok then Some (8, w)
         else if eax r AND 0xff \<noteq> 0x4f then Some (9, w)
         else if eax r AND 0xff00 \<noteq> 0 then Some (10, w)
         else case mem of None \<Rightarrow> None
              | Some a \<Rightarrow>
                  (let bs = lr_load B a 32 w;
                       short = (\<lambda>i. sint (le_word (take 2 (drop i bs)) :: u16));
                       tiny = (\<lambda>i. sint (bs ! i))
                   in Some (0, io_print B (if just_dimensions then [short 0, short 2]
                                           else [short 0, short 2, short 4, tiny 6, tiny 7, tiny 8, tiny 9]) w)))"

section \<open>The program\<close>

definition DPMS_STATE_ON :: u32 where "DPMS_STATE_ON = 0x0000"
definition DPMS_STATE_STANDBY :: u32 where "DPMS_STATE_STANDBY = 0x0100"
definition DPMS_STATE_SUSPEND :: u32 where "DPMS_STATE_SUSPEND = 0x0200"
definition DPMS_STATE_OFF :: u32 where "DPMS_STATE_OFF = 0x0400"
definition DPMS_STATE_LOW :: u32 where "DPMS_STATE_LOW = 0x0800"

definition argument :: "nat \<Rightarrow> string list \<Rightarrow> string option" where
  "argument n argv = (if n < length argv then Some (argv ! n) else None)"

text \<open>The exit status. \<open>None\<close> where the program crashes: every command compares \<open>argv[2]\<close>, given or not.\<close>

definition vbetool :: "'w bios \<Rightarrow> 'w machine \<Rightarrow> (pci_dev \<Rightarrow> u32) \<Rightarrow> string list \<Rightarrow> 'w \<Rightarrow> (int \<times> 'w) option" where
  "vbetool B M pci_id argv w =
     (if length argv < 2 then Some (1, w)
      else case vbetool_setup B M w of None \<Rightarrow> Some (1, snd (lr_init B w))
      | Some w \<Rightarrow>
        (let c = argv ! 1
         in if c = ''vbestate'' then do {
              s \<leftarrow> argument 2 argv;
              if s = ''save'' then Some (0, save_state B w)
              else if s = ''restore'' then do { w \<leftarrow> restore_state B w; Some (0, w) }
              else Some (1, w)
            }
            else if c = ''dpms'' then do {
              s \<leftarrow> argument 2 argv;
              if s = ''on'' then Some (do_blank B DPMS_STATE_ON w)
              else if s = ''suspend'' then Some (do_blank B DPMS_STATE_SUSPEND w)
              else if s = ''standby'' then Some (do_blank B DPMS_STATE_STANDBY w)
              else if s = ''off'' then Some (do_blank B DPMS_STATE_OFF w)
              else if s = ''reduced'' then Some (do_blank B DPMS_STATE_LOW w)
              else Some (1, w)
            }
            else if c = ''vbemode'' then do {
              s \<leftarrow> argument 2 argv;
              if s = ''set'' then do { n \<leftarrow> argument 3 argv; Some (do_set_mode B (atoi (map of_char n)) False w) }
              else if s = ''get'' then Some (do_get_mode B w)
              else Some (1, w)
            }
            else if c = ''vgamode'' then do {
              s \<leftarrow> argument 2 argv;
              if s = ''set'' then do { n \<leftarrow> argument 3 argv; Some (do_set_mode B (atoi (map of_char n)) True w) }
              else Some (do_set_mode B (atoi (map of_char s)) True w)
            }
            else if c = ''post'' then Some (do_post B M pci_id w)
            else if c = ''vgastate'' then do {
              s \<leftarrow> argument 2 argv;
              Some (if s = ''on'' then enable_vga B w else disable_vga B w)
            }
            else if c = ''vbefp'' then do {
              s \<leftarrow> argument 2 argv;
              if s = ''id'' \<or> s = ''panelid'' then do_get_panel_id B False w
              else if s = ''panelsize'' then do_get_panel_id B True w
              else if s = ''getbrightness'' then Some (do_get_panel_brightness B w)
              else if s = ''setbrightness'' then do { n \<leftarrow> argument 3 argv; Some (do_set_panel_brightness B (atoi (map of_char n)) w) }
              else if s = ''invert'' then Some (do_invert_panel B w)
              else Some (1, w)
            }
            else Some (1, w)))"

section \<open>Properties\<close>

text \<open>A segment and an offset below 16 reach every address of the first megabyte.\<close>

lemma real_address:
  assumes "0 \<le> a - lr_base B" "a - lr_base B < 2 ^ 20"
  shows "lr_base B + 16 * uint (real_segment B a) + uint (real_offset B a) = a"
proof -
  define x where "x = a - lr_base B"
  have x: "0 \<le> x" "x < 2 ^ 20" using assms by (simp_all add: x_def)
  have u: "uint (word_of_int x :: u32) = x" using x by (simp add: uint_word_of_int)
  have "uint (real_segment B a) = x div 16"
    using x by (simp add: real_segment_def x_def [symmetric] unsigned_ucast_eq drop_bit_eq_div take_bit_eq_mod
        uint_div u)
  moreover have "uint (real_offset B a) = x mod 16"
    using take_bit_eq_mask [of 4 x]
    by (simp add: real_offset_def x_def [symmetric] uint_and u take_bit_eq_mod mask_eq_exp_minus_1)
  ultimately show ?thesis by (simp add: x_def)
qed

text \<open>
  What the VBE standard says of function 4F04: 0 gives the size of the state in units of 64 bytes, 1 stores the
  state of the card at \<open>es:bx\<close> and leaves it, 2 takes it from there. \<open>vs\<close> is the state, \<open>enc\<close> how it is stored. Memory management
  and the switch to text mode leave the state, setting a mode leaves the memory as it is.
\<close>

definition vbe_state_law :: "'w bios \<Rightarrow> ('w \<Rightarrow> 'v) \<Rightarrow> ('v \<Rightarrow> byte list) \<Rightarrow> nat \<Rightarrow> bool" where
  "vbe_state_law B vs enc len \<longleftrightarrow>
     (\<forall>r w. eax r = 0x4f04 \<and> ecx r = 0xf \<and> edx r = 0 \<longrightarrow>
        unat (ebx (snd (fst (lr_int B 0x10 r w))) AND 0xffff) * 64 = len \<and> vs (snd (lr_int B 0x10 r w)) = vs w) \<and>
     (\<forall>r w. eax r = 0x4f04 \<and> ecx r = 0xf \<and> edx r = 1 \<longrightarrow>
        lr_load B (lr_base B + 16 * uint (es r) + uint (ebx r)) len (snd (lr_int B 0x10 r w)) = enc (vs w) \<and>
        vs (snd (lr_int B 0x10 r w)) = vs w) \<and>
     (\<forall>r w v. eax r = 0x4f04 \<and> ecx r = 0xf \<and> edx r = 2 \<longrightarrow>
        lr_load B (lr_base B + 16 * uint (es r) + uint (ebx r)) len w = enc v \<longrightarrow> vs (snd (lr_int B 0x10 r w)) = v) \<and>
     (\<forall>r w a n. eax r = 3 \<longrightarrow> lr_load B a n (snd (lr_int B 0x10 r w)) = lr_load B a n w) \<and>
     (\<forall>n w. vs (snd (lr_alloc B n w)) = vs w) \<and> (\<forall>a w. vs (lr_free B a w) = vs w) \<and> (\<forall>w. vs (kd_text B w) = vs w)"

text \<open>
  The state of the graphics card survives. If the BIOS keeps to the VBE standard and the buffer still holds
  what \<open>__save_state\<close> has put there, \<open>restore_state_from\<close> gives the card the state it had before \<open>__save_state\<close>: the
  segment and offset that the BIOS is given address the buffer, wherever in the first megabyte it lies, and
  setting text mode in between does no harm.
\<close>

lemma vbe_state_restored:
  assumes law: "vbe_state_law B vs enc len" and save: "save_state_buffer B w0 = ((Some a, n), w1)"
    and "0 \<le> a - lr_base B" "a - lr_base B < 2 ^ 20" and kept: "lr_load B a n w2 = lr_load B a n w1"
  shows "vs (restore_state_from B a w2) = vs w0"
proof -
  have es: "lr_base B + 16 * uint (real_segment B a) + uint (real_offset B a) = a"
    using assms by (intro real_address)
  have at_a: "lr_load B a len (snd (lr_int B 0x10 r w)) = enc (vs w)"
    if "eax r = 0x4f04" "ecx r = 0xf" "edx r = 1" "es r = real_segment B a" "ebx r = real_offset B a" for r w
    using law es that unfolding vbe_state_law_def by metis
  have from_a: "vs (snd (lr_int B 0x10 r w)) = v"
    if "eax r = 0x4f04" "ecx r = 0xf" "edx r = 2" "es r = real_segment B a" "ebx r = real_offset B a"
      "lr_load B a len w = enc v" for r w v
    using law es that unfolding vbe_state_law_def by metis
  have n: "n = len" and saved: "lr_load B a len w1 = enc (vs w0)"
    using save law at_a
    by (auto simp: save_state_buffer_def vbe_state_law_def case_prod_beta Let_def split: option.splits)
  have "lr_load B a len (snd (do_set_mode B 3 True w2)) = enc (vs w0)"
    using law kept saved n by (simp add: do_set_mode_def do_vbe_service_def vbe_state_law_def case_prod_beta Let_def)
  moreover have "vs (kd_text B (lr_free B a w)) = vs w" for w
    using law by (simp add: vbe_state_law_def)
  ultimately show ?thesis
    by (simp add: restore_state_from_def case_prod_beta Let_def from_a)
qed

text \<open>A BIOS of one byte of state: the world is the state and the first 64 bytes of the memory.\<close>

definition small_bios :: "(byte \<times> byte list) bios" where
  "small_bios = \<lparr>lr_init = Pair True,
     lr_int = (\<lambda>n r w. if eax r = 0x4f04 \<and> ecx r = 0xf then
         if edx r = 0 then ((True, r\<lparr>ebx := 1\<rparr>), w)
         else if edx r = 1 then ((True, r), (fst w, replicate 64 (fst w)))
         else if edx r = 2 then ((True, r), (if snd w = [] then 0 else hd (snd w), snd w))
         else ((False, r), w)
       else ((True, r), w)),
     lr_call = (\<lambda>r w. ((True, r), w)), lr_alloc = (\<lambda>n. Pair (Some 16)), lr_free = (\<lambda>a w. w), lr_base = 0,
     lr_load = (\<lambda>a n w. snd w), lr_store = (\<lambda>a bs w. (fst w, bs)), io_inb = (\<lambda>p. Pair 0), io_outb = (\<lambda>v p w. w),
     io_perm = (\<lambda>w. w), kd_text = (\<lambda>w. w), io_read = (\<lambda>n. Pair (0, 0, [])), io_write = (\<lambda>bs w. w),
     io_print = (\<lambda>xs w. w)\<rparr>"

lemma small_bios_law: "vbe_state_law small_bios fst (replicate 64) 64"
  by (auto simp: vbe_state_law_def small_bios_def)

lemma small_bios_save: "save_state_buffer small_bios (7, []) = ((Some 16, 64), (7, replicate 64 7))"
  by (simp add: save_state_buffer_def small_bios_def no_regs_def)

lemma vbe_state_restored_witness:
  "fst (restore_state_from small_bios 16 (9, replicate 64 7)) = (7 :: byte)"
  using vbe_state_restored [OF small_bios_law small_bios_save, of "(9, replicate 64 7)"]
  by (simp add: small_bios_def)

end
