(* ===== verification/S2ram_Bios.thy ===== *)
theory S2ram_Bios
  imports Vbetool
begin

text \<open>
  \<open>s2ram\<close> together with the functions of \<open>vbetool.c\<close> it is linked with: the machine of \<open>Machine\<close> whose video BIOS
  calls are those of \<open>Vbetool\<close>. \<open>vbetool_init\<close> ends the program where \<open>LRMI_init\<close> fails; here it has not failed.
\<close>

definition bios_machine :: "'w bios \<Rightarrow> (pci_dev \<Rightarrow> u32) \<Rightarrow> 'w machine \<Rightarrow> 'w machine" where
  "bios_machine B pci_id M = M
     \<lparr>vbetool_init := (\<lambda>w. case vbetool_setup B M w of None \<Rightarrow> w | Some w \<Rightarrow> w),
      vbe_save_state := (\<lambda>w. let ((b, size), w) = save_state_buffer B w in (b, w)),
      vbe_get_mode := get_mode B,
      vbe_do_post := (\<lambda>w. snd (do_post B M pci_id w)),
      vbe_restore_state := restore_state_from B,
      vbe_set_mode := (\<lambda>m w. snd (do_set_mode B m False w))\<rparr>"

text \<open>A part of the world that starting libx86 and running the BIOS of a card leave as it is.\<close>

definition bios_leaves :: "'w bios \<Rightarrow> ('w \<Rightarrow> 'a) \<Rightarrow> bool" where
  "bios_leaves B f \<longleftrightarrow> (\<forall>w. f (snd (lr_init B w)) = f w) \<and> (\<forall>w. f (io_perm B w) = f w) \<and>
     (\<forall>r w. f (snd (lr_call B r w)) = f w)"

lemma bios_machine_awake [simp]: "leaves_awake P (bios_machine B pci_id M) f \<longleftrightarrow> leaves_awake P M f"
  by (simp add: leaves_awake_def bios_machine_def)

lemma bios_machine_alone [simp]: "leaves_alone P (bios_machine B pci_id M) f \<longleftrightarrow> leaves_alone P M f"
  by (simp add: leaves_alone_def) (simp add: bios_machine_def)

lemma bios_machine_pci [simp]: "pci_leaves_alone (bios_machine B pci_id M) f \<longleftrightarrow> pci_leaves_alone M f"
  by (simp add: pci_leaves_alone_def bios_machine_def)

lemma setup_keeps:
  assumes "bios_leaves B f" "pci_leaves_alone M f"
  shows "f (vbetool_init (bios_machine B pci_id M) w) = f w"
  using assms by (simp add: bios_machine_def vbetool_setup_def let_pair bios_leaves_def pci_leaves_alone_def)

lemma do_post_keeps:
  assumes "bios_leaves B f" "pci_leaves_alone M f"
  shows "f (vbe_do_post (bios_machine B pci_id M) w) = f w"
proof -
  have real: "f (snd (do_real_post B n w)) = f w" for n w
    using assms(1) by (simp add: do_real_post_def let_pair bios_leaves_def)
  have "f (snd (post_devices B M pci_id ps w)) = f w" for ps w
    by (induction ps arbitrary: w) (simp_all add: let_pair pci_leaves_aloneD [OF assms(2)] real)
  then show ?thesis by (simp add: bios_machine_def do_post_def let_pair pci_leaves_aloneD [OF assms(2)])
qed

section \<open>Before and after the sleep\<close>

text \<open>What is saved is the card's state of before, and the rest of the hacks leave the buffer.\<close>

lemma bios_hacks:
  assumes law: "vbe_state_law B vs enc len"
    and card: "leaves_awake P M vs" "pci_leaves_alone M vs" "bios_leaves B vs"
    and memory: "leaves_awake P M mem" "pci_leaves_alone M mem"
    and st: "has_quirk st VBE_SAVE" "\<not> has_quirk st VBE_MODE" "\<not> has_quirk st RADEON_OFF"
    and hacks: "s2ram_hacks P (bios_machine B pci_id M) st v = (r, st', v')"
  shows "vs v' = vs v"
    and "r = 0 \<Longrightarrow> \<exists>v0 n v1. save_state_buffer B v0 = ((vbe_buffer st', n), v1) \<and> vs v0 = vs v \<and> mem v' = mem v1"
    and "vbe_mode st' = vbe_mode st" "quirks st' = quirks st"
proof -
  let ?N = "bios_machine B pci_id M"
  define v1 where "v1 = snd (set_acpi_video_mode ?N (quirks st AND (S3_BIOS OR S3_MODE)) v)"
  have v1: "vs v1 = vs v" by (simp add: v1_def set_acpi_video_mode_keeps [of P] card)
  define v2 where "v2 = vbetool_init ?N v1"
  have v2: "vs v2 = vs v" by (simp add: v2_def setup_keeps card v1)
  obtain b n v3 where save: "save_state_buffer B v2 = ((b, n), v3)" by (metis surj_pair)
  have v3: "vs v3 = vs v"
    using save law v2 by (auto simp: save_state_buffer_def vbe_state_law_def let_pair split: option.splits)
  have vbe: "vbe_save_state ?N (vbetool_init ?N v1) = (b, v3)"
    by (simp add: v2_def [symmetric]) (simp add: bios_machine_def save)
  obtain ok st4 v4 where pci: "hack_pci ?N (st\<lparr>vbe_buffer := b\<rparr>) v3 = (ok, st4, v4)" by (metis surj_pair)
  note f = hack_pci_fields [OF pci]
  have v4: "vs v4 = vs v" "mem v4 = mem v3"
    using hack_pci_keeps [of ?N vs "st\<lparr>vbe_buffer := b\<rparr>" v3] hack_pci_keeps [of ?N mem "st\<lparr>vbe_buffer := b\<rparr>" v3]
      card(2) memory(2) pci v3 by simp_all
  have fb: "vs (suspend_fbcon ?N v4) = vs v" "mem (suspend_fbcon ?N v4) = mem v3"
    by (simp_all add: suspend_fbcon_def fbcon_state_keeps [of P] card memory v4)
  show "vs v' = vs v"
    and "r = 0 \<Longrightarrow> \<exists>v0 n v1. save_state_buffer B v0 = ((vbe_buffer st', n), v1) \<and> vs v0 = vs v \<and> mem v' = mem v1"
    and "vbe_mode st' = vbe_mode st" and "quirks st' = quirks st"
    using hacks st vbe pci f fb v1 v2 v4 save
    by (auto simp: s2ram_hacks_def hack_vbe_save_def hack_vbe_mode_def hack_radeon_def let_pair v1_def [symmetric]
        has_quirk_def split: if_splits)
qed

lemma bios_resume:
  assumes card: "leaves_awake P M vs"
    and memory: "pci_leaves_alone M mem" "bios_leaves B mem"
    and st: "vbe_buffer st = Some a" "vbe_mode st < 0" "\<not> has_quirk st RADEON_OFF"
  shows "\<exists>x. vs (s2ram_resume (bios_machine B pci_id M) st v) = vs (restore_state_from B a x) \<and> mem x = mem v"
proof -
  let ?N = "bios_machine B pci_id M"
  define v1 where "v1 = (if has_quirk st PCI_SAVE then pci_cleanup ?N (restore_vga_pci ?N st v) else v)"
  define v2 where "v2 = (if has_quirk st VBE_POST then vbe_do_post ?N (vbetool_init ?N v1) else v1)"
  have N: "pci_leaves_alone ?N mem" using memory by simp
  have "mem v1 = mem v" by (simp add: v1_def restore_vga_pci_def pci_leaves_aloneD [OF N] split: option.split)
  then have "mem (vbetool_init ?N v2) = mem v" by (simp add: v2_def setup_keeps do_post_keeps memory)
  moreover have "vbe_restore_state ?N = restore_state_from B" by (simp add: bios_machine_def)
  then have "vs (s2ram_resume ?N st v) = vs (restore_state_from B a (vbetool_init ?N v2))"
    using st by (simp add: s2ram_resume_def Let_def v1_def v2_def resume_fbcon_def fbcon_state_keeps [of P] card)
  ultimately show ?thesis by blast
qed


text \<open>A machine whose sleep clears the card.\<close>

definition sleepy_machine :: "(byte \<times> byte list) machine" where
  "sleepy_machine = bios_machine small_bios (\<lambda>p. 0) (idle_machine\<lparr>mc_print := (\<lambda>n t w. ((int (length t), 0), (0, snd w)))\<rparr>)"

lemma small_bios_setup: "vbetool_setup small_bios M w = Some (pci_alloc M w)"
  by (simp add: vbetool_setup_def small_bios_def)

lemma small_bios_restore: "restore_state_from small_bios 16 (x, replicate 64 7) = (7, replicate 64 7)"
  by (simp add: restore_state_from_def do_set_mode_def do_vbe_service_def small_bios_def no_regs_def)

lemmas sleepy_simps = sleepy_machine_def bios_machine_def idle_machine_def small_bios_setup small_bios_save small_bios_restore


end
