(* ===== verification/Splash_Input.thy ===== *)
theory Splash_Input
  imports Key Vt
begin

text \<open>
  The keyboard and the terminal behind the splash screens: the first half of \<open>splash.c\<close>, and \<open>read_password\<close> of
  \<open>encrypt.c\<close> with the settings of the terminal. Reading keys from the input devices does not wait; it takes
  the first release of a key.
\<close>

section \<open>System calls\<close>

record termios =
  c_iflag :: u32
  c_oflag :: u32
  c_cflag :: u32
  c_lflag :: u32
  c_vmin :: byte        \<comment> \<open>\<open>c_cc[VMIN]\<close>\<close>
  c_vtime :: byte       \<comment> \<open>\<open>c_cc[VTIME]\<close>\<close>
  c_others :: "byte list"

definition IGNBRK :: u32 where "IGNBRK = 0x1"
definition IGNPAR :: u32 where "IGNPAR = 0x4"
definition ICRNL :: u32 where "ICRNL = 0x100"
definition IMAXBEL :: u32 where "IMAXBEL = 0x2000"
definition ICANON :: u32 where "ICANON = 0x2"
definition ECHO :: u32 where "ECHO = 0x8"
definition ECHONL :: u32 where "ECHONL = 0x40"

record input_event =
  ev_type :: u16
  ev_code :: u16
  ev_value :: int

definition EV_KEY :: u16 where "EV_KEY = 1"
definition KEY_BACKSPACE :: int where "KEY_BACKSPACE = 14"
definition KEY_R :: int where "KEY_R = 19"
definition KEY_ENTER :: int where "KEY_ENTER = 28"
definition KEY_V :: int where "KEY_V = 47"

datatype dir_entry = Dir_entry "byte list" | Dir_end | Dir_error int

text \<open>
  The standard input as characters that are still to come (\<open>stdin_left\<close>), the terminal on it, and the input
  devices. \<open>rd_char\<close> is \<open>read(0, &c, 1)\<close>, with what \<open>c\<close> holds afterwards; \<open>rd_event\<close> is \<open>None\<close> for -1.
\<close>

record 'w input_calls =
  tc_get :: "'w \<Rightarrow> (int \<times> termios) \<times> 'w"
  tc_set :: "termios \<Rightarrow> 'w \<Rightarrow> int \<times> 'w"
  stdin_left :: "'w \<Rightarrow> byte list"
  set_stdin :: "byte list \<Rightarrow> 'w \<Rightarrow> 'w"
  rd_char :: "'w \<Rightarrow> (int \<times> byte) \<times> 'w"
  get_char :: "'w \<Rightarrow> int \<times> 'w"
  print_text :: "byte list \<Rightarrow> 'w \<Rightarrow> 'w"
  dir_open :: "'w \<Rightarrow> bool \<times> 'w"
  dir_read :: "'w \<Rightarrow> dir_entry \<times> 'w"
  dir_close :: "'w \<Rightarrow> 'w"
  dev_open :: "byte list \<Rightarrow> 'w \<Rightarrow> (int \<times> int) \<times> 'w"          \<comment> \<open>descriptor, or negative and \<open>errno\<close>\<close>
  fd_select :: "int \<Rightarrow> int list \<Rightarrow> 'w \<Rightarrow> (int \<times> int list) \<times> 'w"  \<comment> \<open>the result and the descriptors that are ready\<close>
  rd_event :: "int \<Rightarrow> 'w \<Rightarrow> input_event option \<times> 'w"

definition MAX_INPUT_FD :: nat where "MAX_INPUT_FD = 8"
definition INPUT_PATH :: "byte list" where "INPUT_PATH = map of_char ''/dev/input/by-path''"

record input_fds =
  if_fds :: "int list"        \<comment> \<open>the first \<open>count\<close> elements\<close>
  if_highest :: int

section \<open>The terminal\<close>

definition prepare_abort :: "'w input_calls \<Rightarrow> termios \<Rightarrow> termios \<Rightarrow> 'w \<Rightarrow> (int \<times> termios \<times> termios) \<times> 'w" where
  "prepare_abort I oldtrm newtrm w =
     (let ((ret, got), w) = tc_get I w
      in if ret \<noteq> 0 then ((ret, oldtrm, newtrm), w)
         else let oldtrm = got;
                  newtrm = oldtrm\<lparr>c_vmin := 0, c_vtime := 0, c_iflag := IGNBRK OR IGNPAR OR ICRNL OR IMAXBEL, c_lflag := 0\<rparr>;
                  (ret, w) = tc_set I newtrm w
              in ((ret, oldtrm, newtrm), w))"

definition restore_abort :: "'w input_calls \<Rightarrow> termios \<Rightarrow> 'w \<Rightarrow> 'w" where
  "restore_abort I oldtrm w = snd (tc_set I oldtrm w)"

text \<open>Only the end of the input is looked for: after an error \<open>c\<close> is whatever was on the stack.\<close>

definition simple_key_pressed :: "'w input_calls \<Rightarrow> 'w \<Rightarrow> int \<times> 'w" where
  "simple_key_pressed I w =
     (let ((n, c), w) = rd_char I w
      in (if n = 0 then 0 else if c = 127 then KEY_BACKSPACE else if c = 114 then KEY_R else if c = 10 then KEY_ENTER else 0, w))"

definition splash_dialog :: "'w input_calls \<Rightarrow> byte list \<Rightarrow> 'w \<Rightarrow> int \<times> 'w" where
  "splash_dialog I prompt w = get_char I (print_text I prompt w)"

text \<open>\<open>read_password\<close> on the terminal, with its loops in \<open>Key.read_password\<close>; \<open>pass_buf\<close> has \<open>2 * PASS_SIZE\<close> bytes.\<close>

definition tty_read_password :: "'w input_calls \<Rightarrow> bool \<Rightarrow> byte list \<Rightarrow> 'w \<Rightarrow> (byte list \<times> 'w) option" where
  "tty_read_password I vrfy pass_buf w =
     (let ((ret, t), w) = tc_get I w;
          t = t\<lparr>c_lflag := (c_lflag t AND NOT ECHO) OR (ICANON OR ECHONL)\<rparr>;
          (ret, w) = tc_set I t w
      in do {
        (a, b, left) \<leftarrow> read_password vrfy (take PASS_SIZE pass_buf) (drop PASS_SIZE pass_buf) (stdin_left I w);
        let (ret, w) = tc_set I (t\<lparr>c_lflag := c_lflag t OR ECHO\<rparr>) (set_stdin I left w);
        Some (a @ b, w)
      })"

section \<open>The input devices\<close>

text \<open>\<open>strstr\<close>\<close>

definition contains :: "byte list \<Rightarrow> byte list \<Rightarrow> bool" where
  "contains s t \<longleftrightarrow> (\<exists>i\<in>set [0..<length s + 1]. take (length t) (drop i s) = t)"

definition event_kbd :: "byte list" where "event_kbd = map of_char ''-event-kbd''"

text \<open>
  The loop over the directory: the entries that were opened, \<open>errno\<close>, and whether it ended because \<open>readdir\<close>
  returned \<open>NULL\<close>. Nothing resets \<open>errno\<close> after a device that could not be opened.
\<close>

partial_function (option) open_loop :: "'w input_calls \<Rightarrow> nat \<Rightarrow> input_fds \<Rightarrow> int \<Rightarrow> 'w \<Rightarrow> ((bool \<times> int \<times> input_fds) \<times> 'w) option" where
  "open_loop I i f en w =
     (let (it, w) = dir_read I w
      in case it of
           Dir_end \<Rightarrow> Some ((True, en, f), w)
         | Dir_error e \<Rightarrow> Some ((True, e, f), w)
         | Dir_entry name \<Rightarrow>
             if MAX_INPUT_FD \<le> i then Some ((False, en, f), w)
             else if \<not> contains name event_kbd then open_loop I i f en w
             else (let ((fd, e), w) = dev_open I (INPUT_PATH @ 47 # name) w
                   in if fd < 0 then open_loop I i f e w
                      else open_loop I (i + 1) \<lparr>if_fds = if_fds f @ [fd], if_highest = max fd (if_highest f)\<rparr> en w))"

definition open_input_fd :: "'w input_calls \<Rightarrow> input_fds \<Rightarrow> 'w \<Rightarrow> (int \<times> input_fds \<times> 'w) option" where
  "open_input_fd I f w =
     (let (ok, w) = dir_open I w
      in if \<not> ok then Some (- EIO, f, w)
         else do {
           ((at_end, en, f), w) \<leftarrow> open_loop I 0 f 0 w;
           Some (if at_end \<and> en \<noteq> 0 then - en else 0, f, dir_close I w)
         })"

text \<open>A \<open>char\<close> holds the lowest eight bits, with their sign.\<close>

definition char_of_code :: "u16 \<Rightarrow> int" where
  "char_of_code c = sint (ucast c :: byte)"

partial_function (option) release_loop :: "'w input_calls \<Rightarrow> int \<Rightarrow> 'w \<Rightarrow> (int \<times> 'w) option" where
  "release_loop I active w =
     (let (e, w) = rd_event I active w
      in case e of None \<Rightarrow> Some (0, w)
         | Some ev \<Rightarrow> if ev_type ev = EV_KEY \<and> ev_value ev = 0 then Some (char_of_code (ev_code ev), w)
                     else release_loop I active w)"

text \<open>\<open>None\<close> if the devices never run out of events. If \<open>select\<close> counts a descriptor that it does not show, -1 is read.\<close>

definition key_pressed_events :: "'w input_calls \<Rightarrow> input_fds \<Rightarrow> 'w \<Rightarrow> (int \<times> 'w) option" where
  "key_pressed_events I f w =
     (if if_fds f = [] then Some (0, w)
      else let ((err, ready), w) = fd_select I (if_highest f + 1) (if_fds f) w
      in if err \<le> 0 then Some (0, w)
         else let active = (case find (\<lambda>fd. fd \<in> set ready) (if_fds f) of None \<Rightarrow> - 1 | Some fd \<Rightarrow> fd)
              in release_loop I active w)"

section \<open>Properties\<close>

text \<open>
  The input devices as queues of events, read without waiting: reading an event takes it from the queue of its
  device, and \<open>select\<close> shows the devices with an event.
\<close>

definition event_laws :: "'w input_calls \<Rightarrow> (int \<Rightarrow> 'w \<Rightarrow> input_event list) \<Rightarrow> bool" where
  "event_laws I queue \<longleftrightarrow>
     (\<forall>fd w. queue fd w = [] \<longrightarrow> fst (rd_event I fd w) = None \<and> queue fd (snd (rd_event I fd w)) = []) \<and>
     (\<forall>fd w e es. queue fd w = e # es \<longrightarrow> fst (rd_event I fd w) = Some e \<and> queue fd (snd (rd_event I fd w)) = es) \<and>
     (\<forall>h fds w. (\<forall>fd\<in>set fds. fd < h) \<longrightarrow>
        (let ready = filter (\<lambda>fd. queue fd w \<noteq> []) fds in fst (fd_select I h fds w) = (int (length ready), ready)) \<and>
        (\<forall>fd. queue fd (snd (fd_select I h fds w)) = queue fd w))"

definition released :: "input_event \<Rightarrow> bool" where
  "released e \<longleftrightarrow> ev_type e = EV_KEY \<and> ev_value e = 0"

text \<open>The key that a device with the events \<open>es\<close> reports, and the events that are left.\<close>

definition first_release :: "input_event list \<Rightarrow> int \<times> input_event list" where
  "first_release es =
     (case dropWhile (\<lambda>e. \<not> released e) es of [] \<Rightarrow> (0, []) | e # es' \<Rightarrow> (char_of_code (ev_code e), es'))"

lemma release_loop_first:
  assumes "event_laws I queue"
  shows "\<exists>w'. release_loop I fd w = Some (fst (first_release (queue fd w)), w') \<and>
    queue fd w' = snd (first_release (queue fd w))"
proof (induction "queue fd w" arbitrary: w)
  case Nil
  then show ?case
    using assms by (subst release_loop.simps) (auto simp: event_laws_def first_release_def case_prod_beta)
next
  case (Cons e es)
  obtain w1 where r: "rd_event I fd w = (Some e, w1)" and q: "queue fd w1 = es"
    using assms Cons.hyps(2) [symmetric] by (cases "rd_event I fd w") (force simp: event_laws_def)
  show ?case
  proof (cases "released e")
    case True
    then show ?thesis
      using r q Cons.hyps(2) [symmetric] by (subst release_loop.simps) (simp add: released_def first_release_def)
  next
    case False
    then have "release_loop I fd w = release_loop I fd w1"
      using r by (subst release_loop.simps) (auto simp: released_def)
    moreover have "first_release (queue fd w) = first_release es"
      using False Cons.hyps(2) [symmetric] by (simp add: first_release_def)
    ultimately show ?thesis using Cons.hyps(1) [of w1] q by simp
  qed
qed

lemma open_loop_highest:
  assumes "open_loop I i f en w = Some y" and "\<forall>fd\<in>set (if_fds f). fd \<le> if_highest f"
  shows "\<forall>fd\<in>set (if_fds (snd (snd (fst y)))). fd \<le> if_highest (snd (snd (fst y)))"
proof -
  let ?ok = "\<lambda>f. \<forall>fd\<in>set (if_fds f). fd \<le> if_highest f"
  have "?ok f \<longrightarrow> ?ok (snd (snd (fst y)))"
  proof (rule open_loop.raw_induct [OF _ assms(1), of "\<lambda>I i f en w y. ?ok f \<longrightarrow> ?ok (snd (snd (fst y)))"])
    fix ol I i f en and w :: 'a and y
    assume IH: "\<And>I i f en w y. ol I i f en w = Some y \<Longrightarrow> ?ok f \<longrightarrow> ?ok (snd (snd (fst y)))"
      and "(let (it, w) = dir_read I w
      in case it of
           Dir_end \<Rightarrow> Some ((True, en, f), w)
         | Dir_error e \<Rightarrow> Some ((True, e, f), w)
         | Dir_entry name \<Rightarrow>
             if MAX_INPUT_FD \<le> i then Some ((False, en, f), w)
             else if \<not> contains name event_kbd then ol I i f en w
             else (let ((fd, e), w) = dev_open I (INPUT_PATH @ 47 # name) w
                   in if fd < 0 then ol I i f e w
                      else ol I (i + 1) \<lparr>if_fds = if_fds f @ [fd], if_highest = max fd (if_highest f)\<rparr> en w)) = Some y"
    then show "?ok f \<longrightarrow> ?ok (snd (snd (fst y)))"
      by (auto simp: case_prod_beta Let_def max_def split: dir_entry.splits if_splits dest!: IH) force+
  qed
  with assms(2) show ?thesis by blast
qed

lemma find_filter: "find P xs = Some x \<Longrightarrow> find (\<lambda>y. y \<in> set (filter P xs)) xs = Some x"
  by (induction xs) (auto split: if_splits)

text \<open>
  Looking for a key never waits and skips nothing but other events. With the devices that \<open>open_input_fd\<close> has
  found, \<open>key_pressed\<close> returns, whatever the devices have queued; it reports the first released key of the first
  device that has events, cut to a \<open>char\<close>, or 0, and the events behind that key stay in the queue of the device.
\<close>

lemma key_pressed_first_release:
  assumes laws: "event_laws I queue" and "open_input_fd I \<lparr>if_fds = [], if_highest = 0\<rparr> w0 = Some (r, f, w1)"
    and first: "find (\<lambda>fd. queue fd w \<noteq> []) (if_fds f) = Some fd"
  shows "\<exists>w'. key_pressed_events I f w = Some (fst (first_release (queue fd w)), w') \<and>
    queue fd w' = snd (first_release (queue fd w))"
proof -
  have fd: "fd \<in> set (filter (\<lambda>fd. queue fd w \<noteq> []) (if_fds f))"
    using first by (auto simp: find_Some_iff)
  have "\<forall>fd\<in>set (if_fds f). fd < if_highest f + 1"
    using assms(2) by (auto simp: open_input_fd_def case_prod_beta Let_def split: if_splits bind_splits
        dest!: open_loop_highest)
  then have "fst (fd_select I (if_highest f + 1) (if_fds f) w) =
      (int (length (filter (\<lambda>fd. queue fd w \<noteq> []) (if_fds f))), filter (\<lambda>fd. queue fd w \<noteq> []) (if_fds f)) \<and>
      (\<forall>fd. queue fd (snd (fd_select I (if_highest f + 1) (if_fds f) w)) = queue fd w)"
    using laws unfolding event_laws_def Let_def by blast
  then obtain w2 where sel: "fd_select I (if_highest f + 1) (if_fds f) w =
      ((int (length (filter (\<lambda>fd. queue fd w \<noteq> []) (if_fds f))), filter (\<lambda>fd. queue fd w \<noteq> []) (if_fds f)), w2)"
    and w2: "queue fd w2 = queue fd w"
    by (cases "fd_select I (if_highest f + 1) (if_fds f) w") auto
  have "filter (\<lambda>fd. queue fd w \<noteq> []) (if_fds f) \<noteq> []" using fd by (metis empty_iff empty_set)
  then have "if_fds f \<noteq> []" "\<not> int (length (filter (\<lambda>fd. queue fd w \<noteq> []) (if_fds f))) \<le> 0"
    by (auto simp only: filter.simps length_0_conv of_nat_le_0_iff)
  then show ?thesis
    using release_loop_first [OF laws, of fd w2] find_filter [OF first] w2 sel by (simp add: key_pressed_events_def)
qed

text \<open>One keyboard, whose descriptor is 5; the world is the directory and the events. Code 275 is a side button.\<close>

definition one_keyboard :: "(byte list list \<times> input_event list) input_calls" where
  "one_keyboard = \<lparr>tc_get = Pair (- 1, \<lparr>c_iflag = 0, c_oflag = 0, c_cflag = 0, c_lflag = 0, c_vmin = 0, c_vtime = 0, c_others = []\<rparr>),
     tc_set = (\<lambda>t. Pair (- 1)), stdin_left = (\<lambda>w. []), set_stdin = (\<lambda>bs w. w), rd_char = Pair (0, 0), get_char = Pair (- 1),
     print_text = (\<lambda>s w. w), dir_open = Pair True,
     dir_read = (\<lambda>w. case fst w of [] \<Rightarrow> (Dir_end, w) | n # ns \<Rightarrow> (Dir_entry n, (ns, snd w))),
     dir_close = (\<lambda>w. w), dev_open = (\<lambda>n. Pair (5, 0)),
     fd_select = (\<lambda>h fds w. let ready = filter (\<lambda>fd. (if fd = 5 then snd w else []) \<noteq> []) fds in ((int (length ready), ready), w)),
     rd_event = (\<lambda>fd w. if fd = 5 then case snd w of [] \<Rightarrow> (None, w) | e # es \<Rightarrow> (Some e, (fst w, es)) else (None, w))\<rparr>"

definition button_events :: "input_event list" where
  "button_events = [\<lparr>ev_type = 1, ev_code = 275, ev_value = 1\<rparr>, \<lparr>ev_type = 1, ev_code = 275, ev_value = 0\<rparr>]"

lemma one_keyboard_laws: "event_laws one_keyboard (\<lambda>fd w. if fd = 5 then snd w else [])"
  by (auto simp: event_laws_def one_keyboard_def Let_def split: list.splits)

lemma keyboard_name: "contains (map of_char ''i8042-event-kbd'') event_kbd"
  by code_simp

lemma one_keyboard_opened:
  "open_input_fd one_keyboard \<lparr>if_fds = [], if_highest = 0\<rparr> ([map of_char ''i8042-event-kbd''], [])
    = Some (0, \<lparr>if_fds = [5], if_highest = 5\<rparr>, ([], []))"
  by (simp add: open_input_fd_def open_loop.simps one_keyboard_def MAX_INPUT_FD_def keyboard_name del: list.map)

theorem key_pressed_first_release_witness:
  "\<exists>w'. key_pressed_events one_keyboard \<lparr>if_fds = [5], if_highest = 5\<rparr> ([], button_events) = Some (KEY_R, w') \<and> snd w' = []"
proof -
  have "first_release button_events = (19, [])"
    by (simp add: button_events_def first_release_def released_def EV_KEY_def char_of_code_def)
  then show ?thesis
    using key_pressed_first_release [OF one_keyboard_laws one_keyboard_opened, of "([], button_events)" 5]
    by (simp add: KEY_R_def button_events_def)
qed

end
