(* ===== verification/Splash_Systems.thy ===== *)
theory Splash_Systems
  imports Splash_Input
begin

text \<open>
  The three splash systems: \<open>bootsplash.c\<close>, which writes commands to \<open>/proc/splash\<close>, \<open>fbsplash_funcs.c\<close> and
  \<open>splashy_funcs.c\<close> on top of the libraries of these names. The libraries and the file are parameters; the static
  variables of the three files are one record.
\<close>

record splash_vars =
  splash_file :: bool        \<comment> \<open>\<open>splash_file != NULL\<close>\<close>
  theme :: "int option"
  was_silent :: bool
  have_input :: bool
  force_verbose :: bool
  progress_old :: int
  sv_input :: input_fds

definition splash_vars_init :: splash_vars where
  "splash_vars_init = \<lparr>splash_file = False, theme = None, was_silent = False, have_input = False, force_verbose = False,
     progress_old = 0, sv_input = \<lparr>if_fds = [], if_highest = 0\<rparr>\<rparr>"

definition SPL_SUSPEND :: int where "SPL_SUSPEND = 1"
definition SPL_RESUME :: int where "SPL_RESUME = 2"

section \<open>bootsplash\<close>

text \<open>\<open>fgets\<close> gives \<open>None\<close> for \<open>NULL\<close>, \<open>fputs\<close> and the \<open>fflush\<close> after it whether it succeeds.\<close>

record 'w proc_splash =
  ps_open :: "'w \<Rightarrow> bool \<times> 'w"
  ps_gets :: "nat \<Rightarrow> 'w \<Rightarrow> byte list option \<times> 'w"
  ps_puts :: "byte list \<Rightarrow> 'w \<Rightarrow> bool \<times> 'w"
  ps_flush :: "'w \<Rightarrow> 'w"
  ps_close :: "'w \<Rightarrow> 'w"

definition MAX_LINE_SIZE :: nat where "MAX_LINE_SIZE = 1024"

definition bootsplash_finish :: "'w proc_splash \<Rightarrow> splash_vars \<Rightarrow> 'w \<Rightarrow> int \<times> splash_vars \<times> 'w" where
  "bootsplash_finish B v w = (if splash_file v then (0, v\<lparr>splash_file := False\<rparr>, ps_close B w) else (0, v, w))"

definition bootsplash_write :: "'w proc_splash \<Rightarrow> byte list \<Rightarrow> splash_vars \<Rightarrow> 'w \<Rightarrow> int \<times> splash_vars \<times> 'w" where
  "bootsplash_write B buf v w =
     (if \<not> splash_file v then (- 1, v, w)
      else let (ok, w) = ps_puts B buf w
           in if \<not> ok then let (r, v, w) = bootsplash_finish B v w in (- 1, v, w)
              else (0, v, ps_flush B w))"

definition bootsplash_to_silent :: "'w proc_splash \<Rightarrow> splash_vars \<Rightarrow> 'w \<Rightarrow> int \<times> splash_vars \<times> 'w" where
  "bootsplash_to_silent B = bootsplash_write B (map of_char ''silent'' @ [10])"

definition bootsplash_to_verbose :: "'w proc_splash \<Rightarrow> splash_vars \<Rightarrow> 'w \<Rightarrow> int \<times> splash_vars \<times> 'w" where
  "bootsplash_to_verbose B = bootsplash_write B (map of_char ''verbose'' @ [10])"

definition bootsplash_open :: "'w proc_splash \<Rightarrow> splash_vars \<Rightarrow> 'w \<Rightarrow> int \<times> splash_vars \<times> 'w" where
  "bootsplash_open B v w =
     (let (ok, w) = ps_open B w; v = v\<lparr>splash_file := ok\<rparr>
      in if \<not> ok then (- 1, v, w)
         else let (str, w) = ps_gets B MAX_LINE_SIZE w
              in case str of
                   Some buf \<Rightarrow> if contains buf (map of_char '': on'')
                               then let (r, v, w) = bootsplash_to_silent B v w in (0, v, w)
                               else let (r, v, w) = bootsplash_finish B v w in (- 1, v, w)
                 | None \<Rightarrow> let (r, v, w) = bootsplash_finish B v w in (- 1, v, w))"

definition bootsplash_switch_to :: "'w posix \<Rightarrow> 'w machine \<Rightarrow> splash_vars \<Rightarrow> 'w \<Rightarrow> 'w" where
  "bootsplash_switch_to P M v w = (if splash_file v then snd (chvt P M 1 w) else w)"

text \<open>\<open>%d\<close> of a number.\<close>

definition decimal_int :: "int \<Rightarrow> byte list" where
  "decimal_int n = (if n < 0 then 45 # decimal (nat (- n)) else decimal (nat n))"

definition bootsplash_progress :: "'w proc_splash \<Rightarrow> int \<Rightarrow> splash_vars \<Rightarrow> 'w \<Rightarrow> int \<times> splash_vars \<times> 'w" where
  "bootsplash_progress B p v w =
     (if \<not> splash_file v then (- 1, v, w)
      else bootsplash_write B (map of_char ''show '' @ decimal_int (p * (65535 div 100)) @ [10]) v w)"

definition bootsplash_read_password ::
  "'w input_calls \<Rightarrow> 'w proc_splash \<Rightarrow> bool \<Rightarrow> byte list \<Rightarrow> splash_vars \<Rightarrow> 'w \<Rightarrow> (byte list \<times> splash_vars \<times> 'w) option" where
  "bootsplash_read_password I B vrfy buf v w = do {
     let (r, v, w) = bootsplash_to_verbose B v w;
     (buf, w) \<leftarrow> tty_read_password I vrfy buf w;
     let (r, v, w) = bootsplash_to_silent B v w;
     Some (buf, v, w)
   }"

definition bootsplash_dialog ::
  "'w input_calls \<Rightarrow> 'w proc_splash \<Rightarrow> byte list \<Rightarrow> splash_vars \<Rightarrow> 'w \<Rightarrow> int \<times> splash_vars \<times> 'w" where
  "bootsplash_dialog I B prompt v w =
     (let (r, v, w) = bootsplash_to_verbose B v w;
          (c, w) = get_char I (print_text I prompt w);
          (r, v, w) = bootsplash_to_silent B v w
      in (c, v, w))"

section \<open>fbsplash\<close>

datatype effect = FBSPL_EFF_NONE | FBSPL_EFF_FADEIN | FBSPL_EFF_FADEOUT

text \<open>The library; \<open>fb_getpass\<close> is \<open>getpass\<close> of the C library, \<open>None\<close> for \<open>NULL\<close>.\<close>

record 'w fbsplash_lib =
  fb_lib_init :: "bool \<Rightarrow> 'w \<Rightarrow> bool \<times> 'w"          \<comment> \<open>\<open>fbspl_resume\<close> or \<open>fbspl_suspend\<close>\<close>
  fb_configure :: "byte list \<Rightarrow> 'w \<Rightarrow> 'w"            \<comment> \<open>verbosity, \<open>fbsplash_parse_kcmdline\<close>, theme unless empty\<close>
  fb_render_init :: "'w \<Rightarrow> bool \<times> 'w"               \<comment> \<open>\<open>fbsplashr_init\<close>: success\<close>
  fb_theme_load :: "'w \<Rightarrow> int option \<times> 'w"
  fb_theme_free :: "int option \<Rightarrow> 'w \<Rightarrow> 'w"
  fb_is_silent :: "'w \<Rightarrow> bool"
  fb_set_silent :: "'w \<Rightarrow> 'w"
  fb_set_verbose :: "'w \<Rightarrow> 'w"
  fb_tty_init :: "'w \<Rightarrow> 'w"
  fb_tty_update :: "'w \<Rightarrow> 'w"
  fb_tty_cleanup :: "'w \<Rightarrow> 'w"
  fb_message :: "int option \<Rightarrow> byte list \<Rightarrow> 'w \<Rightarrow> 'w"
  fb_render :: "int option \<Rightarrow> effect \<Rightarrow> 'w \<Rightarrow> 'w"
  fb_progress_set :: "int option \<Rightarrow> int \<Rightarrow> 'w \<Rightarrow> 'w"
  fb_input_init :: "'w \<Rightarrow> bool \<times> 'w"
  fb_input_cleanup :: "'w \<Rightarrow> 'w"
  fb_getkey :: "'w \<Rightarrow> u16 \<times> 'w"
  fb_render_cleanup :: "'w \<Rightarrow> 'w"
  fb_lib_cleanup :: "'w \<Rightarrow> 'w"
  fb_getpass :: "'w \<Rightarrow> byte list option \<times> 'w"
  fb_progress_max :: int

text \<open>\<open>cleanup:\<close> with the error; on this path \<open>have_render\<close> and \<open>cfg\<close> are given.\<close>

definition fb_open_cleanup :: "'w fbsplash_lib \<Rightarrow> int \<Rightarrow> bool \<Rightarrow> bool \<Rightarrow> splash_vars \<Rightarrow> 'w \<Rightarrow> int \<times> splash_vars \<times> 'w" where
  "fb_open_cleanup F error have_render cfg v w =
     (let (v, w) = (if have_input v then (v\<lparr>have_input := False\<rparr>, fb_input_cleanup F w) else (v, w));
          w = (if have_render then fb_render_cleanup F w else w);
          w = (if cfg then fb_lib_cleanup F w else w)
      in (error, v, w))"

definition fbsplashfuncs_open :: "'w fbsplash_lib \<Rightarrow> byte list \<Rightarrow> int \<Rightarrow> splash_vars \<Rightarrow> 'w \<Rightarrow> int \<times> splash_vars \<times> 'w" where
  "fbsplashfuncs_open F fbsplash_theme mode v w =
     (let (cfg, w) = fb_lib_init F (mode = SPL_RESUME) w
      in if \<not> cfg then fb_open_cleanup F (- 1) False False v w
         else let (ok, w) = fb_render_init F (fb_configure F fbsplash_theme w)
         in if \<not> ok then fb_open_cleanup F (- 3) False True v w
         else let (t, w) = fb_theme_load F w; v = v\<lparr>theme := t\<rparr>
         in if t = None then fb_open_cleanup F (- 4) True True v w
         else let v = v\<lparr>was_silent := fb_is_silent F w\<rparr>;
                  w = (if \<not> was_silent v then fb_set_silent F w else w);
                  w = fb_tty_update F (fb_tty_init F w);
                  w = fb_message F (theme v) (map of_char (if mode = SPL_RESUME then ''Resuming...'' else ''Suspending...'')) w;
                  w = fb_render F (theme v) (if was_silent v then FBSPL_EFF_NONE else FBSPL_EFF_FADEIN) w;
                  (ok, w) = fb_input_init F w
              in (0, v\<lparr>have_input := ok\<rparr>, w))"

definition fbsplashfuncs_finish :: "'w fbsplash_lib \<Rightarrow> splash_vars \<Rightarrow> 'w \<Rightarrow> int \<times> splash_vars \<times> 'w" where
  "fbsplashfuncs_finish F v w =
     (let (v, w) = (if have_input v then (v\<lparr>have_input := False\<rparr>, fb_input_cleanup F w) else (v, w));
          w = (if fb_is_silent F w then fb_render F (theme v) (if was_silent v then FBSPL_EFF_NONE else FBSPL_EFF_FADEOUT) w
               else w);
          w = fb_tty_cleanup F w;
          w = (if \<not> was_silent v \<and> fb_is_silent F w then fb_set_verbose F w else w);
          w = fb_theme_free F (theme v) w
      in (0, v\<lparr>theme := None\<rparr>, fb_lib_cleanup F (fb_render_cleanup F w)))"

definition fbsplashfuncs_progress :: "'w fbsplash_lib \<Rightarrow> int \<Rightarrow> splash_vars \<Rightarrow> 'w \<Rightarrow> int \<times> splash_vars \<times> 'w" where
  "fbsplashfuncs_progress F p v w =
     (if p < progress_old v \<or> 10 \<le> p - progress_old v
      then let w = fb_progress_set F (theme v) (fb_progress_max F div 100 * p) w
           in (0, v\<lparr>progress_old := p\<rparr>, if fb_is_silent F w then fb_render F (theme v) FBSPL_EFF_NONE w else w)
      else (0, v, w))"

text \<open>\<open>None\<close> also where \<open>getpass\<close> gives \<open>NULL\<close>.\<close>

partial_function (option) getpass_nonempty :: "'w fbsplash_lib \<Rightarrow> 'w \<Rightarrow> (byte list \<times> 'w) option" where
  "getpass_nonempty F w =
     (let (p, w) = fb_getpass F w
      in case p of None \<Rightarrow> None
         | Some p \<Rightarrow> if p = [] \<or> PASS_SIZE \<le> length p then getpass_nonempty F w else Some (p, w))"

partial_function (option) getpass_verified :: "'w fbsplash_lib \<Rightarrow> bool \<Rightarrow> byte list \<Rightarrow> 'w \<Rightarrow> (byte list \<times> 'w) option" where
  "getpass_verified F vrfy buf w = do {
     (p, w) \<leftarrow> getpass_nonempty F w;
     let buf = p @ 0 # drop (length p + 1) buf;
     if \<not> vrfy then Some (buf, w)
     else (let (q, w) = fb_getpass F w
           in case q of None \<Rightarrow> None | Some q \<Rightarrow> if p \<noteq> q then getpass_verified F vrfy buf w else Some (buf, w))
   }"

text \<open>What follows a password or a dialogue.\<close>

definition fb_silent_again :: "'w fbsplash_lib \<Rightarrow> splash_vars \<Rightarrow> 'w \<Rightarrow> 'w" where
  "fb_silent_again F v w = (if \<not> force_verbose v then fb_tty_update F (fb_set_silent F w) else w)"

definition fb_go_verbose :: "'w fbsplash_lib \<Rightarrow> 'w \<Rightarrow> 'w" where
  "fb_go_verbose F w = (if fb_is_silent F w then fb_set_verbose F w else w)"

definition fbsplashfuncs_read_password ::
  "'w fbsplash_lib \<Rightarrow> bool \<Rightarrow> byte list \<Rightarrow> splash_vars \<Rightarrow> 'w \<Rightarrow> (byte list \<times> splash_vars \<times> 'w) option" where
  "fbsplashfuncs_read_password F vrfy buf v w = do {
     (buf, w) \<leftarrow> getpass_verified F vrfy buf (fb_go_verbose F w);
     Some (buf, v, fb_silent_again F v w)
   }"

definition fbsplashfuncs_dialog ::
  "'w input_calls \<Rightarrow> 'w fbsplash_lib \<Rightarrow> byte list \<Rightarrow> splash_vars \<Rightarrow> 'w \<Rightarrow> int \<times> splash_vars \<times> 'w" where
  "fbsplashfuncs_dialog I F prompt v w =
     (let (c, w) = get_char I (print_text I prompt (fb_go_verbose F w)) in (c, v, fb_silent_again F v w))"

definition fbsplashfuncs_key_pressed :: "'w fbsplash_lib \<Rightarrow> splash_vars \<Rightarrow> 'w \<Rightarrow> int \<times> splash_vars \<times> 'w" where
  "fbsplashfuncs_key_pressed F v w =
     (if \<not> have_input v then (0, v, w)
      else let (key, w) = fb_getkey F w; c = char_of_code key
           in if c = KEY_V
              then let v = v\<lparr>force_verbose := \<not> force_verbose v\<rparr>
                   in (0, v, if force_verbose v then fb_set_verbose F w else fb_set_silent F w)
              else (c, v, w))"

definition fbsplashfuncs_set_caption :: "'w fbsplash_lib \<Rightarrow> byte list \<Rightarrow> splash_vars \<Rightarrow> 'w \<Rightarrow> splash_vars \<times> 'w" where
  "fbsplashfuncs_set_caption F message v w =
     (let w = fb_message F (theme v) message w
      in (v, if fb_is_silent F w then fb_render F (theme v) FBSPL_EFF_NONE w else w))"

section \<open>splashy\<close>

text \<open>\<open>spl_get_password\<close>: the result and the array afterwards.\<close>

record 'w splashy_lib =
  spl_init :: "bool \<Rightarrow> 'w \<Rightarrow> int \<times> 'w"
  spl_start :: "'w \<Rightarrow> int \<times> 'w"
  spl_stop :: "'w \<Rightarrow> 'w"
  spl_progress :: "int \<Rightarrow> 'w \<Rightarrow> 'w"
  spl_get_password :: "nat \<Rightarrow> byte list \<Rightarrow> 'w \<Rightarrow> (int \<times> byte list) \<times> 'w"
  spl_printline :: "byte list \<Rightarrow> 'w \<Rightarrow> 'w"
  spl_getchar :: "'w \<Rightarrow> int \<times> 'w"

definition splashy_open :: "'w splashy_lib \<Rightarrow> int \<Rightarrow> 'w \<Rightarrow> int \<times> 'w" where
  "splashy_open Y mode w =
     (let (ret, w) = spl_init Y (mode = SPL_RESUME) w
      in if ret < 0 then (- 1, w)
         else let (ret, w) = spl_start Y w in (if ret < 0 then - 2 else 0, w))"

definition splashy_finish :: "'w splashy_lib \<Rightarrow> 'w \<Rightarrow> int \<times> 'w" where
  "splashy_finish Y w = (0, spl_stop Y w)"

definition splashy_progress :: "'w splashy_lib \<Rightarrow> int \<Rightarrow> 'w \<Rightarrow> int \<times> 'w" where
  "splashy_progress Y p w = (0, spl_progress Y p w)"

partial_function (option) splashy_ask :: "'w splashy_lib \<Rightarrow> byte list \<Rightarrow> 'w \<Rightarrow> (byte list \<times> 'w) option" where
  "splashy_ask Y buf w =
     (let ((ret, buf), w) = spl_get_password Y PASS_SIZE buf w in if ret \<le> 0 then splashy_ask Y buf w else Some (buf, w))"

partial_function (option) splashy_read_password ::
  "'w splashy_lib \<Rightarrow> bool \<Rightarrow> byte list \<Rightarrow> byte list \<Rightarrow> 'w \<Rightarrow> (byte list \<times> byte list \<times> 'w) option" where
  "splashy_read_password Y vrfy buf vrfy_buf w = do {
     (buf, w) \<leftarrow> splashy_ask Y buf w;
     if \<not> vrfy then Some (buf, vrfy_buf, w)
     else do {
       (vrfy_buf, w) \<leftarrow> splashy_ask Y vrfy_buf w;
       if take PASS_SIZE (c_string buf) \<noteq> take PASS_SIZE (c_string vrfy_buf)
       then splashy_read_password Y vrfy buf vrfy_buf w
       else Some (buf, vrfy_buf, w)
     }
   }"

definition splashy_dialog :: "'w splashy_lib \<Rightarrow> byte list \<Rightarrow> 'w \<Rightarrow> int \<times> 'w" where
  "splashy_dialog Y prompt w = spl_getchar Y (spl_printline Y prompt w)"

section \<open>Properties\<close>

subsection \<open>fbsplash and the console\<close>

text \<open>What the library says of the silent mode: two functions set it, no other touches it.\<close>

definition silent_laws :: "'w input_calls \<Rightarrow> 'w fbsplash_lib \<Rightarrow> bool" where
  "silent_laws I F \<longleftrightarrow>
     (\<forall>w. fb_is_silent F (fb_set_silent F w) \<and> \<not> fb_is_silent F (fb_set_verbose F w)) \<and>
     (\<forall>w. \<forall>f\<in>{fb_tty_init F, fb_tty_update F, fb_tty_cleanup F, fb_input_cleanup F, fb_render_cleanup F, fb_lib_cleanup F}.
        fb_is_silent F (f w) = fb_is_silent F w) \<and>
     (\<forall>w b. fb_is_silent F (snd (fb_lib_init F b w)) = fb_is_silent F w) \<and>
     (\<forall>w t. fb_is_silent F (fb_configure F t w) = fb_is_silent F w) \<and>
     (\<forall>w. fb_is_silent F (snd (fb_render_init F w)) = fb_is_silent F w) \<and>
     (\<forall>w. fb_is_silent F (snd (fb_theme_load F w)) = fb_is_silent F w) \<and>
     (\<forall>w. fb_is_silent F (snd (fb_input_init F w)) = fb_is_silent F w) \<and>
     (\<forall>w. fb_is_silent F (snd (fb_getkey F w)) = fb_is_silent F w) \<and>
     (\<forall>w. fb_is_silent F (snd (fb_getpass F w)) = fb_is_silent F w) \<and>
     (\<forall>w t. fb_is_silent F (fb_theme_free F t w) = fb_is_silent F w) \<and>
     (\<forall>w t m. fb_is_silent F (fb_message F t m w) = fb_is_silent F w) \<and>
     (\<forall>w t e. fb_is_silent F (fb_render F t e w) = fb_is_silent F w) \<and>
     (\<forall>w t p. fb_is_silent F (fb_progress_set F t p w) = fb_is_silent F w) \<and>
     (\<forall>w. fb_is_silent F (snd (get_char I w)) = fb_is_silent F w) \<and>
     (\<forall>w s. fb_is_silent F (print_text I s w) = fb_is_silent F w)"

text \<open>What a program may do with the splash screen between opening and finishing it.\<close>

datatype fb_call = Fb_progress int | Fb_password bool "byte list" | Fb_dialog "byte list" | Fb_key | Fb_caption "byte list"

fun fb_call_run :: "'w input_calls \<Rightarrow> 'w fbsplash_lib \<Rightarrow> fb_call \<Rightarrow> splash_vars \<times> 'w \<Rightarrow> (splash_vars \<times> 'w) option" where
  "fb_call_run I F (Fb_progress p) (v, w) = Some (snd (fbsplashfuncs_progress F p v w))"
| "fb_call_run I F (Fb_password vrfy buf) (v, w) = map_option snd (fbsplashfuncs_read_password F vrfy buf v w)"
| "fb_call_run I F (Fb_dialog prompt) (v, w) = Some (snd (fbsplashfuncs_dialog I F prompt v w))"
| "fb_call_run I F Fb_key (v, w) = Some (snd (fbsplashfuncs_key_pressed F v w))"
| "fb_call_run I F (Fb_caption message) (v, w) = Some (fbsplashfuncs_set_caption F message v w)"

fun fb_calls_run :: "'w input_calls \<Rightarrow> 'w fbsplash_lib \<Rightarrow> fb_call list \<Rightarrow> splash_vars \<times> 'w \<Rightarrow> (splash_vars \<times> 'w) option" where
  "fb_calls_run I F [] s = Some s"
| "fb_calls_run I F (c # cs) s = Option.bind (fb_call_run I F c s) (fb_calls_run I F cs)"

text \<open>The invariant: the screen hides the console unless the user has asked for it with the key \<open>v\<close>.\<close>

definition fb_shown :: "'w fbsplash_lib \<Rightarrow> bool \<Rightarrow> splash_vars \<times> 'w \<Rightarrow> bool" where
  "fb_shown F silent s \<longleftrightarrow> was_silent (fst s) = silent \<and> fb_is_silent F (snd s) = (\<not> force_verbose (fst s))"

lemma fb_open_shown:
  assumes "silent_laws I F" and "\<not> force_verbose v" and "fbsplashfuncs_open F t mode v w = (0, s)"
  shows "fb_shown F (fb_is_silent F w) s"
  using assms
  by (auto simp: silent_laws_def fbsplashfuncs_open_def fb_open_cleanup_def fb_shown_def case_prod_beta Let_def split: if_splits)

lemma getpass_nonempty_silent:
  assumes "silent_laws I F" and "getpass_nonempty F w = Some (p, w')"
  shows "fb_is_silent F w' = fb_is_silent F w"
proof -
  have gp: "fb_is_silent F (snd (fb_getpass F w)) = fb_is_silent F w" for w
    using assms(1) by (simp add: silent_laws_def)
  have "F = F \<longrightarrow> fb_is_silent F (snd (p, w')) = fb_is_silent F w"
  proof (rule getpass_nonempty.raw_induct [OF _ assms(2), of "\<lambda>F' w y. F' = F \<longrightarrow> fb_is_silent F (snd y) = fb_is_silent F w"])
    fix g F' w y
    assume IH: "\<And>F' w y. g F' w = Some y \<Longrightarrow> F' = F \<longrightarrow> fb_is_silent F (snd y) = fb_is_silent F w"
      and "(let (p, w) = fb_getpass F' w
      in case p of None \<Rightarrow> None
         | Some p \<Rightarrow> if p = [] \<or> PASS_SIZE \<le> length p then g F' w else Some (p, w)) = Some y"
    then show "F' = F \<longrightarrow> fb_is_silent F (snd y) = fb_is_silent F w"
      by (auto simp: case_prod_beta gp split: option.splits if_splits dest!: IH)
  qed
  then show ?thesis by simp
qed

lemma getpass_verified_silent:
  assumes "silent_laws I F" and "getpass_verified F vrfy buf w = Some (p, w')"
  shows "fb_is_silent F w' = fb_is_silent F w"
proof -
  have gp: "fb_is_silent F (snd (fb_getpass F w)) = fb_is_silent F w" for w
    using assms(1) by (simp add: silent_laws_def)
  have "F = F \<longrightarrow> fb_is_silent F (snd (p, w')) = fb_is_silent F w"
  proof (rule getpass_verified.raw_induct [OF _ assms(2),
        of "\<lambda>F' vrfy buf w y. F' = F \<longrightarrow> fb_is_silent F (snd y) = fb_is_silent F w"])
    fix g F' vrfy buf w y
    assume IH: "\<And>F' vrfy buf w y. g F' vrfy buf w = Some y \<Longrightarrow> F' = F \<longrightarrow> fb_is_silent F (snd y) = fb_is_silent F w"
      and "do {
     (p, w) \<leftarrow> getpass_nonempty F' w;
     let buf = p @ 0 # drop (length p + 1) buf;
     if \<not> vrfy then Some (buf, w)
     else (let (q, w) = fb_getpass F' w
           in case q of None \<Rightarrow> None | Some q \<Rightarrow> if p \<noteq> q then g F' vrfy buf w else Some (buf, w))
   } = Some y"
    then show "F' = F \<longrightarrow> fb_is_silent F (snd y) = fb_is_silent F w"
      by (auto simp: case_prod_beta gp getpass_nonempty_silent [OF assms(1)] Let_def
          split: option.splits if_splits bind_splits dest!: IH)
  qed
  then show ?thesis by simp
qed

lemma fb_go_verbose_silent: "silent_laws I F \<Longrightarrow> \<not> fb_is_silent F (fb_go_verbose F w)"
  by (simp add: silent_laws_def fb_go_verbose_def)

lemma fb_silent_again_silent:
  assumes "silent_laws I F" and "\<not> fb_is_silent F w"
  shows "fb_is_silent F (fb_silent_again F v w) = (\<not> force_verbose v)"
  using assms by (simp add: silent_laws_def fb_silent_again_def)

lemma fb_call_shown:
  assumes laws: "silent_laws I F" and "fb_shown F silent s" and "fb_call_run I F c s = Some s'"
  shows "fb_shown F silent s'"
proof (cases c)
  case (Fb_password vrfy buf)
  then show ?thesis
    using assms(2,3) fb_go_verbose_silent [OF laws]
    by (cases s) (auto simp: fb_shown_def fbsplashfuncs_read_password_def split: bind_splits
        dest!: getpass_verified_silent [OF laws] simp: fb_silent_again_silent [OF laws])
next
  case (Fb_dialog prompt)
  have "\<not> fb_is_silent F (snd (get_char I (print_text I prompt (fb_go_verbose F w))))" for w
    using laws fb_go_verbose_silent [OF laws, of w] by (simp add: silent_laws_def)
  then show ?thesis
    using assms(2,3) Fb_dialog
    by (cases s) (auto simp: fb_shown_def fbsplashfuncs_dialog_def case_prod_beta Let_def fb_silent_again_silent [OF laws])
qed (use laws assms(2,3) in \<open>cases s; auto simp: silent_laws_def fb_shown_def fbsplashfuncs_progress_def
  fbsplashfuncs_key_pressed_def fbsplashfuncs_set_caption_def case_prod_beta Let_def split: if_splits\<close>)+

lemma fb_calls_shown:
  assumes "silent_laws I F"
  shows "fb_shown F silent s \<Longrightarrow> fb_calls_run I F cs s = Some s' \<Longrightarrow> fb_shown F silent s'"
  by (induction cs arbitrary: s) (auto split: bind_splits dest: fb_call_shown [OF assms])

text \<open>
  C34: The framebuffer splash leaves the console the way it has found it. After opening it, any calls of its
  operations and finishing it, the console is hidden just in case it was hidden before and the user has not asked
  for it with the key \<open>v\<close>; a console that was visible is visible again.
\<close>

theorem fbsplash_console_back:
  assumes laws: "silent_laws I F" and "\<not> force_verbose v" and "fbsplashfuncs_open F t mode v w = (0, v1, w1)"
    and "fb_calls_run I F cs (v1, w1) = Some (v2, w2)" and "fbsplashfuncs_finish F v2 w2 = (r, v3, w3)"
  shows "fb_is_silent F w3 \<longleftrightarrow> fb_is_silent F w \<and> \<not> force_verbose v2"
proof -
  have "fb_shown F (fb_is_silent F w) (v2, w2)"
    using fb_calls_shown [OF laws fb_open_shown [OF assms(1-3)] assms(4)] .
  then show ?thesis
    using laws assms(5)
    by (auto simp: silent_laws_def fb_shown_def fbsplashfuncs_finish_def case_prod_beta Let_def split: if_splits)
qed

text \<open>A screen that is only its mode, and a user who presses \<open>v\<close>.\<close>

definition quiet_terminal :: "'w input_calls" where
  "quiet_terminal = \<lparr>tc_get = Pair (- 1, \<lparr>c_iflag = 0, c_oflag = 0, c_cflag = 0, c_lflag = 0, c_vmin = 0, c_vtime = 0, c_others = []\<rparr>),
     tc_set = (\<lambda>t. Pair (- 1)), stdin_left = (\<lambda>w. []), set_stdin = (\<lambda>bs w. w), rd_char = Pair (0, 0), get_char = Pair (- 1),
     print_text = (\<lambda>s w. w), dir_open = Pair False, dir_read = Pair Dir_end, dir_close = (\<lambda>w. w), dev_open = (\<lambda>n. Pair (- 1, 2)),
     fd_select = (\<lambda>h fds. Pair (0, [])), rd_event = (\<lambda>fd. Pair None)\<rparr>"

definition mode_only :: "bool fbsplash_lib" where
  "mode_only = \<lparr>fb_lib_init = (\<lambda>b. Pair True), fb_configure = (\<lambda>t w. w), fb_render_init = Pair True, fb_theme_load = Pair (Some 1),
     fb_theme_free = (\<lambda>t w. w), fb_is_silent = (\<lambda>w. w), fb_set_silent = (\<lambda>w. True), fb_set_verbose = (\<lambda>w. False),
     fb_tty_init = (\<lambda>w. w), fb_tty_update = (\<lambda>w. w), fb_tty_cleanup = (\<lambda>w. w), fb_message = (\<lambda>t m w. w), fb_render = (\<lambda>t e w. w),
     fb_progress_set = (\<lambda>t p w. w), fb_input_init = Pair True, fb_input_cleanup = (\<lambda>w. w), fb_getkey = Pair 47,
     fb_render_cleanup = (\<lambda>w. w), fb_lib_cleanup = (\<lambda>w. w), fb_getpass = Pair None, fb_progress_max = 65535\<rparr>"

theorem fbsplash_console_back_witness:
  "\<exists>v1 w1 v2 w2 r v3 w3. fbsplashfuncs_open mode_only [] SPL_RESUME splash_vars_init False = (0, v1, w1) \<and>
    fb_calls_run quiet_terminal mode_only [Fb_key, Fb_key, Fb_progress 20] (v1, w1) = Some (v2, w2) \<and>
    fbsplashfuncs_finish mode_only v2 w2 = (r, v3, w3) \<and> w2 \<and> \<not> w3"
proof -
  obtain v1 w1 where opened: "fbsplashfuncs_open mode_only [] SPL_RESUME splash_vars_init False = (0, v1, w1)"
    by (simp add: fbsplashfuncs_open_def mode_only_def)
  then have v1: "v1 = splash_vars_init\<lparr>theme := Some 1, have_input := True\<rparr>" and w1: "w1"
    by (auto simp: fbsplashfuncs_open_def mode_only_def splash_vars_init_def)
  obtain v2 w2 where run: "fb_calls_run quiet_terminal mode_only [Fb_key, Fb_key, Fb_progress 20] (v1, w1) = Some (v2, w2)" and "w2"
    by (simp add: v1 w1 fbsplashfuncs_key_pressed_def fbsplashfuncs_progress_def mode_only_def splash_vars_init_def
        char_of_code_def KEY_V_def)
  obtain r v3 w3 where fin: "fbsplashfuncs_finish mode_only v2 w2 = (r, v3, w3)" by (rule prod_cases3)
  have "silent_laws quiet_terminal mode_only" by (simp add: silent_laws_def quiet_terminal_def mode_only_def)
  from fbsplash_console_back [OF this _ opened run fin] have "\<not> w3"
    by (simp add: splash_vars_init_def mode_only_def)
  with opened run fin \<open>w2\<close> show ?thesis by blast
qed

end
