(* ===== verification/Splash.thy ===== *)
theory Splash
  imports Splash_Systems
begin

text \<open>
  \<open>splash_prepare\<close> of \<open>splash.c\<close>: the interface \<open>struct splash\<close> and its four implementations. The two programs
  reach the terminal, the keyboard and the passphrase through it; the locale \<open>passphrase_prompt\<close> says what they
  need of the last.
\<close>

section \<open>The interface\<close>

record 'w splash =
  sp_finish :: "splash_vars \<Rightarrow> 'w \<Rightarrow> int \<times> splash_vars \<times> 'w"
  sp_progress :: "int \<Rightarrow> splash_vars \<Rightarrow> 'w \<Rightarrow> int \<times> splash_vars \<times> 'w"
  sp_switch_to :: "splash_vars \<Rightarrow> 'w \<Rightarrow> 'w"
  sp_read_password :: "bool \<Rightarrow> byte list \<Rightarrow> splash_vars \<Rightarrow> 'w \<Rightarrow> (byte list \<times> splash_vars \<times> 'w) option"
  sp_dialog :: "byte list \<Rightarrow> splash_vars \<Rightarrow> 'w \<Rightarrow> int \<times> splash_vars \<times> 'w"
  sp_prepare_abort :: "termios \<Rightarrow> termios \<Rightarrow> 'w \<Rightarrow> (int \<times> termios \<times> termios) \<times> 'w"
  sp_key_pressed :: "splash_vars \<Rightarrow> 'w \<Rightarrow> (int \<times> splash_vars \<times> 'w) option"
  sp_restore_abort :: "termios \<Rightarrow> 'w \<Rightarrow> 'w"
  sp_set_caption :: "byte list \<Rightarrow> splash_vars \<Rightarrow> 'w \<Rightarrow> splash_vars \<times> 'w"

text \<open>The world of the splash systems, with the configuration variable \<open>fbsplash_theme\<close>.\<close>

record 'w splash_env =
  se_input :: "'w input_calls"
  se_proc :: "'w proc_splash"
  se_fb :: "'w fbsplash_lib"
  se_splashy :: "'w splashy_lib"
  se_posix :: "'w posix"
  se_machine :: "'w machine"
  se_theme :: "byte list"

definition splash_dummy_int_void :: "splash_vars \<Rightarrow> 'w \<Rightarrow> int \<times> splash_vars \<times> 'w" where
  "splash_dummy_int_void v w = (0, v, w)"

definition splash_dummy_int_int :: "int \<Rightarrow> splash_vars \<Rightarrow> 'w \<Rightarrow> int \<times> splash_vars \<times> 'w" where
  "splash_dummy_int_int p v w = (0, v, w)"

definition splash_dummy_void_void :: "splash_vars \<Rightarrow> 'w \<Rightarrow> 'w" where
  "splash_dummy_void_void v w = w"

definition splash_dummy_set_caption :: "byte list \<Rightarrow> splash_vars \<Rightarrow> 'w \<Rightarrow> splash_vars \<times> 'w" where
  "splash_dummy_set_caption message v w = (v, w)"

text \<open>A function on the world alone, as a function of the interface.\<close>

definition with_vars :: "('w \<Rightarrow> 'r \<times> 'w) \<Rightarrow> splash_vars \<Rightarrow> 'w \<Rightarrow> 'r \<times> splash_vars \<times> 'w" where
  "with_vars f v w = (let (r, w) = f w in (r, v, w))"

definition key_pressed_fds :: "'w input_calls \<Rightarrow> splash_vars \<Rightarrow> 'w \<Rightarrow> (int \<times> splash_vars \<times> 'w) option" where
  "key_pressed_fds I v w = do { (c, w) \<leftarrow> key_pressed_events I (sv_input v) w; Some (c, v, w) }"

text \<open>The passphrase without a splash screen, and the one of splashy; the second half of the buffer is \<open>vrfy_buf\<close>.\<close>

definition plain_read_password :: "'w input_calls \<Rightarrow> bool \<Rightarrow> byte list \<Rightarrow> splash_vars \<Rightarrow> 'w \<Rightarrow> (byte list \<times> splash_vars \<times> 'w) option" where
  "plain_read_password I vrfy buf v w = do { (buf, w) \<leftarrow> tty_read_password I vrfy buf w; Some (buf, v, w) }"

definition splashy_password :: "'w splashy_lib \<Rightarrow> bool \<Rightarrow> byte list \<Rightarrow> splash_vars \<Rightarrow> 'w \<Rightarrow> (byte list \<times> splash_vars \<times> 'w) option" where
  "splashy_password Y vrfy buf v w = do {
     (a, b, w) \<leftarrow> splashy_read_password Y vrfy (take PASS_SIZE buf) (drop PASS_SIZE buf) w; Some (a @ b, v, w) }"

definition no_splash :: "'w splash_env \<Rightarrow> 'w splash" where
  "no_splash E =
     \<lparr>sp_finish = splash_dummy_int_void, sp_progress = splash_dummy_int_int, sp_switch_to = splash_dummy_void_void,
      sp_read_password = plain_read_password (se_input E), sp_dialog = (\<lambda>s. with_vars (splash_dialog (se_input E) s)),
      sp_prepare_abort = prepare_abort (se_input E), sp_key_pressed = (\<lambda>v w. Some (with_vars (simple_key_pressed (se_input E)) v w)),
      sp_restore_abort = restore_abort (se_input E), sp_set_caption = splash_dummy_set_caption\<rparr>"

definition bootsplash_splash :: "'w splash_env \<Rightarrow> 'w splash" where
  "bootsplash_splash E = (no_splash E)
     \<lparr>sp_finish := bootsplash_finish (se_proc E), sp_progress := bootsplash_progress (se_proc E),
      sp_switch_to := bootsplash_switch_to (se_posix E) (se_machine E), sp_dialog := bootsplash_dialog (se_input E) (se_proc E),
      sp_read_password := bootsplash_read_password (se_input E) (se_proc E)\<rparr>"

definition fbsplash_splash :: "'w splash_env \<Rightarrow> 'w splash" where
  "fbsplash_splash E = (no_splash E)
     \<lparr>sp_finish := fbsplashfuncs_finish (se_fb E), sp_progress := fbsplashfuncs_progress (se_fb E),
      sp_dialog := fbsplashfuncs_dialog (se_input E) (se_fb E), sp_read_password := fbsplashfuncs_read_password (se_fb E),
      sp_key_pressed := (\<lambda>v w. Some (fbsplashfuncs_key_pressed (se_fb E) v w)), sp_set_caption := fbsplashfuncs_set_caption (se_fb E)\<rparr>"

definition splashy_splash :: "'w splash_env \<Rightarrow> 'w splash" where
  "splashy_splash E = (no_splash E)
     \<lparr>sp_finish := with_vars (splashy_finish (se_splashy E)), sp_progress := (\<lambda>p. with_vars (splashy_progress (se_splashy E) p)),
      sp_dialog := (\<lambda>s. with_vars (splashy_dialog (se_splashy E) s)), sp_read_password := splashy_password (se_splashy E)\<rparr>"

text \<open>\<open>if (!open_input_fd()) splash->key_pressed = key_pressed;\<close>\<close>

definition use_input_fds :: "'w splash_env \<Rightarrow> 'w splash \<Rightarrow> splash_vars \<Rightarrow> 'w \<Rightarrow> ('w splash \<times> splash_vars \<times> 'w) option" where
  "use_input_fds E S v w = do {
     (error, f, w) \<leftarrow> open_input_fd (se_input E) (sv_input v) w;
     Some (if error = 0 then S\<lparr>sp_key_pressed := key_pressed_fds (se_input E)\<rparr> else S, v\<lparr>sv_input := f\<rparr>, w)
   }"

text \<open>\<open>None\<close> if the directory with the input devices never ends.\<close>

definition splash_prepare :: "'w splash_env \<Rightarrow> int \<Rightarrow> splash_vars \<Rightarrow> 'w \<Rightarrow> ('w splash \<times> splash_vars \<times> 'w) option" where
  "splash_prepare E mode v w =
     (if mode = 0 then Some (no_splash E, v, w)
      else let (r, v, w) = bootsplash_open (se_proc E) v w
      in if r = 0 then do {
           (S, v, w) \<leftarrow> use_input_fds E (bootsplash_splash E) v w;
           let (r, v, w) = sp_progress S 0 v w;
           Some (S, v, w)
         }
         else let (r, v, w) = fbsplashfuncs_open (se_fb E) (se_theme E) mode v w
         in if r = 0 then
           (let S = fbsplash_splash E; (r, v, w) = sp_progress S 0 v w in Some (S, v, w))
         else let (r, w) = splashy_open (se_splashy E) mode w
         in if r = 0 then do {
           (S, v, w) \<leftarrow> use_input_fds E (splashy_splash E) v w;
           let (r, v, w) = sp_progress S 0 v w;
           Some (S, v, w)
         }
         else use_input_fds E (no_splash E) v w)"

section \<open>The passphrase\<close>

text \<open>
  What the key derivation relies on: the passphrase that the user enters, twice where it is to be verified, is
  the string in the buffer. \<open>entries\<close> are the lines that the user is going to enter.
\<close>

definition passphrase :: "byte list \<Rightarrow> bool" where
  "passphrase p \<longleftrightarrow> p \<noteq> [] \<and> length p < PASS_SIZE - 1 \<and> 0 \<notin> set p \<and> 10 \<notin> set p"

definition entered :: "bool \<Rightarrow> byte list \<Rightarrow> byte list list" where
  "entered vrfy p = (if vrfy then [p, p] else [p])"

locale passphrase_prompt =
  fixes prompt :: "bool \<Rightarrow> byte list \<Rightarrow> splash_vars \<Rightarrow> 'w \<Rightarrow> (byte list \<times> splash_vars \<times> 'w) option"
    and entries :: "'w \<Rightarrow> byte list list"
    and laws :: bool
  assumes prompt_law: "laws \<Longrightarrow> passphrase p \<Longrightarrow> length buf = 2 * PASS_SIZE \<Longrightarrow> entries w = entered vrfy p @ ps \<Longrightarrow>
      \<exists>buf' v' w'. prompt vrfy buf v w = Some (buf', v', w') \<and> c_string buf' = p \<and> entries w' = ps"
begin

lemma prompt_key:
  assumes "laws" and p: "passphrase p" and "length buf = 2 * PASS_SIZE" and "entries w = entered vrfy p @ ps"
    and ctx: "length (md5_buf ctx) = 128"
  shows "\<exists>buf' v' w'. prompt vrfy buf v w = Some (buf', v', w') \<and> entries w' = ps \<and>
      encrypt_init al ctx buf' = (rfc_md5 p, strncpy_zero CIPHER_BLOCK p)"
proof -
  obtain buf' v' w' where r: "prompt vrfy buf v w = Some (buf', v', w')" "c_string buf' = p" "entries w' = ps"
    using prompt_law [OF assms(1-4)] by blast
  have "length (c_string buf') < 2 ^ 32" using p r(2) by (simp add: passphrase_def PASS_SIZE_def)
  from encrypt_init_ok [OF ctx this] have "encrypt_init al ctx buf' = (rfc_md5 p, strncpy_zero CIPHER_BLOCK p)"
    using r(2) c_string_id [OF c_string_no_zero, of buf'] by (simp add: strncpy_zero_def)
  with r show ?thesis by blast
qed

end

text \<open>
  What the prompts rest on: the terminal gives the lines one by one, neither its settings nor \<open>/proc/splash\<close> take
  any of them; \<open>getpass\<close> and \<open>splashy_get_password\<close> give the next line as a C string.
\<close>

definition tty_laws :: "'w input_calls \<Rightarrow> ('w \<Rightarrow> byte list list) \<Rightarrow> bool" where
  "tty_laws I entries \<longleftrightarrow>
     (\<forall>r w. stdin_left I (set_stdin I r w) = r) \<and>
     (\<forall>r r' w. set_stdin I r (set_stdin I r' w) = set_stdin I r w) \<and>
     (\<forall>p ps w. entries w = p # ps \<longrightarrow> (\<exists>r. stdin_left I w = p @ 10 # r \<and> entries (set_stdin I r w) = ps)) \<and>
     (\<forall>w. entries (snd (tc_get I w)) = entries w) \<and> (\<forall>t w. entries (snd (tc_set I t w)) = entries w)"

definition proc_laws :: "'w proc_splash \<Rightarrow> ('w \<Rightarrow> byte list list) \<Rightarrow> bool" where
  "proc_laws B entries \<longleftrightarrow>
     (\<forall>s w. entries (snd (ps_puts B s w)) = entries w) \<and> (\<forall>w. entries (ps_flush B w) = entries w) \<and>
     (\<forall>w. entries (ps_close B w) = entries w)"

definition getpass_laws :: "'w fbsplash_lib \<Rightarrow> ('w \<Rightarrow> byte list list) \<Rightarrow> bool" where
  "getpass_laws F entries \<longleftrightarrow>
     (\<forall>p ps w. entries w = p # ps \<longrightarrow> fst (fb_getpass F w) = Some p \<and> entries (snd (fb_getpass F w)) = ps) \<and>
     (\<forall>w. entries (fb_set_verbose F w) = entries w) \<and> (\<forall>w. entries (fb_set_silent F w) = entries w) \<and>
     (\<forall>w. entries (fb_tty_update F w) = entries w)"

definition splashy_laws :: "'w splashy_lib \<Rightarrow> ('w \<Rightarrow> byte list list) \<Rightarrow> bool" where
  "splashy_laws Y entries \<longleftrightarrow>
     (\<forall>p ps buf w. entries w = p # ps \<longrightarrow> length p < PASS_SIZE \<longrightarrow> length buf = PASS_SIZE \<longrightarrow>
        fst (spl_get_password Y PASS_SIZE buf w) = (int (length p), p @ 0 # drop (length p + 1) buf) \<and>
        entries (snd (spl_get_password Y PASS_SIZE buf w)) = ps)"

definition user_laws :: "'w splash_env \<Rightarrow> ('w \<Rightarrow> byte list list) \<Rightarrow> bool" where
  "user_laws E entries \<longleftrightarrow> tty_laws (se_input E) entries \<and> proc_laws (se_proc E) entries \<and>
     getpass_laws (se_fb E) entries \<and> splashy_laws (se_splashy E) entries"

subsection \<open>The terminal\<close>

lemma passphrase_fgets:
  assumes "passphrase p"
  shows "fgets PASS_SIZE buf (p @ 10 # r) = (p @ 10 # 0 # drop (length p + 2) buf, r)"
  using assms by (intro fgets_line) (auto simp: passphrase_def)

lemma passphrase_line:
  assumes "passphrase p"
  shows "strlen (p @ 10 # 0 # x) = length p + 1" and "strip_newline (length p) (p @ 10 # 0 # x) = p @ 0 # 0 # x"
    and "c_string (p @ 0 # x) = p"
proof -
  have "c_string ((p @ [10]) @ 0 # x) = p @ [10]" using assms by (intro c_string_append) (auto simp: passphrase_def)
  then show "strlen (p @ 10 # 0 # x) = length p + 1" by (simp add: strlen_def)
  show "strip_newline (length p) (p @ 10 # 0 # x) = p @ 0 # 0 # x" by (simp add: strip_newline_def)
  show "c_string (p @ 0 # x) = p" using assms by (intro c_string_append) (auto simp: passphrase_def)
qed

lemma read_password_line:
  assumes p: "passphrase p"
  shows "\<exists>x b'. read_password vrfy a b (concat (map (\<lambda>l. l @ [10]) (entered vrfy p)) @ r) = Some (p @ 0 # x, b', r)"
proof -
  note line = passphrase_line [OF p] passphrase_fgets [OF p]
  have "p \<noteq> []" using p by (simp add: passphrase_def)
  then have "read_nonempty a (p @ 10 # s) = Some (p @ 10 # 0 # drop (length p + 2) a, s)" for s
    by (subst read_nonempty.simps) (simp add: line)
  then have first: "read_nonempty a (p @ 10 # s) = Some (p @ 10 # 0 # drop (length p + 2) a, s)" for s .
  show ?thesis
    by (cases vrfy; subst read_password.simps)
       (simp_all add: first line entered_def Let_def del: drop_append)
qed

lemma entries_stdin_line:
  "tty_laws I entries \<Longrightarrow> entries w = p # ps \<Longrightarrow> \<exists>r. stdin_left I w = p @ 10 # r \<and> entries (set_stdin I r w) = ps"
  by (simp add: tty_laws_def)

lemma entries_stdin:
  assumes laws: "tty_laws I entries" and e: "entries w = entered vrfy p @ ps"
  shows "\<exists>r. stdin_left I w = concat (map (\<lambda>l. l @ [10]) (entered vrfy p)) @ r \<and> entries (set_stdin I r w) = ps"
proof (cases vrfy)
  case True
  then have "entries w = p # p # ps" using e by (simp add: entered_def)
  from entries_stdin_line [OF laws this] obtain r
    where r: "stdin_left I w = p @ 10 # r" "entries (set_stdin I r w) = p # ps" by blast
  from entries_stdin_line [OF laws r(2)] obtain r'
    where "stdin_left I (set_stdin I r w) = p @ 10 # r'" "entries (set_stdin I r' (set_stdin I r w)) = ps" by blast
  then show ?thesis using r True laws by (auto simp: tty_laws_def entered_def)
next
  case False
  then show ?thesis using entries_stdin_line [OF laws, of w p ps] e by (simp add: entered_def)
qed

lemma tty_prompt:
  assumes laws: "tty_laws I entries" and p: "passphrase p" and e: "entries w = entered vrfy p @ ps"
  shows "\<exists>buf' w'. tty_read_password I vrfy buf w = Some (buf', w') \<and> c_string buf' = p \<and> entries w' = ps"
proof -
  have kept: "entries (snd (tc_get I w)) = entries w" "entries (snd (tc_set I t w)) = entries w" for t w
    using laws by (simp_all add: tty_laws_def)
  define t where "t = (snd (fst (tc_get I w)))\<lparr>c_lflag := (c_lflag (snd (fst (tc_get I w))) AND NOT ECHO) OR (ICANON OR ECHONL)\<rparr>"
  define w1 where "w1 = snd (tc_set I t (snd (tc_get I w)))"
  have "entries w1 = entered vrfy p @ ps" by (simp add: w1_def kept e)
  from entries_stdin [OF laws this] obtain r
    where r: "stdin_left I w1 = concat (map (\<lambda>l. l @ [10]) (entered vrfy p)) @ r" "entries (set_stdin I r w1) = ps" by blast
  obtain x b' where "read_password vrfy (take PASS_SIZE buf) (drop PASS_SIZE buf) (stdin_left I w1) = Some (p @ 0 # x, b', r)"
    using read_password_line [OF p] r(1) by metis
  then show ?thesis
    using r(2) passphrase_line(3) [OF p] by (simp add: tty_read_password_def case_prod_beta Let_def t_def [symmetric] w1_def [symmetric] kept)
qed

interpretation plain: passphrase_prompt "plain_read_password I" entries "tty_laws I entries" for I entries
proof unfold_locales
  fix p buf :: "byte list" and ps vrfy v and w :: 'a
  assume "tty_laws I entries" "passphrase p" "entries w = entered vrfy p @ ps"
  from tty_prompt [OF this, of buf]
  show "\<exists>buf' v' w'. plain_read_password I vrfy buf v w = Some (buf', v', w') \<and> c_string buf' = p \<and> entries w' = ps"
    by (auto simp: plain_read_password_def)
qed

subsection \<open>bootsplash\<close>

lemma bootsplash_write_entries:
  "proc_laws B entries \<Longrightarrow> bootsplash_write B s v w = (r, v', w') \<Longrightarrow> entries w' = entries w"
  by (auto simp: proc_laws_def bootsplash_write_def bootsplash_finish_def case_prod_beta Let_def split: if_splits)

interpretation boot: passphrase_prompt "bootsplash_read_password I B" entries "tty_laws I entries \<and> proc_laws B entries"
  for I B entries
proof unfold_locales
  fix p buf :: "byte list" and ps vrfy v and w :: 'a
  assume "tty_laws I entries \<and> proc_laws B entries"
  then have tty: "tty_laws I entries" and B: "proc_laws B entries" by simp_all
  assume p: "passphrase p" and e: "entries w = entered vrfy p @ ps"
  obtain r1 v1 w1 where verbose: "bootsplash_to_verbose B v w = (r1, v1, w1)" by (rule prod_cases3)
  then have "entries w1 = entered vrfy p @ ps"
    using bootsplash_write_entries [OF B] e unfolding bootsplash_to_verbose_def by metis
  from tty_prompt [OF tty p this, of buf] obtain buf' w2
    where read: "tty_read_password I vrfy buf w1 = Some (buf', w2)" "c_string buf' = p" "entries w2 = ps" by blast
  obtain r3 v3 w3 where silent: "bootsplash_to_silent B v1 w2 = (r3, v3, w3)" by (rule prod_cases3)
  then have "entries w3 = ps"
    using bootsplash_write_entries [OF B] read(3) unfolding bootsplash_to_silent_def by metis
  with verbose read silent
  show "\<exists>buf' v' w'. bootsplash_read_password I B vrfy buf v w = Some (buf', v', w') \<and> c_string buf' = p \<and> entries w' = ps"
    by (simp add: bootsplash_read_password_def)
qed

subsection \<open>fbsplash\<close>

lemma getpass_entries:
  "getpass_laws F entries \<Longrightarrow> entries w = p # ps \<Longrightarrow> \<exists>w'. fb_getpass F w = (Some p, w') \<and> entries w' = ps"
  by (cases "fb_getpass F w") (force simp: getpass_laws_def)

lemma getpass_verified_entries:
  assumes laws: "getpass_laws F entries" and p: "passphrase p" and e: "entries w = entered vrfy p @ ps"
  shows "\<exists>w'. getpass_verified F vrfy buf w = Some (p @ 0 # drop (length p + 1) buf, w') \<and> entries w' = ps"
proof -
  have "entries w = p # (if vrfy then p # ps else ps)" using e by (simp add: entered_def)
  from getpass_entries [OF laws this] obtain w1
    where w1: "fb_getpass F w = (Some p, w1)" "entries w1 = (if vrfy then p # ps else ps)" by blast
  have first: "getpass_nonempty F w = Some (p, w1)"
    using w1(1) p by (subst getpass_nonempty.simps) (auto simp: passphrase_def)
  show ?thesis
  proof (cases vrfy)
    case True
    then obtain w2 where "fb_getpass F w1 = (Some p, w2)" "entries w2 = ps"
      using getpass_entries [OF laws, of w1 p ps] w1(2) by auto
    then show ?thesis using True first by (subst getpass_verified.simps) simp
  next
    case False
    then show ?thesis using first w1(2) by (subst getpass_verified.simps) simp
  qed
qed

interpretation fb: passphrase_prompt "fbsplashfuncs_read_password F" entries "getpass_laws F entries" for F entries
proof unfold_locales
  fix p buf :: "byte list" and ps vrfy v and w :: 'a
  assume laws: "getpass_laws F entries" and p: "passphrase p" and "entries w = entered vrfy p @ ps"
  then have "entries (fb_go_verbose F w) = entered vrfy p @ ps" by (simp add: getpass_laws_def fb_go_verbose_def)
  from getpass_verified_entries [OF laws p this, of buf] obtain w' where
    "getpass_verified F vrfy buf (fb_go_verbose F w) = Some (p @ 0 # drop (length p + 1) buf, w')" "entries w' = ps" by blast
  moreover from this(2) have "entries (fb_silent_again F v w') = ps"
    using laws by (simp add: getpass_laws_def fb_silent_again_def)
  ultimately show "\<exists>buf' v' w'. fbsplashfuncs_read_password F vrfy buf v w = Some (buf', v', w') \<and> c_string buf' = p \<and> entries w' = ps"
    using passphrase_line(3) [OF p] by (simp add: fbsplashfuncs_read_password_def)
qed

subsection \<open>splashy\<close>

lemma splashy_ask_entries:
  assumes "splashy_laws Y entries" and p: "passphrase p" and "entries w = p # ps" and "length buf = PASS_SIZE"
  shows "\<exists>w'. splashy_ask Y buf w = Some (p @ 0 # drop (length p + 1) buf, w') \<and> entries w' = ps"
proof -
  have "length p < PASS_SIZE" "p \<noteq> []" using p by (auto simp: passphrase_def)
  then show ?thesis
    using assms by (subst splashy_ask.simps, cases "spl_get_password Y PASS_SIZE buf w") (force simp: splashy_laws_def)
qed

interpretation splashy: passphrase_prompt "splashy_password Y" entries "splashy_laws Y entries" for Y entries
proof unfold_locales
  fix p buf :: "byte list" and ps vrfy v and w :: 'a
  assume laws: "splashy_laws Y entries" and p: "passphrase p" and e: "entries w = entered vrfy p @ ps"
    and "length buf = 2 * PASS_SIZE"
  then have len: "length (take PASS_SIZE buf) = PASS_SIZE" "length (drop PASS_SIZE buf) = PASS_SIZE" by simp_all
  note line = passphrase_line(3) [OF p]
  have "entries w = p # (if vrfy then p # ps else ps)" using e by (simp add: entered_def)
  from splashy_ask_entries [OF laws p this len(1)] obtain w1 x
    where w1: "splashy_ask Y (take PASS_SIZE buf) w = Some (p @ 0 # x, w1)" "entries w1 = (if vrfy then p # ps else ps)" by blast
  have "\<exists>b w'. splashy_read_password Y vrfy (take PASS_SIZE buf) (drop PASS_SIZE buf) w = Some (p @ 0 # x, b, w') \<and> entries w' = ps"
  proof (cases vrfy)
    case True
    then have "entries w1 = p # ps" using w1(2) by simp
    from splashy_ask_entries [OF laws p this len(2)] obtain w2 y
      where "splashy_ask Y (drop PASS_SIZE buf) w1 = Some (p @ 0 # y, w2)" "entries w2 = ps" by blast
    then show ?thesis using True w1(1) by (subst splashy_read_password.simps) (simp add: line)
  next
    case False
    then show ?thesis using w1 by (subst splashy_read_password.simps) simp
  qed
  then show "\<exists>buf' v' w'. splashy_password Y vrfy buf v w = Some (buf', v', w') \<and> c_string buf' = p \<and> entries w' = ps"
    using line by (auto simp: splashy_password_def)
qed

section \<open>Properties\<close>

lemma use_input_fds_password:
  "use_input_fds E S v w = Some (S', v', w') \<Longrightarrow> sp_read_password S' = sp_read_password S"
  by (auto simp: use_input_fds_def split: bind_splits if_splits)

text \<open>The prompt that \<open>splash_prepare\<close> chooses is one of four.\<close>

lemma splash_prepare_password:
  assumes "splash_prepare E mode v0 w0 = Some (S, v1, w1)"
  obtains "sp_read_password S = plain_read_password (se_input E)"
    | "sp_read_password S = bootsplash_read_password (se_input E) (se_proc E)"
    | "sp_read_password S = fbsplashfuncs_read_password (se_fb E)"
    | "sp_read_password S = splashy_password (se_splashy E)"
  using assms
  by (auto simp: splash_prepare_def no_splash_def bootsplash_splash_def fbsplash_splash_def splashy_splash_def
      case_prod_beta Let_def split: if_splits bind_splits dest!: use_input_fds_password)

text \<open>
  C33: The key does not depend on the splash system. Whichever system \<open>splash_prepare\<close> finds, asking for a passphrase
  ends, it takes the lines that the user enters for it and no more, and the key and the vector that \<open>encrypt_init\<close>
  makes of the buffer are the MD5 digest and the first bytes of what the user has entered: an image saved under
  one splash screen can be read under another.
\<close>

theorem passphrase_key_any_splash:
  assumes laws: "user_laws E entries" and found: "splash_prepare E mode v0 w0 = Some (S, v1, w1)"
    and p: "passphrase p" and buf: "length buf = 2 * PASS_SIZE" and e: "entries w = entered vrfy p @ ps"
    and ctx: "length (md5_buf ctx) = 128"
  shows "\<exists>buf' v' w'. sp_read_password S vrfy buf v w = Some (buf', v', w') \<and> entries w' = ps \<and>
      encrypt_init al ctx buf' = (rfc_md5 p, strncpy_zero CIPHER_BLOCK p)"
  using found
proof (cases rule: splash_prepare_password)
  case 1
  then show ?thesis using laws plain.prompt_key [where entries = entries and w = w, OF _ p buf e ctx] by (simp add: user_laws_def)
next
  case 2
  then show ?thesis using laws boot.prompt_key [where entries = entries and w = w, OF _ p buf e ctx] by (simp add: user_laws_def)
next
  case 3
  then show ?thesis using laws fb.prompt_key [where entries = entries and w = w, OF _ p buf e ctx] by (simp add: user_laws_def)
next
  case 4
  then show ?thesis using laws splashy.prompt_key [where entries = entries and w = w, OF _ p buf e ctx] by (simp add: user_laws_def)
qed

text \<open>A user who types lines: the world is what has not been read. There is a framebuffer, and nothing else.\<close>

definition next_line :: "byte list \<Rightarrow> byte list" where
  "next_line w = takeWhile (\<lambda>c. c \<noteq> 10) w"

definition skip_line :: "byte list \<Rightarrow> byte list" where
  "skip_line w = tl (dropWhile (\<lambda>c. c \<noteq> 10) w)"

function typed_lines :: "byte list \<Rightarrow> byte list list" where
  "typed_lines w = (if 10 \<in> set w then next_line w # typed_lines (skip_line w) else [])"
  by pat_completeness auto
termination
proof (relation "measure length")
  fix w :: "byte list"
  assume "10 \<in> set w"
  then have "dropWhile (\<lambda>c. c \<noteq> 10) w \<noteq> []" by (auto simp: dropWhile_eq_Nil_conv)
  then have "length (skip_line w) < length (dropWhile (\<lambda>c. c \<noteq> 10) w)" by (simp add: skip_line_def)
  then show "(skip_line w, w) \<in> measure length" by (simp add: length_dropWhile_le order.strict_trans2)
qed simp

declare typed_lines.simps [simp del]

lemma typed_lines_Cons:
  assumes "typed_lines w = p # ps"
  shows "w = p @ 10 # skip_line w" and "p = next_line w" and "typed_lines (skip_line w) = ps"
proof -
  have nl: "10 \<in> set w" and "p = next_line w" "typed_lines (skip_line w) = ps"
    using assms by (subst (asm) typed_lines.simps; simp split: if_splits)+
  then show "p = next_line w" "typed_lines (skip_line w) = ps" by simp_all
  have "dropWhile (\<lambda>c. c \<noteq> 10) w = 10 # skip_line w"
    using nl by (induction w) (auto simp: skip_line_def)
  then show "w = p @ 10 # skip_line w"
    using takeWhile_dropWhile_id [of "\<lambda>c. c \<noteq> 10" w] \<open>p = next_line w\<close> by (simp add: next_line_def)
qed

definition typing_user :: "byte list splash_env" where
  "typing_user = \<lparr>se_input = quiet_terminal\<lparr>stdin_left := (\<lambda>w. w), set_stdin := (\<lambda>r w. r)\<rparr>,
     se_proc = \<lparr>ps_open = Pair False, ps_gets = (\<lambda>n. Pair None), ps_puts = (\<lambda>s. Pair True), ps_flush = (\<lambda>w. w), ps_close = (\<lambda>w. w)\<rparr>,
     se_fb = \<lparr>fb_lib_init = (\<lambda>b. Pair True), fb_configure = (\<lambda>t w. w), fb_render_init = Pair True, fb_theme_load = Pair (Some 1),
       fb_theme_free = (\<lambda>t w. w), fb_is_silent = (\<lambda>w. True), fb_set_silent = (\<lambda>w. w), fb_set_verbose = (\<lambda>w. w),
       fb_tty_init = (\<lambda>w. w), fb_tty_update = (\<lambda>w. w), fb_tty_cleanup = (\<lambda>w. w), fb_message = (\<lambda>t m w. w), fb_render = (\<lambda>t e w. w),
       fb_progress_set = (\<lambda>t p w. w), fb_input_init = Pair False, fb_input_cleanup = (\<lambda>w. w), fb_getkey = Pair 0,
       fb_render_cleanup = (\<lambda>w. w), fb_lib_cleanup = (\<lambda>w. w), fb_getpass = (\<lambda>w. (Some (next_line w), skip_line w)),
       fb_progress_max = 65535\<rparr>,
     se_splashy = \<lparr>spl_init = (\<lambda>b. Pair (- 1)), spl_start = Pair (- 1), spl_stop = (\<lambda>w. w), spl_progress = (\<lambda>p w. w),
       spl_get_password = (\<lambda>n buf w. ((int (length (next_line w)), next_line w @ 0 # drop (length (next_line w) + 1) buf), skip_line w)),
       spl_printline = (\<lambda>s w. w), spl_getchar = Pair (- 1)\<rparr>,
     se_posix = idle_posix, se_machine = idle_machine, se_theme = []\<rparr>"

lemma typing_user_laws: "user_laws typing_user typed_lines"
  by (auto simp: user_laws_def tty_laws_def proc_laws_def getpass_laws_def splashy_laws_def typing_user_def quiet_terminal_def
      dest: typed_lines_Cons)

lemma typing_user_splash: "\<exists>S v1 w1. splash_prepare typing_user SPL_SUSPEND splash_vars_init w = Some (S, v1, w1) \<and>
    sp_read_password S = fbsplashfuncs_read_password (se_fb typing_user)"
  by (simp add: splash_prepare_def bootsplash_open_def fbsplashfuncs_open_def fbsplash_splash_def typing_user_def SPL_SUSPEND_def
      case_prod_beta Let_def)

theorem passphrase_key_any_splash_witness:
  "\<exists>buf' v' w'. fbsplashfuncs_read_password (se_fb typing_user) True (replicate 256 0) splash_vars_init
      (map of_char ''secret'' @ 10 # map of_char ''secret'' @ [10, 65]) = Some (buf', v', w') \<and> typed_lines w' = [] \<and>
    encrypt_init 0 zero_ctx buf' = (rfc_md5 (map of_char ''secret''), map of_char ''secret'' @ [0, 0])"
proof -
  obtain S v1 w1 where S: "splash_prepare typing_user SPL_SUSPEND splash_vars_init [] = Some (S, v1, w1)"
    "sp_read_password S = fbsplashfuncs_read_password (se_fb typing_user)" using typing_user_splash by blast
  have typed: "typed_lines (map of_char ''secret'' @ 10 # map of_char ''secret'' @ [10, 65]) = entered True (map of_char ''secret'') @ []"
    by (simp add: typed_lines.simps next_line_def skip_line_def entered_def)
  have p: "passphrase (map of_char ''secret'')" by (simp add: passphrase_def PASS_SIZE_def)
  have ivec: "strncpy_zero CIPHER_BLOCK (map of_char ''secret'') = map of_char ''secret'' @ [0, 0]"
    by (simp add: strncpy_zero_def c_string_def CIPHER_BLOCK_def) (simp add: numeral_2_eq_2)
  show ?thesis
    using passphrase_key_any_splash [where entries = typed_lines and vrfy = True and ps = "[]" and al = 0 and v = splash_vars_init
        and buf = "replicate 256 0" and ctx = zero_ctx, OF typing_user_laws S(1) p _ typed]
    by (simp add: S(2) PASS_SIZE_def zero_ctx_def ivec [simplified])
qed

end
