(* ===== verification/Splash_Keys.thy ===== *)
theory Splash_Keys
  imports Splash_Input Suspend_System
begin

text \<open>
  The loop of \<open>save_image\<close> that handles the keys pressed so far, on top of the keyboard that \<open>splash.c\<close> reads.
\<close>

text \<open>The keys that a queue of events stands for, as \<open>key_pressed\<close> delivers them.\<close>

definition keys :: "input_event list \<Rightarrow> int list" where
  "keys es = map (\<lambda>e. char_of_code (ev_code e)) (filter released es)"

lemma keys_first_release:
  "keys es = (if \<exists>e\<in>set es. released e then fst (first_release es) # keys (snd (first_release es)) else [])"
  "\<not> (\<exists>e\<in>set es. released e) \<Longrightarrow> fst (first_release es) = 0"
  "\<exists>e\<in>set es. released e \<Longrightarrow> length (snd (first_release es)) < length es"
proof -
  show "keys es = (if \<exists>e\<in>set es. released e then fst (first_release es) # keys (snd (first_release es)) else [])"
    by (induction es) (auto simp: keys_def first_release_def)
  show "\<not> (\<exists>e\<in>set es. released e) \<Longrightarrow> fst (first_release es) = 0"
    by (induction es) (auto simp: first_release_def)
  show "\<exists>e\<in>set es. released e \<Longrightarrow> length (snd (first_release es)) < length es"
    using length_dropWhile_le [of "\<lambda>e. \<not> released e" es]
    by (auto simp: first_release_def dropWhile_eq_Nil_conv split: list.splits)
qed

text \<open>One keyboard: \<open>key_pressed\<close> takes the next key from its queue, or 0.\<close>

lemma one_keyboard_key:
  assumes laws: "event_laws I queue" and f: "if_fds f = [fd]" "fd \<le> if_highest f"
    and L: "\<forall>w. key_pressed_events I f w = Some (key_pressed L w)"
  shows "\<exists>w'. key_pressed L w = (fst (first_release (queue fd w)), w') \<and> queue fd w' = snd (first_release (queue fd w))"
proof (cases "queue fd w = []")
  case True
  then have "fst (fd_select I (if_highest f + 1) [fd] w) = (0, []) \<and> queue fd (snd (fd_select I (if_highest f + 1) [fd] w)) = []"
    using laws f(2) unfolding event_laws_def Let_def by (auto dest: spec [of _ "if_highest f + 1"])
  then show ?thesis
    using L [rule_format, of w, symmetric] f(1) True
    by (cases "fd_select I (if_highest f + 1) [fd] w") (auto simp: key_pressed_events_def first_release_def)
next
  case False
  obtain w2 where sel: "fd_select I (if_highest f + 1) [fd] w = ((1, [fd]), w2)" and w2: "queue fd w2 = queue fd w"
  proof -
    have "fst (fd_select I (if_highest f + 1) [fd] w) = (1, [fd]) \<and> queue fd (snd (fd_select I (if_highest f + 1) [fd] w)) = queue fd w"
      using laws f(2) False unfolding event_laws_def Let_def by (auto dest: spec [of _ "if_highest f + 1"])
    then show ?thesis using that by (cases "fd_select I (if_highest f + 1) [fd] w") auto
  qed
  then have "key_pressed_events I f w = release_loop I fd w2"
    using f(1) by (simp add: key_pressed_events_def)
  then show ?thesis
    using release_loop_first [OF laws, of fd w2] L [rule_format, of w] w2 by auto
qed

text \<open>What the loop does to the shutdown method, and whether it aborts, as functions of the keys.\<close>

definition key_aborts :: "bool \<Rightarrow> int list \<Rightarrow> bool" where
  "key_aborts abort_possible ks \<longleftrightarrow> abort_possible \<and> ABORT_KEY_CODE \<in> set (takeWhile (\<lambda>k. 0 < k) ks)"

definition key_method :: "bool \<Rightarrow> int list \<Rightarrow> shutdown \<Rightarrow> shutdown" where
  "key_method abort_possible ks method =
     (if REBOOT_KEY_CODE \<in> set (takeWhile (\<lambda>k. 0 < k \<and> \<not> (k = ABORT_KEY_CODE \<and> abort_possible)) ks)
      then SHUTDOWN_METHOD_REBOOT else method)"


lemma key_pressed_returns:
  assumes "event_laws I queue"
  shows "\<exists>r. key_pressed_events I f w = Some r"
proof -
  obtain e ready w1 where "fd_select I (if_highest f + 1) (if_fds f) w = ((e, ready), w1)" by (metis surj_pair)
  moreover obtain w2 where "release_loop I (case find (\<lambda>fd. fd \<in> set ready) (if_fds f) of None \<Rightarrow> - 1 | Some fd \<Rightarrow> fd) w1 = Some w2"
    using release_loop_first [OF assms] by blast
  ultimately show ?thesis by (simp add: key_pressed_events_def)
qed


end
