(* ===== verification/Md5_Stream.thy ===== *)
theory Md5_Stream
  imports Md5 "HOL-Library.Monad_Syntax"
begin

text \<open>
  \<open>md5_stream\<close> of \<open>md5.c\<close>: the digest of a stream, read in blocks of 4096 bytes that \<open>fread\<close> may deliver in
  pieces. The stream is a parameter: its functions over the world.
\<close>

definition BLOCKSIZE :: nat where "BLOCKSIZE = 4096"

record 'w stream =
  st_read :: "nat \<Rightarrow> 'w \<Rightarrow> byte list \<times> 'w"     \<comment> \<open>\<open>fread (buffer + sum, 1, n, stream)\<close>\<close>
  st_error :: "'w \<Rightarrow> bool"
  st_eof :: "'w \<Rightarrow> bool"

text \<open>The inner loop: \<open>got\<close> are the first \<open>sum\<close> bytes of the buffer.\<close>

datatype block_result = Read_error | Partial_block "byte list" | Full_block "byte list"

partial_function (option) read_block :: "'w stream \<Rightarrow> byte list \<Rightarrow> 'w \<Rightarrow> (block_result \<times> 'w) option" where
  "read_block S got w =
     (let (bs, w) = st_read S (BLOCKSIZE - length got) w;
          got = got @ bs
      in if length got = BLOCKSIZE then Some (Full_block got, w)
         else if bs = [] then Some (if st_error S w then Read_error else Partial_block got, w)
         else if st_eof S w then Some (Partial_block got, w)
         else read_block S got w)"

text \<open>\<open>al\<close> is the address of the buffer. \<open>Inl 1\<close> is the result 1, \<open>None\<close> a stream without end.\<close>

partial_function (option) stream_blocks :: "'w stream \<Rightarrow> nat \<Rightarrow> md5_ctx \<Rightarrow> 'w \<Rightarrow> ((int + byte list) \<times> 'w) option" where
  "stream_blocks S al ctx w = do {
     (r, w) \<leftarrow> read_block S [] w;
     case r of
       Read_error \<Rightarrow> Some (Inl 1, w)
     | Full_block bs \<Rightarrow> stream_blocks S al (md5_process_block bs ctx) w
     | Partial_block bs \<Rightarrow>
         (let ctx = (if 0 < length bs then md5_process_bytes al bs ctx else ctx)
          in Some (Inr (fst (md5_finish_ctx ctx)), w))
   }"

definition md5_stream :: "'w stream \<Rightarrow> nat \<Rightarrow> md5_ctx \<Rightarrow> 'w \<Rightarrow> ((int + byte list) \<times> 'w) option" where
  "md5_stream S al ctx w = stream_blocks S al (md5_init_ctx ctx) w"

text \<open>
  What the C library says: a call delivers a prefix of what is left, at most as much as asked for; the end is
  reported, or nothing delivered, only when nothing is left.
\<close>

definition stream_laws :: "'w stream \<Rightarrow> ('w \<Rightarrow> byte list) \<Rightarrow> bool" where
  "stream_laws S rest \<longleftrightarrow>
     (\<forall>n w. length (fst (st_read S n w)) \<le> n \<and> rest w = fst (st_read S n w) @ rest (snd (st_read S n w)) \<and>
        (0 < n \<and> fst (st_read S n w) = [] \<and> \<not> st_error S (snd (st_read S n w)) \<longrightarrow> rest w = [])) \<and>
     (\<forall>w. st_eof S w \<longrightarrow> rest w = [])"

lemma read_block_rest:
  assumes laws: "stream_laws S rest" and ok: "\<forall>w. \<not> st_error S w"
  shows "length got < BLOCKSIZE \<Longrightarrow> \<exists>r w'. read_block S got w = Some (r, w') \<and>
    (r = Full_block (take BLOCKSIZE (got @ rest w)) \<and> BLOCKSIZE \<le> length (got @ rest w) \<and> rest w' = drop BLOCKSIZE (got @ rest w) \<or>
     r = Partial_block (got @ rest w) \<and> length (got @ rest w) < BLOCKSIZE)"
proof (induction "BLOCKSIZE - length got" arbitrary: got w rule: less_induct)
  case less
  obtain bs w1 where r: "st_read S (BLOCKSIZE - length got) w = (bs, w1)" by fastforce
  have law: "length bs \<le> BLOCKSIZE - length got" "rest w = bs @ rest w1" "bs = [] \<Longrightarrow> rest w = []"
    "st_eof S w1 \<Longrightarrow> rest w1 = []"
    using laws less.prems ok r unfolding stream_laws_def by (metis fst_conv snd_conv zero_less_diff)+
  show ?case
  proof (cases "length (got @ bs) = BLOCKSIZE")
    case True
    then show ?thesis using r law(2) by (subst read_block.simps) auto
  next
    case part: False
    then have lt: "length (got @ bs) < BLOCKSIZE" using law(1) less.prems by simp
    show ?thesis
    proof (cases "bs = [] \<or> st_eof S w1")
      case True
      then have "rest w1 = []" using law by auto
      then show ?thesis using True lt r law(2) ok by (subst read_block.simps) (auto simp: Let_def)
    next
      case False
      then have "read_block S got w = read_block S (got @ bs) w1"
        using r part by (subst read_block.simps) simp
      moreover have "BLOCKSIZE - length (got @ bs) < BLOCKSIZE - length got" using False lt by (cases bs) auto
      ultimately show ?thesis using less.hyps [OF _ lt, of w1] law(2) by auto
    qed
  qed
qed

lemma stream_blocks_rfc:
  assumes laws: "stream_laws S rest" and ok: "\<forall>w. \<not> st_error S w"
  shows "md5_rel ctx m \<Longrightarrow> buflen ctx = 0 \<Longrightarrow>
    \<exists>w'. stream_blocks S al ctx w = Some (Inr (rfc_md5 (m @ rest w)), w')"
proof (induction "length (rest w)" arbitrary: ctx m w rule: less_induct)
  case less
  obtain r w1 where r: "read_block S [] w = Some (r, w1)" and cases:
    "r = Full_block (take BLOCKSIZE (rest w)) \<and> BLOCKSIZE \<le> length (rest w) \<and> rest w1 = drop BLOCKSIZE (rest w) \<or>
     r = Partial_block (rest w) \<and> length (rest w) < BLOCKSIZE"
    using read_block_rest [OF laws ok, of "[]" w] by (auto simp: BLOCKSIZE_def)
  from cases show ?case
  proof (elim disjE conjE)
    assume full: "r = Full_block (take BLOCKSIZE (rest w))" "BLOCKSIZE \<le> length (rest w)" "rest w1 = drop BLOCKSIZE (rest w)"
    let ?ctx = "md5_process_block (take BLOCKSIZE (rest w)) ctx"
    have len: "length (take BLOCKSIZE (rest w)) = BLOCKSIZE" using full(2) by simp
    have "md5_rel ?ctx (m @ take BLOCKSIZE (rest w))"
      using less.prems unfolding md5_rel_def
      by (intro md5_process_blocks_rel [unfolded md5_rel_def]) (simp_all only: len, simp_all add: BLOCKSIZE_def)
    moreover have "buflen ?ctx = 0" using less.prems(2) by simp
    moreover have "length (rest w1) < length (rest w)" using full(2,3) by (simp add: BLOCKSIZE_def)
    ultimately obtain w' where "stream_blocks S al ?ctx w1 = Some (Inr (rfc_md5 ((m @ take BLOCKSIZE (rest w)) @ rest w1)), w')"
      using less.hyps by blast
    then show ?thesis using r full by (subst stream_blocks.simps) simp
  next
    assume part: "r = Partial_block (rest w)" "length (rest w) < BLOCKSIZE"
    have "md5_rel (if 0 < length (rest w) then md5_process_bytes al (rest w) ctx else ctx) (m @ rest w)"
      using md5_process_bytes_rel [OF less.prems(1), of "rest w" al] less.prems(1) part(2) by (auto simp: BLOCKSIZE_def)
    from md5_finish_ctx_rfc [OF this] show ?thesis
      using r part(1) by (subst stream_blocks.simps) simp
  qed
qed

text \<open>
  The digest of a stream. When no read fails, \<open>md5_stream\<close> returns, however the stream cuts its contents into
  pieces, and its result is the digest that RFC 1321 defines of all bytes of the stream.
\<close>

lemma md5_stream_rfc:
  assumes "stream_laws S rest" and "\<forall>w. \<not> st_error S w" and "length (md5_buf ctx) = 128"
  shows "\<exists>w'. md5_stream S al ctx w = Some (Inr (rfc_md5 (rest w)), w')"
  using stream_blocks_rfc [OF assms(1,2) md5_init_rel [OF assms(3)]] by (simp add: md5_stream_def md5_init_ctx_def)

text \<open>A stream that delivers at most three bytes at a time.\<close>

definition slow_stream :: "byte list stream" where
  "slow_stream = \<lparr>st_read = (\<lambda>n w. (take (min n 3) w, drop (min n 3) w)), st_error = (\<lambda>w. False), st_eof = (\<lambda>w. w = [])\<rparr>"

lemma md5_stream_rfc_witness:
  "\<exists>w'. md5_stream slow_stream 1 zero_ctx [1, 2, 3, 4, 5, 6, 7] = Some (Inr (rfc_md5 [1, 2, 3, 4, 5, 6, 7]), w')"
proof -
  have "stream_laws slow_stream id" by (auto simp: stream_laws_def slow_stream_def)
  then show ?thesis
    using md5_stream_rfc [of slow_stream id zero_ctx 1 "[1, 2, 3, 4, 5, 6, 7]"] by (simp add: slow_stream_def zero_ctx_def)
qed

end
