(* ===== verification/S2ram_Ppc.thy ===== *)
theory S2ram_Ppc
  imports S2ram
begin

text \<open>
  \<open>s2ram-ppc.c\<close>: \<open>s2ram\<close> on a PowerPC, where the power management unit \<open>/dev/pmu\<close> is asked first. There are no
  quirks and no whitelist.
\<close>

text \<open>The calls on the device; each may set \<open>errno\<close>, and leaves it alone when it succeeds (\<open>None\<close>).\<close>

record 'w pmu =
  pmu_open :: "'w \<Rightarrow> (int \<times> int option) \<times> 'w"
  pmu_can_sleep :: "int \<Rightarrow> 'w \<Rightarrow> (int \<times> int option \<times> u64) \<times> 'w"     \<comment> \<open>\<open>PMU_IOC_CAN_SLEEP\<close>, with \<open>arg\<close> afterwards\<close>
  pmu_sleep :: "int \<Rightarrow> 'w \<Rightarrow> (int \<times> int option) \<times> 'w"
  pmu_close :: "int \<Rightarrow> 'w \<Rightarrow> 'w"

definition ENOTSUP :: int where "ENOTSUP = 95"

definition errno_after :: "int \<Rightarrow> int option \<Rightarrow> int" where
  "errno_after en set_to = (case set_to of None \<Rightarrow> en | Some e \<Rightarrow> e)"

definition ppc_add_flag :: "int \<Rightarrow> byte list \<Rightarrow> 'w \<Rightarrow> 'w" where "ppc_add_flag opt arg w = w"
definition ppc_prepare :: "'w \<Rightarrow> int \<times> 'w" where "ppc_prepare w = (0, w)"
definition ppc_resume :: "'w \<Rightarrow> 'w" where "ppc_resume w = w"
definition ppc_machine_known :: "'w \<Rightarrow> int \<times> 'w" where "ppc_machine_known w = (0, w)"
definition ppc_hacks :: "'w \<Rightarrow> int \<times> 'w" where "ppc_hacks w = (0, w)"

text \<open>The result of the check is computed and not returned.\<close>

definition ppc_is_supported :: "'w pmu \<Rightarrow> int \<Rightarrow> 'w \<Rightarrow> int \<times> int \<times> 'w" where
  "ppc_is_supported U en w =
     (let ((fd, e), w) = pmu_open U w; en = errno_after en e
      in if fd < 0 then (0, en, w)
         else let ((ret, e, arg), w) = pmu_can_sleep U fd w; en = errno_after en e;
                  ret = (if ret = 0 \<and> arg \<noteq> 1 then ENOTSUP else ret)
              in (0, en, pmu_close U fd w))"

text \<open>The result, \<open>errno\<close> and the world.\<close>

definition s2ram_do_pmu :: "'w pmu \<Rightarrow> int \<Rightarrow> 'w \<Rightarrow> int \<times> int \<times> 'w" where
  "s2ram_do_pmu U en w =
     (let ((fd, e), w) = pmu_open U w; en = errno_after en e
      in if fd < 0 then (en, en, w)
         else let ((ret, e, arg), w) = pmu_can_sleep U fd w; en = errno_after en e;
                  ret = (if ret = 0 \<and> arg \<noteq> 1 then ENOTSUP else ret);
                  ((ret, en), w) = (if ret = 0 then let ((ret, e), w) = pmu_sleep U fd w in ((ret, errno_after en e), w)
                                    else ((ret, en), w));
                  ret = (if ret \<noteq> 0 then en else ret)
              in (ret, en, pmu_close U fd w))"

definition ppc_do :: "'w pmu \<Rightarrow> 'w machine \<Rightarrow> int \<Rightarrow> 'w \<Rightarrow> int \<times> 'w" where
  "ppc_do U M en w =
     (let (ret, en, w) = s2ram_do_pmu U en w in if ret = 0 then (ret, w) else s2ram_generic_do M w)"

text \<open>
  A PMU that says it cannot sleep is taken for one that has slept when \<open>errno\<close> happens to be 0: \<open>ENOTSUP\<close> is
  overwritten by \<open>errno\<close>, which no call has set. The machine stays awake, \<open>/sys/power/state\<close> is not tried, and
  \<open>s2ram\<close> reports success.
\<close>

lemma ppc_refused_sleep_reports_success:
  assumes "pmu_open U w = ((fd, None), w1)" "0 \<le> fd" "pmu_can_sleep U fd w1 = ((0, None, arg), w2)" "arg \<noteq> 1"
  shows "ppc_do U M 0 w = (0, pmu_close U fd w2)"
  using assms by (simp add: ppc_do_def s2ram_do_pmu_def errno_after_def ENOTSUP_def)

text \<open>With any other value of \<open>errno\<close> the generic interface is tried.\<close>

lemma ppc_refused_sleep_generic:
  assumes "pmu_open U w = ((fd, None), w1)" "0 \<le> fd" "pmu_can_sleep U fd w1 = ((0, None, arg), w2)" "arg \<noteq> 1" "en \<noteq> 0"
  shows "ppc_do U M en w = s2ram_generic_do M (pmu_close U fd w2)"
  using assms by (simp add: ppc_do_def s2ram_do_pmu_def errno_after_def ENOTSUP_def)

end
